(* ===== verification/Prelude.thy ===== *)
theory Prelude
  imports Main "HOL-Library.Word" "HOL-Library.Monad_Syntax"
begin

unbundle bit_operations_syntax

text \<open>
  Shared vocabulary of the development.

  The kernel is built in Cargo's dev profile (\<open>builder/src/main.rs\<close> runs \<open>cargo build\<close>
  without \<open>--release\<close>), so arithmetic overflow, an index out of range, an \<open>unwrap\<close> of
  \<open>None\<close> and a division by zero panic, and \<open>panic\<close> in \<open>kernel/src/main.rs\<close> halts the
  machine. A computation that may panic has type \<open>'a option\<close>: \<open>None\<close> is the panic,
  \<open>Some\<close> the value, and the \<open>do\<close> notation of \<open>Monad_Syntax\<close> stops at the first panic.
  A Rust \<open>Result\<close> is a sum inside it, \<open>Inl\<close> the \<open>Err\<close> and \<open>Inr\<close> the \<open>Ok\<close>.

  Machine words are \<open>w word\<close>. A \<open>usize\<close> that the code only counts or indexes with is a
  \<open>nat\<close>, and every operation on it that can leave the 64-bit range goes through one of the
  checked operations below, which panic exactly when the dev profile does.
\<close>

subsection \<open>Machine types\<close>

type_synonym u8 = "8 word"
type_synonym u16 = "16 word"
type_synonym u32 = "32 word"
type_synonym u64 = "64 word"
type_synonym bytes = "u8 list"

text \<open>The number of values of a \<open>usize\<close> on x86_64.\<close>

definition usize_bound :: nat where
  "usize_bound = 2 ^ 64"

lemma unat_lt2p: "unat (w :: 'a::len word) < 2 ^ LENGTH('a)"
  by (rule unsigned_less)

text \<open>
  Collections: \<open>checked\<close> rewrites the checked operations, \<open>byte_simps\<close> the lengths and
  round trips of the byte encodings, \<open>mem_simps\<close> loads after stores.
\<close>

named_theorems checked
named_theorems byte_simps
named_theorems mem_simps

subsection \<open>Checked arithmetic of the dev profile\<close>

definition uadd :: "nat \<Rightarrow> nat \<Rightarrow> nat option" where
  "uadd a b = (if a + b < usize_bound then Some (a + b) else None)"

definition usub :: "nat \<Rightarrow> nat \<Rightarrow> nat option" where
  "usub a b = (if b \<le> a then Some (a - b) else None)"

definition umul :: "nat \<Rightarrow> nat \<Rightarrow> nat option" where
  "umul a b = (if a * b < usize_bound then Some (a * b) else None)"

definition udiv :: "nat \<Rightarrow> nat \<Rightarrow> nat option" where
  "udiv a b = (if b = 0 then None else Some (a div b))"

text \<open>The same for a \<open>w\<close>-bit word: the addition and subtraction that panic on overflow.\<close>

definition wadd :: "'a::len word \<Rightarrow> 'a word \<Rightarrow> 'a word option" where
  "wadd a b = (if unat a + unat b < 2 ^ LENGTH('a) then Some (a + b) else None)"

definition wsub :: "'a::len word \<Rightarrow> 'a word \<Rightarrow> 'a word option" where
  "wsub a b = (if b \<le> a then Some (a - b) else None)"

definition wmul :: "'a::len word \<Rightarrow> 'a word \<Rightarrow> 'a word option" where
  "wmul a b = (if unat a * unat b < 2 ^ LENGTH('a) then Some (a * b) else None)"

lemma uadd_eq_Some [checked]: "uadd a b = Some c \<longleftrightarrow> c = a + b \<and> a + b < usize_bound"
  by (auto simp: uadd_def)

lemma uadd_eq_None [checked]: "uadd a b = None \<longleftrightarrow> usize_bound \<le> a + b"
  by (auto simp: uadd_def)

lemma usub_eq_Some [checked]: "usub a b = Some c \<longleftrightarrow> b \<le> a \<and> c = a - b"
  by (auto simp: usub_def)

lemma usub_eq_None [checked]: "usub a b = None \<longleftrightarrow> a < b"
  by (auto simp: usub_def)

lemma umul_eq_Some [checked]: "umul a b = Some c \<longleftrightarrow> c = a * b \<and> a * b < usize_bound"
  by (auto simp: umul_def)

lemma udiv_eq_Some [checked]: "udiv a b = Some c \<longleftrightarrow> b \<noteq> 0 \<and> c = a div b"
  by (auto simp: udiv_def)

text \<open>The operations where they do not panic, as conditional rewrites.\<close>

lemma uadd_ok [checked]: "a + b < usize_bound \<Longrightarrow> uadd a b = Some (a + b)"
  by (simp add: uadd_def)

lemma usub_ok [checked]: "b \<le> a \<Longrightarrow> usub a b = Some (a - b)"
  by (simp add: usub_def)

lemma umul_ok [checked]: "a * b < usize_bound \<Longrightarrow> umul a b = Some (a * b)"
  by (simp add: umul_def)

lemma udiv_ok [checked]: "b \<noteq> 0 \<Longrightarrow> udiv a b = Some (a div b)"
  by (simp add: udiv_def)

lemma wadd_ok [checked]:
  "unat a + unat b < 2 ^ LENGTH('a) \<Longrightarrow> wadd a b = Some (a + b)" for a b :: "'a::len word"
  by (simp add: wadd_def)

lemma wadd_Some:
  "wadd a b = Some c \<Longrightarrow> unat c = unat a + unat b"
  by (auto simp: wadd_def unat_word_ariths split: if_splits)

lemma wsub_eq_Some [checked]: "wsub a b = Some c \<longleftrightarrow> b \<le> a \<and> c = a - b"
  by (auto simp: wsub_def)

subsection \<open>Checked indexing\<close>

text \<open>\<open>v[i]\<close> and \<open>v[i] = x\<close>: Rust panics where \<open>i\<close> is not below the length.\<close>

definition idx :: "'a list \<Rightarrow> nat \<Rightarrow> 'a option" where
  "idx xs i = (if i < length xs then Some (xs ! i) else None)"

definition upd :: "'a list \<Rightarrow> nat \<Rightarrow> 'a \<Rightarrow> 'a list option" where
  "upd xs i x = (if i < length xs then Some (xs[i := x]) else None)"

lemma idx_eq_Some [checked]: "idx xs i = Some x \<longleftrightarrow> i < length xs \<and> x = xs ! i"
  by (auto simp: idx_def)

lemma upd_eq_Some [checked]: "upd xs i x = Some ys \<longleftrightarrow> i < length xs \<and> ys = xs[i := x]"
  by (auto simp: upd_def)

lemma idx_ok [checked]: "i < length xs \<Longrightarrow> idx xs i = Some (xs ! i)"
  by (simp add: idx_def)

lemma upd_ok [checked]: "i < length xs \<Longrightarrow> upd xs i x = Some (xs[i := x])"
  by (simp add: upd_def)

subsection \<open>Slices\<close>

text \<open>
  \<open>dst[at..at + src.len()].copy_from_slice(src)\<close>: overwrite a run of a list, keeping its
  length. It panics where the run does not fit.
\<close>

definition overwrite :: "'a list \<Rightarrow> nat \<Rightarrow> 'a list \<Rightarrow> 'a list" where
  "overwrite dst at src = take at dst @ src @ drop (at + length src) dst"

definition copy_slice :: "'a list \<Rightarrow> nat \<Rightarrow> 'a list \<Rightarrow> 'a list option" where
  "copy_slice dst at src =
     (if at + length src \<le> length dst then Some (overwrite dst at src) else None)"

text \<open>\<open>&v[lo..hi]\<close>\<close>

definition slice :: "'a list \<Rightarrow> nat \<Rightarrow> nat \<Rightarrow> 'a list" where
  "slice xs lo n = take n (drop lo xs)"

lemma length_overwrite [simp]:
  "at + length src \<le> length dst \<Longrightarrow> length (overwrite dst at src) = length dst"
  by (simp add: overwrite_def)

lemma copy_slice_ok [checked]:
  "at + length src \<le> length dst \<Longrightarrow> copy_slice dst at src = Some (overwrite dst at src)"
  by (simp add: copy_slice_def)

lemma copy_slice_eq_Some [checked]:
  "copy_slice dst at src = Some ys \<longleftrightarrow> at + length src \<le> length dst \<and> ys = overwrite dst at src"
  by (auto simp: copy_slice_def)

lemma length_slice [simp]: "length (slice xs lo n) = min n (length xs - lo)"
  by (simp add: slice_def)

lemma nth_overwrite:
  assumes "at + length src \<le> length dst" and "i < length dst"
  shows "overwrite dst at src ! i =
    (if at \<le> i \<and> i < at + length src then src ! (i - at) else dst ! i)"
  using assms by (auto simp: overwrite_def nth_append min_def)

lemma take_overwrite: "at + length src \<le> length dst \<Longrightarrow>
    take (at + length src) (overwrite dst at src) = take at dst @ src"
  by (cases src) (auto simp: overwrite_def min_def)

lemma overwrite_Nil [simp]: "overwrite dst at [] = dst"
  by (simp add: overwrite_def)

text \<open>Two runs written one behind the other are one run.\<close>

lemma overwrite_overwrite:
  "at + length xs \<le> length dst \<Longrightarrow>
     overwrite (overwrite dst at xs) (at + length xs) ys = overwrite dst at (xs @ ys)"
  by (cases xs) (simp_all add: overwrite_def min_def ac_simps)

lemma slice_overwrite_same:
  assumes "at + length src \<le> length dst"
  shows "slice (overwrite dst at src) at (length src) = src"
  using assms by (simp add: slice_def overwrite_def min_def)

lemma slice_overwrite_other:
  assumes "at + length src \<le> length dst"
    and "lo + n \<le> at \<or> at + length src \<le> lo"
  shows "slice (overwrite dst at src) lo n = slice dst lo n"
proof (rule nth_equalityI)
  show "length (slice (overwrite dst at src) lo n) = length (slice dst lo n)"
    using assms by simp
next
  fix i assume "i < length (slice (overwrite dst at src) lo n)"
  with assms(1) have "i < n" "lo + i < length dst"
    by (auto simp: min_def split: if_splits)
  then show "slice (overwrite dst at src) lo n ! i = slice dst lo n ! i"
    using assms by (auto simp: slice_def nth_overwrite)
qed

lemma slice_skip [byte_simps]:
  "length a \<le> lo \<Longrightarrow> slice (a @ r) lo n = slice r (lo - length a) n"
  by (simp add: slice_def)

lemma slice_head [byte_simps]: "length a = n \<Longrightarrow> slice (a @ r) 0 n = a"
  by (simp add: slice_def)

lemma slice_all [byte_simps]: "length a = n \<Longrightarrow> slice a 0 n = a"
  by (simp add: slice_def)

lemma slice_Cons [byte_simps]: "0 < lo \<Longrightarrow> slice (x # xs) lo n = slice xs (lo - 1) n"
  by (cases lo) (auto simp: slice_def)

text \<open>Two adjacent slices join.\<close>

lemma slice_join: "slice xs a m @ slice xs (a + m) n = slice xs a (m + n)"
  by (simp add: slice_def take_add add.commute)

lemma slice_nth: "i < length xs \<Longrightarrow> slice xs i 1 = [xs ! i]"
  by (simp add: slice_def take_Suc_conv_app_nth hd_drop_conv_nth take_Suc)

subsection \<open>Counting loops\<close>

text \<open>\<open>for i in 0..n { body }\<close> from \<open>i\<close> on, with \<open>k\<close> rounds left; a panic stops it.\<close>

fun for_from :: "nat \<Rightarrow> nat \<Rightarrow> (nat \<Rightarrow> 's \<Rightarrow> 's option) \<Rightarrow> 's \<Rightarrow> 's option" where
  "for_from i 0 f s = Some s"
| "for_from i (Suc k) f s = f i s \<bind> for_from (Suc i) k f"

abbreviation for_range :: "nat \<Rightarrow> (nat \<Rightarrow> 's \<Rightarrow> 's option) \<Rightarrow> 's \<Rightarrow> 's option" where
  "for_range n f s \<equiv> for_from 0 n f s"

text \<open>\<open>for item in list\<close> with a body that may panic.\<close>

fun for_each :: "'a list \<Rightarrow> ('a \<Rightarrow> 's \<Rightarrow> 's option) \<Rightarrow> 's \<Rightarrow> 's option" where
  "for_each [] f s = Some s"
| "for_each (x # xs) f s = f x s \<bind> for_each xs f"

text \<open>
  A loop whose body keeps an invariant indexed by the round never panics and ends with the
  invariant at the last round.
\<close>

lemma for_from_inv:
  assumes "P i s"
    and "\<And>j s. i \<le> j \<Longrightarrow> j < i + k \<Longrightarrow> P j s \<Longrightarrow> \<exists>s'. f j s = Some s' \<and> P (Suc j) s'"
  shows "\<exists>s'. for_from i k f s = Some s' \<and> P (i + k) s'"
  using assms
proof (induction k arbitrary: i s)
  case 0
  then show ?case by simp
next
  case (Suc k)
  from Suc.prems(2)[of i s] Suc.prems(1) obtain s1 where s1: "f i s = Some s1" "P (Suc i) s1"
    by auto
  have "\<exists>s'. for_from (Suc i) k f s1 = Some s' \<and> P (Suc i + k) s'"
    by (rule Suc.IH[OF s1(2)]) (auto intro!: Suc.prems(2))
  with s1(1) show ?case by auto
qed

text \<open>The partial version: whatever a loop that returns was doing, it kept the invariant.\<close>

lemma for_from_keeps:
  assumes "for_from i k f s = Some s'" and "P s"
    and "\<And>j s s'. i \<le> j \<Longrightarrow> j < i + k \<Longrightarrow> P s \<Longrightarrow> f j s = Some s' \<Longrightarrow> P s'"
  shows "P s'"
  using assms
proof (induction k arbitrary: i s)
  case 0
  then show ?case by simp
next
  case (Suc k)
  from Suc.prems(1) obtain s1 where s1: "f i s = Some s1" "for_from (Suc i) k f s1 = Some s'"
    by (cases "f i s") auto
  have "P s1" by (rule Suc.prems(3)[OF _ _ Suc.prems(2) s1(1)]) auto
  then show ?case
  proof (rule Suc.IH[OF s1(2)])
    fix j s s'
    assume "Suc i \<le> j" "j < Suc i + k" "P s" "f j s = Some s'"
    then show "P s'" using Suc.prems(3)[of j s s'] by simp
  qed
qed

lemma for_from_cong:
  "(\<And>j s. i \<le> j \<Longrightarrow> j < i + k \<Longrightarrow> f j s = g j s) \<Longrightarrow> for_from i k f s = for_from i k g s"
proof (induction k arbitrary: i s)
  case (Suc k)
  have "for_from (Suc i) k f = for_from (Suc i) k g"
    by (rule ext, rule Suc.IH) (use Suc.prems in auto)
  with Suc.prems[of i s] show ?case by simp
qed simp

text \<open>The same under an invariant the second body keeps.\<close>

lemma for_from_cong_inv:
  assumes "P s" and "\<And>j s. i \<le> j \<Longrightarrow> j < i + k \<Longrightarrow> P s \<Longrightarrow> f j s = g j s"
    and "\<And>j s s'. P s \<Longrightarrow> g j s = Some s' \<Longrightarrow> P s'"
  shows "for_from i k f s = for_from i k g s"
  using assms
proof (induction k arbitrary: i s)
  case (Suc k)
  show ?case
  proof (cases "g i s")
    case None
    with Suc.prems(1,2) show ?thesis by simp
  next
    case (Some s')
    with Suc.prems(2)[of i s] Suc.prems(1) have "f i s = Some s'" by simp
    moreover have "for_from (Suc i) k f s' = for_from (Suc i) k g s'"
      by (rule Suc.IH) (use Suc.prems Some in auto)
    ultimately show ?thesis using Some by simp
  qed
qed simp

subsection \<open>Alignment\<close>

lemma neg_pow2_mask: "NOT (2 ^ k - 1) = - (2 ^ k :: 'a::len word)"
  by (simp add: not_eq_complement)

text \<open>\<open>a & !m\<close> on \<open>usize\<close>.\<close>

definition and_not :: "nat \<Rightarrow> nat \<Rightarrow> nat" where
  "and_not a m = unat ((word_of_nat a :: u64) AND NOT (word_of_nat m))"

lemma and_not_mask:
  assumes "a < usize_bound" and "k < 64"
  shows "and_not a (2 ^ k - 1) = a - a mod 2 ^ k"
proof -
  have m: "(word_of_nat (2 ^ k - 1) :: u64) = mask k"
    by (simp add: mask_eq_exp_minus_1 of_nat_diff)
  let ?w = "word_of_nat a :: u64"
  have "?w - take_bit k ?w = ?w AND NOT (take_bit k ?w)"
    by (rule disjunctive_diff) (simp add: bit_take_bit_iff)
  also have "\<dots> = ?w AND NOT (mask k)"
    by (rule bit_eqI) (auto simp: bit_simps)
  finally have "?w AND NOT (mask k) = ?w - take_bit k ?w" by simp
  moreover have "unat (take_bit k ?w) = a mod 2 ^ k" "unat ?w = a"
    using assms by (simp_all add: unsigned_take_bit_eq unat_of_nat usize_bound_def
        flip: take_bit_eq_mod)
  moreover have "take_bit k ?w \<le> ?w" using calculation(2,3) by (simp add: word_le_nat_alt)
  ultimately show ?thesis unfolding and_not_def m by (simp add: unat_sub)
qed

lemma and_not_le: "a < usize_bound \<Longrightarrow> k < 64 \<Longrightarrow> and_not a (2 ^ k - 1) \<le> a"
  using and_not_mask[of a k] by simp

text \<open>The case the kernel's stacks need: sixteen.\<close>

lemma and_not_15: "a < usize_bound \<Longrightarrow> and_not a 0xF = a - a mod 16"
  using and_not_mask[of a 4] by simp

lemma unat_and_not_15: "unat ((w :: u64) AND NOT 0xF) = unat w - unat w mod 16"
  using and_not_15[of "unat w"] unat_lt2p[of w] by (simp add: and_not_def usize_bound_def)

lemma and_not_15_aligned: "unat ((w :: u64) AND NOT 0xF) mod 16 = 0"
  unfolding unat_and_not_15 by (simp add: minus_mod_eq_mult_div)

subsection \<open>Counters\<close>

lemma unat_minus_one64: "unat (- 1 :: u64) = 2 ^ 64 - 1"
  by (simp add: unsigned_minus_1_eq_mask mask_eq_exp_minus_1)

lemma wadd_one: "wadd (w :: u64) 1 = (if w = - 1 then None else Some (w + 1))"
proof (cases "w = - 1")
  case True
  then show ?thesis by (simp add: wadd_def unat_minus_one64)
next
  case False
  then have "unat w \<noteq> 2 ^ 64 - 1" using unat_minus_one64 by (metis word_unat_eq_iff)
  with unat_lt2p[of w] show ?thesis using False by (simp add: wadd_def)
qed


subsection \<open>Fallible steps on a state\<close>

text \<open>
  A step of code that returns a \<open>Result\<close> and changes a state: \<open>None\<close> is a panic, \<open>Inl\<close> an
  \<open>Err\<close>, and the state is kept in both cases of a \<open>Result\<close>.
\<close>

type_synonym ('d, 'a) fs_io = "'d \<Rightarrow> ((string + 'a) \<times> 'd) option"

text \<open>The \<open>?\<close> operator: an \<open>Err\<close> returns at once.\<close>

definition try_io :: "('d, 'a) fs_io \<Rightarrow> ('a \<Rightarrow> ('d, 'b) fs_io) \<Rightarrow> ('d, 'b) fs_io" where
  "try_io m f d =
     (case m d of
        None \<Rightarrow> None
      | Some (Inl e, d) \<Rightarrow> Some (Inl e, d)
      | Some (Inr x, d) \<Rightarrow> f x d)"

definition io_ok :: "'a \<Rightarrow> ('d, 'a) fs_io" where
  "io_ok x d = Some (Inr x, d)"

definition io_err :: "string \<Rightarrow> ('d, 'a) fs_io" where
  "io_err e d = Some (Inl e, d)"

end
