(* ===== verification/Bytes.thy ===== *)
theory Bytes
  imports Prelude
begin

text \<open>
  Bytes: little-endian words (the layout of every \<open>repr(C)\<close> structure on x86_64), the
  byte-addressed memory that \<open>ptr::read\<close> and \<open>ptr::write\<close> work on, string literals as
  bytes, and \<open>core::str::from_utf8\<close>.
\<close>

subsection \<open>Little-endian numbers\<close>

fun le_enc :: "nat \<Rightarrow> nat \<Rightarrow> bytes" where
  "le_enc 0 n = []"
| "le_enc (Suc k) n = of_nat (n mod 256) # le_enc k (n div 256)"

fun le_dec :: "bytes \<Rightarrow> nat" where
  "le_dec [] = 0"
| "le_dec (b # bs) = unat b + 256 * le_dec bs"

lemma length_le_enc [simp, byte_simps]: "length (le_enc k n) = k"
  by (induction k arbitrary: n) auto

lemma le_dec_enc [byte_simps]: "le_dec (le_enc k n) = n mod 256 ^ k"
proof (induction k arbitrary: n)
  case 0
  then show ?case by simp
next
  case (Suc k)
  have "le_dec (le_enc (Suc k) n) = n mod 256 + 256 * (n div 256 mod 256 ^ k)"
    by (simp add: Suc.IH unat_of_nat mod_mod_trivial)
  also have "\<dots> = n mod 256 ^ Suc k"
    by (simp add: mod_mult2_eq mult.commute add.commute)
  finally show ?case .
qed

lemma le_dec_less: "le_dec bs < 256 ^ length bs"
proof (induction bs)
  case (Cons b bs)
  have "unat b < 256" using unat_lt2p[of b] by simp
  with Cons show ?case by simp
qed simp

lemma le_enc_dec: "le_enc (length bs) (le_dec bs) = bs"
proof (induction bs)
  case (Cons b bs)
  have "unat b < 256" using unat_lt2p[of b] by simp
  with Cons show ?case by simp
qed simp

definition u32_to_le :: "u32 \<Rightarrow> bytes" where
  "u32_to_le w = le_enc 4 (unat w)"

definition u64_to_le :: "u64 \<Rightarrow> bytes" where
  "u64_to_le w = le_enc 8 (unat w)"

definition u32_from_le :: "bytes \<Rightarrow> u32" where
  "u32_from_le bs = of_nat (le_dec bs)"

definition u64_from_le :: "bytes \<Rightarrow> u64" where
  "u64_from_le bs = of_nat (le_dec bs)"

lemma length_u32_to_le [simp, byte_simps]: "length (u32_to_le w) = 4"
  by (simp add: u32_to_le_def)

lemma length_u64_to_le [simp, byte_simps]: "length (u64_to_le w) = 8"
  by (simp add: u64_to_le_def)

lemma u32_le_roundtrip [simp, byte_simps]: "u32_from_le (u32_to_le w) = w"
proof -
  have "unat w < 256 ^ 4" using unat_lt2p[of w] by simp
  then show ?thesis by (simp add: u32_to_le_def u32_from_le_def le_dec_enc)
qed

lemma u64_le_roundtrip [simp, byte_simps]: "u64_from_le (u64_to_le w) = w"
proof -
  have "unat w < 256 ^ 8" using unat_lt2p[of w] by simp
  then show ?thesis by (simp add: u64_to_le_def u64_from_le_def le_dec_enc)
qed

lemma u32_to_from_le [byte_simps]: "length bs = 4 \<Longrightarrow> u32_to_le (u32_from_le bs) = bs"
  using le_dec_less[of bs] le_enc_dec[of bs]
  by (simp add: u32_to_le_def u32_from_le_def unat_of_nat)

lemma u64_to_from_le [byte_simps]: "length bs = 8 \<Longrightarrow> u64_to_le (u64_from_le bs) = bs"
  using le_dec_less[of bs] le_enc_dec[of bs]
  by (simp add: u64_to_le_def u64_from_le_def unat_of_nat)

subsection \<open>Arrays of words\<close>

fun u32s_to_le :: "u32 list \<Rightarrow> bytes" where
  "u32s_to_le [] = []"
| "u32s_to_le (w # ws) = u32_to_le w @ u32s_to_le ws"

fun u32s_from_le :: "nat \<Rightarrow> bytes \<Rightarrow> u32 list" where
  "u32s_from_le 0 bs = []"
| "u32s_from_le (Suc n) bs = u32_from_le (take 4 bs) # u32s_from_le n (drop 4 bs)"

lemma length_u32s_to_le [simp, byte_simps]: "length (u32s_to_le ws) = 4 * length ws"
  by (induction ws) auto

lemma length_u32s_from_le [simp, byte_simps]: "length (u32s_from_le n bs) = n"
  by (induction n arbitrary: bs) auto

lemma u32s_le_roundtrip [byte_simps]: "u32s_from_le (length ws) (u32s_to_le ws @ rest) = ws"
  by (induction ws) auto

lemma u32s_le_exact [byte_simps]: "length ws = n \<Longrightarrow> u32s_from_le n (u32s_to_le ws) = ws"
  using u32s_le_roundtrip[of ws "[]"] by auto

lemma u32s_to_from_le [byte_simps]: "length bs = 4 * n \<Longrightarrow> u32s_to_le (u32s_from_le n bs) = bs"
proof (induction n arbitrary: bs)
  case (Suc n)
  then have "u32s_to_le (u32s_from_le n (drop 4 bs)) = drop 4 bs"
    and "u32_to_le (u32_from_le (take 4 bs)) = take 4 bs"
    by (auto intro: u32_to_from_le)
  then show ?case by simp
qed simp

subsection \<open>Memory\<close>

text \<open>
  All tasks and the kernel share one address space (\<open>paging::mark_all_user_accessible\<close>),
  so memory is one function from byte addresses. A pointer that the code dereferences is
  taken to be mapped: reads and writes do not fault.
\<close>

type_synonym mem = "nat \<Rightarrow> u8"

definition load :: "mem \<Rightarrow> nat \<Rightarrow> nat \<Rightarrow> bytes" where
  "load m a n = map (\<lambda>i. m (a + i)) [0..<n]"

definition store :: "mem \<Rightarrow> nat \<Rightarrow> bytes \<Rightarrow> mem" where
  "store m a bs = (\<lambda>x. if a \<le> x \<and> x < a + length bs then bs ! (x - a) else m x)"

definition load64 :: "mem \<Rightarrow> nat \<Rightarrow> u64" where
  "load64 m a = u64_from_le (load m a 8)"

definition store64 :: "mem \<Rightarrow> nat \<Rightarrow> u64 \<Rightarrow> mem" where
  "store64 m a w = store m a (u64_to_le w)"

lemma length_load [simp, byte_simps]: "length (load m a n) = n"
  by (simp add: load_def)

lemma load_store_same [simp, mem_simps]: "load (store m a bs) a (length bs) = bs"
  by (rule nth_equalityI) (auto simp: load_def store_def)

lemma load_store_other [mem_simps]:
  "a + n \<le> b \<or> b + length bs \<le> a \<Longrightarrow> load (store m b bs) a n = load m a n"
  by (rule nth_equalityI) (auto simp: load_def store_def)

lemma store_outside [mem_simps]: "x < a \<or> a + length bs \<le> x \<Longrightarrow> store m a bs x = m x"
  by (auto simp: store_def)

lemma load64_store64_same [simp, mem_simps]: "load64 (store64 m a w) a = w"
  using load_store_same[of m a "u64_to_le w"] by (simp add: load64_def store64_def)

lemma load64_store64_other [mem_simps]:
  "a + 8 \<le> b \<or> b + 8 \<le> a \<Longrightarrow> load64 (store64 m b w) a = load64 m a"
  by (simp add: load64_def store64_def load_store_other)

lemma load64_store_other [mem_simps]:
  "a + 8 \<le> b \<or> b + length bs \<le> a \<Longrightarrow> load64 (store m b bs) a = load64 m a"
  by (simp add: load64_def load_store_other)

lemma load_store64_other [mem_simps]:
  "a + n \<le> b \<or> b + 8 \<le> a \<Longrightarrow> load (store64 m b w) a n = load m a n"
  by (simp add: store64_def load_store_other)

lemma load_add: "load m a (n + k) = load m a n @ load m (a + n) k"
  by (rule nth_equalityI) (auto simp: load_def nth_append)

lemma slice_load [mem_simps]: "lo + k \<le> n \<Longrightarrow> slice (load m a n) lo k = load m (a + lo) k"
  by (rule nth_equalityI) (auto simp: load_def slice_def add.assoc)

lemma load_nth [mem_simps]: "i < n \<Longrightarrow> load m a n ! i = m (a + i)"
  by (simp add: load_def)

lemma load_cong: "(\<And>i. i < n \<Longrightarrow> m (a + i) = m' (a + i)) \<Longrightarrow> load m a n = load m' a n"
  by (auto simp: load_def)

text \<open>Two memories that agree outside the \<open>n\<close> bytes from \<open>a\<close>.\<close>

definition same_outside :: "nat \<Rightarrow> nat \<Rightarrow> mem \<Rightarrow> mem \<Rightarrow> bool" where
  "same_outside a n m m' \<longleftrightarrow> (\<forall>x. x < a \<or> a + n \<le> x \<longrightarrow> m' x = m x)"

lemma same_outside_refl [simp]: "same_outside a n m m"
  by (simp add: same_outside_def)

lemma same_outside_load:
  "same_outside a n m m' \<Longrightarrow> p + k \<le> a \<or> a + n \<le> p \<Longrightarrow> load m' p k = load m p k"
  by (rule load_cong) (auto simp: same_outside_def)

lemma same_outside_trans: "same_outside a n m m1 \<Longrightarrow> same_outside a n m1 m2 \<Longrightarrow> same_outside a n m m2"
  by (simp add: same_outside_def)

lemma same_outside_store: "a \<le> b \<Longrightarrow> b + length bs \<le> a + n \<Longrightarrow> same_outside a n m (store m b bs)"
  by (auto simp: same_outside_def store_def)

subsection \<open>String literals\<close>

text \<open>A \<open>&str\<close> is its UTF-8 bytes; the literals of the source are ASCII.\<close>

definition str :: "string \<Rightarrow> bytes" where
  "str s = map of_char s"

lemma length_str [simp]: "length (str s) = length s"
  by (simp add: str_def)

lemma str_append: "str (s @ t) = str s @ str t"
  by (simp add: str_def)

subsection \<open>UTF-8\<close>

text \<open>
  \<open>core::str::from_utf8\<close>: the code points of a byte string, or \<open>None\<close> where the bytes
  are not well-formed UTF-8 (overlong forms, surrogates and values above 10FFFF are not).
\<close>

definition utf8_cont :: "u8 \<Rightarrow> bool" where
  "utf8_cont b \<longleftrightarrow> 0x80 \<le> b \<and> b \<le> 0xBF"

definition utf8_second3 :: "u8 \<Rightarrow> u8 \<Rightarrow> bool" where
  "utf8_second3 b0 b1 \<longleftrightarrow>
     (if b0 = 0xE0 then 0xA0 \<le> b1 \<and> b1 \<le> 0xBF
      else if b0 = 0xED then 0x80 \<le> b1 \<and> b1 \<le> 0x9F
      else utf8_cont b1)"

definition utf8_second4 :: "u8 \<Rightarrow> u8 \<Rightarrow> bool" where
  "utf8_second4 b0 b1 \<longleftrightarrow>
     (if b0 = 0xF0 then 0x90 \<le> b1 \<and> b1 \<le> 0xBF
      else if b0 = 0xF4 then 0x80 \<le> b1 \<and> b1 \<le> 0x8F
      else utf8_cont b1)"

definition code_point :: "nat \<Rightarrow> bytes \<Rightarrow> nat" where
  "code_point lead bs = foldl (\<lambda>acc b. 64 * acc + (unat b - 0x80)) lead bs"

fun utf8_decode :: "bytes \<Rightarrow> nat list option" where
  "utf8_decode [] = Some []"
| "utf8_decode (b0 # r) =
     (if b0 < 0x80 then map_option ((#) (unat b0)) (utf8_decode r)
      else if 0xC2 \<le> b0 \<and> b0 \<le> 0xDF then
        (case r of
           b1 # r1 \<Rightarrow>
             if utf8_cont b1
             then map_option ((#) (code_point (unat b0 - 0xC0) [b1])) (utf8_decode r1)
             else None
         | _ \<Rightarrow> None)
      else if 0xE0 \<le> b0 \<and> b0 \<le> 0xEF then
        (case r of
           b1 # b2 # r2 \<Rightarrow>
             if utf8_second3 b0 b1 \<and> utf8_cont b2
             then map_option ((#) (code_point (unat b0 - 0xE0) [b1, b2])) (utf8_decode r2)
             else None
         | _ \<Rightarrow> None)
      else if 0xF0 \<le> b0 \<and> b0 \<le> 0xF4 then
        (case r of
           b1 # b2 # b3 # r3 \<Rightarrow>
             if utf8_second4 b0 b1 \<and> utf8_cont b2 \<and> utf8_cont b3
             then map_option ((#) (code_point (unat b0 - 0xF0) [b1, b2, b3])) (utf8_decode r3)
             else None
         | _ \<Rightarrow> None)
      else None)"

text \<open>\<open>from_utf8\<close> itself returns the same bytes as a string slice.\<close>

definition from_utf8 :: "bytes \<Rightarrow> bytes option" where
  "from_utf8 bs = (if utf8_decode bs = None then None else Some bs)"

lemma utf8_decode_ascii:
  "\<forall>b\<in>set bs. b < 0x80 \<Longrightarrow> utf8_decode bs = Some (map unat bs)"
  by (induction bs) auto

lemma from_utf8_ascii [simp]: "\<forall>b\<in>set bs. b < 0x80 \<Longrightarrow> from_utf8 bs = Some bs"
  by (simp add: from_utf8_def utf8_decode_ascii)

lemma from_utf8_Some: "from_utf8 bs = Some s \<Longrightarrow> s = bs"
  by (auto simp: from_utf8_def split: if_splits)

lemma utf8_decode_length: "utf8_decode bs = Some cs \<Longrightarrow> length cs \<le> length bs"
proof (induction bs arbitrary: cs rule: utf8_decode.induct)
  case (2 b0 r)
  then show ?case
    by (simp split: if_splits list.splits) fastforce+
qed simp

end
