(* ===== verification/Shared_Fs.thy ===== *)
theory Shared_Fs
  imports Bytes
begin

text \<open>
  \<open>shared/src/lib.rs\<close>: the on-disk structures of RelizFS. Each is \<open>repr(C, packed)\<close>, so
  its bytes are its fields in order, little-endian, without padding. \<open>read_unaligned\<close> of a
  structure is the decoding of its bytes, a byte view of it the encoding; both directions
  are shown to be inverse. Also \<open>DirectoryEntry::new\<close> and \<open>get_name\<close>.
\<close>

subsection \<open>Constants\<close>

definition RELIZFS_MAGIC :: u64 where
  "RELIZFS_MAGIC = 0x52454C495A4653"

definition BLOCK_SIZE :: nat where
  "BLOCK_SIZE = 512"

definition DIRECT_BLOCKS_COUNT :: nat where
  "DIRECT_BLOCKS_COUNT = 10"

definition MAX_FILENAME_LEN :: nat where
  "MAX_FILENAME_LEN = 27"

lemmas fs_consts = BLOCK_SIZE_def DIRECT_BLOCKS_COUNT_def MAX_FILENAME_LEN_def

subsection \<open>Structures\<close>

record superblock =
  sb_magic :: u64
  sb_total_blocks :: u32
  sb_inode_count :: u32
  sb_inode_table_start :: u32
  sb_inode_table_blocks :: u32
  sb_inode_bitmap_start :: u32
  sb_block_bitmap_start :: u32
  sb_data_blocks_start :: u32
  sb_data_blocks_count :: u32

record inode =
  in_size :: u64
  in_file_type :: u8
  in_reserved_flags :: u8
  in_direct_blocks :: "u32 list"
  in_single_indirect :: u32
  in_double_indirect :: u32
  in_reserved :: bytes

record directory_entry =
  de_inode_num :: u32
  de_name_len :: u8
  de_name :: bytes

text \<open>The fixed array lengths, which the Rust types enforce.\<close>

definition wf_inode :: "inode \<Rightarrow> bool" where
  "wf_inode i \<longleftrightarrow> length (in_direct_blocks i) = DIRECT_BLOCKS_COUNT \<and> length (in_reserved i) = 6"

definition wf_dirent :: "directory_entry \<Rightarrow> bool" where
  "wf_dirent e \<longleftrightarrow> length (de_name e) = MAX_FILENAME_LEN"

text \<open>\<open>size_of\<close> of the three structures.\<close>

definition superblock_size :: nat where "superblock_size = 40"
definition inode_size :: nat where "inode_size = 64"
definition dirent_size :: nat where "dirent_size = 32"

lemmas fs_sizes = superblock_size_def inode_size_def dirent_size_def

subsection \<open>Inode predicates\<close>

definition is_free :: "inode \<Rightarrow> bool" where
  "is_free i \<longleftrightarrow> in_file_type i = 0"

definition is_directory :: "inode \<Rightarrow> bool" where
  "is_directory i \<longleftrightarrow> in_file_type i = 2"

definition is_file :: "inode \<Rightarrow> bool" where
  "is_file i \<longleftrightarrow> in_file_type i = 1"

subsection \<open>Layout\<close>

definition superblock_to_bytes :: "superblock \<Rightarrow> bytes" where
  "superblock_to_bytes s =
     u64_to_le (sb_magic s) @
     u32s_to_le [sb_total_blocks s, sb_inode_count s, sb_inode_table_start s,
       sb_inode_table_blocks s, sb_inode_bitmap_start s, sb_block_bitmap_start s,
       sb_data_blocks_start s, sb_data_blocks_count s]"

definition superblock_from_bytes :: "bytes \<Rightarrow> superblock" where
  "superblock_from_bytes bs =
     (let f = (\<lambda>k. u32_from_le (slice bs (8 + 4 * k) 4)) in
      \<lparr>sb_magic = u64_from_le (slice bs 0 8),
       sb_total_blocks = f 0, sb_inode_count = f 1, sb_inode_table_start = f 2,
       sb_inode_table_blocks = f 3, sb_inode_bitmap_start = f 4, sb_block_bitmap_start = f 5,
       sb_data_blocks_start = f 6, sb_data_blocks_count = f 7\<rparr>)"

definition inode_to_bytes :: "inode \<Rightarrow> bytes" where
  "inode_to_bytes i =
     u64_to_le (in_size i) @ [in_file_type i, in_reserved_flags i] @
     u32s_to_le (in_direct_blocks i) @
     u32_to_le (in_single_indirect i) @ u32_to_le (in_double_indirect i) @ in_reserved i"

definition inode_from_bytes :: "bytes \<Rightarrow> inode" where
  "inode_from_bytes bs =
     \<lparr>in_size = u64_from_le (slice bs 0 8),
      in_file_type = bs ! 8, in_reserved_flags = bs ! 9,
      in_direct_blocks = u32s_from_le DIRECT_BLOCKS_COUNT (slice bs 10 40),
      in_single_indirect = u32_from_le (slice bs 50 4),
      in_double_indirect = u32_from_le (slice bs 54 4),
      in_reserved = slice bs 58 6\<rparr>"

definition dirent_to_bytes :: "directory_entry \<Rightarrow> bytes" where
  "dirent_to_bytes e = u32_to_le (de_inode_num e) @ [de_name_len e] @ de_name e"

definition dirent_from_bytes :: "bytes \<Rightarrow> directory_entry" where
  "dirent_from_bytes bs =
     \<lparr>de_inode_num = u32_from_le (slice bs 0 4), de_name_len = bs ! 4,
      de_name = slice bs 5 MAX_FILENAME_LEN\<rparr>"

subsection \<open>Directory entries\<close>

text \<open>\<open>DirectoryEntry::new\<close>: the name is cut to 27 bytes and padded with zeros.\<close>

definition dirent_new :: "u32 \<Rightarrow> bytes \<Rightarrow> directory_entry" where
  "dirent_new inode_num name_str =
     (let len = min (length name_str) MAX_FILENAME_LEN in
      \<lparr>de_inode_num = inode_num, de_name_len = of_nat len,
       de_name = overwrite (replicate MAX_FILENAME_LEN 0) 0 (take len name_str)\<rparr>)"

text \<open>\<open>DirectoryEntry::get_name\<close>: \<open>None\<close> is the \<open>Utf8Error\<close>.\<close>

definition get_name :: "directory_entry \<Rightarrow> bytes option" where
  "get_name e = from_utf8 (take (min (unat (de_name_len e)) MAX_FILENAME_LEN) (de_name e))"

subsection \<open>Sizes and round trips\<close>

lemma length_superblock_to_bytes [simp, byte_simps]:
  "length (superblock_to_bytes s) = superblock_size"
  by (simp add: superblock_to_bytes_def superblock_size_def)

lemma length_inode_to_bytes [simp, byte_simps]:
  "wf_inode i \<Longrightarrow> length (inode_to_bytes i) = inode_size"
  by (simp add: inode_to_bytes_def wf_inode_def fs_consts fs_sizes)

lemma length_dirent_to_bytes [simp, byte_simps]:
  "wf_dirent e \<Longrightarrow> length (dirent_to_bytes e) = dirent_size"
  by (simp add: dirent_to_bytes_def wf_dirent_def fs_consts fs_sizes)

lemma superblock_roundtrip:
  "superblock_from_bytes (superblock_to_bytes s @ rest) = s"
  by (simp add: superblock_from_bytes_def superblock_to_bytes_def byte_simps)

lemma inode_roundtrip:
  assumes "wf_inode i"
  shows "inode_from_bytes (inode_to_bytes i @ rest) = i"
proof -
  from assms have "length (in_direct_blocks i) = 10" "length (in_reserved i) = 6"
    by (auto simp: wf_inode_def fs_consts)
  then show ?thesis
    by (simp add: inode_from_bytes_def inode_to_bytes_def byte_simps nth_append fs_consts)
qed

lemma dirent_roundtrip:
  assumes "wf_dirent e"
  shows "dirent_from_bytes (dirent_to_bytes e @ rest) = e"
proof -
  from assms have "length (de_name e) = 27"
    by (auto simp: wf_dirent_def fs_consts)
  then show ?thesis
    by (simp add: dirent_from_bytes_def dirent_to_bytes_def byte_simps nth_append fs_consts)
qed

lemma wf_inode_from_bytes: "64 \<le> length bs \<Longrightarrow> wf_inode (inode_from_bytes bs)"
  by (simp add: inode_from_bytes_def wf_inode_def fs_consts)

lemma inode_bytes_roundtrip:
  assumes "length bs = inode_size"
  shows "inode_to_bytes (inode_from_bytes bs) = bs"
proof -
  have len: "length bs = 64" using assms by (simp add: inode_size_def)
  have "inode_to_bytes (inode_from_bytes bs) =
      slice bs 0 8 @ slice bs 8 1 @ slice bs 9 1 @ slice bs 10 40 @ slice bs 50 4 @
      slice bs 54 4 @ slice bs 58 6"
    using len by (simp add: inode_to_bytes_def inode_from_bytes_def byte_simps fs_consts
        slice_nth slice_nth[unfolded One_nat_def])
  also have "\<dots> = slice bs 0 64"
    using slice_join[of bs 0 8 56] slice_join[of bs 8 1 55] slice_join[of bs 9 1 54]
      slice_join[of bs 10 40 14] slice_join[of bs 50 4 10] slice_join[of bs 54 4 6]
    by simp
  finally show ?thesis using len by (simp add: byte_simps)
qed

subsection \<open>Entry names\<close>

lemma dirent_new_sel [simp]:
  "de_inode_num (dirent_new n s) = n"
  "de_name_len (dirent_new n s) = of_nat (min (length s) 27)"
  "length (de_name (dirent_new n s)) = 27"
  by (simp_all add: dirent_new_def Let_def fs_consts)

lemma wf_dirent_new [simp]: "wf_dirent (dirent_new n s)"
  by (simp add: wf_dirent_def fs_consts)

lemma get_name_new: "get_name (dirent_new n s) = from_utf8 (take 27 s)"
proof -
  have "unat (of_nat (min (length s) 27) :: u8) = min (length s) 27"
    by (simp add: unat_of_nat)
  then show ?thesis
    by (simp add: get_name_def fs_consts) (simp add: dirent_new_def Let_def fs_consts overwrite_def min_def)
qed

lemma superblock_bytes_roundtrip:
  assumes "length bs = superblock_size"
  shows "superblock_to_bytes (superblock_from_bytes bs) = bs"
proof -
  have len: "length bs = 40" using assms by (simp add: superblock_size_def)
  have "superblock_to_bytes (superblock_from_bytes bs) =
      slice bs 0 8 @ slice bs 8 4 @ slice bs 12 4 @ slice bs 16 4 @ slice bs 20 4 @ slice bs 24 4 @
      slice bs 28 4 @ slice bs 32 4 @ slice bs 36 4"
    using len by (simp add: superblock_to_bytes_def superblock_from_bytes_def byte_simps Let_def)
  also have "\<dots> = slice bs 0 40"
    using slice_join[of bs 0 8 32] slice_join[of bs 8 4 28] slice_join[of bs 12 4 24] slice_join[of bs 16 4 20]
      slice_join[of bs 20 4 16] slice_join[of bs 24 4 12] slice_join[of bs 28 4 8] slice_join[of bs 32 4 4] by simp
  finally show ?thesis using len by (simp add: byte_simps)
qed

lemma wf_dirent_from_bytes: "length bs = dirent_size \<Longrightarrow> wf_dirent (dirent_from_bytes bs)"
  by (simp add: dirent_from_bytes_def wf_dirent_def fs_consts fs_sizes)

lemma dirent_bytes_roundtrip:
  assumes "length bs = dirent_size"
  shows "dirent_to_bytes (dirent_from_bytes bs) = bs"
proof -
  have len: "length bs = 32" using assms by (simp add: dirent_size_def)
  have "dirent_to_bytes (dirent_from_bytes bs) = slice bs 0 4 @ slice bs 4 1 @ slice bs 5 27"
    using len by (simp add: dirent_to_bytes_def dirent_from_bytes_def byte_simps fs_consts
        slice_nth slice_nth[unfolded One_nat_def])
  also have "\<dots> = slice bs 0 32"
    using slice_join[of bs 0 4 28] slice_join[of bs 4 1 27] by simp
  finally show ?thesis using len by (simp add: byte_simps)
qed

text \<open>
  C33: The on-disk types have no padding and no spare codes. Encoding is a bijection between the
  well-formed superblocks, inodes and directory entries and the byte strings of 40, 64 and 32
  bytes, every such string decodes to a well-formed value, and decoding reads back what was
  encoded whatever follows it.
\<close>

theorem packed_structures_exact:
  assumes "wf_inode i" and "wf_dirent e"
  shows "superblock_from_bytes (superblock_to_bytes s @ rest) = s \<and>
    inode_from_bytes (inode_to_bytes i @ rest) = i \<and> dirent_from_bytes (dirent_to_bytes e @ rest) = e \<and>
    bij_betw superblock_to_bytes UNIV {bs. length bs = 40} \<and>
    bij_betw inode_to_bytes (Collect wf_inode) {bs. length bs = 64} \<and>
    bij_betw dirent_to_bytes (Collect wf_dirent) {bs. length bs = 32}"
proof -
  have "bij_betw superblock_to_bytes UNIV {bs. length bs = 40}"
    by (rule bij_betw_byWitness[where f' = superblock_from_bytes])
      (use superblock_roundtrip[of _ "[]"] superblock_bytes_roundtrip in \<open>auto simp: superblock_size_def\<close>)
  moreover have "bij_betw inode_to_bytes (Collect wf_inode) {bs. length bs = 64}"
    by (rule bij_betw_byWitness[where f' = inode_from_bytes])
      (use inode_roundtrip[of _ "[]"] inode_bytes_roundtrip wf_inode_from_bytes in \<open>auto simp: inode_size_def\<close>)
  moreover have "bij_betw dirent_to_bytes (Collect wf_dirent) {bs. length bs = 32}"
    by (rule bij_betw_byWitness[where f' = dirent_from_bytes])
      (use dirent_roundtrip[of _ "[]"] dirent_bytes_roundtrip wf_dirent_from_bytes in \<open>auto simp: dirent_size_def\<close>)
  ultimately show ?thesis using superblock_roundtrip inode_roundtrip[OF assms(1)] dirent_roundtrip[OF assms(2)] by blast
qed

definition demo_inode :: inode where
  "demo_inode = \<lparr>in_size = 300, in_file_type = 1, in_reserved_flags = 0, in_direct_blocks = 14 # replicate 9 0,
     in_single_indirect = 0, in_double_indirect = 0, in_reserved = replicate 6 0\<rparr>"

theorem packed_structures_exact_witness:
  "wf_inode demo_inode \<and> inode_from_bytes (inode_to_bytes demo_inode) = demo_inode \<and>
   dirent_from_bytes (dirent_to_bytes (dirent_new 1 (str ''hello.txt''))) = dirent_new 1 (str ''hello.txt'') \<and>
   bij_betw inode_to_bytes (Collect wf_inode) {bs. length bs = 64}"
proof -
  have "wf_inode demo_inode" by (simp add: demo_inode_def wf_inode_def fs_consts)
  with packed_structures_exact[OF this wf_dirent_new, of _ "[]" 1 "str ''hello.txt''"] show ?thesis by simp
qed

end
