(* ===== verification/Ata.thy ===== *)
theory Ata
  imports Shared_Fs
begin

text \<open>
  \<open>kernel/src/ata.rs\<close>: the polling ATA driver. The drive behind the ports is no code of the
  repository: the port instructions are the argument \<open>bus\<close>, over an arbitrary device state.
  \<open>ata_conforms\<close> states the documented behaviour of the READ SECTORS command that the
  driver relies on. Interfaces: \<open>sector_device\<close> is what the file system code needs of any
  sector reader, and the driver provides it.
\<close>

subsection \<open>Ports\<close>

record 'd port_bus =
  in8 :: "nat \<Rightarrow> 'd \<Rightarrow> u8 \<times> 'd"
  in16 :: "nat \<Rightarrow> 'd \<Rightarrow> u16 \<times> 'd"
  out8 :: "nat \<Rightarrow> u8 \<Rightarrow> 'd \<Rightarrow> 'd"

definition data_port :: nat where "data_port = 0x1F0"
definition error_port :: nat where "error_port = 0x1F1"
definition sector_count_port :: nat where "sector_count_port = 0x1F2"
definition lba_low_port :: nat where "lba_low_port = 0x1F3"
definition lba_mid_port :: nat where "lba_mid_port = 0x1F4"
definition lba_high_port :: nat where "lba_high_port = 0x1F5"
definition device_port :: nat where "device_port = 0x1F6"
definition command_port :: nat where "command_port = 0x1F7"

lemmas ata_ports = data_port_def error_port_def sector_count_port_def lba_low_port_def
  lba_mid_port_def lba_high_port_def device_port_def command_port_def

subsection \<open>AtaPio::read_sector\<close>

definition err_drive :: string where
  "err_drive = ''Invalid drive index (only 0 or 1 supported)''"
definition err_no_drive :: string where
  "err_no_drive = ''No ATA drive detected (port reads 0xFF)''"
definition err_controller :: string where
  "err_controller = ''ATA Controller reported a read error''"
definition err_timeout :: string where
  "err_timeout = ''ATA polling timed out''"

definition drive_select :: "u8 \<Rightarrow> u8" where
  "drive_select drive = (if drive = 0 then 0xE0 else 0xF0)"

text \<open>\<open>drive_select | (((lba >> 24) & 0x0F) as u8)\<close>\<close>

definition device_val :: "u8 \<Rightarrow> u32 \<Rightarrow> u8" where
  "device_val drive lba = drive_select drive OR ucast (drop_bit 24 lba AND 0x0F)"

text \<open>Four dummy status reads after the drive is selected.\<close>

fun settle :: "'d port_bus \<Rightarrow> nat \<Rightarrow> 'd \<Rightarrow> 'd" where
  "settle bus 0 d = d"
| "settle bus (Suc n) d = settle bus n (snd (in8 bus command_port d))"

text \<open>The registers and the command, steps 1 to 4 of the code.\<close>

definition issue_read :: "'d port_bus \<Rightarrow> u8 \<Rightarrow> u32 \<Rightarrow> 'd \<Rightarrow> 'd" where
  "issue_read bus drive lba d =
     (let d = out8 bus device_port (device_val drive lba) d;
          d = settle bus 4 d;
          d = out8 bus sector_count_port 1 d;
          d = out8 bus lba_low_port (ucast (lba AND 0xFF)) d;
          d = out8 bus lba_mid_port (ucast (drop_bit 8 lba AND 0xFF)) d;
          d = out8 bus lba_high_port (ucast (drop_bit 16 lba AND 0xFF)) d
      in out8 bus command_port 0x20 d)"

text \<open>
  The polling loop, step 5, with \<open>timeout\<close> rounds left (100000 at the start, never 0 here).
\<close>

function poll :: "'d port_bus \<Rightarrow> nat \<Rightarrow> 'd \<Rightarrow> (string + unit) \<times> 'd" where
  "poll bus timeout d =
     (let (status, d) = in8 bus command_port d in
      if status = 0xFF then (Inl err_no_drive, d)
      else if status AND 0x01 \<noteq> 0 then
        (let (e, d) = in8 bus error_port d in (Inl err_controller, d))
      else if status AND 0x80 = 0 \<and> status AND 0x08 \<noteq> 0 then (Inr (), d)
      else
        (let timeout = timeout - 1 in
         if timeout = 0 then (Inl err_timeout, d) else poll bus timeout d))"
  by pat_completeness auto
termination
  by (relation "measure (\<lambda>(bus, timeout, d). timeout)") auto

declare poll.simps [simp del]

text \<open>The transfer loop, step 6: \<open>k\<close> words left from word \<open>i\<close> on.\<close>

fun transfer_words :: "'d port_bus \<Rightarrow> nat \<Rightarrow> nat \<Rightarrow> bytes \<Rightarrow> 'd \<Rightarrow> bytes \<times> 'd" where
  "transfer_words bus i 0 buffer d = (buffer, d)"
| "transfer_words bus i (Suc k) buffer d =
     (let (word, d) = in16 bus data_port d;
          buffer = buffer[i * 2 := ucast (word AND 0xFF)];
          buffer = buffer[i * 2 + 1 := ucast (drop_bit 8 word AND 0xFF)]
      in transfer_words bus (Suc i) k buffer d)"

definition read_sector ::
  "'d port_bus \<Rightarrow> u8 \<Rightarrow> u32 \<Rightarrow> bytes \<Rightarrow> 'd \<Rightarrow> (string + unit) \<times> bytes \<times> 'd" where
  "read_sector bus drive lba buffer d =
     (if 1 < drive then (Inl err_drive, buffer, d)
      else
        (case poll bus 100000 (issue_read bus drive lba d) of
           (Inl e, d) \<Rightarrow> (Inl e, buffer, d)
         | (Inr _, d) \<Rightarrow>
             (let (buffer, d) = transfer_words bus 0 256 buffer d in (Inr (), buffer, d))))"

subsection \<open>Behaviour with any device\<close>

lemma length_transfer_words [simp]:
  "length (fst (transfer_words bus i k buffer d)) = length buffer"
  by (induction bus i k buffer d rule: transfer_words.induct) (auto split: prod.splits simp: Let_def)

text \<open>An error leaves the buffer as it was; success keeps its length.\<close>

lemma read_sector_buffer:
  assumes "read_sector bus drive lba buffer d = (r, buffer', d')"
  shows "length buffer' = length buffer" and "r = Inl e \<Longrightarrow> buffer' = buffer"
proof -
  show "length buffer' = length buffer"
  proof (cases "1 < drive")
    case True
    with assms show ?thesis by (simp add: read_sector_def)
  next
    case False
    obtain p dp where p: "poll bus 100000 (issue_read bus drive lba d) = (p, dp)" by force
    show ?thesis
    proof (cases p)
      case (Inl e)
      with assms False p show ?thesis by (simp add: read_sector_def)
    next
      case (Inr u)
      obtain b2 d2 where "transfer_words bus 0 256 buffer dp = (b2, d2)" by force
      moreover from this have "length b2 = length buffer"
        using length_transfer_words[of bus 0 256 buffer dp] by simp
      ultimately show ?thesis using assms False p Inr by (simp add: read_sector_def)
    qed
  qed
  show "r = Inl e \<Longrightarrow> buffer' = buffer"
    using assms by (auto simp: read_sector_def split: if_splits prod.splits sum.splits)
qed

subsection \<open>The drive's documented behaviour\<close>

text \<open>
  A device conforms if its state has a view: the task-file registers last written
  (\<open>regs\<close>, by port) and a phase (\<open>ph\<close>), such that, for the master drive in LBA mode,
  \<^item> an idle device latches writes to ports 1F2 to 1F6 and keeps its view on status reads;
  \<^item> command 20h starts a read of the sector the registers name; the device is busy for
    fewer status reads than the driver allows;
  \<^item> a busy device shows BSY without ERR, then DRQ without BSY and ERR;
  \<^item> then the data port yields the sector's bytes, two per read, low byte first.
\<close>

datatype ata_phase = Ata_Idle | Ata_Busy nat bytes | Ata_Xfer bytes

definition ata_lba :: "(nat \<Rightarrow> u8) \<Rightarrow> nat" where
  "ata_lba r = unat (r lba_low_port) + 2 ^ 8 * unat (r lba_mid_port) +
     2 ^ 16 * unat (r lba_high_port) + 2 ^ 24 * unat (r device_port AND 0x0F)"

definition word_of_bytes :: "u8 \<Rightarrow> u8 \<Rightarrow> u16" where
  "word_of_bytes b0 b1 = ucast b0 OR push_bit 8 (ucast b1)"

definition ata_conforms ::
  "'d port_bus \<Rightarrow> ('d \<Rightarrow> nat \<Rightarrow> u8) \<Rightarrow> ('d \<Rightarrow> ata_phase) \<Rightarrow> (nat \<Rightarrow> bytes) \<Rightarrow> bool" where
  "ata_conforms bus regs ph disk \<longleftrightarrow>
     (\<forall>lba. length (disk lba) = 512) \<and>
     (\<forall>d p v. ph d = Ata_Idle \<and> sector_count_port \<le> p \<and> p \<le> device_port \<longrightarrow>
        ph (out8 bus p v d) = Ata_Idle \<and> regs (out8 bus p v d) = (regs d)(p := v)) \<and>
     (\<forall>d. ph d = Ata_Idle \<longrightarrow>
        ph (snd (in8 bus command_port d)) = Ata_Idle \<and>
        regs (snd (in8 bus command_port d)) = regs d) \<and>
     (\<forall>d. ph d = Ata_Idle \<and> regs d device_port AND 0xF0 = 0xE0 \<and> regs d sector_count_port = 1 \<longrightarrow>
        (\<exists>k < 100000. ph (out8 bus command_port 0x20 d) = Ata_Busy k (disk (ata_lba (regs d))))) \<and>
     (\<forall>d k bs. ph d = Ata_Busy (Suc k) bs \<longrightarrow>
        (\<exists>s d'. in8 bus command_port d = (s, d') \<and> ph d' = Ata_Busy k bs \<and>
           s \<noteq> 0xFF \<and> s AND 0x01 = 0 \<and> s AND 0x80 \<noteq> 0)) \<and>
     (\<forall>d bs. ph d = Ata_Busy 0 bs \<longrightarrow>
        (\<exists>s d'. in8 bus command_port d = (s, d') \<and> ph d' = Ata_Xfer bs \<and>
           s AND 0x01 = 0 \<and> s AND 0x80 = 0 \<and> s AND 0x08 \<noteq> 0)) \<and>
     (\<forall>d b0 b1 bs. ph d = Ata_Xfer (b0 # b1 # bs) \<longrightarrow>
        (\<exists>d'. in16 bus data_port d = (word_of_bytes b0 b1, d') \<and>
           ph d' = (if bs = [] then Ata_Idle else Ata_Xfer bs)))"

text \<open>The laws one by one, in the form the proofs use.\<close>

lemma ata_latch:
  assumes "ata_conforms bus regs ph disk" and "ph d = Ata_Idle"
    and "p \<in> {sector_count_port, lba_low_port, lba_mid_port, lba_high_port, device_port}"
  shows "ph (out8 bus p v d) = Ata_Idle" and "regs (out8 bus p v d) = (regs d)(p := v)"
  using assms unfolding ata_conforms_def by (auto simp: ata_ports)

lemma ata_idle_status:
  assumes "ata_conforms bus regs ph disk" and "ph d = Ata_Idle"
  shows "ph (settle bus n d) = Ata_Idle" and "regs (settle bus n d) = regs d"
  using assms by (induction bus n d rule: settle.induct) (auto simp: ata_conforms_def)

lemma ata_command:
  assumes "ata_conforms bus regs ph disk" and "ph d = Ata_Idle"
    and "regs d device_port AND 0xF0 = 0xE0" and "regs d sector_count_port = 1"
  obtains k where "k < 100000"
    and "ph (out8 bus command_port 0x20 d) = Ata_Busy k (disk (ata_lba (regs d)))"
proof -
  from assms(1) have "\<forall>d. ph d = Ata_Idle \<and> regs d device_port AND 0xF0 = 0xE0 \<and>
      regs d sector_count_port = 1 \<longrightarrow>
      (\<exists>k < 100000. ph (out8 bus command_port 0x20 d) = Ata_Busy k (disk (ata_lba (regs d))))"
    unfolding ata_conforms_def by (elim conjE)
  with assms(2-4) that show thesis by blast
qed

lemma ata_busy_status:
  assumes "ata_conforms bus regs ph disk" and "ph d = Ata_Busy (Suc k) bs"
  obtains s d' where "in8 bus command_port d = (s, d')" and "ph d' = Ata_Busy k bs"
    and "s \<noteq> 0xFF" and "s AND 0x01 = 0" and "s AND 0x80 \<noteq> 0"
proof -
  from assms(1) have "\<forall>d k bs. ph d = Ata_Busy (Suc k) bs \<longrightarrow>
      (\<exists>s d'. in8 bus command_port d = (s, d') \<and> ph d' = Ata_Busy k bs \<and>
         s \<noteq> 0xFF \<and> s AND 0x01 = 0 \<and> s AND 0x80 \<noteq> 0)"
    unfolding ata_conforms_def by (elim conjE)
  with assms(2) that show thesis by blast
qed

lemma ata_ready_status:
  assumes "ata_conforms bus regs ph disk" and "ph d = Ata_Busy 0 bs"
  obtains s d' where "in8 bus command_port d = (s, d')" and "ph d' = Ata_Xfer bs"
    and "s AND 0x01 = 0" and "s AND 0x80 = 0" and "s AND 0x08 \<noteq> 0"
proof -
  from assms(1) have "\<forall>d bs. ph d = Ata_Busy 0 bs \<longrightarrow>
      (\<exists>s d'. in8 bus command_port d = (s, d') \<and> ph d' = Ata_Xfer bs \<and>
         s AND 0x01 = 0 \<and> s AND 0x80 = 0 \<and> s AND 0x08 \<noteq> 0)"
    unfolding ata_conforms_def by (elim conjE)
  with assms(2) that show thesis by blast
qed

lemma ata_data:
  assumes "ata_conforms bus regs ph disk" and "ph d = Ata_Xfer (b0 # b1 # bs)"
  obtains d' where "in16 bus data_port d = (word_of_bytes b0 b1, d')"
    and "ph d' = (if bs = [] then Ata_Idle else Ata_Xfer bs)"
proof -
  from assms(1) have "\<forall>d b0 b1 bs. ph d = Ata_Xfer (b0 # b1 # bs) \<longrightarrow>
      (\<exists>d'. in16 bus data_port d = (word_of_bytes b0 b1, d') \<and>
         ph d' = (if bs = [] then Ata_Idle else Ata_Xfer bs))"
    unfolding ata_conforms_def by (elim conjE)
  with assms(2) that show thesis by blast
qed

subsection \<open>The driver against a conforming device\<close>

text \<open>Polling: the busy rounds pass, the timeout does not run out.\<close>

lemma poll_ready:
  assumes "ata_conforms bus regs ph disk" and "ph d = Ata_Busy k bs" and "k < timeout"
  shows "\<exists>d'. poll bus timeout d = (Inr (), d') \<and> ph d' = Ata_Xfer bs"
  using assms(2,3)
proof (induction k arbitrary: timeout d)
  case 0
  obtain s d' where s: "in8 bus command_port d = (s, d')" "ph d' = Ata_Xfer bs"
      "s AND 0x01 = 0" "s AND 0x80 = 0" "s AND 0x08 \<noteq> 0"
    by (rule ata_ready_status[OF assms(1) "0.prems"(1)])
  moreover from s(3) have "s \<noteq> 0xFF" by auto
  ultimately show ?case by (subst poll.simps) simp
next
  case (Suc k)
  obtain s d' where s: "in8 bus command_port d = (s, d')" "ph d' = Ata_Busy k bs"
      "s \<noteq> 0xFF" "s AND 0x01 = 0" "s AND 0x80 \<noteq> 0"
    by (rule ata_busy_status[OF assms(1) Suc.prems(1)])
  then have "poll bus timeout d = poll bus (timeout - 1) d'"
    using Suc.prems(2) by (subst poll.simps) simp
  with Suc.IH[OF s(2)] Suc.prems(2) show ?case by simp
qed

text \<open>The two halves of a data word.\<close>

lemma bit_0xFF: "n < LENGTH(8) \<Longrightarrow> bit (0xFF :: u16) n"
proof -
  assume "n < LENGTH(8)"
  then have "bit (mask 8 :: u16) n" by (simp only: bit_mask_iff) simp
  moreover have "mask 8 = (0xFF :: u16)" by (simp add: mask_eq_exp_minus_1)
  ultimately show ?thesis by simp
qed

lemma word_of_bytes_low: "ucast (word_of_bytes b0 b1 AND 0xFF) = b0"
proof (rule bit_word_eqI)
  fix n assume n: "n < LENGTH(8)"
  from bit_0xFF[OF n] n show "bit (ucast (word_of_bytes b0 b1 AND 0xFF) :: u8) n = bit b0 n"
    by (simp add: word_of_bytes_def bit_simps)
qed

lemma word_of_bytes_high: "ucast (drop_bit 8 (word_of_bytes b0 b1) AND 0xFF) = b1"
proof (rule bit_word_eqI)
  fix n assume n: "n < LENGTH(8)"
  have "\<not> bit b0 (8 + n)" using bit_imp_le_length[of b0 "8 + n"] by auto
  with bit_0xFF[OF n] n show "bit (ucast (drop_bit 8 (word_of_bytes b0 b1) AND 0xFF) :: u8) n = bit b1 n"
    by (simp add: word_of_bytes_def bit_simps)
qed

text \<open>The transfer loop writes the sector's bytes in place.\<close>

lemma transfer_words_data:
  assumes "ata_conforms bus regs ph disk" and "ph d = (if bs = [] then Ata_Idle else Ata_Xfer bs)"
    and "length bs = 2 * k" and "2 * i + 2 * k \<le> length buffer"
  shows "\<exists>d'. transfer_words bus i k buffer d = (overwrite buffer (2 * i) bs, d') \<and>
     ph d' = Ata_Idle"
  using assms(2-4)
proof (induction k arbitrary: i bs buffer d)
  case 0
  then show ?case by (simp add: overwrite_def)
next
  case (Suc k)
  from Suc.prems(2) obtain b0 b1 r where bs: "bs = b0 # b1 # r" "length r = 2 * k"
    by (cases bs; cases "tl bs") auto
  with Suc.prems(1) have "ph d = Ata_Xfer (b0 # b1 # r)" by simp
  then obtain d1 where d1: "in16 bus data_port d = (word_of_bytes b0 b1, d1)"
      "ph d1 = (if r = [] then Ata_Idle else Ata_Xfer r)"
    by (rule ata_data[OF assms(1)])
  let ?b = "buffer[2 * i := b0, 2 * i + 1 := b1]"
  have step: "transfer_words bus i (Suc k) buffer d = transfer_words bus (Suc i) k ?b d1"
    by (simp add: d1(1) word_of_bytes_low word_of_bytes_high[simplified] mult.commute)
  have "overwrite ?b (2 * Suc i) r = overwrite buffer (2 * i) bs"
    by (rule nth_equalityI) (use Suc.prems(3) bs in \<open>auto simp: nth_overwrite nth_list_update nth_Cons'\<close>)
  with Suc.IH[OF d1(2) bs(2), of "Suc i" ?b] Suc.prems(3) step show ?case by simp
qed

text \<open>The four register bytes hold the low 28 bits of the address.\<close>

lemma unat_field:
  "unat (ucast (take_bit j (drop_bit k w)) :: u8) = unat w div 2 ^ k mod 2 ^ j"
  if "j \<le> 8" for w :: u32
proof -
  have "unat (ucast (take_bit j (drop_bit k w)) :: u8) =
      take_bit j (take_bit LENGTH(8) (drop_bit k (unat w)))"
    by (simp only: unsigned_ucast_eq unsigned_take_bit_eq unat_drop_bit_eq)
  also have "\<dots> = take_bit j (drop_bit k (unat w))"
    using that by (simp only: take_bit_take_bit) (simp add: min_def)
  finally show ?thesis by (simp only: take_bit_eq_mod drop_bit_eq_div)
qed

lemma unat_byte: "unat (ucast (drop_bit k w AND 0xFF) :: u8) = unat w div 2 ^ k mod 256" for w :: u32
proof -
  have "(0xFF :: u32) = mask 8" by (simp add: mask_eq_exp_minus_1)
  then have "drop_bit k w AND 0xFF = take_bit 8 (drop_bit k w)" by (simp only: take_bit_eq_mask)
  with unat_field[of 8 k w] show ?thesis by simp
qed

lemma unat_nibble:
  "unat ((device_val 0 lba) AND 0x0F) = unat lba div 2 ^ 24 mod 16"
proof -
  have m: "(0x0F :: u8) = mask 4" "(0x0F :: u32) = mask 4" by (simp_all add: mask_eq_exp_minus_1)
  have "device_val 0 lba AND 0x0F = ucast (take_bit 4 (drop_bit 24 lba))"
  proof (rule bit_word_eqI)
    fix n assume n: "n < LENGTH(8)"
    have "\<not> bit (0xE0 :: u8) n" if "n < 4"
      using that by (auto simp: numeral_eq_Suc less_Suc_eq)
    with n show "bit (device_val 0 lba AND 0x0F) n =
        bit (ucast (take_bit 4 (drop_bit 24 lba)) :: u8) n"
      unfolding device_val_def drive_select_def m by (auto simp: bit_simps)
  qed
  with unat_field[of 4 24 lba] show ?thesis by simp
qed

lemma device_val_master: "device_val 0 lba AND 0xF0 = 0xE0"
proof (rule bit_word_eqI)
  fix n assume n: "n < LENGTH(8)"
  have m: "(0x0F :: u32) = mask 4" by (simp add: mask_eq_exp_minus_1)
  from n have "n = 0 \<or> n = 1 \<or> n = 2 \<or> n = 3 \<or> n = 4 \<or> n = 5 \<or> n = 6 \<or> n = 7" by auto
  then show "bit (device_val 0 lba AND 0xF0) n = bit (0xE0 :: u8) n"
    unfolding device_val_def drive_select_def m by (auto simp: bit_simps)
qed

text \<open>The registers at the moment the command is written.\<close>

lemma issue_read_starts:
  assumes "ata_conforms bus regs ph disk" and "ph d = Ata_Idle"
  obtains k where "k < 100000"
    and "ph (issue_read bus 0 lba d) = Ata_Busy k (disk (unat lba mod 2 ^ 28))"
proof -
  let ?d1 = "settle bus 4 (out8 bus device_port (device_val 0 lba) d)"
  let ?d2 = "out8 bus sector_count_port 1 ?d1"
  let ?d3 = "out8 bus lba_low_port (ucast (lba AND 0xFF)) ?d2"
  let ?d4 = "out8 bus lba_mid_port (ucast (drop_bit 8 lba AND 0xFF)) ?d3"
  let ?d5 = "out8 bus lba_high_port (ucast (drop_bit 16 lba AND 0xFF)) ?d4"
  note latch = ata_latch[OF assms(1)] and idle = ata_idle_status[OF assms(1)]
  have ph: "ph ?d1 = Ata_Idle" "ph ?d2 = Ata_Idle" "ph ?d3 = Ata_Idle" "ph ?d4 = Ata_Idle"
      "ph ?d5 = Ata_Idle"
    by (simp_all add: latch idle assms(2))
  have regs: "regs ?d5 = (regs d)(device_port := device_val 0 lba, sector_count_port := 1,
      lba_low_port := ucast (lba AND 0xFF), lba_mid_port := ucast (drop_bit 8 lba AND 0xFF),
      lba_high_port := ucast (drop_bit 16 lba AND 0xFF))"
    by (simp add: latch idle assms(2))
  have "ata_lba (regs ?d5) = unat lba mod 2 ^ 28"
  proof -
    have "unat (ucast (lba AND 0xFF) :: u8) = unat lba mod 256"
      using unat_byte[of 0 lba] by simp
    then have "ata_lba (regs ?d5) = unat lba mod 256 + 2 ^ 8 * (unat lba div 2 ^ 8 mod 256) +
        2 ^ 16 * (unat lba div 2 ^ 16 mod 256) + 2 ^ 24 * (unat lba div 2 ^ 24 mod 16)"
      unfolding regs ata_lba_def
      by (simp add: ata_ports unat_byte unat_nibble del: ucast_bintr)
    also have "\<dots> = unat lba mod 2 ^ 28"
      using mod_mult2_eq[of "unat lba" "2 ^ 8" "2 ^ 8"] mod_mult2_eq[of "unat lba" "2 ^ 16" "2 ^ 8"]
        mod_mult2_eq[of "unat lba" "2 ^ 24" "2 ^ 4"] by simp
    finally show ?thesis .
  qed
  moreover have "regs ?d5 device_port AND 0xF0 = 0xE0" "regs ?d5 sector_count_port = 1"
    unfolding regs by (simp_all add: ata_ports device_val_master)
  then obtain k where "k < 100000"
      "ph (out8 bus command_port 0x20 ?d5) = Ata_Busy k (disk (ata_lba (regs ?d5)))"
    by (rule ata_command[OF assms(1) ph(5)])
  ultimately show thesis using that by (simp add: issue_read_def Let_def)
qed

lemma ata_conforms_length: "ata_conforms bus regs ph disk \<Longrightarrow> length (disk n) = 512"
  unfolding ata_conforms_def by (elim conjE) blast

lemma read_sector_ok:
  assumes "ata_conforms bus regs ph disk" and "ph d = Ata_Idle" and "length buffer = 512"
  shows "\<exists>d'. read_sector bus 0 lba buffer d = (Inr (), disk (unat lba mod 2 ^ 28), d') \<and>
    ph d' = Ata_Idle"
proof -
  let ?bs = "disk (unat lba mod 2 ^ 28)"
  have len: "length ?bs = 512" using ata_conforms_length[OF assms(1)] .
  obtain k where "k < 100000" "ph (issue_read bus 0 lba d) = Ata_Busy k ?bs"
    by (rule issue_read_starts[OF assms(1,2)])
  then obtain d1 where d1: "poll bus 100000 (issue_read bus 0 lba d) = (Inr (), d1)"
      "ph d1 = Ata_Xfer ?bs"
    using poll_ready[OF assms(1)] by blast
  have "ph d1 = (if ?bs = [] then Ata_Idle else Ata_Xfer ?bs)" using d1(2) len by auto
  from transfer_words_data[OF assms(1) this, of 256 0 buffer] len assms(3)
  obtain d2 where "transfer_words bus 0 256 buffer d1 = (?bs, d2)" "ph d2 = Ata_Idle"
    by (auto simp: overwrite_def)
  with d1(1) show ?thesis by (simp add: read_sector_def)
qed

subsection \<open>Sector readers\<close>

text \<open>
  What the file system code asks of a reader of 512-byte sectors: in a good state, a read
  below the limit succeeds with the sector's contents and leaves a good state. Its clients
  are the kernel's RelizFS reader and the file system server.
\<close>

locale sector_device =
  fixes rd :: "u32 \<Rightarrow> 'd \<Rightarrow> (string + bytes) \<times> 'd"
    and good :: "'d \<Rightarrow> bool"
    and contents :: "nat \<Rightarrow> bytes"
    and limit :: nat
  assumes read_good: "good d \<Longrightarrow> unat lba < limit \<Longrightarrow>
      \<exists>d'. rd lba d = (Inr (contents (unat lba)), d') \<and> good d'"
    and contents_length: "good d \<Longrightarrow> length (contents n) = 512"
begin

lemma read_goodE:
  assumes "good d" and "unat lba < limit"
  obtains d' where "rd lba d = (Inr (contents (unat lba)), d')" and "good d'"
  using read_good[OF assms] by blast

text \<open>Reads do not disturb one another: a sector read twice gives the same bytes.\<close>

lemma read_twice:
  assumes "good d" and "unat a < limit" and "unat b < limit"
    and "rd a d = (r, d1)" and "rd b d1 = (s, d2)"
  shows "s = Inr (contents (unat b)) \<and> good d2"
  using read_good[OF assms(1,2)] assms(4,5) read_good[of d1 b] assms(3) by auto

end

text \<open>
  The kernel's calls, \<open>ATA_DRIVE.lock().read_sector(0, lba, &mut buf)?\<close> with a zeroed buffer.
\<close>

definition ata_rd :: "'d port_bus \<Rightarrow> u32 \<Rightarrow> 'd \<Rightarrow> (string + bytes) \<times> 'd" where
  "ata_rd bus lba d =
     (case read_sector bus 0 lba (replicate BLOCK_SIZE 0) d of
        (Inl e, _, d) \<Rightarrow> (Inl e, d)
      | (Inr _, buf, d) \<Rightarrow> (Inr buf, d))"

interpretation ata: sector_device "ata_rd bus"
  "\<lambda>d. ata_conforms bus regs ph disk \<and> ph d = Ata_Idle" disk "2 ^ 28" for bus regs ph disk
proof unfold_locales
  fix d and lba :: u32
  assume d: "ata_conforms bus regs ph disk \<and> ph d = Ata_Idle" and lba: "unat lba < 2 ^ 28"
  obtain d' where "read_sector bus 0 lba (replicate BLOCK_SIZE 0) d =
      (Inr (), disk (unat lba mod 2 ^ 28), d')" "ph d' = Ata_Idle"
    using read_sector_ok[of bus regs ph disk d "replicate BLOCK_SIZE 0" lba] d
    by (auto simp: BLOCK_SIZE_def)
  with d lba show "\<exists>d'. ata_rd bus lba d = (Inr (disk (unat lba)), d') \<and>
      ata_conforms bus regs ph disk \<and> ph d' = Ata_Idle"
    by (simp add: ata_rd_def)
next
  show "\<And>d n. ata_conforms bus regs ph disk \<and> ph d = Ata_Idle \<Longrightarrow> length (disk n) = 512"
    using ata_conforms_length by blast
qed

subsection \<open>A conforming drive\<close>

text \<open>
  An executable drive that satisfies \<open>ata_conforms\<close>: it latches its registers, is busy for
  \<open>delay\<close> status reads and then serves the sector.
\<close>

record sim_drive =
  sim_regs :: "nat \<Rightarrow> u8"
  sim_phase :: ata_phase

fun sim_status :: "ata_phase \<Rightarrow> u8 \<times> ata_phase" where
  "sim_status Ata_Idle = (0x50, Ata_Idle)"
| "sim_status (Ata_Busy (Suc k) bs) = (0x80, Ata_Busy k bs)"
| "sim_status (Ata_Busy 0 bs) = (0x58, Ata_Xfer bs)"
| "sim_status (Ata_Xfer bs) = (0x58, Ata_Xfer bs)"

fun sim_data :: "ata_phase \<Rightarrow> u16 \<times> ata_phase" where
  "sim_data (Ata_Xfer (b0 # b1 # bs)) =
     (word_of_bytes b0 b1, if bs = [] then Ata_Idle else Ata_Xfer bs)"
| "sim_data p = (0, p)"

definition sim_bus :: "nat \<Rightarrow> (nat \<Rightarrow> bytes) \<Rightarrow> sim_drive port_bus" where
  "sim_bus delay disk =
     \<lparr>in8 = (\<lambda>p d. if p = command_port
         then (let (s, q) = sim_status (sim_phase d) in (s, d\<lparr>sim_phase := q\<rparr>)) else (0, d)),
      in16 = (\<lambda>p d. let (w, q) = sim_data (sim_phase d) in (w, d\<lparr>sim_phase := q\<rparr>)),
      out8 = (\<lambda>p v d. if p = command_port
         then d\<lparr>sim_phase := Ata_Busy delay (disk (ata_lba (sim_regs d)))\<rparr>
         else d\<lparr>sim_regs := (sim_regs d)(p := v)\<rparr>)\<rparr>"

lemma sim_conforms:
  assumes "delay < 100000" and "\<And>n. length (disk n) = 512"
  shows "ata_conforms (sim_bus delay disk) sim_regs sim_phase disk"
  unfolding ata_conforms_def sim_bus_def
  by (intro conjI) (auto simp: assms Let_def ata_ports)

definition sim_idle :: sim_drive where
  "sim_idle = \<lparr>sim_regs = (\<lambda>_. 0), sim_phase = Ata_Idle\<rparr>"

lemma sim_idle_phase [simp]: "sim_phase sim_idle = Ata_Idle"
  by (simp add: sim_idle_def)

text \<open>
  C30: The driver against a conforming drive: the poll loop does not time out, and the buffer
  receives the sector of the low 28 address bits, so the four register bytes carry the address.
\<close>

theorem read_sector_reads:
  assumes "ata_conforms bus regs ph disk" and "ph d = Ata_Idle" and "length buffer = 512"
  shows "\<exists>d'. read_sector bus 0 lba buffer d = (Inr (), disk (unat lba mod 2 ^ 28), d') \<and>
    ph d' = Ata_Idle"
  using assms by (rule read_sector_ok)

text \<open>
  The theorem at a drive that is busy for three status reads and holds the sector number in
  every byte: sector 7 is read, and so is sector 7 again for an address with a bit above 28 set.
\<close>

theorem read_sector_reads_witness:
  "\<exists>d'. read_sector (sim_bus 3 (\<lambda>n. replicate 512 (of_nat n))) 0 0x50000007 (replicate 512 0) sim_idle
     = (Inr (), replicate 512 7, d') \<and> sim_phase d' = Ata_Idle"
proof -
  have "ata_conforms (sim_bus 3 (\<lambda>n. replicate 512 (of_nat n))) sim_regs sim_phase
      (\<lambda>n. replicate 512 (of_nat n))"
    by (rule sim_conforms) auto
  from read_sector_reads[OF this sim_idle_phase, of "replicate 512 0" "0x50000007"] show ?thesis
    by simp
qed

text \<open>
  With any device at all, \<open>read_sector\<close> refuses drives above 1 without touching a port,
  keeps the buffer's length, and leaves the buffer unchanged when it returns an error.
\<close>

theorem read_sector_any_device:
  "case read_sector bus drive lba buffer d of (r, buffer', d') \<Rightarrow>
     length buffer' = length buffer \<and>
     (\<forall>e. r = Inl e \<longrightarrow> buffer' = buffer) \<and>
     (1 < drive \<longrightarrow> r = Inl err_drive \<and> d' = d)"
proof -
  obtain r b' d' where r: "read_sector bus drive lba buffer d = (r, b', d')"
    by (metis prod_cases3)
  then have "1 < drive \<longrightarrow> r = Inl err_drive \<and> d' = d" by (auto simp: read_sector_def)
  moreover have "\<forall>e. r = Inl e \<longrightarrow> b' = buffer"
    using read_sector_buffer(2)[OF r] by blast
  ultimately show ?thesis using r read_sector_buffer(1)[OF r] by simp
qed

text \<open>The same at an absent drive, whose ports all read FFh: the buffer keeps its bytes.\<close>

definition absent_bus :: "unit port_bus" where
  "absent_bus = \<lparr>in8 = (\<lambda>_ d. (0xFF, d)), in16 = (\<lambda>_ d. (0xFFFF, d)), out8 = (\<lambda>_ _ d. d)\<rparr>"

theorem read_sector_any_device_witness:
  "read_sector absent_bus 0 5 [1, 2, 3] () = (Inl err_no_drive, [1, 2, 3], ()) \<and>
   read_sector absent_bus 2 5 [1, 2, 3] () = (Inl err_drive, [1, 2, 3], ())"
proof -
  have "fst (read_sector absent_bus 0 5 [1, 2, 3] ()) = Inl err_no_drive"
    by (simp add: read_sector_def absent_bus_def poll.simps)
  with read_sector_any_device[where bus = absent_bus and drive = 0 and lba = 5
      and buffer = "[1, 2, 3]" and d = "()"]
    read_sector_any_device[where bus = absent_bus and drive = 2 and lba = 5
      and buffer = "[1, 2, 3]" and d = "()"]
  show ?thesis by (auto split: prod.splits)
qed

end
