(* ===== verification/Byte_Queue.thy ===== *)
theory Byte_Queue
  imports Bytes
begin

text \<open>
  \<open>ByteQueue\<close> of \<open>kernel/src/interrupts.rs\<close>: the 256-slot ring buffer between an interrupt
  handler (one producer) and the input server (one consumer). First the operations as
  functions, shown to be a bounded FIFO of 255 bytes; then \<open>push\<close> and \<open>pop\<close> as the atomic
  loads and stores they consist of, interleaved in any order, shown to lose, duplicate and
  reorder nothing. The atomics are taken as sequentially consistent.
\<close>

subsection \<open>The queue\<close>

record byte_queue =
  bq_buffer :: bytes
  write_pos :: nat
  read_pos :: nat

definition bq_new :: byte_queue where
  "bq_new = \<lparr>bq_buffer = replicate 256 0, write_pos = 0, read_pos = 0\<rparr>"

definition bq_next :: "nat \<Rightarrow> nat" where
  "bq_next i = (i + 1) AND 0xFF"

definition bq_push :: "u8 \<Rightarrow> byte_queue \<Rightarrow> byte_queue" where
  "bq_push byte q =
     (let w = write_pos q; next_w = bq_next w in
      if next_w \<noteq> read_pos q
      then q\<lparr>bq_buffer := (bq_buffer q)[w := byte], write_pos := next_w\<rparr>
      else q)"

definition bq_pop :: "byte_queue \<Rightarrow> u8 option \<times> byte_queue" where
  "bq_pop q =
     (let r = read_pos q in
      if r = write_pos q then (None, q)
      else (Some (bq_buffer q ! r), q\<lparr>read_pos := bq_next r\<rparr>))"

subsection \<open>The bytes it holds\<close>

definition bq_inv :: "byte_queue \<Rightarrow> bool" where
  "bq_inv q \<longleftrightarrow> length (bq_buffer q) = 256 \<and> write_pos q < 256 \<and> read_pos q < 256"

definition bq_count :: "byte_queue \<Rightarrow> nat" where
  "bq_count q = (write_pos q + 256 - read_pos q) mod 256"

definition bq_contents :: "byte_queue \<Rightarrow> bytes" where
  "bq_contents q = map (\<lambda>i. bq_buffer q ! ((read_pos q + i) mod 256)) [0..<bq_count q]"

lemma bq_next_mod: "bq_next i = (i + 1) mod 256"
proof -
  have "(0xFF :: nat) = mask 8" by (simp add: mask_eq_exp_minus_1)
  then have "bq_next i = take_bit 8 (i + 1)" by (simp only: bq_next_def take_bit_eq_mask)
  then show ?thesis by (simp add: take_bit_eq_mod)
qed

lemma bq_next_less [simp]: "bq_next i < 256"
  by (simp add: bq_next_mod)

lemma bq_count_cases:
  "bq_inv q \<Longrightarrow> bq_count q =
     (if read_pos q \<le> write_pos q then write_pos q - read_pos q
      else write_pos q + 256 - read_pos q)"
  by (auto simp: bq_inv_def bq_count_def mod_if)

text \<open>The slot at \<open>write_pos\<close> holds none of the queue's bytes.\<close>

lemma bq_write_slot_free:
  assumes "bq_inv q" and "i < bq_count q"
  shows "(read_pos q + i) mod 256 \<noteq> write_pos q"
proof -
  have b: "write_pos q < 256" "read_pos q < 256" using assms(1) by (auto simp: bq_inv_def)
  have "i < 256" using assms(2) by (simp add: bq_count_def)
  with b have "(read_pos q + i) mod 256 = (if read_pos q + i < 256 then read_pos q + i
      else read_pos q + i - 256)"
    by (simp add: mod_if)
  with assms b show ?thesis by (simp add: bq_count_cases split: if_splits)
qed

lemma bq_contents_write:
  assumes "bq_inv q"
  shows "bq_contents (q\<lparr>bq_buffer := (bq_buffer q)[write_pos q := b]\<rparr>) = bq_contents q"
proof -
  have "bq_count (q\<lparr>bq_buffer := (bq_buffer q)[write_pos q := b]\<rparr>) = bq_count q"
    by (simp add: bq_count_def)
  with bq_write_slot_free[OF assms] show ?thesis
    by (simp add: bq_contents_def) (metis atLeastLessThan_iff nth_list_update_neq)
qed

lemma bq_contents_advance_write:
  assumes "bq_inv q" and "bq_next (write_pos q) \<noteq> read_pos q"
  shows "bq_contents (q\<lparr>write_pos := bq_next (write_pos q)\<rparr>) =
    bq_contents q @ [bq_buffer q ! write_pos q]"
proof -
  have "bq_count (q\<lparr>write_pos := bq_next (write_pos q)\<rparr>) = Suc (bq_count q)"
    and "(read_pos q + bq_count q) mod 256 = write_pos q"
    using assms by (auto simp: bq_count_def bq_next_mod bq_inv_def mod_if split: if_splits)
  then show ?thesis by (simp add: bq_contents_def)
qed

lemma bq_contents_advance_read:
  assumes "bq_inv q" and "read_pos q \<noteq> write_pos q"
  shows "bq_contents q = bq_buffer q ! read_pos q # bq_contents (q\<lparr>read_pos := bq_next (read_pos q)\<rparr>)"
proof -
  let ?q = "q\<lparr>read_pos := bq_next (read_pos q)\<rparr>"
  have "bq_count q = Suc (bq_count ?q)"
    using assms by (auto simp: bq_count_def bq_next_mod bq_inv_def mod_if split: if_splits)
  moreover have "read_pos q mod 256 = read_pos q" using assms(1) by (simp add: bq_inv_def)
  moreover have "(bq_next (read_pos q) + i) mod 256 = (read_pos q + Suc i) mod 256" for i
    by (simp add: bq_next_mod mod_simps)
  ultimately show ?thesis
    by (simp add: bq_contents_def upt_conv_Cons map_Suc_upt[symmetric] del: upt_Suc)
qed

subsection \<open>Bounded FIFO queues\<close>

text \<open>
  \<open>while let Some(x) = q.pop() { body }\<close>, with fuel; \<open>None\<close> is running out of it. The lemma
  below says that one more round than the queue has items is enough.
\<close>

fun while_pop ::
  "('q \<Rightarrow> 'a option \<times> 'q) \<Rightarrow> ('a \<Rightarrow> 's \<Rightarrow> 's) \<Rightarrow> nat \<Rightarrow> 'q \<Rightarrow> 's \<Rightarrow> ('q \<times> 's) option" where
  "while_pop pop body 0 q s = None"
| "while_pop pop body (Suc fuel) q s =
     (case pop q of
        (None, q) \<Rightarrow> Some (q, s)
      | (Some x, q) \<Rightarrow> while_pop pop body fuel q (body x s))"

text \<open>
  What the producer (an interrupt handler) and the consumer (the input server) rely on: a
  push appends where there is room and is dropped otherwise, a pop removes the oldest item.
\<close>

locale bounded_fifo =
  fixes enq :: "'a \<Rightarrow> 'q \<Rightarrow> 'q"
    and deq :: "'q \<Rightarrow> 'a option \<times> 'q"
    and items :: "'q \<Rightarrow> 'a list"
    and valid :: "'q \<Rightarrow> bool"
    and capacity :: nat
  assumes valid_enq: "valid q \<Longrightarrow> valid (enq x q)"
    and items_enq: "valid q \<Longrightarrow>
      items (enq x q) = (if length (items q) < capacity then items q @ [x] else items q)"
    and deq_empty: "valid q \<Longrightarrow> items q = [] \<Longrightarrow> deq q = (None, q)"
    and deq_first: "valid q \<Longrightarrow> items q = x # xs \<Longrightarrow>
      \<exists>q'. deq q = (Some x, q') \<and> items q' = xs \<and> valid q'"
    and items_bounded: "valid q \<Longrightarrow> length (items q) \<le> capacity"
begin

lemma valid_enq_all: "valid q \<Longrightarrow> valid (fold enq xs q)"
  by (induction xs arbitrary: q) (auto intro: valid_enq)

text \<open>A burst of pushes keeps the oldest items and drops what does not fit.\<close>

lemma items_enq_all:
  "valid q \<Longrightarrow> items (fold enq xs q) = take capacity (items q @ xs)"
proof (induction xs arbitrary: q)
  case Nil
  then show ?case using items_bounded[of q] by simp
next
  case (Cons x xs)
  then show ?case
    using valid_enq[OF Cons.prems, of x] items_bounded[OF Cons.prems]
    by (auto simp: items_enq min_def take_Cons')
qed

text \<open>A drain loop hands every item to its body, in order, and leaves the queue empty.\<close>

lemma while_pop_drains:
  assumes "valid q" and "length (items q) < fuel"
  shows "\<exists>q'. while_pop deq body fuel q s = Some (q', fold body (items q) s) \<and>
    items q' = [] \<and> valid q'"
  using assms
proof (induction fuel arbitrary: q s)
  case 0
  then show ?case by simp
next
  case (Suc fuel)
  show ?case
  proof (cases "items q")
    case Nil
    with Suc.prems(1) show ?thesis by (simp add: deq_empty)
  next
    case (Cons x xs)
    then obtain q' where q': "deq q = (Some x, q')" "items q' = xs" "valid q'"
      using deq_first[OF Suc.prems(1)] by blast
    with Suc.IH[OF q'(3), of "body x s"] Suc.prems(2) Cons show ?thesis by simp
  qed
qed

end

lemma bq_full_count:
  "bq_inv q \<Longrightarrow> bq_next (write_pos q) = read_pos q \<longleftrightarrow> bq_count q = 255"
  by (auto simp: bq_inv_def bq_count_def bq_next_mod mod_if split: if_splits)

lemma length_bq_contents [simp]: "length (bq_contents q) = bq_count q"
  by (simp add: bq_contents_def)

lemma bq_push_contents:
  assumes "bq_inv q"
  shows "bq_contents (bq_push b q) =
    (if length (bq_contents q) < 255 then bq_contents q @ [b] else bq_contents q)"
proof -
  have le: "bq_count q \<le> 255" by (simp add: bq_count_def)
  show ?thesis
  proof (cases "bq_next (write_pos q) = read_pos q")
    case True
    with bq_full_count[OF assms] show ?thesis by (simp add: bq_push_def Let_def)
  next
    case False
    let ?q = "q\<lparr>bq_buffer := (bq_buffer q)[write_pos q := b]\<rparr>"
    have inv: "bq_inv ?q" and w: "bq_buffer ?q ! write_pos ?q = b"
      using assms by (auto simp: bq_inv_def)
    have "bq_push b q = ?q\<lparr>write_pos := bq_next (write_pos ?q)\<rparr>"
      using False by (simp add: bq_push_def Let_def)
    then have "bq_contents (bq_push b q) = bq_contents ?q @ [bq_buffer ?q ! write_pos ?q]"
      using bq_contents_advance_write[OF inv] False by simp
    with w bq_contents_write[OF assms] False bq_full_count[OF assms] le show ?thesis by auto
  qed
qed

interpretation bq: bounded_fifo bq_push bq_pop bq_contents bq_inv 255
proof unfold_locales
  fix q :: byte_queue and x assume inv: "bq_inv q"
  show "bq_inv (bq_push x q)" using inv by (simp add: bq_inv_def bq_push_def Let_def)
  show "bq_contents (bq_push x q) =
      (if length (bq_contents q) < 255 then bq_contents q @ [x] else bq_contents q)"
    by (rule bq_push_contents[OF inv])
  show "length (bq_contents q) \<le> 255" by (simp add: bq_count_def)
next
  fix q :: byte_queue assume inv: "bq_inv q" and e: "bq_contents q = []"
  from e have "bq_count q = 0" using length_bq_contents[of q] by simp
  with inv have "read_pos q = write_pos q"
    by (auto simp: bq_count_cases bq_inv_def split: if_splits)
  then show "bq_pop q = (None, q)" by (simp add: bq_pop_def)
next
  fix q x xs assume inv: "bq_inv q" and c: "bq_contents q = x # xs"
  have ne: "read_pos q \<noteq> write_pos q"
    using c length_bq_contents[of q] inv by (auto simp: bq_count_cases)
  from bq_contents_advance_read[OF inv ne] c inv ne
  show "\<exists>q'. bq_pop q = (Some x, q') \<and> bq_contents q' = xs \<and> bq_inv q'"
    by (simp add: bq_pop_def Let_def bq_inv_def)
qed

lemma bq_inv_new [simp]: "bq_inv bq_new"
  by (simp add: bq_inv_def bq_new_def)

lemma bq_contents_new [simp]: "bq_contents bq_new = []"
  by (simp add: bq_contents_def bq_count_def bq_new_def)

subsection \<open>Interrupt and task interleaved\<close>

text \<open>
  The instructions of \<open>push\<close> and \<open>pop\<close> as separate atomic steps. The producer's
  program counter holds the locals of the call in progress: the byte, then \<open>w\<close> and
  \<open>next_w\<close>. The consumer's holds \<open>r\<close>, then the byte read. \<open>accepted\<close> is the history of the
  bytes whose push got past the full test and published its slot, \<open>delivered\<close> that of the
  bytes \<open>pop\<close> returned.
\<close>

datatype producer_pc =
    PIdle
  | PLoaded (pbyte: u8) nat nat
  | PChecked (pbyte: u8) nat nat
  | PWritten (pbyte: u8) nat nat

datatype consumer_pc =
    CIdle
  | CLoaded nat
  | CReady nat
  | CRead nat u8

record spsc =
  ring :: byte_queue
  ppc :: producer_pc
  cpc :: consumer_pc
  accepted :: bytes
  delivered :: bytes

inductive spsc_step :: "spsc \<Rightarrow> spsc \<Rightarrow> bool" where
  push_load: "ppc s = PIdle \<Longrightarrow>
    spsc_step s (s\<lparr>ppc := PLoaded b (write_pos (ring s)) (bq_next (write_pos (ring s)))\<rparr>)"
| push_full: "ppc s = PLoaded b w n \<Longrightarrow> n = read_pos (ring s) \<Longrightarrow>
    spsc_step s (s\<lparr>ppc := PIdle\<rparr>)"
| push_room: "ppc s = PLoaded b w n \<Longrightarrow> n \<noteq> read_pos (ring s) \<Longrightarrow>
    spsc_step s (s\<lparr>ppc := PChecked b w n\<rparr>)"
| push_write: "ppc s = PChecked b w n \<Longrightarrow>
    spsc_step s (s\<lparr>ring := (ring s)\<lparr>bq_buffer := (bq_buffer (ring s))[w := b]\<rparr>,
      ppc := PWritten b w n\<rparr>)"
| push_publish: "ppc s = PWritten b w n \<Longrightarrow>
    spsc_step s (s\<lparr>ring := (ring s)\<lparr>write_pos := n\<rparr>, ppc := PIdle,
      accepted := accepted s @ [b]\<rparr>)"
| pop_load: "cpc s = CIdle \<Longrightarrow> spsc_step s (s\<lparr>cpc := CLoaded (read_pos (ring s))\<rparr>)"
| pop_empty: "cpc s = CLoaded r \<Longrightarrow> r = write_pos (ring s) \<Longrightarrow>
    spsc_step s (s\<lparr>cpc := CIdle\<rparr>)"
| pop_some: "cpc s = CLoaded r \<Longrightarrow> r \<noteq> write_pos (ring s) \<Longrightarrow>
    spsc_step s (s\<lparr>cpc := CReady r\<rparr>)"
| pop_read: "cpc s = CReady r \<Longrightarrow>
    spsc_step s (s\<lparr>cpc := CRead r (bq_buffer (ring s) ! r)\<rparr>)"
| pop_release: "cpc s = CRead r b \<Longrightarrow>
    spsc_step s (s\<lparr>ring := (ring s)\<lparr>read_pos := bq_next r\<rparr>, cpc := CIdle,
      delivered := delivered s @ [b]\<rparr>)"

inductive_cases spsc_stepE: "spsc_step s t"

definition spsc_init :: spsc where
  "spsc_init = \<lparr>ring = bq_new, ppc = PIdle, cpc = CIdle, accepted = [], delivered = []\<rparr>"

inductive spsc_reachable :: "spsc \<Rightarrow> bool" where
  "spsc_reachable spsc_init"
| "spsc_reachable s \<Longrightarrow> spsc_step s t \<Longrightarrow> spsc_reachable t"

text \<open>What each program counter knows about the ring, whatever the other side has done since.\<close>

definition producer_ok :: "byte_queue \<Rightarrow> producer_pc \<Rightarrow> bool" where
  "producer_ok q pc = (case pc of
     PIdle \<Rightarrow> True
   | PLoaded b w n \<Rightarrow> w = write_pos q \<and> n = bq_next w
   | PChecked b w n \<Rightarrow> w = write_pos q \<and> n = bq_next w \<and> bq_count q < 255
   | PWritten b w n \<Rightarrow> w = write_pos q \<and> n = bq_next w \<and> bq_count q < 255 \<and>
       bq_buffer q ! w = b)"

definition consumer_ok :: "byte_queue \<Rightarrow> consumer_pc \<Rightarrow> bool" where
  "consumer_ok q pc = (case pc of
     CIdle \<Rightarrow> True
   | CLoaded r \<Rightarrow> r = read_pos q
   | CReady r \<Rightarrow> r = read_pos q \<and> 0 < bq_count q
   | CRead r b \<Rightarrow> r = read_pos q \<and> 0 < bq_count q \<and> bq_buffer q ! r = b)"

definition spsc_inv :: "spsc \<Rightarrow> bool" where
  "spsc_inv s \<longleftrightarrow> bq_inv (ring s) \<and> producer_ok (ring s) (ppc s) \<and>
     consumer_ok (ring s) (cpc s) \<and> delivered s @ bq_contents (ring s) = accepted s"

lemma bq_count_le: "bq_count q \<le> 255"
  by (simp add: bq_count_def)

lemma bq_count_pos: "bq_inv q \<Longrightarrow> 0 < bq_count q \<longleftrightarrow> read_pos q \<noteq> write_pos q"
  by (auto simp: bq_count_cases bq_inv_def)

lemma bq_count_publish:
  "bq_inv q \<Longrightarrow> bq_count q < 255 \<Longrightarrow>
     bq_count (q\<lparr>write_pos := bq_next (write_pos q)\<rparr>) = Suc (bq_count q)"
  by (auto simp: bq_count_def bq_next_mod bq_inv_def mod_if split: if_splits)

lemma bq_count_release:
  "bq_inv q \<Longrightarrow> 0 < bq_count q \<Longrightarrow>
     bq_count (q\<lparr>read_pos := bq_next (read_pos q)\<rparr>) = bq_count q - 1"
  by (auto simp: bq_count_def bq_next_mod bq_inv_def mod_if split: if_splits)

lemma spsc_inv_step:
  assumes "spsc_step s t" and inv: "spsc_inv s"
  shows "spsc_inv t"
  using assms(1)
proof cases
  case (push_write b w n)
  let ?q = "(ring s)\<lparr>bq_buffer := (bq_buffer (ring s))[write_pos (ring s) := b]\<rparr>"
  have "bq_contents ?q = bq_contents (ring s)" "bq_count ?q = bq_count (ring s)"
    using inv bq_contents_write[of "ring s" b] by (auto simp: spsc_inv_def bq_count_def)
  with push_write inv show ?thesis
    by (auto simp: spsc_inv_def producer_ok_def consumer_ok_def bq_inv_def bq_count_pos
        split: consumer_pc.splits)
next
  case (push_publish b w n)
  let ?q = "(ring s)\<lparr>write_pos := bq_next (write_pos (ring s))\<rparr>"
  have i: "bq_inv (ring s)" "bq_count (ring s) < 255" "w = write_pos (ring s)" "n = bq_next w"
    "bq_buffer (ring s) ! w = b"
    using push_publish inv by (auto simp: spsc_inv_def producer_ok_def)
  have "bq_contents ?q = bq_contents (ring s) @ [b]" "bq_count ?q = Suc (bq_count (ring s))"
    using bq_contents_advance_write[OF i(1)] bq_full_count[OF i(1)] i bq_count_publish[OF i(1,2)]
    by auto
  with push_publish inv i show ?thesis
    by (auto simp: spsc_inv_def producer_ok_def consumer_ok_def bq_inv_def
        split: consumer_pc.splits)
next
  case (pop_release r b)
  let ?q = "(ring s)\<lparr>read_pos := bq_next (read_pos (ring s))\<rparr>"
  have i: "bq_inv (ring s)" "0 < bq_count (ring s)" "r = read_pos (ring s)"
    "bq_buffer (ring s) ! r = b"
    using pop_release inv by (auto simp: spsc_inv_def consumer_ok_def)
  have "bq_contents (ring s) = b # bq_contents ?q"
    and "bq_count ?q = bq_count (ring s) - 1"
    using bq_contents_advance_read[OF i(1)] bq_count_pos[OF i(1)] i bq_count_release[OF i(1,2)]
    by auto
  with pop_release inv i show ?thesis
    by (auto simp: spsc_inv_def producer_ok_def consumer_ok_def bq_inv_def
        split: producer_pc.splits)
next
  case (push_room b w n)
  with inv bq_full_count[of "ring s"] bq_count_le[of "ring s"] show ?thesis
    by (auto simp: spsc_inv_def producer_ok_def)
next
  case (pop_some r)
  with inv bq_count_pos[of "ring s"] show ?thesis
    by (auto simp: spsc_inv_def consumer_ok_def)
qed (use inv in \<open>auto simp: spsc_inv_def producer_ok_def consumer_ok_def\<close>)

lemma spsc_inv_init: "spsc_inv spsc_init"
  by (simp add: spsc_inv_def spsc_init_def producer_ok_def consumer_ok_def)

lemma spsc_inv_reachable: "spsc_reachable s \<Longrightarrow> spsc_inv s"
  by (induction rule: spsc_reachable.induct) (auto intro: spsc_inv_init spsc_inv_step)

subsection \<open>Properties\<close>

text \<open>
  C26: However the instructions of the interrupt handler's \<open>push\<close> and the input server's \<open>pop\<close>
  interleave, the bytes delivered so far, followed by the bytes still in the ring, are exactly
  the bytes accepted, in order: none is lost, duplicated, torn or reordered, and at most 255
  are in flight.
\<close>

theorem queue_interleaving_safe:
  assumes "spsc_reachable s"
  shows "delivered s @ bq_contents (ring s) = accepted s \<and> length (bq_contents (ring s)) \<le> 255"
  using spsc_inv_reachable[OF assms] by (simp add: spsc_inv_def bq_count_le)

text \<open>A run: the consumer looks while the producer is between its check and its store.\<close>

lemma demo_spsc_run:
  "\<exists>s. spsc_reachable s \<and> accepted s = [5] \<and> delivered s = [] \<and> cpc s = CLoaded 0"
proof -
  note step = spsc_reachable.intros(2)
  have "spsc_reachable spsc_init" by (rule spsc_reachable.intros(1))
  from step[OF this push_load[of _ 5]]
  have "spsc_reachable (spsc_init\<lparr>ppc := PLoaded 5 0 1\<rparr>)"
    by (simp add: spsc_init_def bq_new_def bq_next_def)
  from step[OF this push_room]
  have "spsc_reachable (spsc_init\<lparr>ppc := PChecked 5 0 1\<rparr>)"
    by (simp add: spsc_init_def bq_new_def)
  from step[OF this pop_load]
  have "spsc_reachable (spsc_init\<lparr>ppc := PChecked 5 0 1, cpc := CLoaded 0\<rparr>)"
    by (simp add: spsc_init_def bq_new_def)
  from step[OF this push_write]
  have "spsc_reachable (spsc_init\<lparr>ring := bq_new\<lparr>bq_buffer := (replicate 256 0)[0 := 5]\<rparr>,
      ppc := PWritten 5 0 1, cpc := CLoaded 0\<rparr>)"
    by (simp add: spsc_init_def bq_new_def)
  from step[OF this push_publish] show ?thesis
    by (force simp: spsc_init_def)
qed

theorem queue_interleaving_safe_witness:
  "\<exists>s. spsc_reachable s \<and> cpc s = CLoaded 0 \<and> bq_contents (ring s) = [5]"
proof -
  from demo_spsc_run obtain s where
    s: "spsc_reachable s" "accepted s = [5]" "delivered s = []" "cpc s = CLoaded 0" by blast
  from queue_interleaving_safe[OF s(1)] s show ?thesis by auto
qed

text \<open>
  C40: A burst of pushes into a valid queue of 255 bytes capacity followed by the input server's
  drain loop hands exactly the first 255 pending bytes to its handler, oldest first, and drops
  the rest; the loop ends within 256 rounds with the queue empty.
\<close>

theorem burst_then_drain:
  assumes "bq_inv q"
  shows "\<exists>q'. while_pop bq_pop body 256 (fold bq_push bs q) s =
      Some (q', fold body (take 255 (bq_contents q @ bs)) s) \<and> bq_contents q' = []"
proof -
  let ?q = "fold bq_push bs q"
  have "length (bq_contents ?q) < 256" by (simp add: bq_count_def)
  from bq.while_pop_drains[OF bq.valid_enq_all[OF assms] this, of body s]
  show ?thesis unfolding bq.items_enq_all[OF assms] by blast
qed

theorem burst_then_drain_witness:
  "\<exists>q'. while_pop bq_pop (#) 256 (fold bq_push [1, 2, 3] bq_new) [] = Some (q', [3, 2, 1]) \<and>
     bq_contents q' = []"
  using burst_then_drain[OF bq_inv_new, of "(#)" "[1, 2, 3]" "[]"] by simp

end
