(* ===== verification/Devices.thy ===== *)
theory Devices
  imports Ata Byte_Queue
begin

text \<open>
  The device side of \<open>kernel/src/interrupts.rs\<close>: the interrupt descriptor table, the keyboard
  and mouse interrupt handlers, and the initialisation of the interrupt controllers (8259), the
  PS/2 controller (8042) and the timer (8254). Port accesses go through a bus parameter; for
  the properties it is instantiated with \<open>pc_bus\<close>, the documented behaviour of these chips as
  far as the code uses it.
\<close>

subsection \<open>The interrupt descriptor table\<close>

datatype handler =
    Page_Fault | General_Protection | Invalid_Opcode | Stack_Segment | Segment_Not_Present
  | Double_Fault | Timer_Interrupt | Keyboard_Isr | Mouse_Isr

definition DOUBLE_FAULT_IST_INDEX :: nat where "DOUBLE_FAULT_IST_INDEX = 0"

text \<open>The handler of each vector and the interrupt stack it uses, in the order they are set.\<close>

definition idt_entries :: "(nat \<times> handler \<times> nat option) list" where
  "idt_entries =
     [(14, Page_Fault, None), (13, General_Protection, None), (6, Invalid_Opcode, None),
      (12, Stack_Segment, None), (11, Segment_Not_Present, None),
      (8, Double_Fault, Some DOUBLE_FAULT_IST_INDEX),
      (32, Timer_Interrupt, None), (33, Keyboard_Isr, None), (44, Mouse_Isr, None)]"

definition idt_init :: "nat \<Rightarrow> (handler \<times> nat option) option" where
  "idt_init = fold (\<lambda>(v, h) t. t(v \<mapsto> h)) idt_entries (\<lambda>_. None)"

subsection \<open>Interrupt handlers\<close>

definition master_eoi :: "'d port_bus \<Rightarrow> 'd \<Rightarrow> 'd" where
  "master_eoi bus d = out8 bus 0x20 0x20 d"

definition pic_send_eoi_slave :: "'d port_bus \<Rightarrow> 'd \<Rightarrow> 'd" where
  "pic_send_eoi_slave bus d = out8 bus 0x20 0x20 (out8 bus 0xA0 0x20 d)"

definition keyboard_isr :: "'d port_bus \<Rightarrow> byte_queue \<times> 'd \<Rightarrow> byte_queue \<times> 'd" where
  "keyboard_isr bus st =
     (case st of (scan_queue, d) \<Rightarrow>
        let (scancode, d) = in8 bus 0x60 d
        in (bq_push scancode scan_queue, master_eoi bus d))"

definition mouse_isr :: "'d port_bus \<Rightarrow> byte_queue \<times> 'd \<Rightarrow> byte_queue \<times> 'd" where
  "mouse_isr bus st =
     (case st of (mouse_queue, d) \<Rightarrow>
        let (b, d) = in8 bus 0x60 d
        in (bq_push b mouse_queue, pic_send_eoi_slave bus d))"

subsection \<open>Initialisation\<close>

definition pic_writes :: "(nat \<times> u8) list" where
  "pic_writes =
     [(0x20, 0x11), (0xA0, 0x11), (0x21, 0x20), (0xA1, 0x28), (0x21, 4), (0xA1, 2),
      (0x21, 0x01), (0xA1, 0x01), (0x21, 0xF8), (0xA1, 0xEF)]"

definition pic_init :: "'d port_bus \<Rightarrow> 'd \<Rightarrow> 'd" where
  "pic_init bus = fold (\<lambda>(p, v). out8 bus p v) pic_writes"

text \<open>The bounded polls of the PS/2 status port; both go on after a timeout.\<close>

fun ps2_wait :: "'d port_bus \<Rightarrow> (u8 \<Rightarrow> bool) \<Rightarrow> nat \<Rightarrow> 'd \<Rightarrow> 'd" where
  "ps2_wait bus ready 0 d = d"
| "ps2_wait bus ready (Suc k) d =
     (case in8 bus 0x64 d of (status, d) \<Rightarrow> if ready status then d else ps2_wait bus ready k d)"

definition ps2_wait_write :: "'d port_bus \<Rightarrow> 'd \<Rightarrow> 'd" where
  "ps2_wait_write bus = ps2_wait bus (\<lambda>s. s AND 0x02 = 0) 100000"

definition ps2_wait_read :: "'d port_bus \<Rightarrow> 'd \<Rightarrow> 'd" where
  "ps2_wait_read bus = ps2_wait bus (\<lambda>s. s AND 0x01 \<noteq> 0) 100000"

definition ps2_cmd :: "'d port_bus \<Rightarrow> u8 \<Rightarrow> 'd \<Rightarrow> 'd" where
  "ps2_cmd bus v d = out8 bus 0x64 v (ps2_wait_write bus d)"

definition ps2_data :: "'d port_bus \<Rightarrow> u8 \<Rightarrow> 'd \<Rightarrow> 'd" where
  "ps2_data bus v d = out8 bus 0x60 v (ps2_wait_write bus d)"

definition ps2_read :: "'d port_bus \<Rightarrow> 'd \<Rightarrow> u8 \<times> 'd" where
  "ps2_read bus d = in8 bus 0x60 (ps2_wait_read bus d)"

definition ps2_config :: "u8 \<Rightarrow> u8" where
  "ps2_config config = (config OR 0x02) AND NOT 0x20"

definition ps2_init :: "'d port_bus \<Rightarrow> 'd \<Rightarrow> 'd" where
  "ps2_init bus d =
     (let d = ps2_cmd bus 0xA8 d;
          d = ps2_cmd bus 0x20 d;
          (config, d) = ps2_read bus d;
          d = ps2_cmd bus 0x60 d;
          d = ps2_data bus (ps2_config config) d;
          d = ps2_cmd bus 0xD4 d;
          d = ps2_data bus 0xF6 d;
          (ack, d) = ps2_read bus d;
          d = ps2_cmd bus 0xD4 d;
          d = ps2_data bus 0xF4 d;
          (ack, d) = ps2_read bus d
      in d)"

definition PIT_HZ :: u32 where "PIT_HZ = 200"

definition pit_divisor :: u16 where
  "pit_divisor = ucast ((1193182 :: u32) div PIT_HZ)"

definition pit_init :: "'d port_bus \<Rightarrow> 'd \<Rightarrow> 'd" where
  "pit_init bus d =
     out8 bus 0x40 (ucast (drop_bit 8 pit_divisor))
       (out8 bus 0x40 (ucast (pit_divisor AND 0xFF)) (out8 bus 0x43 0x36 d))"

text \<open>\<open>init\<close>: the table is loaded before the devices are set up.\<close>

definition interrupts_init ::
  "'d port_bus \<Rightarrow> 'd \<Rightarrow> (nat \<Rightarrow> (handler \<times> nat option) option) \<times> 'd" where
  "interrupts_init bus d = (idt_init, pit_init bus (pic_init bus (ps2_init bus d)))"

subsection \<open>The platform\<close>

text \<open>
  An 8259: the vector of its first line, the lines masked, the lines in service, and how many
  of the initialisation words ICW2 to ICW4 are still to come. ICW1 (bit 4 of a command) starts
  the sequence; a non-specific end of interrupt ends the highest-priority line in service.
\<close>

record pic =
  pic_offset :: nat
  pic_mask :: u8
  in_service :: "nat list"
  icw_left :: nat

definition pic_command :: "u8 \<Rightarrow> pic \<Rightarrow> pic" where
  "pic_command v p =
     (if v AND 0x10 \<noteq> 0 then p\<lparr>icw_left := 3, pic_mask := 0, in_service := []\<rparr>
      else if v = 0x20 then p\<lparr>in_service := (case in_service p of [] \<Rightarrow> [] | i # is \<Rightarrow> is)\<rparr>
      else p)"

definition pic_data :: "u8 \<Rightarrow> pic \<Rightarrow> pic" where
  "pic_data v p =
     (if icw_left p = 0 then p\<lparr>pic_mask := v\<rparr>
      else if icw_left p = 3 then p\<lparr>pic_offset := unat (v AND 0xF8), icw_left := 2\<rparr>
      else p\<lparr>icw_left := icw_left p - 1\<rparr>)"

text \<open>
  The 8042: its configuration byte, the bytes in its output buffer, the command waiting for a
  data byte, and whether the mouse port and the mouse's streaming are on. The keyboard and the
  mouse put their bytes into the output buffer.
\<close>

record pc =
  master :: pic
  slave :: pic
  kbc_config :: u8
  kbc_output :: bytes
  kbc_command :: u8
  aux_enabled :: bool
  streaming :: bool
  pit_bytes :: bytes

definition kbc_write_command :: "u8 \<Rightarrow> pc \<Rightarrow> pc" where
  "kbc_write_command v s =
     (if v = 0xA8 then s\<lparr>aux_enabled := True\<rparr>
      else if v = 0x20 then s\<lparr>kbc_output := kbc_output s @ [kbc_config s]\<rparr>
      else s\<lparr>kbc_command := v\<rparr>)"

definition kbc_write_data :: "u8 \<Rightarrow> pc \<Rightarrow> pc" where
  "kbc_write_data v s =
     (if kbc_command s = 0x60 then s\<lparr>kbc_config := v, kbc_command := 0\<rparr>
      else if kbc_command s = 0xD4 then
        s\<lparr>kbc_command := 0, kbc_output := kbc_output s @ [0xFA],
          streaming := (if v = 0xF4 then True else if v = 0xF6 then False else streaming s)\<rparr>
      else s)"

definition pc_out :: "nat \<Rightarrow> u8 \<Rightarrow> pc \<Rightarrow> pc" where
  "pc_out p v s =
     (if p = 0x20 then s\<lparr>master := pic_command v (master s)\<rparr>
      else if p = 0x21 then s\<lparr>master := pic_data v (master s)\<rparr>
      else if p = 0xA0 then s\<lparr>slave := pic_command v (slave s)\<rparr>
      else if p = 0xA1 then s\<lparr>slave := pic_data v (slave s)\<rparr>
      else if p = 0x64 then kbc_write_command v s
      else if p = 0x60 then kbc_write_data v s
      else if p = 0x40 then s\<lparr>pit_bytes := pit_bytes s @ [v]\<rparr>
      else if p = 0x43 then s\<lparr>pit_bytes := []\<rparr>
      else s)"

definition pc_in :: "nat \<Rightarrow> pc \<Rightarrow> u8 \<times> pc" where
  "pc_in p s =
     (if p = 0x60 then
        (case kbc_output s of [] \<Rightarrow> (0, s) | b # bs \<Rightarrow> (b, s\<lparr>kbc_output := bs\<rparr>))
      else if p = 0x64 then (if kbc_output s = [] then 0 else 0x01, s)
      else (0, s))"

definition pc_bus :: "pc port_bus" where
  "pc_bus = \<lparr>in8 = pc_in, in16 = (\<lambda>_ s. (0, s)), out8 = pc_out\<rparr>"

text \<open>The vector with which a line interrupts the processor, if it is not masked.\<close>

definition irq_vector :: "pc \<Rightarrow> nat \<Rightarrow> nat option" where
  "irq_vector s irq =
     (if irq < 8 then (if bit (pic_mask (master s)) irq then None else Some (pic_offset (master s) + irq))
      else if bit (pic_mask (master s)) 2 \<or> bit (pic_mask (slave s)) (irq - 8) then None
      else Some (pic_offset (slave s) + (irq - 8)))"


subsection \<open>After initialisation\<close>

lemma pc_bus_simps [simp]:
  "in8 pc_bus = pc_in" "out8 pc_bus = pc_out"
  by (simp_all add: pc_bus_def)

text \<open>Polling the status port changes nothing.\<close>

lemma ps2_wait_pc [simp]: "ps2_wait pc_bus ready k s = s"
  by (induction k) (simp_all add: pc_in_def)

lemma ps2_steps [simp]:
  "ps2_cmd pc_bus v s = kbc_write_command v s"
  "ps2_data pc_bus v s = kbc_write_data v s"
  "kbc_output s = b # bs \<Longrightarrow> ps2_read pc_bus s = (b, s\<lparr>kbc_output := bs\<rparr>)"
  by (simp_all add: ps2_cmd_def ps2_data_def ps2_read_def ps2_wait_write_def ps2_wait_read_def
      pc_out_def pc_in_def)

lemma ps2_init_pc:
  assumes "kbc_output s = []"
  shows "ps2_init pc_bus s = s\<lparr>aux_enabled := True, kbc_config := ps2_config (kbc_config s),
    kbc_command := 0, streaming := True, kbc_output := []\<rparr>"
  using assms by (simp add: ps2_init_def kbc_write_command_def kbc_write_data_def)

lemma pic_init_pc:
  "master (pic_init pc_bus s) = \<lparr>pic_offset = 0x20, pic_mask = 0xF8, in_service = [], icw_left = 0\<rparr>"
  "slave (pic_init pc_bus s) = \<lparr>pic_offset = 0x28, pic_mask = 0xEF, in_service = [], icw_left = 0\<rparr>"
  "kbc_output (pic_init pc_bus s) = kbc_output s" "kbc_config (pic_init pc_bus s) = kbc_config s"
  "aux_enabled (pic_init pc_bus s) = aux_enabled s" "streaming (pic_init pc_bus s) = streaming s"
  by (cases "master s"; cases "slave s";
      simp add: pic_init_def pic_writes_def pc_out_def pic_command_def pic_data_def)+

lemma pit_init_pc:
  "pit_init pc_bus s = s\<lparr>pit_bytes := [ucast (pit_divisor AND 0xFF), ucast (drop_bit 8 pit_divisor)]\<rparr>"
  by (simp add: pit_init_def pc_out_def)

text \<open>The mask F8 leaves lines 0 to 2, the mask EF line 4 of the slave.\<close>

lemma irq_masks: "i < 8 \<Longrightarrow> bit (0xF8 :: u8) i \<longleftrightarrow> 3 \<le> i" "i < 8 \<Longrightarrow> bit (0xEF :: u8) i \<longleftrightarrow> i \<noteq> 4"
proof -
  assume "i < 8"
  then have "i = 0 \<or> i = 1 \<or> i = 2 \<or> i = 3 \<or> i = 4 \<or> i = 5 \<or> i = 6 \<or> i = 7" by auto
  then show "bit (0xF8 :: u8) i \<longleftrightarrow> 3 \<le> i" "bit (0xEF :: u8) i \<longleftrightarrow> i \<noteq> 4"
    by (elim disjE; simp)+
qed

lemma ps2_config_bits: "bit (ps2_config c) i \<longleftrightarrow> i = 1 \<or> i \<noteq> 5 \<and> bit c i"
proof (cases "i < 8")
  case True
  then have "i = 0 \<or> i = 1 \<or> i = 2 \<or> i = 3 \<or> i = 4 \<or> i = 5 \<or> i = 6 \<or> i = 7" by auto
  then show ?thesis by (elim disjE) (simp_all add: ps2_config_def bit_and_iff bit_or_iff bit_not_iff)
next
  case False
  then show ?thesis
    using bit_imp_le_length[of c i] bit_imp_le_length[of "ps2_config c" i] by auto
qed

lemma idt_init_vectors:
  "idt_init v = (if v = 14 then Some (Page_Fault, None) else if v = 13 then Some (General_Protection, None)
     else if v = 6 then Some (Invalid_Opcode, None) else if v = 12 then Some (Stack_Segment, None)
     else if v = 11 then Some (Segment_Not_Present, None)
     else if v = 8 then Some (Double_Fault, Some DOUBLE_FAULT_IST_INDEX)
     else if v = 32 then Some (Timer_Interrupt, None) else if v = 33 then Some (Keyboard_Isr, None)
     else if v = 44 then Some (Mouse_Isr, None) else None)"
  by (simp add: idt_init_def idt_entries_def)

text \<open>
  C23: After \<open>init\<close> the hardware interrupts reach their handlers: of the sixteen lines exactly
  timer, keyboard, cascade and mouse are unmasked, the three that are devices carry vectors
  whose table entries are the timer, keyboard and mouse handlers, and no vector is one of the
  processor's exceptions; the PS/2 controller has IRQ 12 on and the mouse clock running with
  the other configuration bits kept and both acknowledgements consumed; and the timer counts
  1193182 Hz down to 200 Hz.
\<close>

theorem interrupts_init_wires:
  assumes "kbc_output s = []" and "interrupts_init pc_bus s = (idt, s')"
  shows "map (irq_vector s') [0..<16] = [Some 32, Some 33, Some 34] @ replicate 9 None @
      [Some 44] @ replicate 3 None \<and>
    map idt [32, 33, 44] = [Some (Timer_Interrupt, None), Some (Keyboard_Isr, None), Some (Mouse_Isr, None)] \<and>
    aux_enabled s' \<and> streaming s' \<and> kbc_output s' = [] \<and>
    (\<forall>i. bit (kbc_config s') i = (i = 1 \<or> i \<noteq> 5 \<and> bit (kbc_config s) i)) \<and>
    1193182 div le_dec (pit_bytes s') = 200"
proof -
  define s1 where "s1 = ps2_init pc_bus s"
  have idt: "idt = idt_init" and s': "s' = pit_init pc_bus (pic_init pc_bus s1)"
    using assms(2) by (simp_all add: interrupts_init_def s1_def)
  note s1 = s1_def[unfolded ps2_init_pc[OF assms(1)]]
  have pics: "master s' = \<lparr>pic_offset = 0x20, pic_mask = 0xF8, in_service = [], icw_left = 0\<rparr>"
    "slave s' = \<lparr>pic_offset = 0x28, pic_mask = 0xEF, in_service = [], icw_left = 0\<rparr>"
    by (simp_all add: s' pit_init_pc pic_init_pc)
  have "irq_vector s' irq = (if irq < 3 then Some (32 + irq) else if irq = 12 then Some 44 else None)"
    if "irq < 16" for irq
    using that irq_masks[of irq] irq_masks[of "irq - 8"] irq_masks(1)[of 2]
    by (auto simp: irq_vector_def pics)
  then have "map (irq_vector s') [0..<16] = [Some 32, Some 33, Some 34] @ replicate 9 None @
      [Some 44] @ replicate 3 None"
    by (simp add: upt_conv_Cons numeral_eq_Suc)
  moreover have "map idt [32, 33, 44] =
      [Some (Timer_Interrupt, None), Some (Keyboard_Isr, None), Some (Mouse_Isr, None)]"
    by (simp add: idt idt_init_vectors)
  moreover have "aux_enabled s' \<and> streaming s' \<and> kbc_output s' = [] \<and>
      kbc_config s' = ps2_config (kbc_config s)"
    by (simp add: s' pit_init_pc pic_init_pc) (simp add: s1)
  moreover have "1193182 div le_dec (pit_bytes s') = 200"
    by (simp add: s' pit_init_pc pit_divisor_def PIT_HZ_def)
  ultimately show ?thesis using ps2_config_bits by simp
qed

definition demo_pc :: pc where
  "demo_pc =
     (let p = \<lparr>pic_offset = 8, pic_mask = 0, in_service = [3], icw_left = 0\<rparr> in
      \<lparr>master = p, slave = p, kbc_config = 0x61, kbc_output = [], kbc_command = 0,
       aux_enabled = False, streaming = False, pit_bytes = []\<rparr>)"

theorem interrupts_init_wires_witness:
  "irq_vector (snd (interrupts_init pc_bus demo_pc)) 12 = Some 44 \<and>
   bit (kbc_config (snd (interrupts_init pc_bus demo_pc))) 6 \<and>
   fst (interrupts_init pc_bus demo_pc) 44 = Some (Mouse_Isr, None)"
proof -
  let ?r = "interrupts_init pc_bus demo_pc"
  have "kbc_output demo_pc = []" by (simp add: demo_pc_def Let_def)
  note w = interrupts_init_wires[OF this, of "fst ?r" "snd ?r"]
  from w have "map (irq_vector (snd ?r)) [0..<16] ! 12 = ([Some 32, Some 33, Some 34] @
      replicate 9 None @ [Some 44] @ replicate 3 None) ! 12" by simp
  then have "irq_vector (snd ?r) 12 = Some 44" by (simp add: nth_append numeral_eq_Suc)
  moreover have "bit (kbc_config demo_pc) 6" by (simp add: demo_pc_def Let_def)
  ultimately show ?thesis using w by simp
qed

end
