(* ===== verification/Task.thy ===== *)
theory Task
  imports Bytes
begin

text \<open>
  \<open>kernel/src/task.rs\<close>: messages, task control blocks, the initial interrupt frames, and the
  round-robin scheduler over eight slots. \<open>usize\<close> values (ids, addresses, indices) are
  \<open>nat\<close>. The global \<open>SCHEDULER\<close> is passed explicitly; its spin lock is never contended,
  since every holder runs with interrupts disabled on one processor.
\<close>

subsection \<open>Messages\<close>

record message =
  sender :: nat
  msg_type :: u64
  arg1 :: u64
  arg2 :: u64
  arg3 :: u64
  arg4 :: u64

text \<open>\<open>#[repr(C)]\<close>: six 64-bit fields in order. \<open>ptr::write\<close> and \<open>ptr::read\<close> of one.\<close>

definition message_words :: "message \<Rightarrow> u64 list" where
  "message_words m = [word_of_nat (sender m), msg_type m, arg1 m, arg2 m, arg3 m, arg4 m]"

fun words_to_le :: "u64 list \<Rightarrow> bytes" where
  "words_to_le [] = []"
| "words_to_le (w # ws) = u64_to_le w @ words_to_le ws"

definition write_message :: "mem \<Rightarrow> nat \<Rightarrow> message \<Rightarrow> mem" where
  "write_message mem p m = store mem p (words_to_le (message_words m))"

definition read_message :: "mem \<Rightarrow> nat \<Rightarrow> message" where
  "read_message mem p =
     \<lparr>sender = unat (load64 mem p), msg_type = load64 mem (p + 8), arg1 = load64 mem (p + 16),
      arg2 = load64 mem (p + 24), arg3 = load64 mem (p + 32), arg4 = load64 mem (p + 40)\<rparr>"

lemma length_words_to_le [simp]: "length (words_to_le ws) = 8 * length ws"
  by (induction ws) (auto simp: byte_simps)

lemma load64_words:
  "i < length ws \<Longrightarrow> load64 (store mem a (words_to_le ws)) (a + 8 * i) = ws ! i"
proof (induction ws arbitrary: mem a i)
  case (Cons w ws)
  have split: "store mem a (words_to_le (w # ws)) = store64 (store mem (a + 8) (words_to_le ws)) a w"
    by (rule ext) (auto simp: store_def store64_def nth_append byte_simps)
  show ?case
  proof (cases i)
    case (Suc j)
    with Cons.IH[of j "mem" "a + 8"] Cons.prems show ?thesis
      unfolding split by (simp add: load64_store64_other algebra_simps)
  qed (simp only: split, simp)
qed simp

lemma read_write_message [simp]:
  assumes "sender m < usize_bound"
  shows "read_message (write_message mem p m) p = m"
proof -
  let ?m = "write_message mem p m"
  have w: "load64 ?m (p + 8 * i) = message_words m ! i" if "i < 6" for i
    using that load64_words[of i "message_words m" mem p]
    by (simp add: write_message_def message_words_def)
  show ?thesis
    using w[of 0] w[of 1] w[of 2] w[of 3] w[of 4] w[of 5] assms
    by (simp add: read_message_def message_words_def unat_of_nat usize_bound_def)
qed

lemma write_message_outside [mem_simps]:
  "x < p \<or> p + 48 \<le> x \<Longrightarrow> write_message mem p m x = mem x"
  by (simp add: write_message_def message_words_def store_outside)

lemma load64_write_message_other [mem_simps]:
  "a + 8 \<le> p \<or> p + 48 \<le> a \<Longrightarrow> load64 (write_message mem p m) a = load64 mem a"
  by (simp add: write_message_def message_words_def load64_store_other)

subsection \<open>Tasks\<close>

datatype task_state =
    Ready
  | Running
  | Sending nat message
  | Receiving "nat option" nat

record task =
  task_id :: nat
  task_rsp :: nat
  kernel_stack_top :: nat
  task_state :: task_state

definition is_runnable :: "task \<Rightarrow> bool" where
  "is_runnable t \<longleftrightarrow> task_state t = Ready \<or> task_state t = Running"

text \<open>
  The packed frame of twenty words a switched-out task leaves on its kernel stack: the fifteen
  general registers in the order the handlers push them, last pushed first, then what the
  processor pushed.
\<close>

record interrupt_frame =
  f_r15 :: u64
  f_r14 :: u64
  f_r13 :: u64
  f_r12 :: u64
  f_rbp :: u64
  f_rbx :: u64
  f_r11 :: u64
  f_r10 :: u64
  f_r9 :: u64
  f_r8 :: u64
  f_rdi :: u64
  f_rsi :: u64
  f_rdx :: u64
  f_rcx :: u64
  f_rax :: u64
  f_rip :: u64
  f_cs :: u64
  f_rflags :: u64
  f_rsp :: u64
  f_ss :: u64

definition frame_words :: "interrupt_frame \<Rightarrow> u64 list" where
  "frame_words f =
     [f_r15 f, f_r14 f, f_r13 f, f_r12 f, f_rbp f, f_rbx f, f_r11 f, f_r10 f, f_r9 f, f_r8 f,
      f_rdi f, f_rsi f, f_rdx f, f_rcx f, f_rax f, f_rip f, f_cs f, f_rflags f, f_rsp f, f_ss f]"

definition frame_size :: nat where
  "frame_size = 160"

definition initial_frame :: "u64 \<Rightarrow> u64 \<Rightarrow> u64 \<Rightarrow> u64 \<Rightarrow> u64 \<Rightarrow> interrupt_frame" where
  "initial_frame entry cs rflags rsp ss =
     \<lparr>f_r15 = 0, f_r14 = 0, f_r13 = 0, f_r12 = 0, f_rbp = 0, f_rbx = 0, f_r11 = 0, f_r10 = 0,
      f_r9 = 0, f_r8 = 0, f_rdi = 0, f_rsi = 0, f_rdx = 0, f_rcx = 0, f_rax = 0,
      f_rip = entry, f_cs = cs, f_rflags = rflags, f_rsp = rsp, f_ss = ss\<rparr>"

text \<open>
  \<open>Task::new\<close> and \<open>Task::new_user\<close>. A stack is the address and the length of the slice.
\<close>

definition task_new :: "nat \<Rightarrow> u64 \<Rightarrow> nat \<times> nat \<Rightarrow> mem \<Rightarrow> (task \<times> mem) option" where
  "task_new tid entry_point stack mem =
     do {
       stack_top \<leftarrow> uadd (fst stack) (snd stack);
       let aligned_top = and_not stack_top 0xF;
       frame_ptr \<leftarrow> usub aligned_top frame_size;
       let mem = store mem frame_ptr (words_to_le (frame_words
         (initial_frame entry_point 0x08 0x202 (word_of_nat aligned_top) 0x00)));
       Some (\<lparr>task_id = tid, task_rsp = frame_ptr, kernel_stack_top = aligned_top,
         task_state = Ready\<rparr>, mem)
     }"

definition task_new_user ::
  "nat \<Rightarrow> u64 \<Rightarrow> nat \<times> nat \<Rightarrow> nat \<times> nat \<Rightarrow> bool \<Rightarrow> mem \<Rightarrow> (task \<times> mem) option" where
  "task_new_user tid entry_point user_stack kernel_stack allow_io mem =
     do {
       user_stack_top \<leftarrow> uadd (fst user_stack) (snd user_stack);
       let user_aligned_top = and_not user_stack_top 0xF;
       kernel_stack_top \<leftarrow> uadd (fst kernel_stack) (snd kernel_stack);
       let kernel_aligned_top = and_not kernel_stack_top 0xF;
       frame_ptr \<leftarrow> usub kernel_aligned_top frame_size;
       let rflags = (if allow_io then 0x3202 else 0x202);
       let mem = store mem frame_ptr (words_to_le (frame_words
         (initial_frame entry_point 0x23 rflags (word_of_nat user_aligned_top) 0x1B)));
       Some (\<lparr>task_id = tid, task_rsp = frame_ptr, kernel_stack_top = kernel_aligned_top,
         task_state = Ready\<rparr>, mem)
     }"

subsection \<open>The scheduler\<close>

record scheduler =
  tasks :: "task option list"
  current_task_idx :: nat
  main_task_rsp :: nat

definition scheduler_new :: scheduler where
  "scheduler_new =
     \<lparr>tasks = [None, None, None, None, None, None, None, None], current_task_idx = 0,
      main_task_rsp = 0\<rparr>"

fun spawn_in :: "task \<Rightarrow> task option list \<Rightarrow> task option list option" where
  "spawn_in t [] = None"
| "spawn_in t (None # slots) = Some (Some t # slots)"
| "spawn_in t (Some u # slots) = map_option ((#) (Some u)) (spawn_in t slots)"

definition spawn :: "task \<Rightarrow> scheduler \<Rightarrow> (string + unit) \<times> scheduler" where
  "spawn t s =
     (case spawn_in t (tasks s) of
        Some slots \<Rightarrow> (Inr (), s\<lparr>tasks := slots\<rparr>)
      | None \<Rightarrow> (Inl ''No free task slots'', s))"

text \<open>The test \<open>self.current_task_idx == 0 && self.tasks[0].is_none()\<close>.\<close>

definition on_boot_thread :: "scheduler \<Rightarrow> bool option" where
  "on_boot_thread s =
     (if current_task_idx s = 0
      then do { slot \<leftarrow> idx (tasks s) 0; Some (slot = None) }
      else Some False)"

definition save_current_rsp :: "nat \<Rightarrow> scheduler \<Rightarrow> scheduler option" where
  "save_current_rsp rsp s =
     do {
       boot \<leftarrow> on_boot_thread s;
       if boot then Some (s\<lparr>main_task_rsp := rsp\<rparr>)
       else do {
         slot \<leftarrow> idx (tasks s) (current_task_idx s);
         case slot of
           None \<Rightarrow> Some s
         | Some t \<Rightarrow> Some (s\<lparr>tasks := (tasks s)[current_task_idx s := Some (t\<lparr>task_rsp := rsp\<rparr>)]\<rparr>)
       }
     }"

text \<open>
  The \<open>loop\<close> of \<open>select_next_task\<close>, with fuel. It inspects the slots after the current one
  cyclically and stops when it is back: eight rounds always suffice
  (\<open>select_next_task_spec\<close>).
\<close>

fun select_loop :: "nat \<Rightarrow> task option list \<Rightarrow> nat \<Rightarrow> nat \<Rightarrow> nat option" where
  "select_loop 0 ts current_idx next_idx = None"
| "select_loop (Suc fuel) ts current_idx next_idx =
     (if next_idx = current_idx then Some current_idx
      else do {
        slot \<leftarrow> idx ts next_idx;
        if (case slot of Some t \<Rightarrow> is_runnable t | None \<Rightarrow> False) then Some next_idx
        else select_loop fuel ts current_idx ((next_idx + 1) mod 8)
      })"

definition select_next_task :: "scheduler \<Rightarrow> scheduler option" where
  "select_next_task s =
     do {
       next_idx \<leftarrow> select_loop 8 (tasks s) (current_task_idx s) ((current_task_idx s + 1) mod 8);
       Some (s\<lparr>current_task_idx := next_idx\<rparr>)
     }"

definition get_current_rsp :: "scheduler \<Rightarrow> nat option" where
  "get_current_rsp s =
     do {
       boot \<leftarrow> on_boot_thread s;
       if boot then Some (main_task_rsp s)
       else do {
         slot \<leftarrow> idx (tasks s) (current_task_idx s);
         map_option task_rsp slot
       }
     }"

definition current_task :: "scheduler \<Rightarrow> task option option" where
  "current_task s = idx (tasks s) (current_task_idx s)"

text \<open>\<open>start_first_task\<close> up to its jump: the stack pointer it pops from and the kernel stack top.\<close>

definition start_first_task :: "scheduler \<Rightarrow> ((nat \<times> nat) \<times> scheduler) option" where
  "start_first_task s =
     do {
       let s = s\<lparr>current_task_idx := 0\<rparr>;
       slot \<leftarrow> idx (tasks s) 0;
       first_task \<leftarrow> slot;
       Some ((task_rsp first_task, kernel_stack_top first_task), s)
     }"

subsection \<open>What the scheduler computes\<close>

definition sched_wf :: "scheduler \<Rightarrow> bool" where
  "sched_wf s \<longleftrightarrow> length (tasks s) = 8 \<and> current_task_idx s < 8"

definition runnable_at :: "task option list \<Rightarrow> nat \<Rightarrow> bool" where
  "runnable_at ts i \<longleftrightarrow> (case ts ! i of Some t \<Rightarrow> is_runnable t | None \<Rightarrow> False)"

text \<open>The reference: the first runnable slot after the current one, cyclically, or the current one.\<close>

definition next_runnable :: "task option list \<Rightarrow> nat \<Rightarrow> nat" where
  "next_runnable ts cur =
     (case find (runnable_at ts) (map (\<lambda>k. (cur + k) mod 8) [1..<8]) of
        Some i \<Rightarrow> i
      | None \<Rightarrow> cur)"

lemma sched_wf_new [simp]: "sched_wf scheduler_new"
  by (simp add: sched_wf_def scheduler_new_def)

lemma cyclic_ne: "cur < 8 \<Longrightarrow> 0 < k \<Longrightarrow> k < 8 \<Longrightarrow> (cur + k) mod 8 \<noteq> (cur :: nat)"
  by (auto simp: mod_if)

lemma select_loop_find:
  assumes "length ts = 8" and "cur < 8" and "0 < k" and "k \<le> 8" and "9 \<le> k + fuel"
  shows "select_loop fuel ts cur ((cur + k) mod 8) =
    Some (case find (runnable_at ts) (map (\<lambda>k. (cur + k) mod 8) [k..<8]) of
      Some i \<Rightarrow> i | None \<Rightarrow> cur)"
  using assms
proof (induction fuel arbitrary: k)
  case 0
  then show ?case by simp
next
  case (Suc fuel)
  show ?case
  proof (cases "k = 8")
    case True
    with Suc.prems show ?thesis by simp
  next
    case False
    with Suc.prems have k: "k < 8" by simp
    have "[k..<8] = k # [Suc k..<8]" using k by (simp add: upt_conv_Cons)
    moreover have "((cur + k) mod 8 + 1) mod 8 = (cur + Suc k) mod 8" by (simp add: mod_simps)
    ultimately show ?thesis
      using cyclic_ne[OF Suc.prems(2,3) k] Suc.IH[of "Suc k"] Suc.prems k
      by (auto simp: runnable_at_def checked simp del: upt_Suc split: option.splits)
  qed
qed

lemma select_next_task_spec:
  assumes "sched_wf s"
  shows "select_next_task s =
    Some (s\<lparr>current_task_idx := next_runnable (tasks s) (current_task_idx s)\<rparr>)"
  using assms select_loop_find[of "tasks s" "current_task_idx s" 1 8]
  by (simp add: select_next_task_def sched_wf_def next_runnable_def del: upt_Suc)

lemma next_runnable_less: "cur < 8 \<Longrightarrow> next_runnable ts cur < 8"
  by (auto simp: next_runnable_def find_Some_iff simp del: upt_Suc split: option.splits)

text \<open>How many slots the cursor still has to pass to get to slot \<open>j\<close>.\<close>

definition slot_distance :: "nat \<Rightarrow> nat \<Rightarrow> nat" where
  "slot_distance cur j = (j + 8 - cur) mod 8"

lemma slot_distance_less [simp]: "slot_distance cur j < 8"
  by (simp add: slot_distance_def)

lemma slot_distance_reached: "cur < 8 \<Longrightarrow> j < 8 \<Longrightarrow> slot_distance cur j = 0 \<longleftrightarrow> cur = j"
  by (auto simp: slot_distance_def mod_if)

lemma slot_distance_target: "cur < 8 \<Longrightarrow> j < 8 \<Longrightarrow> (cur + slot_distance cur j) mod 8 = j"
  by (auto simp: slot_distance_def mod_if)

lemma slot_distance_cases:
  "cur < 8 \<Longrightarrow> j < 8 \<Longrightarrow> slot_distance cur j = (if cur \<le> j then j - cur else j + 8 - cur)"
  by (auto simp: slot_distance_def mod_if)

lemma slot_distance_after:
  assumes "cur < 8" and "j < 8" and "0 < k" and "k \<le> slot_distance cur j"
  shows "slot_distance ((cur + k) mod 8) j < slot_distance cur j"
proof -
  have "k < 8" using assms(4) slot_distance_less[of cur j] by linarith
  with assms(1) have "(cur + k) mod 8 = (if cur + k < 8 then cur + k else cur + k - 8)"
    by (simp add: mod_if)
  moreover have "(cur + k) mod 8 < 8" by simp
  ultimately show ?thesis using assms by (auto simp: slot_distance_cases split: if_splits)
qed

lemma find_first_le:
  assumes "a \<le> d" and "d < b" and "P (f d)"
  shows "\<exists>k. a \<le> k \<and> k \<le> d \<and> find P (map f [a..<b]) = Some (f k)"
  using assms
proof (induction "d - a" arbitrary: a)
  case 0
  then have "[a..<b] = d # [Suc d..<b]" by (simp add: upt_conv_Cons)
  with 0 show ?case by auto
next
  case (Suc n)
  then have u: "[a..<b] = a # [Suc a..<b]" by (simp add: upt_conv_Cons)
  show ?case
  proof (cases "P (f a)")
    case True
    with u Suc.prems show ?thesis by auto
  next
    case False
    have "n = d - Suc a" "Suc a \<le> d" using Suc.hyps(2) by auto
    from Suc.hyps(1)[OF this Suc.prems(2,3)]
    obtain k where "Suc a \<le> k \<and> k \<le> d \<and> find P (map f [Suc a..<b]) = Some (f k)" by blast
    with u False show ?thesis by (auto intro!: exI[of _ k])
  qed
qed

lemma next_runnable_closer:
  assumes "cur < 8" and "j < 8" and "cur \<noteq> j" and "runnable_at ts j"
  shows "slot_distance (next_runnable ts cur) j < slot_distance cur j"
proof -
  let ?d = "slot_distance cur j"
  have d: "1 \<le> ?d" "?d < 8" using slot_distance_reached[OF assms(1,2)] assms(3) by auto
  have "runnable_at ts ((cur + ?d) mod 8)" using slot_distance_target[OF assms(1,2)] assms(4) by simp
  from find_first_le[where P = "runnable_at ts" and f = "\<lambda>k. (cur + k) mod 8", OF d this]
  obtain k where k: "1 \<le> k" "k \<le> ?d"
    "find (runnable_at ts) (map (\<lambda>k. (cur + k) mod 8) [1..<8]) = Some ((cur + k) mod 8)"
    by blast
  have "next_runnable ts cur = (cur + k) mod 8" unfolding next_runnable_def k(3) by simp
  with slot_distance_after[OF assms(1,2) _ k(2)] k(1) show ?thesis by simp
qed

lemma next_runnable_runnable:
  assumes "next_runnable ts cur \<noteq> cur"
  shows "runnable_at ts (next_runnable ts cur)"
proof -
  let ?is = "map (\<lambda>k. (cur + k) mod 8) [1..<8]"
  from assms obtain i where i: "find (runnable_at ts) ?is = Some i" "next_runnable ts cur = i"
    by (auto simp: next_runnable_def simp del: upt_Suc split: option.splits)
  from i(1) have "runnable_at ts i" by (auto simp: find_Some_iff simp del: upt_Suc)
  with i(2) show ?thesis by simp
qed

subsection \<open>Fair scheduling\<close>

text \<open>
  What a task relies on: whatever the running task does between two context switches, a slot
  that stays ready comes closer to the cursor at each switch.
\<close>

locale fair_scheduler =
  fixes switch :: "'s \<Rightarrow> 's option"
    and cur :: "'s \<Rightarrow> nat"
    and ready :: "'s \<Rightarrow> nat \<Rightarrow> bool"
    and distance :: "nat \<Rightarrow> nat \<Rightarrow> nat"
    and valid :: "'s \<Rightarrow> bool"
    and slots :: nat
  assumes switch_ok: "valid s \<Longrightarrow> \<exists>s'. switch s = Some s' \<and> valid s' \<and> ready s' = ready s"
    and switch_closer: "valid s \<Longrightarrow> j < slots \<Longrightarrow> ready s j \<Longrightarrow> cur s \<noteq> j \<Longrightarrow>
      switch s = Some s' \<Longrightarrow> distance (cur s') j < distance (cur s) j"
begin

text \<open>A run: before each switch the running task does some work of its own.\<close>

fun run :: "('s \<Rightarrow> 's) list \<Rightarrow> 's \<Rightarrow> 's list option" where
  "run [] s = Some [s]"
| "run (work # works) s =
     do { s' \<leftarrow> switch (work s); ss \<leftarrow> run works s'; Some (s # ss) }"

definition keeps_ready :: "nat \<Rightarrow> ('s \<Rightarrow> 's) \<Rightarrow> bool" where
  "keeps_ready j work \<longleftrightarrow>
     (\<forall>s. valid s \<longrightarrow> ready s j \<longrightarrow> valid (work s) \<and> ready (work s) j \<and> cur (work s) = cur s)"

lemma run_reaches:
  assumes "valid s" and "j < slots" and "ready s j"
    and "\<forall>work\<in>set works. keeps_ready j work" and "distance (cur s) j \<le> length works"
  shows "\<exists>ss. run works s = Some ss \<and> (\<exists>t\<in>set ss. cur t = j)"
  using assms
proof (induction works arbitrary: s)
  case Nil
  show ?case
  proof (cases "cur s = j")
    case False
    then obtain s' where "switch s = Some s'" using switch_ok[OF Nil.prems(1)] by blast
    with switch_closer[OF Nil.prems(1-3) False] Nil.prems(5) show ?thesis by simp
  qed simp
next
  case (Cons work works)
  then have w: "valid (work s)" "ready (work s) j" "cur (work s) = cur s"
    by (auto simp: keeps_ready_def)
  then obtain s' where s': "switch (work s) = Some s'" "valid s'" "ready s' = ready (work s)"
    using switch_ok by blast
  show ?case
  proof (cases "cur s = j")
    case True
    have "\<exists>ss. run works s' = Some ss"
    proof -
      have "valid s'" "ready s' j" using s' w by auto
      then show ?thesis using Cons.prems(4)
      proof (induction works arbitrary: s')
        case (Cons work works)
        then have "valid (work s')" "ready (work s') j" by (auto simp: keeps_ready_def)
        with switch_ok[of "work s'"] Cons show ?case by fastforce
      qed simp
    qed
    with s'(1) True show ?thesis by auto
  next
    case False
    with w have "distance (cur s') j < distance (cur s) j"
      using switch_closer[OF w(1) Cons.prems(2) w(2) _ s'(1)] by simp
    with Cons.IH[OF s'(2) Cons.prems(2)] Cons.prems s' w show ?thesis by fastforce
  qed
qed

end

interpretation rr: fair_scheduler select_next_task current_task_idx
  "\<lambda>s. runnable_at (tasks s)" slot_distance sched_wf 8
proof unfold_locales
  fix s assume wf: "sched_wf s"
  with select_next_task_spec[OF wf] next_runnable_less[of "current_task_idx s" "tasks s"]
  show "\<exists>s'. select_next_task s = Some s' \<and> sched_wf s' \<and>
      runnable_at (tasks s') = runnable_at (tasks s)"
    by (simp add: sched_wf_def)
next
  fix s s' :: scheduler and j
  assume "sched_wf s" "j < 8" "runnable_at (tasks s) j" "current_task_idx s \<noteq> j"
    "select_next_task s = Some s'"
  then show "slot_distance (current_task_idx s') j < slot_distance (current_task_idx s) j"
    using next_runnable_closer[of "current_task_idx s" j "tasks s"]
    by (auto simp: select_next_task_spec) (auto simp: sched_wf_def)
qed

subsection \<open>Properties\<close>

text \<open>
  \<open>select_next_task\<close> never panics or loops on the eight-slot table: it moves to the first
  runnable slot after the current one in cyclic order, and stays where it is exactly when no
  other slot is runnable.
\<close>

theorem select_next_round_robin:
  assumes "sched_wf s"
  shows "\<exists>n. select_next_task s = Some (s\<lparr>current_task_idx := n\<rparr>) \<and> n < 8 \<and>
    (n = current_task_idx s \<longleftrightarrow>
       (\<forall>j < 8. j \<noteq> current_task_idx s \<longrightarrow> \<not> runnable_at (tasks s) j)) \<and>
    (n \<noteq> current_task_idx s \<longrightarrow> runnable_at (tasks s) n \<and>
       (\<forall>j < 8. slot_distance (current_task_idx s) j < slot_distance (current_task_idx s) n \<longrightarrow>
          j \<noteq> current_task_idx s \<longrightarrow> \<not> runnable_at (tasks s) j))"
proof -
  let ?c = "current_task_idx s" and ?ts = "tasks s"
  let ?n = "next_runnable ?ts ?c"
  have c: "?c < 8" and n: "?n < 8" using assms next_runnable_less by (auto simp: sched_wf_def)
  have closer: "slot_distance ?n j < slot_distance ?c j" if "j < 8" "j \<noteq> ?c" "runnable_at ?ts j" for j
    using next_runnable_closer[OF c that(1)] that by auto
  have stay: "?n = ?c \<longleftrightarrow> (\<forall>j < 8. j \<noteq> ?c \<longrightarrow> \<not> runnable_at ?ts j)"
    using closer next_runnable_runnable[of ?ts ?c] n by fastforce
  have first: "\<not> runnable_at ?ts j"
    if "j < 8" "slot_distance ?c j < slot_distance ?c ?n" "j \<noteq> ?c" for j
    using closer[OF that(1,3)] that(1,2) c n by (auto simp: slot_distance_cases split: if_splits)
  show ?thesis
    using select_next_task_spec[OF assms] n stay first next_runnable_runnable by blast
qed

theorem select_next_round_robin_witness:
  "\<exists>n. select_next_task scheduler_new = Some (scheduler_new\<lparr>current_task_idx := n\<rparr>) \<and> n < 8"
  using select_next_round_robin[OF sched_wf_new] by blast

text \<open>
  No runnable task starves. Whatever the running tasks do between context switches, as long
  as they leave slot \<open>j\<close> runnable and switch only through the scheduler, slot \<open>j\<close> is current
  after at most seven switches.
\<close>

theorem runnable_task_gets_processor:
  assumes "sched_wf s" and "j < 8" and "runnable_at (tasks s) j"
    and "\<forall>work\<in>set works. rr.keeps_ready j work" and "7 \<le> length works"
  shows "\<exists>ss. rr.run works s = Some ss \<and> (\<exists>t\<in>set ss. current_task_idx t = j)"
proof (rule rr.run_reaches[OF assms(1-4)])
  show "slot_distance (current_task_idx s) j \<le> length works"
    using slot_distance_less[of "current_task_idx s" j] assms(5) by linarith
qed

definition demo_task :: "nat \<Rightarrow> task" where
  "demo_task n = \<lparr>task_id = n, task_rsp = 4096 * n, kernel_stack_top = 4096 * n + 160,
     task_state = Ready\<rparr>"

definition demo_scheduler :: scheduler where
  "demo_scheduler = \<lparr>tasks = [Some (demo_task 1), Some (demo_task 2), None, None, None, None, None, None],
     current_task_idx = 0, main_task_rsp = 0\<rparr>"

theorem runnable_task_gets_processor_witness:
  "\<exists>ss. rr.run (replicate 7 (\<lambda>s. s)) demo_scheduler = Some ss \<and>
     (\<exists>t\<in>set ss. current_task_idx t = 1)"
  by (rule runnable_task_gets_processor)
    (simp_all add: demo_scheduler_def sched_wf_def runnable_at_def is_runnable_def demo_task_def
      rr.keeps_ready_def)

end
