(* ===== verification/Decimal.thy ===== *)
theory Decimal
  imports Bytes
begin

text \<open>
  Number and text formatting that several components carry a copy of: the loop that fills a byte
  buffer with decimal digits from its end (\<open>format_num\<close> in \<open>shell.rs\<close>, inlined in \<open>syscall.rs\<close>
  and in the file system server of \<open>main.rs\<close>), and the \<open>append\<close> closure that adds text to a
  fixed buffer and drops what does not fit.
\<close>

subsection \<open>Decimal digits\<close>

text \<open>
  \<open>while val > 0 { idx -= 1; buf[idx] = b'0' + (val % 10) as u8; val /= 10; }\<close>
\<close>

function fill_digits :: "nat \<Rightarrow> nat \<Rightarrow> bytes \<Rightarrow> (nat \<times> bytes) option" where
  "fill_digits val i buf =
     (if val = 0 then Some (i, buf)
      else do {
        i \<leftarrow> usub i 1;
        d \<leftarrow> wadd 0x30 (word_of_nat (val mod 10));
        buf \<leftarrow> upd buf i d;
        fill_digits (val div 10) i buf
      })"
  by pat_completeness auto
termination by (relation "measure (\<lambda>(val, i, buf). val)") auto

declare fill_digits.simps [simp del]

definition format_num :: "nat \<Rightarrow> bytes \<Rightarrow> (nat \<times> bytes) option" where
  "format_num val buf =
     (let i = length buf in
      if val = 0
      then do { i \<leftarrow> usub i 1; buf \<leftarrow> upd buf i 0x30; Some (i, buf) }
      else fill_digits val i buf)"

text \<open>The reference: the digits of a number, most significant first; none for zero.\<close>

fun digits :: "nat \<Rightarrow> bytes" where
  "digits n = (if n = 0 then [] else digits (n div 10) @ [word_of_nat (0x30 + n mod 10)])"

declare digits.simps [simp del]

definition decimal :: "nat \<Rightarrow> bytes" where
  "decimal n = (if n = 0 then [0x30] else digits n)"

text \<open>Reading a decimal number back.\<close>

definition undecimal :: "bytes \<Rightarrow> nat" where
  "undecimal bs = foldl (\<lambda>acc b. acc * 10 + (unat b - 0x30)) 0 bs"

lemma digits_0 [simp]: "digits 0 = []"
  by (simp add: digits.simps)

lemma digits_step: "0 < n \<Longrightarrow> digits n = digits (n div 10) @ [word_of_nat (0x30 + n mod 10)]"
  by (subst digits.simps) simp

lemma digit_unat: "unat (word_of_nat (0x30 + n mod 10) :: u8) = 0x30 + n mod 10"
proof -
  have "n mod 10 < 10" by simp
  then show ?thesis by (simp only: unat_of_nat) simp
qed

lemma wadd_digit: "wadd 0x30 (word_of_nat (n mod 10) :: u8) = Some (word_of_nat (0x30 + n mod 10))"
proof -
  have "n mod 10 < 10" by simp
  then have "unat (word_of_nat (n mod 10) :: u8) = n mod 10" by (simp only: unat_of_nat) simp
  with \<open>n mod 10 < 10\<close> show ?thesis by (simp add: wadd_def)
qed

lemma undecimal_append: "undecimal (bs @ [b]) = undecimal bs * 10 + (unat b - 0x30)"
  by (simp add: undecimal_def)

lemma undecimal_digits: "undecimal (digits n) = n"
proof (induction n rule: digits.induct)
  case (1 n)
  show ?case
  proof (cases "n = 0")
    case False
    with 1 have "undecimal (digits (n div 10)) = n div 10" by blast
    moreover have "undecimal (digits n) =
        undecimal (digits (n div 10)) * 10 + (unat (word_of_nat (0x30 + n mod 10) :: u8) - 0x30)"
      using False unfolding digits_step[OF False[unfolded neq0_conv]] by (simp only: undecimal_append)
    ultimately show ?thesis by (simp only: digit_unat) simp
  qed (simp add: undecimal_def)
qed

lemma digits_ascii: "b \<in> set (digits n) \<Longrightarrow> 0x30 \<le> unat b \<and> unat b \<le> 0x39"
proof (induction n rule: digits.induct)
  case (1 n)
  show ?case
  proof (cases "n = 0")
    case False
    have "n mod 10 \<le> 9" by presburger
    with 1 False digits_step[of n] digit_unat[of n] show ?thesis by auto
  qed (use 1 in simp)
qed

lemma length_digits: "n < 10 ^ k \<longleftrightarrow> length (digits n) \<le> k"
proof (induction k arbitrary: n)
  case 0
  then show ?case by (cases "n = 0") (auto simp: digits_step)
next
  case (Suc k)
  show ?case
  proof (cases "n = 0")
    case False
    have "n < 10 ^ Suc k \<longleftrightarrow> n div 10 < 10 ^ k" by (auto simp: div_less_iff_less_mult mult.commute)
    with Suc.IH[of "n div 10"] False show ?thesis by (simp add: digits_step)
  qed simp
qed

lemma overwrite_snoc:
  "k + length ds < length buf \<Longrightarrow>
     overwrite (buf[k + length ds := d]) k ds = overwrite buf k (ds @ [d])"
  by (rule nth_equalityI) (auto simp: nth_overwrite nth_append nth_list_update)

text \<open>The loop writes exactly those digits, and panics exactly when they do not fit.\<close>

lemma fill_digits_spec:
  assumes "i \<le> length buf" and "length buf < usize_bound"
  shows "fill_digits val i buf =
    (if length (digits val) \<le> i
     then Some (i - length (digits val), overwrite buf (i - length (digits val)) (digits val))
     else None)"
  using assms
proof (induction val i buf rule: fill_digits.induct)
  case (1 val i buf)
  show ?case
  proof (cases "val = 0 \<or> i = 0")
    case True
    then show ?thesis
      using digits_step[of val] by (subst fill_digits.simps) (auto simp: usub_def)
  next
    case False
    let ?d = "word_of_nat (0x30 + val mod 10) :: u8" and ?ds = "digits (val div 10)"
    let ?buf = "buf[i - 1 := ?d]"
    have "0 < i" using False by simp
    with "1.prems" have lt: "i - 1 < length buf" by linarith
    have step: "fill_digits val i buf = fill_digits (val div 10) (i - 1) ?buf"
      using False lt by (subst fill_digits.simps) (simp add: usub_def wadd_digit upd_ok del: of_nat_add)
    have ih: "fill_digits (val div 10) (i - 1) ?buf =
        (if length ?ds \<le> i - 1
         then Some (i - 1 - length ?ds, overwrite ?buf (i - 1 - length ?ds) ?ds) else None)"
      by (rule "1.IH") (use False "1.prems" lt in \<open>auto simp: usub_def wadd_digit upd_def\<close>)
    have ds: "digits val = ?ds @ [?d]" using False digits_step by blast
    have "overwrite ?buf (i - 1 - length ?ds) ?ds = overwrite buf (i - Suc (length ?ds)) (?ds @ [?d])"
      if "length ?ds \<le> i - 1"
    proof -
      define k where "k = i - Suc (length ?ds)"
      have k: "i - 1 = k + length ?ds" "k + length ?ds < length buf"
        using that \<open>0 < i\<close> lt by (simp_all add: k_def)
      then have "i - 1 - length ?ds = k" by simp
      with overwrite_snoc[OF k(2), of ?d] k(1) show ?thesis by (simp only: k_def[symmetric])
    qed
    with step ih ds False show ?thesis by (auto simp del: of_nat_add)
  qed
qed

text \<open>The text a caller takes from the buffer, \<open>&buf[idx..]\<close>, is the number in decimal.\<close>

lemma drop_overwrite_end:
  "length ds \<le> length buf \<Longrightarrow>
     drop (length buf - length ds) (overwrite buf (length buf - length ds) ds) = ds"
  by (simp add: overwrite_def)

lemma format_num_spec:
  assumes "0 < length buf" and "length buf < usize_bound"
  shows "format_num val buf =
    (if length (decimal val) \<le> length buf
     then Some (length buf - length (decimal val),
       overwrite buf (length buf - length (decimal val)) (decimal val))
     else None)"
proof (cases "val = 0")
  case True
  have "buf[length buf - 1 := 0x30] = overwrite buf (length buf - 1) [0x30]"
    using assms(1) by (intro nth_equalityI) (auto simp: nth_overwrite nth_list_update)
  with True assms show ?thesis by (simp add: format_num_def decimal_def usub_def upd_def Suc_le_eq Let_def)
next
  case False
  with fill_digits_spec[of "length buf" buf val] assms show ?thesis
    by (simp add: format_num_def decimal_def)
qed

lemma decimal_ascii: "\<forall>b\<in>set (decimal n). b < 0x80"
proof
  fix b assume "b \<in> set (decimal n)"
  then have "unat b \<le> 0x39"
    using digits_ascii[of b n] by (auto simp: decimal_def split: if_splits)
  then show "b < 0x80" by (simp add: word_less_nat_alt)
qed

text \<open>A \<open>usize\<close> has at most twenty digits, so a buffer of twenty bytes is always enough.\<close>

lemma decimal_fits_20: "n < usize_bound \<Longrightarrow> length (decimal n) \<le> 20"
  using length_digits[of n 20] by (simp add: decimal_def usize_bound_def)

lemma undecimal_decimal: "undecimal (decimal n) = n"
  by (simp add: decimal_def undecimal_digits) (simp add: undecimal_def)

subsection \<open>Appending to a fixed buffer\<close>

text \<open>The closure \<open>append\<close>: the buffer and its cursor.\<close>

definition append_text :: "bytes \<Rightarrow> bytes \<times> nat \<Rightarrow> (bytes \<times> nat) option" where
  "append_text s st =
     (case st of (buf, cursor) \<Rightarrow>
        do {
          room \<leftarrow> usub (length buf) cursor;
          let len = min (length s) room;
          buf \<leftarrow> copy_slice buf cursor (take len s);
          cursor \<leftarrow> uadd cursor len;
          Some (buf, cursor)
        })"

text \<open>
  The state after appending the text \<open>out\<close> to an empty buffer of \<open>n\<close> bytes: as much of it as
  fits, then zeros.
\<close>

definition filled :: "nat \<Rightarrow> bytes \<Rightarrow> bytes \<times> nat" where
  "filled n out = (take n out @ replicate (n - length out) 0, min n (length out))"

lemma filled_Nil: "filled n [] = (replicate n 0, 0)"
  by (simp add: filled_def)

lemma append_filled:
  assumes "n < usize_bound"
  shows "append_text s (filled n out) = Some (filled n (out @ s))"
proof (cases "n \<le> length out")
  case True
  with assms show ?thesis
    by (simp add: append_text_def filled_def usub_def uadd_def copy_slice_def overwrite_def min_def Let_def)
next
  case False
  let ?len = "min (length s) (n - length out)"
  have "overwrite (out @ replicate (n - length out) 0) (length out) (take ?len s) =
      take n (out @ s) @ replicate (n - length (out @ s)) 0"
    using False by (simp add: overwrite_def min_def)
  with False assms show ?thesis
    by (auto simp: append_text_def filled_def usub_def uadd_def copy_slice_def min_def Let_def)
qed

text \<open>A number appended through a buffer of \<open>k\<close> bytes, if its digits fit there.\<close>

definition append_num :: "nat \<Rightarrow> nat \<Rightarrow> bytes \<times> nat \<Rightarrow> (bytes \<times> nat) option" where
  "append_num k val st =
     do {
       (i, buf) \<leftarrow> format_num val (replicate k 0);
       case from_utf8 (drop i buf) of
         Some s \<Rightarrow> append_text s st
       | None \<Rightarrow> Some st
     }"

lemma append_num_filled:
  assumes "n < usize_bound" and "0 < k" and "k < usize_bound"
  shows "append_num k val (filled n out) =
    (if length (decimal val) \<le> k then Some (filled n (out @ decimal val)) else None)"
  using format_num_spec[of "replicate k 0" val] assms
    drop_overwrite_end[of "decimal val" "replicate k 0"] decimal_ascii[of val]
  by (simp add: append_num_def append_filled)

text \<open>The same without the special case for zero, whose text is then empty.\<close>

definition append_digits :: "nat \<Rightarrow> nat \<Rightarrow> bytes \<times> nat \<Rightarrow> (bytes \<times> nat) option" where
  "append_digits k val st =
     do {
       (i, buf) \<leftarrow> fill_digits val k (replicate k 0);
       case from_utf8 (drop i buf) of
         Some s \<Rightarrow> append_text s st
       | None \<Rightarrow> Some st
     }"

lemma append_digits_filled:
  assumes "n < usize_bound" and "k < usize_bound"
  shows "append_digits k val (filled n out) =
    (if length (digits val) \<le> k then Some (filled n (out @ digits val)) else None)"
proof -
  have "\<forall>b\<in>set (digits val). b < 0x80"
    using decimal_ascii[of val] by (cases "val = 0") (simp_all add: decimal_def)
  then show ?thesis
    using fill_digits_spec[of k "replicate k 0" val] assms
      drop_overwrite_end[of "digits val" "replicate k 0"]
    by (simp add: append_digits_def append_filled)
qed

end
