(* ===== verification/Shell.thy ===== *)
theory Shell
  imports Shared_Fs Devices Task Decimal
begin

text \<open>
  The shell of \<open>kernel/src/shell.rs\<close>: the line editor and every command. What the shell asks of
  the system is the record \<open>os\<close>, one operation per system call it makes; a \<open>None\<close> is a panic of
  the shell or a call that never returns. The arrays it passes to servers by address are locals,
  at the addresses a function \<open>at\<close> gives.
\<close>

subsection \<open>System calls\<close>

text \<open>
  Calls 1 (the bytes printed), 3 followed by 4 (a request and the answer), 5, 6 (the buffer, its
  length, and the count returned), 7, 8 (the address of the four words), 9, 10 and 11.
\<close>

record 'w os =
  os_mem :: "'w \<Rightarrow> mem"
  os_set_mem :: "mem \<Rightarrow> 'w \<Rightarrow> 'w"
  os_print :: "bytes \<Rightarrow> 'w \<Rightarrow> 'w option"
  os_call :: "nat \<Rightarrow> message \<Rightarrow> 'w \<Rightarrow> (message \<times> 'w) option"
  os_used :: "'w \<Rightarrow> nat"
  os_task_info :: "nat \<Rightarrow> nat \<Rightarrow> 'w \<Rightarrow> (nat \<times> 'w) option"
  os_ticks :: "'w \<Rightarrow> nat"
  os_gop_info :: "nat \<Rightarrow> 'w \<Rightarrow> u64 \<times> 'w"
  os_reboot :: "'w \<Rightarrow> 'w option"
  os_shutdown :: "'w \<Rightarrow> 'w option"
  os_gfx_demo :: "'w \<Rightarrow> 'w option"

datatype local =
  Fs_Buf | F_Buf | File_Content | Task_Buf | Sector_Buf | Info_Buf | Mbr_Sector | Sb_Sector

type_synonym locals = "local \<Rightarrow> nat"

text \<open>\<open>let mut x = [0u8; n]\<close>, and the bytes of such an array.\<close>

definition new_local :: "'w os \<Rightarrow> nat \<Rightarrow> nat \<Rightarrow> 'w \<Rightarrow> 'w" where
  "new_local os a n w = os_set_mem os (store (os_mem os w) a (replicate n 0)) w"

definition bytes_at :: "'w os \<Rightarrow> nat \<Rightarrow> nat \<Rightarrow> 'w \<Rightarrow> bytes" where
  "bytes_at os a n w = load (os_mem os w) a n"

definition print_str :: "'w os \<Rightarrow> string \<Rightarrow> 'w \<Rightarrow> 'w option" where
  "print_str os s = os_print os (str s)"

text \<open>Several prints in a row.\<close>

fun print_all :: "'w os \<Rightarrow> bytes list \<Rightarrow> 'w \<Rightarrow> 'w option" where
  "print_all os [] w = Some w"
| "print_all os (s # ss) w = do { w \<leftarrow> os_print os s w; print_all os ss w }"

text \<open>A number formatted in a 20-byte buffer, as text.\<close>

definition num_text :: "nat \<Rightarrow> bytes option" where
  "num_text val =
     do {
       (i, buf) \<leftarrow> format_num val (replicate 20 0);
       Some (case from_utf8 (drop i buf) of Some s \<Rightarrow> s | None \<Rightarrow> [])
     }"

definition shell_request :: "u64 \<Rightarrow> nat \<Rightarrow> nat \<Rightarrow> nat \<Rightarrow> message" where
  "shell_request t a b c = \<lparr>sender = 1, msg_type = t, arg1 = word_of_nat a, arg2 = word_of_nat b,
     arg3 = word_of_nat c, arg4 = 0\<rparr>"

subsection \<open>Text\<close>

text \<open>The encodings of the white space that \<open>str::trim\<close> removes.\<close>

definition white_space :: "bytes list" where
  "white_space =
     [[0x09], [0x0A], [0x0B], [0x0C], [0x0D], [0x20], [0xC2, 0x85], [0xC2, 0xA0],
      [0xE1, 0x9A, 0x80]] @
     map (\<lambda>i. [0xE2, 0x80, 0x80 + word_of_nat i]) [0..<11] @
     [[0xE2, 0x80, 0xA8], [0xE2, 0x80, 0xA9], [0xE2, 0x80, 0xAF], [0xE2, 0x81, 0x9F],
      [0xE3, 0x80, 0x80]]"

fun trim_prefix :: "bytes list \<Rightarrow> nat \<Rightarrow> bytes \<Rightarrow> bytes" where
  "trim_prefix ps 0 s = s"
| "trim_prefix ps (Suc k) s =
     (case find (\<lambda>p. take (length p) s = p) ps of
        Some p \<Rightarrow> trim_prefix ps k (drop (length p) s)
      | None \<Rightarrow> s)"

definition trim :: "bytes \<Rightarrow> bytes" where
  "trim s =
     (let s = trim_prefix white_space (length s) s
      in rev (trim_prefix (map rev white_space) (length s) (rev s)))"

definition strip_prefix :: "string \<Rightarrow> bytes \<Rightarrow> bytes option" where
  "strip_prefix p s = (if take (length p) s = str p then Some (drop (length p) s) else None)"

subsection \<open>Commands\<close>

definition cmd_help :: "'w os \<Rightarrow> 'w \<Rightarrow> 'w option" where
  "cmd_help os = os_print os
     (str ''Available commands:'' @ [0x0A] @
      str ''help           - Show this help menu'' @ [0x0A] @
      str ''ls             - List directory files'' @ [0x0A] @
      str ''cat <filename> - Print file contents'' @ [0x0A] @
      str ''clear          - Clear the screen'' @ [0x0A] @
      str ''free           - Show heap allocator memory stats'' @ [0x0A] @
      str ''sysinfo        - Display active system tasks and info'' @ [0x0A] @
      str ''dump <lba>     - Hex/ASCII dump of specified disk sector'' @ [0x0A] @
      str ''echo <text>    - Print back the entered text'' @ [0x0A] @
      str ''uptime         - Show system uptime in seconds'' @ [0x0A] @
      str ''gopinfo        - Display graphics parameters'' @ [0x0A] @
      str ''gfxdemo        - Launch Nyan Cat space graphics demo!'' @ [0x0A] @
      str ''diskinfo       - Show disk partition and RelizFS info'' @ [0x0A] @
      str ''reboot         - Reboot the machine'' @ [0x0A] @
      str ''shutdown       - Shutdown the machine'' @ [0x0A])"

text \<open>\<open>while fs_buf[len] != 0 && len < fs_buf.len()\<close>: without a NUL the index runs out.\<close>

fun nul_index :: "bytes \<Rightarrow> nat option" where
  "nul_index [] = None"
| "nul_index (b # bs) = (if b = 0 then Some 0 else map_option Suc (nul_index bs))"

definition cmd_ls :: "'w os \<Rightarrow> locals \<Rightarrow> 'w \<Rightarrow> 'w option" where
  "cmd_ls os at w =
     do {
       let w = new_local os (at Fs_Buf) 1024 w;
       (resp, w) \<leftarrow> os_call os 2 (shell_request 10 (at Fs_Buf) 1024 0) w;
       if msg_type resp = 0 then
         do {
           len \<leftarrow> nul_index (bytes_at os (at Fs_Buf) 1024 w);
           os_print os (bytes_at os (at Fs_Buf) len w) w
         }
       else os_print os (str ''Error reading directory listing!'' @ [0x0A]) w
     }"

definition cmd_cat :: "'w os \<Rightarrow> locals \<Rightarrow> bytes \<Rightarrow> 'w \<Rightarrow> 'w option" where
  "cmd_cat os at filename w =
     (if filename = [] then Some w
      else do {
        let copy_len = min (length filename) 31;
        f_buf \<leftarrow> copy_slice (replicate 32 0) 0 (take copy_len filename);
        f_buf \<leftarrow> upd f_buf copy_len 0;
        let w = os_set_mem os (store (os_mem os w) (at F_Buf) f_buf) w;
        let w = new_local os (at File_Content) 512 w;
        (resp, w) \<leftarrow> os_call os 2 (shell_request 11 (at F_Buf) (at File_Content) 512) w;
        if msg_type resp = 0 then
          do {
            let read_bytes = unat (arg1 resp);
            w \<leftarrow> os_print os (bytes_at os (at File_Content) read_bytes w) w;
            os_print os [0x0A] w
          }
        else os_print os (str ''File not found!'' @ [0x0A]) w
      })"

definition cmd_free :: "'w os \<Rightarrow> 'w \<Rightarrow> 'w option" where
  "cmd_free os w =
     do {
       let used_mem = os_used os w;
       let total = 1024 * 1024;
       free \<leftarrow> usub total used_mem;
       total_text \<leftarrow> num_text total;
       used_text \<leftarrow> num_text used_mem;
       free_text \<leftarrow> num_text free;
       (output, out_len) \<leftarrow> for_each
         [str ''Heap Memory Stats:'' @ [0x0A] @ str ''  Total size: '', total_text,
          str '' bytes'' @ [0x0A] @ str ''  Used size:  '', used_text,
          str '' bytes'' @ [0x0A] @ str ''  Free size:  '', free_text,
          str '' bytes'' @ [0x0A]] append_text (replicate 128 0, 0);
       os_print os (take out_len output) w
     }"

definition cmd_sysinfo :: "'w os \<Rightarrow> locals \<Rightarrow> 'w \<Rightarrow> 'w option" where
  "cmd_sysinfo os at w =
     do {
       let w = new_local os (at Task_Buf) 512 w;
       (copied_bytes, w) \<leftarrow> os_task_info os (at Task_Buf) 512 w;
       w \<leftarrow> os_print os
         (str ''System Information:'' @ [0x0A] @
          str ''  OS:           RelizOS-Rust v0.1.0'' @ [0x0A] @
          str ''  Architecture: x86_64 UEFI'' @ [0x0A] @
          str ''  Heap Limit:   1024 KiB'' @ [0x0A, 0x0A] @ str ''Active Tasks:'' @ [0x0A]) w;
       os_print os (bytes_at os (at Task_Buf) copied_bytes w) w
     }"

text \<open>The digits at the start of \<open>dump\<close>'s argument, in a \<open>u32\<close> that may overflow.\<close>

fun parse_lba :: "bytes \<Rightarrow> u32 \<Rightarrow> u32 option" where
  "parse_lba [] lba = Some lba"
| "parse_lba (b # bs) lba =
     (if 0x30 \<le> b \<and> b \<le> 0x39 then
        do { lba \<leftarrow> wmul lba 10; lba \<leftarrow> wadd lba (ucast (b - 0x30)); parse_lba bs lba }
      else Some lba)"

definition hex_chars :: bytes where
  "hex_chars = str ''0123456789ABCDEF''"

definition put :: "bytes \<Rightarrow> bytes \<times> nat \<Rightarrow> (bytes \<times> nat) option" where
  "put s st =
     (case st of (buf, cursor) \<Rightarrow>
        do { buf \<leftarrow> copy_slice buf cursor s; cursor \<leftarrow> uadd cursor (length s); Some (buf, cursor) })"

definition hex_byte :: "u8 \<Rightarrow> bytes option" where
  "hex_byte b =
     do {
       h \<leftarrow> idx hex_chars (unat (drop_bit 4 b));
       l \<leftarrow> idx hex_chars (unat (b AND 0xF));
       Some [h, l]
     }"

text \<open>Line \<open>line\<close> of a sector dump.\<close>

definition dump_line :: "bytes \<Rightarrow> nat \<Rightarrow> (bytes \<times> nat) option" where
  "dump_line sector_buf line =
     do {
       let offset = line * 16;
       h2 \<leftarrow> idx hex_chars (drop_bit 8 offset AND 0xF);
       h1 \<leftarrow> idx hex_chars (drop_bit 4 offset AND 0xF);
       h0 \<leftarrow> idx hex_chars (offset AND 0xF);
       st \<leftarrow> put [0x30, h2, h1, h0, 0x3A, 0x20] (replicate 80 0, 0);
       st \<leftarrow> for_range 16 (\<lambda>i st.
         do { b \<leftarrow> idx sector_buf (offset + i); h \<leftarrow> hex_byte b; put (h @ [0x20]) st }) st;
       st \<leftarrow> put (str '' |'') st;
       st \<leftarrow> for_range 16 (\<lambda>i st.
         do {
           b \<leftarrow> idx sector_buf (offset + i);
           put [if 32 \<le> b \<and> b \<le> 126 then b else 0x2E] st
         }) st;
       put (str ''|'' @ [0x0A]) st
     }"

text \<open>A sector through the ATA server, into a local array.\<close>

definition read_lba :: "'w os \<Rightarrow> nat \<Rightarrow> u32 \<Rightarrow> 'w \<Rightarrow> (message \<times> 'w) option" where
  "read_lba os a lba w =
     os_call os 3 (shell_request 1 (unat lba) a 0) (new_local os a 512 w)"

definition cmd_dump :: "'w os \<Rightarrow> locals \<Rightarrow> bytes \<Rightarrow> 'w \<Rightarrow> 'w option" where
  "cmd_dump os at lba_str w =
     do {
       lba \<leftarrow> parse_lba lba_str 0;
       (resp, w) \<leftarrow> read_lba os (at Sector_Buf) lba w;
       if msg_type resp = 0 then
         for_range 32 (\<lambda>line w.
           do {
             (line_buf, cursor) \<leftarrow> dump_line (bytes_at os (at Sector_Buf) 512 w) line;
             os_print os (take cursor line_buf) w
           }) w
       else os_print os (str ''Error reading sector from disk!'' @ [0x0A]) w
     }"

definition cmd_echo :: "'w os \<Rightarrow> bytes \<Rightarrow> 'w \<Rightarrow> 'w option" where
  "cmd_echo os text = print_all os [text, [0x0A]]"

definition cmd_uptime :: "'w os \<Rightarrow> 'w \<Rightarrow> 'w option" where
  "cmd_uptime os w =
     do {
       let ticks = os_ticks os w;
       seconds \<leftarrow> udiv ticks (unat PIT_HZ);
       sec_text \<leftarrow> num_text seconds;
       tick_text \<leftarrow> num_text ticks;
       print_all os [str ''System Uptime: '', sec_text, str '' seconds ('', tick_text,
         str '' raw ticks)'' @ [0x0A]] w
     }"

definition cmd_gopinfo :: "'w os \<Rightarrow> locals \<Rightarrow> 'w \<Rightarrow> 'w option" where
  "cmd_gopinfo os at w =
     (case os_gop_info os (at Info_Buf) (new_local os (at Info_Buf) 32 w) of
        (ret, w) \<Rightarrow>
          let word = (\<lambda>i. unat (load64 (os_mem os w) (at Info_Buf + 8 * i))) in
          if ret = 0 then
            do {
              width \<leftarrow> num_text (word 0);
              height \<leftarrow> num_text (word 1);
              stride \<leftarrow> num_text (word 2);
              bpp \<leftarrow> num_text (word 3);
              print_all os
                [str ''Graphics GOP Settings:'' @ [0x0A] @ str ''  Resolution:      '', width,
                 str ''x'', height, [0x0A] @ str ''  Scanline Stride: '', stride,
                 str '' pixels'' @ [0x0A] @ str ''  Bytes per Pixel: '', bpp, [0x0A]] w
            }
          else os_print os (str ''Failed to query GOP graphics info!'' @ [0x0A]) w)"

definition cmd_gfxdemo :: "'w os \<Rightarrow> 'w \<Rightarrow> 'w option" where
  "cmd_gfxdemo os w =
     do {
       w \<leftarrow> os_print os (str ''Launching Nyan Cat Graphics Demo... (Enjoy!)'' @ [0x0A]) w;
       os_gfx_demo os w
     }"

text \<open>The sixteen hexadecimal digits of the magic number.\<close>

definition magic_text :: "u64 \<Rightarrow> bytes option" where
  "magic_text magic =
     do {
       magic_str \<leftarrow> for_range 8 (\<lambda>i s.
         do {
           h \<leftarrow> hex_byte (ucast (drop_bit (56 - i * 8) magic AND 0xFF));
           s \<leftarrow> upd s (i * 2) (h ! 0);
           upd s (i * 2 + 1) (h ! 1)
         }) (replicate 16 0);
       Some (case from_utf8 magic_str of Some s \<Rightarrow> s | None \<Rightarrow> [])
     }"

definition cmd_diskinfo :: "'w os \<Rightarrow> locals \<Rightarrow> 'w \<Rightarrow> 'w option" where
  "cmd_diskinfo os at w =
     do {
       (resp_mbr, w) \<leftarrow> read_lba os (at Mbr_Sector) 0 w;
       (resp_sb, w) \<leftarrow> read_lba os (at Sb_Sector) 40002 w;
       if msg_type resp_mbr = 0 \<and> msg_type resp_sb = 0 then
         do {
           let partition_start = u32_from_le (bytes_at os (at Mbr_Sector + (446 + 8)) 4 w);
           let partition_sectors = u32_from_le (bytes_at os (at Mbr_Sector + (446 + 12)) 4 w);
           let sb = superblock_from_bytes (bytes_at os (at Sb_Sector) 512 w);
           start \<leftarrow> num_text (unat partition_start);
           sect \<leftarrow> num_text (unat partition_sectors);
           blocks \<leftarrow> num_text (unat (sb_total_blocks sb));
           inodes \<leftarrow> num_text (unat (sb_inode_count sb));
           w \<leftarrow> print_all os
             [str ''Primary Disk Storage Info:'' @ [0x0A],
              str ''  ATA Drive Channel: Primary Master (0)'' @ [0x0A],
              str ''  Partition 1 LBA:   '', start, [0x0A] @ str ''  Partition Sectors: '', sect,
              [0x0A, 0x0A] @ str ''Mount volume: RelizFS File System'' @ [0x0A],
              str ''  Superblock Magic:  0x''] w;
           magic \<leftarrow> magic_text (sb_magic sb);
           print_all os
             [magic, [0x0A] @ str ''  Total FS Blocks:   '', blocks,
              [0x0A] @ str ''  Total FS Inodes:   '', inodes, [0x0A]] w
         }
       else os_print os (str ''Failed to query drive parameters via ATA Server IPC!'' @ [0x0A]) w
     }"

definition cmd_reboot :: "'w os \<Rightarrow> 'w \<Rightarrow> 'w option" where
  "cmd_reboot os w = do { w \<leftarrow> os_print os (str ''Rebooting system...'' @ [0x0A]) w; os_reboot os w }"

definition cmd_shutdown :: "'w os \<Rightarrow> 'w \<Rightarrow> 'w option" where
  "cmd_shutdown os w =
     do { w \<leftarrow> os_print os (str ''Shutting down RelizOS-Rust...'' @ [0x0A]) w; os_shutdown os w }"

definition run_command :: "'w os \<Rightarrow> locals \<Rightarrow> bytes \<Rightarrow> 'w \<Rightarrow> 'w option" where
  "run_command os at trimmed w =
     (if trimmed = str ''help'' then cmd_help os w
      else if trimmed = str ''ls'' then cmd_ls os at w
      else case strip_prefix ''cat '' trimmed of Some filename \<Rightarrow> cmd_cat os at (trim filename) w
      | None \<Rightarrow>
      if trimmed = str ''clear'' then os_print os [0x0C] w
      else if trimmed = str ''free'' then cmd_free os w
      else if trimmed = str ''sysinfo'' then cmd_sysinfo os at w
      else case strip_prefix ''dump '' trimmed of Some lba_str \<Rightarrow> cmd_dump os at (trim lba_str) w
      | None \<Rightarrow>
      case strip_prefix ''echo '' trimmed of Some text \<Rightarrow> cmd_echo os text w
      | None \<Rightarrow>
      if trimmed = str ''uptime'' then cmd_uptime os w
      else if trimmed = str ''gopinfo'' then cmd_gopinfo os at w
      else if trimmed = str ''gfxdemo'' then cmd_gfxdemo os w
      else if trimmed = str ''diskinfo'' then cmd_diskinfo os at w
      else if trimmed = str ''reboot'' then cmd_reboot os w
      else if trimmed = str ''shutdown'' then cmd_shutdown os w
      else os_print os (str ''Unknown command. Type '' @ [0x27] @ str ''help'' @ [0x27] @
        str '' for options.'' @ [0x0A]) w)"

subsection \<open>The line editor\<close>

record shell =
  cmd_buf :: bytes
  cmd_len :: nat

definition shell_new :: shell where
  "shell_new = \<lparr>cmd_buf = replicate 64 0, cmd_len = 0\<rparr>"

definition prompt :: bytes where
  "prompt = str ''relizos> ''"

definition shell_start :: "'w os \<Rightarrow> 'w \<Rightarrow> (shell \<times> 'w) option" where
  "shell_start os w =
     do {
       w \<leftarrow> print_all os
         [[0x0A] @ str ''=========================================================='' @ [0x0A] @
          str ''Welcome to RelizOS Interactive Shell!                     '' @ [0x0A] @
          str ''=========================================================='' @ [0x0A] @
          str ''Type '' @ [0x27] @ str ''help'' @ [0x27] @ str '' to see list of available commands.'' @
          [0x0A, 0x0A], prompt] w;
       Some (shell_new, w)
     }"

definition shell_enter :: "'w os \<Rightarrow> locals \<Rightarrow> shell \<Rightarrow> 'w \<Rightarrow> (shell \<times> 'w) option" where
  "shell_enter os at s w =
     do {
       w \<leftarrow> os_print os [0x0A] w;
       w \<leftarrow> (if 0 < cmd_len s then
               (case from_utf8 (take (cmd_len s) (cmd_buf s)) of
                  Some cmd_str \<Rightarrow> run_command os at (trim cmd_str) w
                | None \<Rightarrow> Some w)
             else Some w);
       w \<leftarrow> os_print os prompt w;
       Some (s\<lparr>cmd_len := 0\<rparr>, w)
     }"

definition shell_key :: "'w os \<Rightarrow> locals \<Rightarrow> u8 \<Rightarrow> shell \<Rightarrow> 'w \<Rightarrow> (shell \<times> 'w) option" where
  "shell_key os at c s w =
     (if c = 0x0A then shell_enter os at s w
      else if c = 0x08 then
        (if 0 < cmd_len s then
           do { w \<leftarrow> os_print os [0x08] w; Some (s\<lparr>cmd_len := cmd_len s - 1\<rparr>, w) }
         else Some (s, w))
      else if cmd_len s < length (cmd_buf s) then
        do {
          buf \<leftarrow> upd (cmd_buf s) (cmd_len s) c;
          w \<leftarrow> os_print os [c] w;
          Some (s\<lparr>cmd_buf := buf, cmd_len := cmd_len s + 1\<rparr>, w)
        }
      else Some (s, w))"

definition shell_message :: "'w os \<Rightarrow> locals \<Rightarrow> message \<Rightarrow> shell \<times> 'w \<Rightarrow> (shell \<times> 'w) option" where
  "shell_message os at msg st =
     (case st of (s, w) \<Rightarrow>
        if msg_type msg = 20 then shell_key os at (ucast (arg1 msg)) s w else Some (s, w))"

end
