(* ===== verification/Host_Format.thy ===== *)
theory Host_Format
  imports Shared_Fs
begin

text \<open>
  \<open>host-tool/src/main.rs\<close>: the formatter that writes a RelizFS volume into a disk image.
  The image is an open file (its length, its bytes, the seek position); file operations are
  taken to succeed, as the tool's \<open>expect\<close> and \<open>unwrap\<close> require. The steps of \<open>main\<close> are
  one definition each, in the order of the code.
\<close>

subsection \<open>The open image file\<close>

record host_file =
  hf_len :: nat
  hf_data :: mem
  hf_pos :: nat

definition file_seek :: "nat \<Rightarrow> host_file \<Rightarrow> host_file" where
  "file_seek p f = f\<lparr>hf_pos := p\<rparr>"

definition file_write_all :: "bytes \<Rightarrow> host_file \<Rightarrow> host_file" where
  "file_write_all bs f =
     f\<lparr>hf_data := store (hf_data f) (hf_pos f) bs,
       hf_len := max (hf_len f) (hf_pos f + length bs),
       hf_pos := hf_pos f + length bs\<rparr>"

text \<open>\<open>set_len\<close> cuts the file or extends it with zero bytes.\<close>

definition file_set_len :: "nat \<Rightarrow> host_file \<Rightarrow> host_file" where
  "file_set_len n f =
     f\<lparr>hf_len := n, hf_data := (\<lambda>x. if x < hf_len f \<and> x < n then hf_data f x else 0)\<rparr>"

text \<open>\<open>seek(SeekFrom::Start((sector_offset + k) * BLOCK_SIZE))\<close>, in checked \<open>u64\<close> arithmetic.\<close>

definition seek_sector :: "nat \<Rightarrow> nat \<Rightarrow> host_file \<Rightarrow> host_file option" where
  "seek_sector sector_offset k f = do {
     s \<leftarrow> uadd sector_offset k;
     p \<leftarrow> umul s BLOCK_SIZE;
     Some (file_seek p f)
   }"

subsection \<open>What the tool writes\<close>

definition fmt_total_blocks :: u32 where "fmt_total_blocks = 4096"
definition fmt_data_blocks_start :: u32 where "fmt_data_blocks_start = 13"

definition fmt_superblock :: superblock where
  "fmt_superblock =
     \<lparr>sb_magic = RELIZFS_MAGIC, sb_total_blocks = fmt_total_blocks, sb_inode_count = 64,
      sb_inode_table_start = 3, sb_inode_table_blocks = 8, sb_inode_bitmap_start = 11,
      sb_block_bitmap_start = 12, sb_data_blocks_start = fmt_data_blocks_start,
      sb_data_blocks_count = fmt_total_blocks - fmt_data_blocks_start\<rparr>"

definition fmt_bitmap :: bytes where
  "fmt_bitmap = (replicate BLOCK_SIZE 0)[0 := 3]"

definition fmt_inode :: "u64 \<Rightarrow> u8 \<Rightarrow> u32 \<Rightarrow> inode" where
  "fmt_inode sz file_type first_block =
     \<lparr>in_size = sz, in_file_type = file_type, in_reserved_flags = 0,
      in_direct_blocks = (replicate DIRECT_BLOCKS_COUNT 0)[0 := first_block],
      in_single_indirect = 0, in_double_indirect = 0, in_reserved = replicate 6 0\<rparr>"

definition test_file_bytes :: bytes where
  "test_file_bytes =
     str ''Hello from RelizFS on Rust UEFI!'' @ [10] @
     str ''If you can read this, your custom filesystem driver works perfectly!'' @ [10]"

definition fmt_root_inode :: inode where
  "fmt_root_inode = fmt_inode (of_nat BLOCK_SIZE) 2 fmt_data_blocks_start"

definition fmt_hello_inode :: inode where
  "fmt_hello_inode =
     fmt_inode (of_nat (length test_file_bytes)) 1 (fmt_data_blocks_start + 1)"

definition fmt_dir_entries :: "directory_entry list" where
  "fmt_dir_entries = [dirent_new 0 (str ''.''), dirent_new 0 (str ''..''),
     dirent_new 1 (str ''hello.txt'')]"

text \<open>Each entry is copied to its slot of the zeroed block.\<close>

definition fmt_dir_block :: bytes where
  "fmt_dir_block =
     (let blk = replicate BLOCK_SIZE 0;
          blk = overwrite blk (0 * dirent_size) (dirent_to_bytes (fmt_dir_entries ! 0));
          blk = overwrite blk (1 * dirent_size) (dirent_to_bytes (fmt_dir_entries ! 1))
      in overwrite blk (2 * dirent_size) (dirent_to_bytes (fmt_dir_entries ! 2)))"

definition fmt_file_block :: bytes where
  "fmt_file_block = overwrite (replicate BLOCK_SIZE 0) 0 test_file_bytes"

subsection \<open>The steps of the formatter\<close>

definition fmt_preallocate :: "nat \<Rightarrow> host_file \<Rightarrow> host_file option" where
  "fmt_preallocate sector_offset file = do {
     offset_bytes \<leftarrow> umul sector_offset BLOCK_SIZE;
     end_sector \<leftarrow> uadd sector_offset (unat fmt_total_blocks);
     required_size \<leftarrow> umul end_sector BLOCK_SIZE;
     Some (if hf_len file < required_size then file_set_len required_size file else file)
   }"

definition fmt_write_superblock :: "nat \<Rightarrow> host_file \<Rightarrow> host_file option" where
  "fmt_write_superblock sector_offset file = do {
     file \<leftarrow> seek_sector sector_offset 2 file;
     Some (file_write_all (superblock_to_bytes fmt_superblock) file)
   }"

definition fmt_write_bitmaps :: "nat \<Rightarrow> host_file \<Rightarrow> host_file option" where
  "fmt_write_bitmaps sector_offset file = do {
     file \<leftarrow> seek_sector sector_offset (unat (sb_inode_bitmap_start fmt_superblock)) file;
     file \<leftarrow> Some (file_write_all fmt_bitmap file);
     file \<leftarrow> seek_sector sector_offset (unat (sb_block_bitmap_start fmt_superblock)) file;
     Some (file_write_all fmt_bitmap file)
   }"

text \<open>The second inode is written where the first write left the position.\<close>

definition fmt_write_inodes :: "nat \<Rightarrow> host_file \<Rightarrow> host_file option" where
  "fmt_write_inodes sector_offset file = do {
     file \<leftarrow> seek_sector sector_offset (unat (sb_inode_table_start fmt_superblock)) file;
     file \<leftarrow> Some (file_write_all (inode_to_bytes fmt_root_inode) file);
     Some (file_write_all (inode_to_bytes fmt_hello_inode) file)
   }"

definition fmt_write_data :: "nat \<Rightarrow> host_file \<Rightarrow> host_file option" where
  "fmt_write_data sector_offset file = do {
     file \<leftarrow> seek_sector sector_offset (unat fmt_data_blocks_start) file;
     file \<leftarrow> Some (file_write_all fmt_dir_block file);
     file \<leftarrow> seek_sector sector_offset (unat fmt_data_blocks_start + 1) file;
     Some (file_write_all fmt_file_block file)
   }"

definition format_image :: "nat \<Rightarrow> host_file \<Rightarrow> host_file option" where
  "format_image sector_offset file =
     fmt_preallocate sector_offset file \<bind> fmt_write_superblock sector_offset
       \<bind> fmt_write_bitmaps sector_offset \<bind> fmt_write_inodes sector_offset
       \<bind> fmt_write_data sector_offset"

subsection \<open>The image after formatting\<close>

definition image_sector :: "host_file \<Rightarrow> nat \<Rightarrow> bytes" where
  "image_sector f n = load (hf_data f) (BLOCK_SIZE * n) BLOCK_SIZE"

lemma length_test_file_bytes [simp]: "length test_file_bytes = 102"
  by (simp add: test_file_bytes_def)

lemma length_fmt_blocks [simp]:
  "length fmt_bitmap = 512" "length fmt_file_block = 512" "length fmt_dir_block = 512"
  by (simp_all add: fmt_bitmap_def fmt_file_block_def fmt_dir_block_def Let_def fs_consts fs_sizes
      fmt_dir_entries_def dirent_new_def wf_dirent_def)

lemma wf_fmt_inodes [simp]: "wf_inode fmt_root_inode" "wf_inode fmt_hello_inode"
  by (simp_all add: fmt_root_inode_def fmt_hello_inode_def fmt_inode_def wf_inode_def fs_consts)

text \<open>The byte address of sector \<open>k\<close> of the volume that starts at sector \<open>off\<close>.\<close>

definition sector_addr :: "nat \<Rightarrow> nat \<Rightarrow> nat" where
  "sector_addr off k = 512 * (off + k)"

lemma image_sector_addr: "image_sector f (off + k) = load (hf_data f) (sector_addr off k) 512"
  by (simp add: image_sector_def sector_addr_def fs_consts)

lemma fmt_starts [simp]:
  "unat (sb_inode_bitmap_start fmt_superblock) = 11"
  "unat (sb_block_bitmap_start fmt_superblock) = 12"
  "unat (sb_inode_table_start fmt_superblock) = 3" "unat fmt_data_blocks_start = 13"
  by (simp_all add: fmt_superblock_def fmt_data_blocks_start_def)

lemma seek_sector_ok:
  "512 * (off + k) < usize_bound \<Longrightarrow> seek_sector off k f = Some (file_seek (sector_addr off k) f)"
  by (simp add: seek_sector_def checked fs_consts mult.commute usize_bound_def sector_addr_def)

text \<open>The final bytes: seven stores over the (possibly extended) old image.\<close>

definition formatted_data :: "nat \<Rightarrow> mem \<Rightarrow> mem" where
  "formatted_data off d =
     (let at = sector_addr off;
          d = store d (at 2) (superblock_to_bytes fmt_superblock);
          d = store d (at 11) fmt_bitmap;
          d = store d (at 12) fmt_bitmap;
          d = store d (at 3) (inode_to_bytes fmt_root_inode);
          d = store d (at 3 + 64) (inode_to_bytes fmt_hello_inode);
          d = store d (at 13) fmt_dir_block
      in store d (at 14) fmt_file_block)"

lemma fmt_preallocate_ok:
  assumes "512 * (off + 4096) < usize_bound"
  shows "\<exists>f'. fmt_preallocate off f = Some f' \<and> 512 * (off + 4096) \<le> hf_len f' \<and>
    hf_len f \<le> hf_len f' \<and> (\<forall>x < hf_len f. hf_data f' x = hf_data f x)"
proof -
  have "umul off BLOCK_SIZE = Some (512 * off)" "uadd off (unat fmt_total_blocks) = Some (off + 4096)"
    "umul (off + 4096) BLOCK_SIZE = Some (512 * (off + 4096))"
    using assms by (simp_all add: checked fs_consts fmt_total_blocks_def mult.commute)
  then show ?thesis by (simp add: fmt_preallocate_def file_set_len_def)
qed

definition write_sector :: "nat \<Rightarrow> nat \<Rightarrow> bytes \<Rightarrow> host_file \<Rightarrow> host_file" where
  "write_sector off k bs f = file_write_all bs (file_seek (sector_addr off k) f)"

lemma write_sector_data:
  "hf_data (write_sector off k bs f) = store (hf_data f) (sector_addr off k) bs"
  by (simp add: write_sector_def file_write_all_def file_seek_def)

lemma write_sector_pos:
  "hf_pos (write_sector off k bs f) = sector_addr off k + length bs"
  by (simp add: write_sector_def file_write_all_def file_seek_def)

lemma file_write_all_data: "hf_data (file_write_all bs f) = store (hf_data f) (hf_pos f) bs"
  by (simp add: file_write_all_def)

lemma file_write_all_len: "hf_len f \<le> hf_len (file_write_all bs f)"
  by (simp add: file_write_all_def)

lemma write_sector_len: "hf_len f \<le> hf_len (write_sector off k bs f)"
  by (simp add: write_sector_def file_write_all_def file_seek_def)

lemma fmt_writes_ok:
  assumes "512 * (off + 4096) < usize_bound"
  shows "fmt_write_superblock off f = Some (write_sector off 2 (superblock_to_bytes fmt_superblock) f)"
    and "fmt_write_bitmaps off f =
      Some (write_sector off 12 fmt_bitmap (write_sector off 11 fmt_bitmap f))"
    and "fmt_write_inodes off f = Some (file_write_all (inode_to_bytes fmt_hello_inode)
      (write_sector off 3 (inode_to_bytes fmt_root_inode) f))"
    and "fmt_write_data off f =
      Some (write_sector off 14 fmt_file_block (write_sector off 13 fmt_dir_block f))"
proof -
  have seek: "seek_sector off k f = Some (file_seek (sector_addr off k) f)" if "k < 4096" for k f
    using that assms by (intro seek_sector_ok) simp
  show "fmt_write_superblock off f = Some (write_sector off 2 (superblock_to_bytes fmt_superblock) f)"
    by (simp add: fmt_write_superblock_def seek write_sector_def)
  show "fmt_write_bitmaps off f =
      Some (write_sector off 12 fmt_bitmap (write_sector off 11 fmt_bitmap f))"
    by (simp add: fmt_write_bitmaps_def seek write_sector_def)
  show "fmt_write_inodes off f = Some (file_write_all (inode_to_bytes fmt_hello_inode)
      (write_sector off 3 (inode_to_bytes fmt_root_inode) f))"
    by (simp add: fmt_write_inodes_def seek write_sector_def)
  show "fmt_write_data off f =
      Some (write_sector off 14 fmt_file_block (write_sector off 13 fmt_dir_block f))"
    by (simp add: fmt_write_data_def seek write_sector_def)
qed

lemma format_image_eq:
  assumes "512 * (off + 4096) < usize_bound"
  obtains f' g where "format_image off f = Some f'" and "512 * (off + 4096) \<le> hf_len f'"
    and "hf_len f \<le> hf_len f'" and "hf_data f' = formatted_data off g"
    and "\<And>x. x < hf_len f \<Longrightarrow> g x = hf_data f x"
proof -
  obtain f0 where f0: "fmt_preallocate off f = Some f0" "512 * (off + 4096) \<le> hf_len f0"
    "hf_len f \<le> hf_len f0" "\<And>x. x < hf_len f \<Longrightarrow> hf_data f0 x = hf_data f x"
    using fmt_preallocate_ok[OF assms] by blast
  let ?f1 = "write_sector off 12 fmt_bitmap (write_sector off 11 fmt_bitmap
    (write_sector off 2 (superblock_to_bytes fmt_superblock) f0))"
  let ?f2 = "file_write_all (inode_to_bytes fmt_hello_inode)
    (write_sector off 3 (inode_to_bytes fmt_root_inode) ?f1)"
  let ?f' = "write_sector off 14 fmt_file_block (write_sector off 13 fmt_dir_block ?f2)"
  have "format_image off f = Some ?f'"
    by (simp add: format_image_def f0(1) fmt_writes_ok[OF assms])
  moreover have "hf_data ?f' = formatted_data off (hf_data f0)"
    by (simp only: formatted_data_def Let_def write_sector_data file_write_all_data
        write_sector_pos length_inode_to_bytes[OF wf_fmt_inodes(1)] inode_size_def)
  moreover have len: "hf_len f0 \<le> hf_len ?f'"
    by (meson le_trans write_sector_len file_write_all_len)
  moreover have "512 * (off + 4096) \<le> hf_len ?f'" "hf_len f \<le> hf_len ?f'"
    using f0(2,3) len by linarith+
  ultimately show thesis using that f0(4) by blast
qed

text \<open>What the sectors of the volume decode to, whatever the image held before.\<close>

lemma load_store_prefix:
  "n = length bs \<Longrightarrow> load (store m a bs) a n = bs"
  by simp

lemma load_other_sector:
  "a + n \<le> b \<or> b + length bs \<le> a \<Longrightarrow> load m a n = v \<Longrightarrow> load (store m b bs) a n = v"
  by (simp add: load_store_other)

lemma formatted_superblock:
  "superblock_from_bytes (load (formatted_data off g) (sector_addr off 2) 512) = fmt_superblock"
proof -
  let ?d = "formatted_data off g" and ?a = "sector_addr off 2"
  have "load ?d ?a 40 = superblock_to_bytes fmt_superblock"
    unfolding formatted_data_def Let_def
    by (intro load_other_sector load_store_prefix) (auto simp: sector_addr_def fs_sizes)
  then show ?thesis
    using superblock_roundtrip load_add[of ?d ?a 40 472] by simp
qed

lemma formatted_inodes:
  "inode_from_bytes (slice (load (formatted_data off g) (sector_addr off 3) 512) 0 64) =
     fmt_root_inode"
  "inode_from_bytes (slice (load (formatted_data off g) (sector_addr off 3) 512) 64 64) =
     fmt_hello_inode"
proof -
  have "load (formatted_data off g) (sector_addr off 3) 64 = inode_to_bytes fmt_root_inode"
    unfolding formatted_data_def Let_def
    by (intro load_other_sector load_store_prefix) (auto simp: sector_addr_def fs_sizes)
  then show "inode_from_bytes (slice (load (formatted_data off g) (sector_addr off 3) 512) 0 64) =
     fmt_root_inode"
    using inode_roundtrip[OF wf_fmt_inodes(1), of "[]"] by (simp add: slice_load)
  have "load (formatted_data off g) (sector_addr off 3 + 64) 64 = inode_to_bytes fmt_hello_inode"
    unfolding formatted_data_def Let_def
    by (intro load_other_sector load_store_prefix) (auto simp: sector_addr_def fs_sizes)
  then show "inode_from_bytes (slice (load (formatted_data off g) (sector_addr off 3) 512) 64 64) =
     fmt_hello_inode"
    using inode_roundtrip[OF wf_fmt_inodes(2), of "[]"] by (simp add: slice_load)
qed

lemma formatted_blocks:
  "load (formatted_data off g) (sector_addr off 13) 512 = fmt_dir_block"
  "load (formatted_data off g) (sector_addr off 14) 512 = fmt_file_block"
  unfolding formatted_data_def Let_def
  by (intro load_other_sector load_store_prefix; auto simp: sector_addr_def)+

text \<open>Nothing outside the first fifteen sectors of the volume is written.\<close>

lemma formatted_data_frame:
  "x < sector_addr off 0 \<or> sector_addr off 15 \<le> x \<Longrightarrow> formatted_data off g x = g x"
  by (auto simp: formatted_data_def Let_def store_outside fs_sizes sector_addr_def)

subsection \<open>The command line\<close>

text \<open>\<open>str::parse::<u64>\<close>: an optional plus sign and digits that fit; \<open>None\<close> is an \<open>Err\<close>.\<close>

fun parse_digits :: "nat \<Rightarrow> bytes \<Rightarrow> nat option" where
  "parse_digits acc [] = Some acc"
| "parse_digits acc (b # bs) =
     (if 48 \<le> b \<and> b \<le> 57 then
        (let v = 10 * acc + (unat b - 48) in
         if v < usize_bound then parse_digits v bs else None)
      else None)"

definition parse_u64 :: "bytes \<Rightarrow> nat option" where
  "parse_u64 bs =
     (case bs of
        [] \<Rightarrow> None
      | b # r \<Rightarrow> if b = 43 then (if r = [] then None else parse_digits 0 r)
                else parse_digits 0 bs)"

datatype host_exit = Usage_Exit | Formatted host_file

text \<open>\<open>main\<close>: \<open>None\<close> is a panic; \<open>open_image\<close> is the file the given path opens to.\<close>

definition host_main :: "(bytes \<Rightarrow> host_file) \<Rightarrow> bytes list \<Rightarrow> host_exit option" where
  "host_main open_image args =
     (if args = [] then None
      else if length args < 2 then Some Usage_Exit
      else
        (let sector_offset =
               (if 3 \<le> length args
                then (case parse_u64 (args ! 2) of None \<Rightarrow> 0 | Some n \<Rightarrow> n)
                else 0)
         in map_option Formatted (format_image sector_offset (open_image (args ! 1)))))"

end
