(* ===== verification/Reliz_Fs.thy ===== *)
theory Reliz_Fs
  imports Ata Host_Format
begin

text \<open>
  \<open>kernel/src/relizfs.rs\<close>: the kernel's RelizFS reader. Its functions take the sector reader
  \<open>rd\<close> they call (\<open>ATA_DRIVE.lock().read_sector(0, ..)\<close>, that is \<open>ata_rd bus\<close>) and thread
  the drive's state; \<open>None\<close> is a panic (the \<open>u32\<close> sector additions are checked), \<open>Inl\<close> an
  \<open>Err\<close>.
\<close>

type_synonym 'd reader = "u32 \<Rightarrow> 'd \<Rightarrow> (string + bytes) \<times> 'd"

definition RELIZFS_START_SECTOR :: u32 where
  "RELIZFS_START_SECTOR = 40000"

text \<open>\<open>read_sector(0, RELIZFS_START_SECTOR + n, &mut buf)?\<close>\<close>

definition read_fs_sector :: "'d reader \<Rightarrow> u32 \<Rightarrow> ('d, bytes) fs_io" where
  "read_fs_sector rd n d =
     (case wadd RELIZFS_START_SECTOR n of
        None \<Rightarrow> None
      | Some lba \<Rightarrow> Some (rd lba d))"

subsection \<open>Mounting and inodes\<close>

definition err_magic :: string where
  "err_magic = ''Invalid RelizFS magic number! Partition not formatted.''"

definition relizfs_init :: "'d reader \<Rightarrow> ('d, superblock) fs_io" where
  "relizfs_init rd =
     try_io (read_fs_sector rd 2) (\<lambda>sector.
       (let sb = superblock_from_bytes sector in
        if sb_magic sb \<noteq> RELIZFS_MAGIC then io_err err_magic else io_ok sb))"

definition err_inode_bounds :: string where
  "err_inode_bounds = ''Inode index out of bounds''"

definition read_inode :: "'d reader \<Rightarrow> superblock \<Rightarrow> u32 \<Rightarrow> ('d, inode) fs_io" where
  "read_inode rd sb inode_idx =
     (if sb_inode_count sb \<le> inode_idx then io_err err_inode_bounds
      else
        (let byte_offset = unat inode_idx * inode_size;
             sector_offset = byte_offset div BLOCK_SIZE;
             sector_byte_index = byte_offset mod BLOCK_SIZE
         in case wadd (sb_inode_table_start sb) (of_nat sector_offset) of
              None \<Rightarrow> (\<lambda>_. None)
            | Some target_sector \<Rightarrow>
                try_io (read_fs_sector rd target_sector) (\<lambda>sector_buf.
                  io_ok (inode_from_bytes (slice sector_buf sector_byte_index inode_size)))))"

subsection \<open>Directories\<close>

text \<open>The sixteen entries of a directory block.\<close>

definition entries_count :: nat where
  "entries_count = BLOCK_SIZE div dirent_size"

definition block_entry :: "bytes \<Rightarrow> nat \<Rightarrow> directory_entry" where
  "block_entry sector_buf i = dirent_from_bytes (slice sector_buf (i * dirent_size) dirent_size)"

definition entry_live :: "directory_entry \<Rightarrow> bool" where
  "entry_live e \<longleftrightarrow> de_inode_num e \<noteq> 0 \<or> 0 < de_name_len e"

text \<open>One line of a listing: type, name and inode number, which \<open>println!\<close> formats.\<close>

type_synonym dir_line = "string \<times> bytes \<times> u32"

definition entry_type :: "'d reader \<Rightarrow> superblock \<Rightarrow> bytes \<Rightarrow> u32 \<Rightarrow> 'd \<Rightarrow> (string \<times> 'd) option" where
  "entry_type rd sb name inode_num d =
     (if name = str ''.'' \<or> name = str ''..'' then Some (''<DIR>'', d)
      else
        (case read_inode rd sb inode_num d of
           None \<Rightarrow> None
         | Some (Inl e, d) \<Rightarrow> Some (''<ERR>'', d)
         | Some (Inr target, d) \<Rightarrow>
             Some (if is_directory target then ''<DIR>'' else ''<FILE>'', d)))"

fun list_entries ::
  "'d reader \<Rightarrow> superblock \<Rightarrow> directory_entry list \<Rightarrow> dir_line list \<Rightarrow> 'd \<Rightarrow> (dir_line list \<times> 'd) option" where
  "list_entries rd sb [] out d = Some (out, d)"
| "list_entries rd sb (e # es) out d =
     (if entry_live e then
        (case get_name e of
           None \<Rightarrow> list_entries rd sb es out d
         | Some name \<Rightarrow>
             (case entry_type rd sb name (de_inode_num e) d of
                None \<Rightarrow> None
              | Some (t, d) \<Rightarrow> list_entries rd sb es (out @ [(t, name, de_inode_num e)]) d))
      else list_entries rd sb es out d)"

text \<open>The output so far survives an \<open>Err\<close> from a later block.\<close>

fun list_blocks ::
  "'d reader \<Rightarrow> superblock \<Rightarrow> u32 list \<Rightarrow> dir_line list \<Rightarrow> 'd \<Rightarrow>
     ((string + unit) \<times> dir_line list \<times> 'd) option" where
  "list_blocks rd sb [] out d = Some (Inr (), out, d)"
| "list_blocks rd sb (b # bs) out d =
     (if b = 0 then list_blocks rd sb bs out d
      else
        (case read_fs_sector rd b d of
           None \<Rightarrow> None
         | Some (Inl e, d) \<Rightarrow> Some (Inl e, out, d)
         | Some (Inr sector_buf, d) \<Rightarrow>
             (case list_entries rd sb (map (block_entry sector_buf) [0..<entries_count]) out d of
                None \<Rightarrow> None
              | Some (out, d) \<Rightarrow> list_blocks rd sb bs out d)))"

definition list_directory ::
  "'d reader \<Rightarrow> superblock \<Rightarrow> inode \<Rightarrow> 'd \<Rightarrow> ((string + unit) \<times> dir_line list \<times> 'd) option" where
  "list_directory rd sb inode d =
     (if \<not> is_directory inode then Some (Inl ''Inode is not a directory'', [], d)
      else list_blocks rd sb (in_direct_blocks inode) [] d)"

text \<open>\<open>find_entry\<close>: the first live entry with the name, block by block.\<close>

fun find_in_entries :: "bytes \<Rightarrow> directory_entry list \<Rightarrow> u32 option" where
  "find_in_entries name [] = None"
| "find_in_entries name (e # es) =
     (if entry_live e \<and> get_name e = Some name then Some (de_inode_num e)
      else find_in_entries name es)"

definition err_not_found :: string where
  "err_not_found = ''File not found''"

fun find_in_blocks :: "'d reader \<Rightarrow> bytes \<Rightarrow> u32 list \<Rightarrow> ('d, u32) fs_io" where
  "find_in_blocks rd name [] = io_err err_not_found"
| "find_in_blocks rd name (b # bs) =
     (if b = 0 then find_in_blocks rd name bs
      else
        try_io (read_fs_sector rd b) (\<lambda>sector_buf.
          case find_in_entries name (map (block_entry sector_buf) [0..<entries_count]) of
            Some n \<Rightarrow> io_ok n
          | None \<Rightarrow> find_in_blocks rd name bs))"

definition find_entry :: "'d reader \<Rightarrow> inode \<Rightarrow> bytes \<Rightarrow> ('d, u32) fs_io" where
  "find_entry rd dir_inode name =
     (if \<not> is_directory dir_inode then io_err ''Parent is not a directory''
      else find_in_blocks rd name (in_direct_blocks dir_inode))"

subsection \<open>File contents\<close>

fun read_file_blocks ::
  "'d reader \<Rightarrow> nat \<Rightarrow> u32 list \<Rightarrow> nat \<Rightarrow> bytes \<Rightarrow> 'd \<Rightarrow> ((string + nat) \<times> bytes \<times> 'd) option" where
  "read_file_blocks rd bytes_to_read [] bytes_read out_buf d = Some (Inr bytes_read, out_buf, d)"
| "read_file_blocks rd bytes_to_read (b # bs) bytes_read out_buf d =
     (if b = 0 \<or> bytes_to_read \<le> bytes_read then Some (Inr bytes_read, out_buf, d)
      else
        (case read_fs_sector rd b d of
           None \<Rightarrow> None
         | Some (Inl e, d) \<Rightarrow> Some (Inl e, out_buf, d)
         | Some (Inr sector_buf, d) \<Rightarrow>
             (let chunk_size = min (bytes_to_read - bytes_read) BLOCK_SIZE in
              case copy_slice out_buf bytes_read (take chunk_size sector_buf) of
                None \<Rightarrow> None
              | Some out_buf \<Rightarrow>
                  read_file_blocks rd bytes_to_read bs (bytes_read + chunk_size) out_buf d)))"

definition read_file ::
  "'d reader \<Rightarrow> inode \<Rightarrow> bytes \<Rightarrow> 'd \<Rightarrow> ((string + nat) \<times> bytes \<times> 'd) option" where
  "read_file rd inode out_buf d =
     (if \<not> is_file inode then Some (Inl ''Inode is not a regular file'', out_buf, d)
      else read_file_blocks rd (min (unat (in_size inode)) (length out_buf))
             (in_direct_blocks inode) 0 out_buf d)"

subsection \<open>Reading from a good device\<close>

text \<open>Partition-relative sectors that the device has and the checked addition reaches.\<close>

definition in_volume :: "nat \<Rightarrow> u32 \<Rightarrow> bool" where
  "in_volume limit n \<longleftrightarrow> 40000 + unat n < limit \<and> 40000 + unat n < 2 ^ 32"

lemma wadd_start:
  assumes "40000 + unat n < 2 ^ 32"
  shows "wadd RELIZFS_START_SECTOR n = Some (RELIZFS_START_SECTOR + n)"
    and "unat (RELIZFS_START_SECTOR + n) = 40000 + unat n"
proof -
  show *: "wadd RELIZFS_START_SECTOR n = Some (RELIZFS_START_SECTOR + n)"
    using assms by (simp add: checked RELIZFS_START_SECTOR_def)
  show "unat (RELIZFS_START_SECTOR + n) = 40000 + unat n"
    using wadd_Some[OF *] by (simp add: RELIZFS_START_SECTOR_def)
qed

text \<open>The leading allocated blocks of a file, and their data.\<close>

definition leading_blocks :: "u32 list \<Rightarrow> u32 list" where
  "leading_blocks bs = takeWhile (\<lambda>b. b \<noteq> 0) bs"

definition blocks_data :: "(nat \<Rightarrow> bytes) \<Rightarrow> u32 list \<Rightarrow> bytes" where
  "blocks_data contents bs = concat (map (\<lambda>b. contents (40000 + unat b)) bs)"

text \<open>The entries of a directory, over all its allocated blocks.\<close>

definition dir_entries :: "(nat \<Rightarrow> bytes) \<Rightarrow> u32 list \<Rightarrow> directory_entry list" where
  "dir_entries contents bs =
     concat (map (\<lambda>b. map (block_entry (contents (40000 + unat b))) [0..<entries_count])
       (filter (\<lambda>b. b \<noteq> 0) bs))"

text \<open>
  The inode table lies within the volume, inode \<open>n\<close> of it, and the lines a listing shows:
  one per live entry with a valid name, in order.
\<close>

definition table_in_volume :: "nat \<Rightarrow> superblock \<Rightarrow> bool" where
  "table_in_volume limit sb \<longleftrightarrow>
     (let last = 40000 + unat (sb_inode_table_start sb) +
        (unat (sb_inode_count sb) - 1) * 64 div 512
      in sb_inode_count sb = 0 \<or> last < limit \<and> last < 2 ^ 32)"

definition inode_at :: "(nat \<Rightarrow> bytes) \<Rightarrow> superblock \<Rightarrow> u32 \<Rightarrow> inode" where
  "inode_at contents sb n =
     inode_from_bytes (slice
       (contents (40000 + unat (sb_inode_table_start sb) + unat n * 64 div 512))
       (unat n * 64 mod 512) 64)"

definition entry_type_at :: "(nat \<Rightarrow> bytes) \<Rightarrow> superblock \<Rightarrow> bytes \<Rightarrow> u32 \<Rightarrow> string" where
  "entry_type_at contents sb name n =
     (if name = str ''.'' \<or> name = str ''..'' then ''<DIR>''
      else if n < sb_inode_count sb then
        (if is_directory (inode_at contents sb n) then ''<DIR>'' else ''<FILE>'')
      else ''<ERR>'')"

definition dir_lines :: "(nat \<Rightarrow> bytes) \<Rightarrow> superblock \<Rightarrow> directory_entry list \<Rightarrow> dir_line list" where
  "dir_lines contents sb es =
     map (\<lambda>e. (entry_type_at contents sb (the (get_name e)) (de_inode_num e), the (get_name e),
            de_inode_num e))
       (filter (\<lambda>e. entry_live e \<and> get_name e \<noteq> None) es)"

lemma find_in_entries_find:
  "find_in_entries name es =
     map_option de_inode_num (find (\<lambda>e. entry_live e \<and> get_name e = Some name) es)"
  by (induction es) auto

lemma find_append: "find P (xs @ ys) = (case find P xs of None \<Rightarrow> find P ys | Some x \<Rightarrow> Some x)"
  by (induction xs) auto

context sector_device
begin

lemma read_fs_sector_good:
  assumes "good d" and "in_volume limit n"
  obtains d' where "read_fs_sector rd n d = Some (Inr (contents (40000 + unat n)), d')" "good d'"
proof -
  from assms(2) have a: "40000 + unat n < 2 ^ 32" "40000 + unat n < limit"
    by (auto simp: in_volume_def)
  note w = wadd_start[OF a(1)]
  obtain d' where "rd (RELIZFS_START_SECTOR + n) d = (Inr (contents (40000 + unat n)), d')" "good d'"
    using read_goodE[OF assms(1), of "RELIZFS_START_SECTOR + n"] w(2) a(2) by metis
  with that w(1) show thesis by (simp add: read_fs_sector_def)
qed

lemma relizfs_init_good:
  assumes "good d" and "in_volume limit 2"
  obtains d' where "relizfs_init rd d =
      Some (let sb = superblock_from_bytes (contents 40002) in
        if sb_magic sb \<noteq> RELIZFS_MAGIC then Inl err_magic else Inr sb, d')" and "good d'"
proof -
  obtain d' where "read_fs_sector rd 2 d = Some (Inr (contents (40000 + unat (2 :: u32))), d')"
      "good d'"
    by (rule read_fs_sector_good[OF assms])
  then show thesis
    by (intro that[of d']) (simp_all add: relizfs_init_def try_io_def io_err_def io_ok_def Let_def)
qed

lemma read_inode_good:
  assumes "good d" and "n < sb_inode_count sb" and "table_in_volume limit sb"
  obtains d' where "read_inode rd sb n d = Some (Inr (inode_at contents sb n), d')" and "good d'"
proof -
  let ?k = "unat n * 64 div 512" and ?t = "sb_inode_table_start sb"
  have "unat n * 64 \<le> (unat (sb_inode_count sb) - 1) * 64"
    using assms(2) by (simp add: word_less_nat_alt)
  then have "?k \<le> (unat (sb_inode_count sb) - 1) * 64 div 512" by (rule div_le_mono)
  with assms(2,3) have k: "40000 + (unat ?t + ?k) < limit" "40000 + (unat ?t + ?k) < 2 ^ 32"
    by (auto simp: table_in_volume_def)
  have "unat (of_nat ?k :: u32) = ?k" using k(2) by (simp add: unat_of_nat)
  then have w: "wadd ?t (of_nat ?k) = Some (?t + of_nat ?k)"
    and t: "unat (?t + of_nat ?k) = unat ?t + ?k"
    using k(2) by (simp_all add: wadd_def unat_word_ariths)
  have "in_volume limit (?t + of_nat ?k)" using k t by (simp add: in_volume_def)
  then obtain d' where d': "read_fs_sector rd (?t + of_nat ?k) d =
      Some (Inr (contents (40000 + (unat ?t + ?k))), d')" "good d'"
    using read_fs_sector_good[OF assms(1)] t by metis
  have "\<not> sb_inode_count sb \<le> n" using assms(2) by simp
  then show thesis
    by (intro that[OF _ d'(2)]) (use w d' in \<open>simp add: read_inode_def inode_at_def Let_def
        fs_consts fs_sizes try_io_def io_ok_def add.assoc\<close>)
qed

lemma entry_type_good:
  assumes "good d" and "table_in_volume limit sb"
  shows "\<exists>d'. entry_type rd sb name n d = Some (entry_type_at contents sb name n, d') \<and> good d'"
proof (cases "n < sb_inode_count sb")
  case True
  then obtain d' where "read_inode rd sb n d = Some (Inr (inode_at contents sb n), d')" "good d'"
    using read_inode_good[OF assms(1) _ assms(2)] by blast
  with True assms(1) show ?thesis by (simp add: entry_type_def entry_type_at_def)
next
  case False
  then have "sb_inode_count sb \<le> n" by simp
  then have "read_inode rd sb n d = Some (Inl err_inode_bounds, d)"
    by (simp add: read_inode_def io_err_def)
  with False assms(1) show ?thesis by (simp add: entry_type_def entry_type_at_def)
qed

lemma list_entries_good:
  assumes "good d" and "table_in_volume limit sb"
  shows "\<exists>d'. list_entries rd sb es out d = Some (out @ dir_lines contents sb es, d') \<and> good d'"
  using assms(1)
proof (induction es arbitrary: out d)
  case Nil
  then show ?case by (simp add: dir_lines_def)
next
  case (Cons e es)
  show ?case
  proof (cases "entry_live e \<and> get_name e \<noteq> None")
    case True
    then obtain name where name: "entry_live e" "get_name e = Some name" by auto
    obtain d1 where "entry_type rd sb name (de_inode_num e) d =
        Some (entry_type_at contents sb name (de_inode_num e), d1)" "good d1"
      using entry_type_good[OF Cons.prems assms(2)] by blast
    with name Cons.IH[of d1 "out @ [(entry_type_at contents sb name (de_inode_num e), name,
        de_inode_num e)]"]
    show ?thesis by (simp add: dir_lines_def)
  next
    case False
    with Cons show ?thesis by (auto simp: dir_lines_def)
  qed
qed

lemma list_blocks_good:
  assumes "good d" and "table_in_volume limit sb" and "\<forall>b\<in>set bs. b \<noteq> 0 \<longrightarrow> in_volume limit b"
  shows "\<exists>d'. list_blocks rd sb bs out d =
     Some (Inr (), out @ dir_lines contents sb (dir_entries contents bs), d') \<and> good d'"
  using assms(1,3)
proof (induction bs arbitrary: out d)
  case Nil
  then show ?case by (simp add: dir_entries_def dir_lines_def)
next
  case (Cons b bs)
  show ?case
  proof (cases "b = 0")
    case True
    with Cons show ?thesis by (simp add: dir_entries_def)
  next
    case False
    let ?es = "map (block_entry (contents (40000 + unat b))) [0..<entries_count]"
    from False Cons.prems have "in_volume limit b" by simp
    then obtain d1 where d1: "read_fs_sector rd b d = Some (Inr (contents (40000 + unat b)), d1)"
        "good d1"
      using read_fs_sector_good[OF Cons.prems(1)] by blast
    obtain d2 where d2: "list_entries rd sb ?es out d1 = Some (out @ dir_lines contents sb ?es, d2)"
        "good d2"
      using list_entries_good[OF d1(2) assms(2)] by blast
    have "dir_lines contents sb (dir_entries contents (b # bs)) =
        dir_lines contents sb ?es @ dir_lines contents sb (dir_entries contents bs)"
      using False by (simp add: dir_lines_def dir_entries_def)
    with Cons.IH[OF d2(2), of "out @ dir_lines contents sb ?es"] Cons.prems(2) False d1 d2
    show ?thesis by simp
  qed
qed

lemma find_in_blocks_good:
  assumes "good d" and "\<forall>b\<in>set bs. b \<noteq> 0 \<longrightarrow> in_volume limit b"
  shows "\<exists>d'. find_in_blocks rd name bs d =
     Some (case find_in_entries name (dir_entries contents bs) of
       Some n \<Rightarrow> Inr n | None \<Rightarrow> Inl err_not_found, d') \<and> good d'"
  using assms
proof (induction bs arbitrary: d)
  case Nil
  then show ?case by (simp add: io_err_def dir_entries_def)
next
  case (Cons b bs)
  show ?case
  proof (cases "b = 0")
    case True
    with Cons show ?thesis by (simp add: dir_entries_def)
  next
    case False
    let ?es = "map (block_entry (contents (40000 + unat b))) [0..<entries_count]"
    from False Cons.prems have "in_volume limit b" by simp
    then obtain d1 where d1: "read_fs_sector rd b d = Some (Inr (contents (40000 + unat b)), d1)"
        "good d1"
      using read_fs_sector_good[OF Cons.prems(1)] by blast
    have split: "find_in_entries name (dir_entries contents (b # bs)) =
        (case find_in_entries name ?es of
           None \<Rightarrow> find_in_entries name (dir_entries contents bs) | Some n \<Rightarrow> Some n)"
      using False by (simp add: dir_entries_def find_in_entries_find find_append
          split: option.splits)
    show ?thesis
      using Cons.IH[OF d1(2)] Cons.prems(2) False d1
      by (cases "find_in_entries name ?es") (auto simp: try_io_def io_ok_def split)
  qed
qed

lemma read_file_blocks_good:
  assumes "good d" and "\<forall>b\<in>set (leading_blocks bs). in_volume limit b"
    and "br \<le> btr" and "btr \<le> length out"
  shows "\<exists>d'. let n = min btr (br + 512 * length (leading_blocks bs)) in
     read_file_blocks rd btr bs br out d =
       Some (Inr n, overwrite out br (take (n - br) (blocks_data contents (leading_blocks bs))), d')
     \<and> good d'"
  using assms
proof (induction bs arbitrary: d br out)
  case Nil
  then show ?case by (simp add: leading_blocks_def overwrite_def blocks_data_def min_def)
next
  case (Cons b bs)
  consider "b = 0" | "b \<noteq> 0" "btr = br" | "b \<noteq> 0" "br < btr"
    using Cons.prems(3) by linarith
  then show ?case
  proof cases
    case 1
    then show ?thesis using Cons.prems by (simp add: leading_blocks_def min_def)
  next
    case 2
    then have "min btr (br + n) = br" for n :: nat by simp
    with 2 Cons.prems show ?thesis by (simp add: Let_def)
  next
    case 3
    let ?c = "contents (40000 + unat b)" and ?k = "min (btr - br) 512"
    from 3 have lead: "leading_blocks (b # bs) = b # leading_blocks bs"
      by (simp add: leading_blocks_def)
    with Cons.prems(2) have "in_volume limit b" by simp
    then obtain d1 where d1: "read_fs_sector rd b d = Some (Inr ?c, d1)" "good d1"
      using read_fs_sector_good[OF Cons.prems(1)] by blast
    have len: "length ?c = 512" by (rule contents_length[OF d1(2)])
    let ?out = "overwrite out br (take ?k ?c)"
    have fits: "br + length (take ?k ?c) \<le> length out" using Cons.prems(3,4) len by simp
    have step: "read_file_blocks rd btr (b # bs) br out d =
        read_file_blocks rd btr bs (br + ?k) ?out d1"
      using 3 d1 fits by (simp add: Let_def fs_consts checked)
    have "\<exists>d'. let n = min btr (br + ?k + 512 * length (leading_blocks bs)) in
        read_file_blocks rd btr bs (br + ?k) ?out d1 =
          Some (Inr n, overwrite ?out (br + ?k)
            (take (n - (br + ?k)) (blocks_data contents (leading_blocks bs))), d') \<and> good d'"
      using Cons.prems(2,3,4) lead fits by (intro Cons.IH[OF d1(2)]) (auto simp del: take_take)
    then obtain d' where d': "read_file_blocks rd btr bs (br + ?k) ?out d1 =
          Some (Inr (min btr (br + ?k + 512 * length (leading_blocks bs))), overwrite ?out (br + ?k)
            (take (min btr (br + ?k + 512 * length (leading_blocks bs)) - (br + ?k))
              (blocks_data contents (leading_blocks bs))), d')" "good d'"
      unfolding Let_def by blast
    let ?n = "min btr (br + ?k + 512 * length (leading_blocks bs))"
    have n: "?n = min btr (br + 512 * length (leading_blocks (b # bs)))"
      using lead by (auto simp: min_def)
    have "take (?n - br) (?c @ blocks_data contents (leading_blocks bs)) =
        take ?k ?c @ take (?n - (br + ?k)) (blocks_data contents (leading_blocks bs))"
      using len 3 by (auto simp: min_def)
    moreover have "length (take ?k ?c) = ?k" using len by simp
    ultimately have "overwrite ?out (br + ?k)
          (take (?n - (br + ?k)) (blocks_data contents (leading_blocks bs))) =
        overwrite out br (take (?n - br) (blocks_data contents (leading_blocks (b # bs))))"
      using overwrite_overwrite[OF fits] by (simp add: lead blocks_data_def)
    with d' step n show ?thesis by (simp only: Let_def) blast
  qed
qed

end

subsection \<open>The reader over the ATA driver\<close>

text \<open>
  C18: Over a conforming drive, \<open>read_file\<close> returns as many bytes as the file's size, the
  caller's buffer and the leading allocated direct blocks allow, fills that prefix of the buffer
  with the blocks' data in order and leaves the rest of the buffer alone.
\<close>

theorem read_file_contents:
  assumes "ata_conforms bus regs ph disk" and "ph d = Ata_Idle" and "is_file i"
    and "\<forall>b\<in>set (leading_blocks (in_direct_blocks i)). in_volume (2 ^ 28) b"
  shows "\<exists>d'. let blocks = leading_blocks (in_direct_blocks i);
                n = min (min (unat (in_size i)) (length out)) (512 * length blocks)
            in read_file (ata_rd bus) i out d =
                 Some (Inr n, take n (blocks_data disk blocks) @ drop n out, d')
               \<and> ph d' = Ata_Idle"
proof -
  let ?bs = "leading_blocks (in_direct_blocks i)"
  let ?btr = "min (unat (in_size i)) (length out)"
  have len: "length (blocks_data disk ?bs) = 512 * length ?bs"
    using ata_conforms_length[OF assms(1)]
    by (simp add: blocks_data_def length_concat comp_def sum_list_triv mult.commute)
  have "overwrite out 0 (take n (blocks_data disk ?bs)) =
      take n (blocks_data disk ?bs) @ drop n out" if "n \<le> 512 * length ?bs" for n
    using that len by (simp add: overwrite_def min_def)
  with ata.read_file_blocks_good[of bus regs ph disk d "in_direct_blocks i" 0 ?btr out] assms
  show ?thesis by (auto simp: read_file_def Let_def)
qed

text \<open>A drive with one directory block at sector 40013 and file data elsewhere.\<close>

definition demo_disk :: "nat \<Rightarrow> bytes" where
  "demo_disk n =
     (if n = 40013 then dirent_to_bytes (dirent_new 7 (str ''a'')) @ replicate 480 0
      else replicate 512 (of_nat n))"

lemma demo_conforms: "ata_conforms (sim_bus 3 demo_disk) sim_regs sim_phase demo_disk"
  by (rule sim_conforms) (auto simp: demo_disk_def fs_sizes)

definition demo_inode :: "u8 \<Rightarrow> u32 \<Rightarrow> inode" where
  "demo_inode t b = \<lparr>in_size = 514, in_file_type = t, in_reserved_flags = 0,
     in_direct_blocks = [b, b + 1, 0, 0, 0, 0, 0, 0, 0, 0], in_single_indirect = 0,
     in_double_indirect = 0, in_reserved = replicate 6 0\<rparr>"

theorem read_file_contents_witness:
  "\<exists>d'. read_file (ata_rd (sim_bus 3 demo_disk)) (demo_inode 1 20) (replicate 600 9) sim_idle =
     Some (Inr 514, replicate 512 84 @ replicate 2 85 @ replicate 86 9, d')
     \<and> sim_phase d' = Ata_Idle"
proof -
  have "is_file (demo_inode 1 20)"
    and blocks: "leading_blocks (in_direct_blocks (demo_inode 1 20)) = [20, 21]"
    by (simp_all add: demo_inode_def is_file_def leading_blocks_def)
  moreover have "blocks_data demo_disk [20, 21] = replicate 512 84 @ replicate 512 85"
    by (simp add: blocks_data_def demo_disk_def)
  moreover have "\<forall>b\<in>set [20, 21]. in_volume (2 ^ 28) b" by (simp add: in_volume_def)
  ultimately show ?thesis
    using read_file_contents[OF demo_conforms sim_idle_phase, of "demo_inode 1 20" "replicate 600 9"]
    by (simp add: demo_inode_def)
qed

text \<open>
  \<open>find_entry\<close> returns the inode number of the first live entry with the name, over all
  allocated blocks of the directory in order, and the error \<open>File not found\<close> if there is none.
\<close>

theorem find_entry_first:
  assumes "ata_conforms bus regs ph disk" and "ph d = Ata_Idle" and "is_directory i"
    and "\<forall>b\<in>set (in_direct_blocks i). b \<noteq> 0 \<longrightarrow> in_volume (2 ^ 28) b"
  shows "\<exists>d'. find_entry (ata_rd bus) i name d =
      Some (case find (\<lambda>e. entry_live e \<and> get_name e = Some name)
                   (dir_entries disk (in_direct_blocks i)) of
              Some e \<Rightarrow> Inr (de_inode_num e)
            | None \<Rightarrow> Inl err_not_found, d') \<and> ph d' = Ata_Idle"
proof -
  obtain d' where "find_in_blocks (ata_rd bus) name (in_direct_blocks i) d =
      Some (case find_in_entries name (dir_entries disk (in_direct_blocks i)) of
        Some n \<Rightarrow> Inr n | None \<Rightarrow> Inl err_not_found, d')" "ph d' = Ata_Idle"
    using ata.find_in_blocks_good[of bus regs ph disk d "in_direct_blocks i" name] assms by blast
  with assms(3) show ?thesis
    by (auto simp: find_entry_def find_in_entries_find split: option.splits)
qed

theorem find_entry_first_witness:
  "\<exists>d'. find_entry (ata_rd (sim_bus 3 demo_disk)) (demo_inode 2 13) (str ''a'') sim_idle =
     Some (Inr 7, d') \<and> sim_phase d' = Ata_Idle"
proof -
  have i: "is_directory (demo_inode 2 13)"
    "\<forall>b\<in>set (in_direct_blocks (demo_inode 2 13)). b \<noteq> 0 \<longrightarrow> in_volume (2 ^ 28) b"
    by (simp_all add: demo_inode_def is_directory_def in_volume_def)
  have "block_entry (demo_disk 40013) 0 = dirent_new 7 (str ''a'')"
    using dirent_roundtrip[of "dirent_new 7 (str ''a'')" "[]"]
    by (simp add: block_entry_def demo_disk_def byte_simps fs_sizes)
  then have "find (\<lambda>e. entry_live e \<and> get_name e = Some (str ''a''))
      (dir_entries demo_disk (in_direct_blocks (demo_inode 2 13))) = Some (dirent_new 7 (str ''a''))"
    by (simp add: dir_entries_def demo_inode_def entries_count_def fs_consts fs_sizes upt_conv_Cons
        entry_live_def get_name_new str_def)
  with find_entry_first[OF demo_conforms sim_idle_phase i, of "str ''a''"] show ?thesis by simp
qed

text \<open>
  C38: \<open>list_directory\<close> prints one line per live entry with a valid name, in order, with its
  type read from its inode, and never panics or fails while the inode table and the
  directory's blocks lie on the drive.
\<close>

theorem list_directory_lines:
  assumes "ata_conforms bus regs ph disk" and "ph d = Ata_Idle" and "is_directory i"
    and "table_in_volume (2 ^ 28) sb"
    and "\<forall>b\<in>set (in_direct_blocks i). b \<noteq> 0 \<longrightarrow> in_volume (2 ^ 28) b"
  shows "\<exists>d'. list_directory (ata_rd bus) sb i d =
      Some (Inr (), dir_lines disk sb (dir_entries disk (in_direct_blocks i)), d')
      \<and> ph d' = Ata_Idle"
  using ata.list_blocks_good[of bus regs ph disk d sb "in_direct_blocks i" "[]"] assms
  by (simp add: list_directory_def)

definition demo_superblock :: superblock where
  "demo_superblock = fmt_superblock\<lparr>sb_inode_count := 4\<rparr>"

theorem list_directory_lines_witness:
  "\<exists>ls d'. list_directory (ata_rd (sim_bus 3 demo_disk)) demo_superblock (demo_inode 2 13) sim_idle =
     Some (Inr (), (''<ERR>'', str ''a'', 7) # ls, d') \<and> sim_phase d' = Ata_Idle"
proof -
  have i: "is_directory (demo_inode 2 13)" "table_in_volume (2 ^ 28) demo_superblock"
    "\<forall>b\<in>set (in_direct_blocks (demo_inode 2 13)). b \<noteq> 0 \<longrightarrow> in_volume (2 ^ 28) b"
    by (simp_all add: demo_inode_def is_directory_def in_volume_def table_in_volume_def
        demo_superblock_def fmt_superblock_def)
  have "block_entry (demo_disk 40013) 0 = dirent_new 7 (str ''a'')"
    using dirent_roundtrip[of "dirent_new 7 (str ''a'')" "[]"]
    by (simp add: block_entry_def demo_disk_def byte_simps fs_sizes)
  then have "dir_entries demo_disk (in_direct_blocks (demo_inode 2 13)) =
      dirent_new 7 (str ''a'') # tl (dir_entries demo_disk (in_direct_blocks (demo_inode 2 13)))"
    by (simp add: dir_entries_def demo_inode_def entries_count_def fs_consts fs_sizes upt_conv_Cons)
  then obtain rest where "dir_entries demo_disk (in_direct_blocks (demo_inode 2 13)) =
      dirent_new 7 (str ''a'') # rest" by blast
  moreover have "dir_lines demo_disk demo_superblock (dirent_new 7 (str ''a'') # rest) =
      (''<ERR>'', str ''a'', 7) # dir_lines demo_disk demo_superblock rest" for rest
  proof -
    have "get_name (dirent_new 7 (str ''a'')) = Some (str ''a'')" by (simp add: get_name_new str_def)
    then show ?thesis
      by (simp add: dir_lines_def entry_live_def)
        (simp add: entry_type_at_def demo_superblock_def str_def)
  qed
  ultimately show ?thesis
    using list_directory_lines[OF demo_conforms sim_idle_phase i] by auto
qed

end
