(* ===== verification/Mount.thy ===== *)
theory Mount
  imports Reliz_Fs
begin

text \<open>
  The formatter and the kernel's reader together: what \<open>host-tool\<close> writes at sector 40000
  (the offset \<open>builder/src/main.rs\<close> passes) is what the kernel mounts at boot.
\<close>

definition volume_on_disk :: "host_file \<Rightarrow> (nat \<Rightarrow> bytes) \<Rightarrow> bool" where
  "volume_on_disk img disk \<longleftrightarrow> (\<forall>n < 44096. disk n = image_sector img n)"

text \<open>The sectors of a formatted image, as the reader sees them.\<close>

lemma formatted_sector:
  assumes "hf_data f' = formatted_data 40000 g" and "volume_on_disk f' disk" and "k < 15"
  shows "disk (40000 + k) = load (formatted_data 40000 g) (sector_addr 40000 k) 512"
  using assms by (simp add: volume_on_disk_def image_sector_addr)

lemma fmt_dir_entries_wf: "i < 3 \<Longrightarrow> wf_dirent (fmt_dir_entries ! i)"
  by (auto simp: fmt_dir_entries_def nth_Cons')

lemma fmt_dir_block_entry:
  "i < 3 \<Longrightarrow> block_entry fmt_dir_block i = fmt_dir_entries ! i"
  "3 \<le> i \<Longrightarrow> i < 16 \<Longrightarrow> block_entry fmt_dir_block i = dirent_from_bytes (replicate 32 0)"
proof -
  let ?b = "map dirent_to_bytes fmt_dir_entries"
  have len: "length (dirent_to_bytes (fmt_dir_entries ! i)) = 32" if "i < 3" for i
    using fmt_dir_entries_wf[OF that] by (simp add: fs_sizes)
  have blk: "fmt_dir_block = dirent_to_bytes (fmt_dir_entries ! 0) @
      dirent_to_bytes (fmt_dir_entries ! 1) @ dirent_to_bytes (fmt_dir_entries ! 2) @
      replicate 416 0"
    using len[of 0] len[of 1] len[of 2]
    by (simp add: fmt_dir_block_def Let_def overwrite_def fs_consts fs_sizes)
  show "block_entry fmt_dir_block i = fmt_dir_entries ! i" if "i < 3"
  proof -
    from that have "i = 0 \<or> i = 1 \<or> i = 2" by auto
    then have "slice fmt_dir_block (i * 32) 32 = dirent_to_bytes (fmt_dir_entries ! i)"
      using len[of 0] len[of 1] len[of 2] unfolding blk by (auto simp: byte_simps)
    then show ?thesis
      using dirent_roundtrip[OF fmt_dir_entries_wf[OF that], of "[]"]
      by (simp add: block_entry_def fs_sizes)
  qed
  show "block_entry fmt_dir_block i = dirent_from_bytes (replicate 32 0)" if "3 \<le> i" "i < 16"
  proof -
    have "slice fmt_dir_block (i * 32) 32 = replicate 32 0"
      using len[of 0] len[of 1] len[of 2] that unfolding blk
      by (simp add: byte_simps slice_def min_def)
    then show ?thesis by (simp add: block_entry_def fs_sizes)
  qed
qed

lemma fmt_dir_entries_read:
  "map (block_entry fmt_dir_block) [0..<entries_count] =
     fmt_dir_entries @ replicate 13 (dirent_from_bytes (replicate 32 0))" (is "?l = ?r")
proof (rule nth_equalityI)
  have e: "length fmt_dir_entries = 3" "entries_count = 16"
    by (simp_all add: fmt_dir_entries_def entries_count_def fs_consts fs_sizes)
  then show "length ?l = length ?r" by simp
  fix i assume "i < length ?l"
  with e have "i < 16" by simp
  then show "?l ! i = ?r ! i"
    using e fmt_dir_block_entry[of i] by (cases "i < 3") (simp_all add: nth_append)
qed

text \<open>The unused slots are free.\<close>

lemma zero_entry_free: "\<not> entry_live (dirent_from_bytes (replicate 32 0))"
  by (simp add: entry_live_def dirent_from_bytes_def slice_def u32_from_le_def numeral_eq_Suc)

text \<open>The names of the three entries.\<close>

lemma fmt_names:
  "get_name (dirent_new n (str ''.'')) = Some (str ''.'')"
  "get_name (dirent_new n (str ''..'')) = Some (str ''..'')"
  "get_name (dirent_new n (str ''hello.txt'')) = Some (str ''hello.txt'')"
  by (simp_all add: get_name_new str_def)

lemma fmt_find_hello:
  "find (\<lambda>e. entry_live e \<and> get_name e = Some (str ''hello.txt''))
     (fmt_dir_entries @ rest) = Some (dirent_new 1 (str ''hello.txt''))"
  by (simp add: fmt_dir_entries_def fmt_names entry_live_def) (simp add: str_def)

text \<open>The listing of the root directory.\<close>

definition hello_lines :: "dir_line list" where
  "hello_lines = [(''<DIR>'', str ''.'', 0), (''<DIR>'', str ''..'', 0),
     (''<FILE>'', str ''hello.txt'', 1)]"

lemma root_blocks:
  "in_direct_blocks fmt_root_inode = 13 # replicate 9 0"
  "in_direct_blocks fmt_hello_inode = 14 # replicate 9 0"
  by (simp_all add: fmt_root_inode_def fmt_hello_inode_def fmt_inode_def fmt_data_blocks_start_def
      DIRECT_BLOCKS_COUNT_def numeral_eq_Suc)

lemma fmt_inode_types:
  "is_directory fmt_root_inode" "is_file fmt_hello_inode" "\<not> is_directory fmt_hello_inode"
  "unat (in_size fmt_hello_inode) = 102"
  by (simp_all add: fmt_root_inode_def fmt_hello_inode_def fmt_inode_def is_directory_def is_file_def)

lemma volume_contents:
  assumes "hf_data f' = formatted_data 40000 g" and "volume_on_disk f' disk"
  shows "superblock_from_bytes (disk 40002) = fmt_superblock"
    and "inode_at disk fmt_superblock 0 = fmt_root_inode"
    and "inode_at disk fmt_superblock 1 = fmt_hello_inode"
    and "disk 40013 = fmt_dir_block" and "disk 40014 = fmt_file_block"
proof -
  note sector = formatted_sector[OF assms]
  show "superblock_from_bytes (disk 40002) = fmt_superblock"
    using sector[of 2] formatted_superblock[of 40000 g] by simp
  show "inode_at disk fmt_superblock 0 = fmt_root_inode"
    using sector[of 3] formatted_inodes(1)[of 40000 g] by (simp add: inode_at_def)
  show "inode_at disk fmt_superblock 1 = fmt_hello_inode"
    using sector[of 3] formatted_inodes(2)[of 40000 g] by (simp add: inode_at_def)
  show "disk 40013 = fmt_dir_block" "disk 40014 = fmt_file_block"
    using sector[of 13] sector[of 14] formatted_blocks[of 40000 g] by simp_all
qed

lemma volume_entries:
  assumes "hf_data f' = formatted_data 40000 g" and "volume_on_disk f' disk"
  shows "dir_entries disk (in_direct_blocks fmt_root_inode) =
    fmt_dir_entries @ replicate 13 (dirent_from_bytes (replicate 32 0))"
  using volume_contents(4)[OF assms] fmt_dir_entries_read by (simp add: dir_entries_def root_blocks)

lemma fmt_in_volume: "in_volume (2 ^ 28) 13" "in_volume (2 ^ 28) 14" "in_volume (2 ^ 28) 2"
  "table_in_volume (2 ^ 28) fmt_superblock"
  by (simp_all add: in_volume_def table_in_volume_def fmt_superblock_def)

lemma volume_lines:
  assumes "hf_data f' = formatted_data 40000 g" and "volume_on_disk f' disk"
  shows "dir_lines disk fmt_superblock (dir_entries disk (in_direct_blocks fmt_root_inode)) =
    hello_lines"
proof -
  have "filter (\<lambda>e. entry_live e \<and> get_name e \<noteq> None)
      (fmt_dir_entries @ replicate 13 (dirent_from_bytes (replicate 32 0))) = fmt_dir_entries"
    by (simp add: zero_entry_free) (simp add: fmt_dir_entries_def fmt_names entry_live_def)
  then show ?thesis
    using volume_contents(3)[OF assms] fmt_inode_types(3)
    by (simp add: volume_entries[OF assms] dir_lines_def fmt_dir_entries_def fmt_names
        entry_type_at_def hello_lines_def fmt_superblock_def) (simp add: str_def)
qed

subsection \<open>From formatter to shell\<close>

text \<open>
  C17: An image formatted at sector 40000 (whatever it held before), on a conforming drive, is
  mounted by the kernel: the superblock is accepted, inode 0 is the root directory, its
  listing is \<open>.\<close>, \<open>..\<close> and \<open>hello.txt\<close>, \<open>find_entry\<close> gives inode 1, and \<open>read_file\<close>
  fills the buffer with exactly the text the formatter wrote.
\<close>

theorem mount_formatted_image:
  assumes "format_image 40000 f = Some f'" and "volume_on_disk f' disk"
    and "ata_conforms bus regs ph disk" and "ph d0 = Ata_Idle" and "102 \<le> length out"
  shows "\<exists>d1 d2 d3 d4 d5 d6.
     relizfs_init (ata_rd bus) d0 = Some (Inr fmt_superblock, d1) \<and>
     read_inode (ata_rd bus) fmt_superblock 0 d1 = Some (Inr fmt_root_inode, d2) \<and>
     list_directory (ata_rd bus) fmt_superblock fmt_root_inode d2 =
       Some (Inr (), hello_lines, d3) \<and>
     find_entry (ata_rd bus) fmt_root_inode (str ''hello.txt'') d3 = Some (Inr 1, d4) \<and>
     read_inode (ata_rd bus) fmt_superblock 1 d4 = Some (Inr fmt_hello_inode, d5) \<and>
     read_file (ata_rd bus) fmt_hello_inode out d5 =
       Some (Inr 102, test_file_bytes @ drop 102 out, d6)"
proof -
  have "512 * (40000 + 4096) < usize_bound" by (simp add: usize_bound_def)
  from format_image_eq[OF this, of f] assms(1) obtain g where
    img: "hf_data f' = formatted_data 40000 g" by (metis option.inject)
  note vol = volume_contents[OF img assms(2)]
  let ?good = "\<lambda>d. ata_conforms bus regs ph disk \<and> ph d = Ata_Idle"
  have fits: "\<forall>b\<in>set (in_direct_blocks fmt_root_inode). b \<noteq> 0 \<longrightarrow> in_volume (2 ^ 28) b"
    "\<forall>b\<in>set (leading_blocks (in_direct_blocks fmt_hello_inode)). in_volume (2 ^ 28) b"
    using fmt_in_volume by (auto simp: root_blocks leading_blocks_def)
  obtain d1 where d1: "relizfs_init (ata_rd bus) d0 = Some (Inr fmt_superblock, d1)" "?good d1"
    using ata.relizfs_init_good[of bus regs ph disk d0] assms(3,4) fmt_in_volume(3) vol(1)
    by (auto simp: Let_def fmt_superblock_def)
  obtain d2 where d2: "read_inode (ata_rd bus) fmt_superblock 0 d1 = Some (Inr fmt_root_inode, d2)"
      "?good d2"
    using ata.read_inode_good[OF d1(2) _ fmt_in_volume(4), of 0] vol(2) by (auto simp: fmt_superblock_def)
  obtain d3 where d3: "list_directory (ata_rd bus) fmt_superblock fmt_root_inode d2 =
      Some (Inr (), hello_lines, d3)" "?good d3"
    using ata.list_blocks_good[OF d2(2) fmt_in_volume(4) fits(1), of "[]"] volume_lines[OF img assms(2)]
    by (auto simp: list_directory_def fmt_inode_types)
  obtain d4 where d4: "find_entry (ata_rd bus) fmt_root_inode (str ''hello.txt'') d3 =
      Some (Inr 1, d4)" "?good d4"
    using ata.find_in_blocks_good[OF d3(2) fits(1), of "str ''hello.txt''"]
    by (auto simp: find_entry_def fmt_inode_types find_in_entries_find
        volume_entries[OF img assms(2)] fmt_find_hello)
  obtain d5 where d5: "read_inode (ata_rd bus) fmt_superblock 1 d4 = Some (Inr fmt_hello_inode, d5)"
      "?good d5"
    using ata.read_inode_good[OF d4(2) _ fmt_in_volume(4), of 1] vol(3) by (auto simp: fmt_superblock_def)
  have "take 102 (blocks_data disk [14]) = test_file_bytes" "length (blocks_data disk [14]) = 512"
    using vol(5) by (simp_all add: blocks_data_def fmt_file_block_def overwrite_def fs_consts)
  then obtain d6 where "read_file (ata_rd bus) fmt_hello_inode out d5 =
      Some (Inr 102, test_file_bytes @ drop 102 out, d6)"
    using ata.read_file_blocks_good[OF d5(2) fits(2), of 0 102 out] assms(5)
    by (auto simp: read_file_def fmt_inode_types root_blocks leading_blocks_def overwrite_def Let_def)
  with d1 d2 d3 d4 d5 show ?thesis by blast
qed

text \<open>A fresh image, its volume on a drive that is busy for three polls.\<close>

definition empty_image :: host_file where
  "empty_image = \<lparr>hf_len = 0, hf_data = (\<lambda>_. 0), hf_pos = 0\<rparr>"

theorem mount_formatted_image_witness:
  "\<exists>img d. format_image 40000 empty_image = Some img \<and>
     relizfs_init (ata_rd (sim_bus 3 (image_sector img))) sim_idle = Some (Inr fmt_superblock, d)"
proof -
  have "512 * (40000 + 4096) < usize_bound" by (simp add: usize_bound_def)
  from format_image_eq[OF this, of empty_image] obtain img where
    img: "format_image 40000 empty_image = Some img" by metis
  have "volume_on_disk img (image_sector img)" by (simp add: volume_on_disk_def)
  moreover have "ata_conforms (sim_bus 3 (image_sector img)) sim_regs sim_phase (image_sector img)"
    by (rule sim_conforms) (simp_all add: image_sector_def fs_consts)
  moreover have "102 \<le> length (replicate 102 (0 :: u8))" by simp
  ultimately show ?thesis
    using img mount_formatted_image[of empty_image img "image_sector img"
      "sim_bus 3 (image_sector img)" sim_regs sim_phase sim_idle] sim_idle_phase by blast
qed

end
