(* ===== verification/Disk_Servers.thy ===== *)
theory Disk_Servers
  imports Mount Decimal Task
begin

text \<open>
  The two disk servers of \<open>kernel/src/main.rs\<close>: \<open>task_ata_server\<close>, which answers sector
  requests with the driver of \<open>Ata\<close>, and \<open>task_fs_server\<close>, which answers list and read
  requests with sectors it asks the ATA server for. One round of each server's loop is a
  function from the message received to the message sent back (\<open>None\<close> where the server sends
  nothing) and the new state. A request and its answer are one step; \<open>Ipc_Calls\<close> shows that
  nothing but the server's answer ends a client's call.
\<close>

subsection \<open>The ATA server\<close>

text \<open>
  Memory, the ATA server's local \<open>buffer\<close> (which lives across requests) and the drive.
\<close>

record 'd disk_world =
  dw_mem :: mem
  dw_buffer :: bytes
  dw_dev :: 'd

definition ata_response :: "u64 \<Rightarrow> message" where
  "ata_response t = \<lparr>sender = 3, msg_type = t, arg1 = 0, arg2 = 0, arg3 = 0, arg4 = 0\<rparr>"

text \<open>A request of type \<open>MSG_ATA_READ\<close>.\<close>

definition ata_serve_read :: "'d port_bus \<Rightarrow> message \<Rightarrow> 'd disk_world \<Rightarrow> message \<times> 'd disk_world" where
  "ata_serve_read bus msg w =
     (let lba = ucast (arg1 msg); client_buf_ptr = unat (arg2 msg);
          (read_res, buffer, d) = read_sector bus 0 lba (dw_buffer w) (dw_dev w);
          w = w\<lparr>dw_buffer := buffer, dw_dev := d\<rparr>
      in case read_res of
           Inr _ \<Rightarrow> (ata_response 0, w\<lparr>dw_mem := store (dw_mem w) client_buf_ptr buffer\<rparr>)
         | Inl _ \<Rightarrow> (ata_response 999, w))"

definition ata_serve :: "'d port_bus \<Rightarrow> message \<Rightarrow> 'd disk_world \<Rightarrow> message option \<times> 'd disk_world" where
  "ata_serve bus msg w =
     (if msg_type msg = 1 then
        (case ata_serve_read bus msg w of (response, w) \<Rightarrow> (Some response, w))
      else (None, w))"

subsection \<open>Sectors over messages\<close>

text \<open>
  \<open>fs_read_sector(lba, buf_ptr)\<close>: the request, the answer, and the buffer at \<open>buf_ptr\<close> after
  an \<open>Ok\<close>. The buffers are local arrays of the server; all that matters of \<open>buf_ptr\<close> is where
  the ATA server writes.
\<close>

definition ata_request :: "u32 \<Rightarrow> nat \<Rightarrow> message" where
  "ata_request lba buf_ptr =
     \<lparr>sender = 2, msg_type = 1, arg1 = ucast lba, arg2 = word_of_nat buf_ptr, arg3 = 0, arg4 = 0\<rparr>"

definition err_fs_read :: string where
  "err_fs_read = ''ATA read sector failed''"

definition fs_read_sector :: "'d port_bus \<Rightarrow> nat \<Rightarrow> 'd disk_world reader" where
  "fs_read_sector bus buf_ptr lba w =
     (case ata_serve_read bus (ata_request lba buf_ptr) w of
        (resp, w) \<Rightarrow>
          (if msg_type resp = 0 then Inr (load (dw_mem w) buf_ptr 512) else Inl err_fs_read, w))"

lemma u32_via_u64: "(ucast (ucast (w :: u32) :: u64) :: u32) = w"
  by (rule bit_word_eqI) (simp add: bit_simps)

text \<open>
  Reading through the ATA server is a sector device like the driver itself, so every lemma of
  \<open>Reliz_Fs\<close> about readers holds of it; its good states also say that memory has changed in
  the buffer only.
\<close>

definition disk_ready ::
  "'d port_bus \<Rightarrow> ('d \<Rightarrow> nat \<Rightarrow> u8) \<Rightarrow> ('d \<Rightarrow> ata_phase) \<Rightarrow> (nat \<Rightarrow> bytes) \<Rightarrow> nat \<Rightarrow> mem \<Rightarrow>
     'd disk_world \<Rightarrow> bool" where
  "disk_ready bus regs ph disk buf m w \<longleftrightarrow>
     ata_conforms bus regs ph disk \<and> ph (dw_dev w) = Ata_Idle \<and> length (dw_buffer w) = 512 \<and>
     buf + 512 < usize_bound \<and> same_outside buf 512 m (dw_mem w)"

interpretation server: sector_device "fs_read_sector bus buf"
  "disk_ready bus regs ph disk buf m" disk "2 ^ 28" for bus buf regs ph disk m
proof unfold_locales
  fix w and lba :: u32
  assume w: "disk_ready bus regs ph disk buf m w" and lba: "unat lba < 2 ^ 28"
  then have ok: "ata_conforms bus regs ph disk" "ph (dw_dev w) = Ata_Idle"
    "length (dw_buffer w) = 512" and buf: "buf + 512 < 2 ^ 64"
    and m: "same_outside buf 512 m (dw_mem w)"
    by (simp_all add: disk_ready_def usize_bound_def)
  obtain d' where d': "read_sector bus 0 lba (dw_buffer w) (dw_dev w) =
      (Inr (), disk (unat lba), d')" "ph d' = Ata_Idle"
    using read_sector_ok[OF ok, of lba] lba by auto
  have len: "length (disk (unat lba)) = 512" by (rule ata_conforms_length[OF ok(1)])
  have cast: "ucast (ucast lba :: u64) = lba" "unat (word_of_nat buf :: u64) = buf"
    using buf by (simp_all add: unat_of_nat u32_via_u64)
  let ?w = "w\<lparr>dw_buffer := disk (unat lba), dw_dev := d',
    dw_mem := store (dw_mem w) buf (disk (unat lba))\<rparr>"
  have "fs_read_sector bus buf lba w = (Inr (disk (unat lba)), ?w)"
    using load_store_same[of "dw_mem w" buf "disk (unat lba)"] len
    by (simp add: fs_read_sector_def ata_serve_read_def ata_request_def cast d' Let_def
        ata_response_def)
  moreover have "disk_ready bus regs ph disk buf m ?w"
    using ok d'(2) len buf m
    by (simp add: disk_ready_def usize_bound_def same_outside_def store_outside)
  ultimately show "\<exists>d'. fs_read_sector bus buf lba w = (Inr (disk (unat lba)), d') \<and>
      disk_ready bus regs ph disk buf m d'" by blast
next
  show "\<And>w n. disk_ready bus regs ph disk buf m w \<Longrightarrow> length (disk n) = 512"
    using ata_conforms_length by (auto simp: disk_ready_def)
qed

end
