(* ===== verification/Fs_Server.thy ===== *)
theory Fs_Server
  imports Disk_Servers
begin

text \<open>
  \<open>task_fs_server\<close> of \<open>kernel/src/main.rs\<close>: the list and read requests. The parsing is
  generic in the sector reader (\<open>fs_read_sector bus buf\<close> in the code); \<open>fs_serve\<close> is one
  round of the server's loop. \<open>None\<close> is a panic (checked \<open>u32\<close> additions) or the copy past
  the end of a local array that \<open>MSG_FS_READ\<close> can make.
\<close>

subsection \<open>The root directory\<close>

text \<open>\<open>if m.is_ok() { f }\<close>, where the code goes on with \<open>g\<close> otherwise.\<close>

definition on_ok ::
  "('d, 'a) fs_io \<Rightarrow> ('a \<Rightarrow> 'd \<Rightarrow> 'b option) \<Rightarrow> ('d \<Rightarrow> 'b option) \<Rightarrow> 'd \<Rightarrow> 'b option" where
  "on_ok m f g d =
     (case m d of
        None \<Rightarrow> None
      | Some (Inl e, d) \<Rightarrow> g d
      | Some (Inr x, d) \<Rightarrow> f x d)"

text \<open>
  Superblock, root inode and the first block of the root directory; \<open>None\<close> inside where a
  read failed. The server checks neither the magic number nor the inode's type.
\<close>

definition fs_root :: "'d reader \<Rightarrow> 'd \<Rightarrow> ((superblock \<times> bytes) option \<times> 'd) option" where
  "fs_root rd =
     (let failed = (\<lambda>d. Some (None, d)) in
      on_ok (read_fs_sector rd 2) (\<lambda>sector.
        let sb = superblock_from_bytes sector in
        on_ok (read_fs_sector rd (sb_inode_table_start sb)) (\<lambda>sector_buf.
          let root_inode = inode_from_bytes (slice sector_buf 0 inode_size);
              root_block = in_direct_blocks root_inode ! 0
          in on_ok (read_fs_sector rd root_block) (\<lambda>dir_sector d. Some (Some (sb, dir_sector), d))
               failed)
          failed)
        failed)"

text \<open>The inode an entry names; the number is not checked against the inode count.\<close>

definition fs_entry_inode :: "'d reader \<Rightarrow> superblock \<Rightarrow> u32 \<Rightarrow> ('d, inode) fs_io" where
  "fs_entry_inode rd sb inode_num =
     (let byte_offset = unat inode_num * inode_size;
          s_offset = byte_offset div 512;
          b_index = byte_offset mod 512
      in case wadd (sb_inode_table_start sb) (of_nat s_offset) of
           None \<Rightarrow> (\<lambda>_. None)
         | Some inode_sector \<Rightarrow>
             try_io (read_fs_sector rd inode_sector) (\<lambda>inode_buf.
               io_ok (inode_from_bytes (slice inode_buf b_index inode_size))))"

definition fs_entry_live :: "directory_entry \<Rightarrow> bool" where
  "fs_entry_live e \<longleftrightarrow> de_inode_num e \<noteq> 0 \<and> 0 < de_name_len e"

definition fs_dir_entries :: "bytes \<Rightarrow> directory_entry list" where
  "fs_dir_entries dir_sector = map (block_entry dir_sector) [0..<16]"

subsection \<open>Listing\<close>

definition append_entry :: "inode \<Rightarrow> bytes \<Rightarrow> bytes \<times> nat \<Rightarrow> (bytes \<times> nat) option" where
  "append_entry ent_inode name b =
     do {
       b \<leftarrow> append_text (if is_directory ent_inode then str ''[DIR]  '' else str ''[FILE] '') b;
       b \<leftarrow> append_text name b;
       b \<leftarrow> (if is_file ent_inode then
               do {
                 b \<leftarrow> append_text (str '' ('') b;
                 b \<leftarrow> append_num 20 (unat (in_size ent_inode)) b;
                 append_text (str '' bytes)'') b
               }
             else Some b);
       append_text [0x0A] b
     }"

fun fs_list_entries ::
  "'d reader \<Rightarrow> superblock \<Rightarrow> directory_entry list \<Rightarrow> bytes \<times> nat \<Rightarrow> 'd \<Rightarrow> ((bytes \<times> nat) \<times> 'd) option" where
  "fs_list_entries rd sb [] b d = Some (b, d)"
| "fs_list_entries rd sb (e # es) b d =
     (if fs_entry_live e then
        (case get_name e of
           None \<Rightarrow> fs_list_entries rd sb es b d
         | Some name \<Rightarrow>
             on_ok (fs_entry_inode rd sb (de_inode_num e))
               (\<lambda>ent_inode d. do { b \<leftarrow> append_entry ent_inode name b; fs_list_entries rd sb es b d })
               (fs_list_entries rd sb es b) d)
      else fs_list_entries rd sb es b d)"

text \<open>The terminating NUL, where there is room for it.\<close>

definition fs_terminate :: "bytes \<times> nat \<Rightarrow> (bytes \<times> nat) option" where
  "fs_terminate b =
     (case b of (list_res, cursor) \<Rightarrow>
        if cursor < length list_res
        then do { list_res \<leftarrow> upd list_res cursor 0; c \<leftarrow> uadd cursor 1; Some (list_res, c) }
        else Some b)"

definition fs_list :: "'d reader \<Rightarrow> 'd \<Rightarrow> ((bytes \<times> nat) \<times> 'd) option" where
  "fs_list rd d =
     do {
       (root, d) \<leftarrow> fs_root rd d;
       (b, d) \<leftarrow> (case root of
           None \<Rightarrow> Some ((replicate 1024 0, 0), d)
         | Some (sb, dir_sector) \<Rightarrow>
             fs_list_entries rd sb (fs_dir_entries dir_sector) (replicate 1024 0, 0) d);
       b \<leftarrow> fs_terminate b;
       Some (b, d)
     }"

subsection \<open>Reading a file\<close>

text \<open>The loop over the file name: up to 32 bytes before a NUL.\<close>

fun name_length :: "mem \<Rightarrow> nat \<Rightarrow> nat \<Rightarrow> nat" where
  "name_length m p 0 = 0"
| "name_length m p (Suc k) = (if m p = 0 then 0 else Suc (name_length m (p + 1) k))"

definition read_filename :: "mem \<Rightarrow> nat \<Rightarrow> bytes" where
  "read_filename m p =
     (case from_utf8 (load m p (name_length m p 32)) of Some name \<Rightarrow> name | None \<Rightarrow> [])"

text \<open>
  The loop over the entries: the first one with the name decides; the inode and the first
  block of the file, if both can be read.
\<close>

fun fs_lookup_entries ::
  "'d reader \<Rightarrow> superblock \<Rightarrow> bytes \<Rightarrow> directory_entry list \<Rightarrow> 'd \<Rightarrow> ((inode \<times> bytes) option \<times> 'd) option" where
  "fs_lookup_entries rd sb target [] d = Some (None, d)"
| "fs_lookup_entries rd sb target (e # es) d =
     (if fs_entry_live e \<and> get_name e = Some target then
        on_ok (fs_entry_inode rd sb (de_inode_num e))
          (\<lambda>file_inode.
            on_ok (read_fs_sector rd (in_direct_blocks file_inode ! 0))
              (\<lambda>data_sector d. Some (Some (file_inode, data_sector), d))
              (\<lambda>d. Some (None, d)))
          (\<lambda>d. Some (None, d)) d
      else fs_lookup_entries rd sb target es d)"

definition fs_lookup :: "'d reader \<Rightarrow> bytes \<Rightarrow> 'd \<Rightarrow> ((inode \<times> bytes) option \<times> 'd) option" where
  "fs_lookup rd target d =
     do {
       (root, d) \<leftarrow> fs_root rd d;
       case root of
         None \<Rightarrow> Some (None, d)
       | Some (sb, dir_sector) \<Rightarrow> fs_lookup_entries rd sb target (fs_dir_entries dir_sector) d
     }"

text \<open>
  The copy to the client. \<open>copy_nonoverlapping\<close> takes up to \<open>max_len\<close> bytes from an array of
  512: beyond that the source is out of bounds.
\<close>

definition fs_copy_out :: "inode \<Rightarrow> bytes \<Rightarrow> nat \<Rightarrow> nat \<Rightarrow> mem \<Rightarrow> (nat \<times> mem) option" where
  "fs_copy_out file_inode data_sector client_buf max_len m =
     (let copy_size = min (unat (in_size file_inode)) max_len in
      if length data_sector < copy_size then None
      else
        (let m = store m client_buf (take copy_size data_sector);
             m = (if copy_size < max_len then store m (client_buf + copy_size) [0] else m)
         in Some (copy_size, m)))"

subsection \<open>The server\<close>

definition fs_response :: "u64 \<Rightarrow> u64 \<Rightarrow> message" where
  "fs_response t a = \<lparr>sender = 2, msg_type = t, arg1 = a, arg2 = 0, arg3 = 0, arg4 = 0\<rparr>"

definition fs_serve_list ::
  "'d port_bus \<Rightarrow> nat \<Rightarrow> message \<Rightarrow> 'd disk_world \<Rightarrow> (message option \<times> 'd disk_world) option" where
  "fs_serve_list bus buf msg w =
     do {
       let client_buf = unat (arg1 msg);
       let max_len = unat (arg2 msg);
       ((list_res, cursor), w) \<leftarrow> fs_list (fs_read_sector bus buf) w;
       let m = store (dw_mem w) client_buf (take (min cursor max_len) list_res);
       Some (Some (fs_response 0 0), w\<lparr>dw_mem := m\<rparr>)
     }"

definition fs_serve_read ::
  "'d port_bus \<Rightarrow> nat \<Rightarrow> message \<Rightarrow> 'd disk_world \<Rightarrow> (message option \<times> 'd disk_world) option" where
  "fs_serve_read bus buf msg w =
     do {
       let client_buf = unat (arg2 msg);
       let max_len = unat (arg3 msg);
       let target = read_filename (dw_mem w) (unat (arg1 msg));
       (found, w) \<leftarrow> fs_lookup (fs_read_sector bus buf) target w;
       case found of
         None \<Rightarrow> Some (Some (fs_response 999 0), w)
       | Some (file_inode, data_sector) \<Rightarrow>
           do {
             (n, m) \<leftarrow> fs_copy_out file_inode data_sector client_buf max_len (dw_mem w);
             Some (Some (fs_response 0 (word_of_nat n)), w\<lparr>dw_mem := m\<rparr>)
           }
     }"

definition fs_serve ::
  "'d port_bus \<Rightarrow> nat \<Rightarrow> message \<Rightarrow> 'd disk_world \<Rightarrow> (message option \<times> 'd disk_world) option" where
  "fs_serve bus buf msg w =
     (if msg_type msg = 10 then fs_serve_list bus buf msg w
      else if msg_type msg = 11 then fs_serve_read bus buf msg w
      else Some (None, w))"


subsection \<open>What a volume says\<close>

text \<open>Superblock, root directory entries and lookup, read off the sectors directly.\<close>

definition vol_sb :: "(nat \<Rightarrow> bytes) \<Rightarrow> superblock" where
  "vol_sb contents = superblock_from_bytes (contents 40002)"

definition vol_root_block :: "(nat \<Rightarrow> bytes) \<Rightarrow> u32" where
  "vol_root_block contents = in_direct_blocks (inode_at contents (vol_sb contents) 0) ! 0"

definition vol_entries :: "(nat \<Rightarrow> bytes) \<Rightarrow> directory_entry list" where
  "vol_entries contents = fs_dir_entries (contents (40000 + unat (vol_root_block contents)))"

definition vol_ok :: "nat \<Rightarrow> (nat \<Rightarrow> bytes) \<Rightarrow> bool" where
  "vol_ok limit contents \<longleftrightarrow> in_volume limit 2 \<and>
     in_volume limit (sb_inode_table_start (vol_sb contents)) \<and>
     in_volume limit (vol_root_block contents)"

definition vol_inode :: "(nat \<Rightarrow> bytes) \<Rightarrow> directory_entry \<Rightarrow> inode" where
  "vol_inode contents e = inode_at contents (vol_sb contents) (de_inode_num e)"

text \<open>The sector of an entry's inode is on the device.\<close>

definition vol_entry_ok :: "nat \<Rightarrow> (nat \<Rightarrow> bytes) \<Rightarrow> directory_entry \<Rightarrow> bool" where
  "vol_entry_ok limit contents e \<longleftrightarrow>
     (let s = 40000 + (unat (sb_inode_table_start (vol_sb contents)) +
        unat (de_inode_num e) * 64 div 512)
      in s < limit \<and> s < 2 ^ 32)"

definition vol_find :: "(nat \<Rightarrow> bytes) \<Rightarrow> bytes \<Rightarrow> directory_entry option" where
  "vol_find contents target =
     find (\<lambda>e. fs_entry_live e \<and> get_name e = Some target) (vol_entries contents)"

definition vol_first_block :: "(nat \<Rightarrow> bytes) \<Rightarrow> inode \<Rightarrow> bytes" where
  "vol_first_block contents i = contents (40000 + unat (in_direct_blocks i ! 0))"

text \<open>The listing of a volume.\<close>

definition vol_line :: "(nat \<Rightarrow> bytes) \<Rightarrow> directory_entry \<Rightarrow> bytes" where
  "vol_line contents e =
     (let i = vol_inode contents e in
      (if is_directory i then str ''[DIR]  '' else str ''[FILE] '') @ the (get_name e) @
      (if is_file i then str '' ('' @ decimal (unat (in_size i)) @ str '' bytes)'' else []) @ [0x0A])"

definition vol_listed :: "directory_entry list \<Rightarrow> directory_entry list" where
  "vol_listed es = filter (\<lambda>e. fs_entry_live e \<and> get_name e \<noteq> None) es"

definition vol_text :: "(nat \<Rightarrow> bytes) \<Rightarrow> directory_entry list \<Rightarrow> bytes" where
  "vol_text contents es = concat (map (vol_line contents) (vol_listed es))"

lemma name_length_takeWhile:
  "name_length m p k = length (takeWhile (\<lambda>b. b \<noteq> 0) (load m p k))"
proof (induction m p k rule: name_length.induct)
  case (2 m p k)
  have "load m p (Suc k) = m p # load m (p + 1) k"
    using load_add[of m p 1 k] by (simp add: load_def)
  with 2 show ?case by simp
qed (simp add: load_def)

lemma append_entry_filled:
  "append_entry i name (filled 1024 out) =
    Some (filled 1024 (out @ (if is_directory i then str ''[DIR]  '' else str ''[FILE] '') @ name @
      (if is_file i then str '' ('' @ decimal (unat (in_size i)) @ str '' bytes)'' else []) @ [0x0A]))"
proof -
  have u: "(1024 :: nat) < usize_bound" by (simp add: usize_bound_def)
  have "unat (in_size i) < usize_bound"
    using unat_lt2p[of "in_size i"] by (simp add: usize_bound_def)
  then have "length (decimal (unat (in_size i))) \<le> 20" by (rule decimal_fits_20)
  then have num: "append_num 20 (unat (in_size i)) (filled 1024 o2) =
      Some (filled 1024 (o2 @ decimal (unat (in_size i))))" for o2
    by (subst append_num_filled) (simp_all add: usize_bound_def)
  show ?thesis
    by (simp add: append_entry_def append_filled[OF u] num)
qed

subsection \<open>Reading a good device\<close>

context sector_device
begin

lemma fs_root_good:
  assumes "good d" and "vol_ok limit contents"
  obtains d' where "fs_root rd d = Some (Some (vol_sb contents,
      contents (40000 + unat (vol_root_block contents))), d')" and "good d'"
proof -
  let ?ts = "sb_inode_table_start (vol_sb contents)"
  from assms(2) have v: "in_volume limit 2" "in_volume limit ?ts"
    "in_volume limit (vol_root_block contents)" by (simp_all add: vol_ok_def)
  obtain d1 where d1: "read_fs_sector rd 2 d = Some (Inr (contents 40002), d1)" "good d1"
    using read_fs_sector_good[OF assms(1) v(1)] by auto
  obtain d2 where d2: "read_fs_sector rd ?ts d1 = Some (Inr (contents (40000 + unat ?ts)), d2)"
      "good d2"
    using read_fs_sector_good[OF d1(2) v(2)] by auto
  obtain d3 where d3: "read_fs_sector rd (vol_root_block contents) d2 =
      Some (Inr (contents (40000 + unat (vol_root_block contents))), d3)" "good d3"
    using read_fs_sector_good[OF d2(2) v(3)] by auto
  have "in_direct_blocks (inode_from_bytes (slice (contents (40000 + unat ?ts)) 0 inode_size)) ! 0 =
      vol_root_block contents"
    by (simp add: vol_root_block_def inode_at_def fs_sizes)
  with d1 d2 d3 show thesis
    by (intro that[OF _ d3(2)])
      (simp add: fs_root_def on_ok_def Let_def vol_sb_def[symmetric])
qed

lemma fs_entry_inode_good:
  assumes "good d" and "vol_entry_ok limit contents e"
  obtains d' where "fs_entry_inode rd (vol_sb contents) (de_inode_num e) d =
      Some (Inr (vol_inode contents e), d')" and "good d'"
proof -
  let ?n = "de_inode_num e" and ?t = "sb_inode_table_start (vol_sb contents)"
  let ?k = "unat ?n * 64 div 512"
  from assms(2) have k: "40000 + (unat ?t + ?k) < limit" "40000 + (unat ?t + ?k) < 2 ^ 32"
    by (simp_all add: vol_entry_ok_def Let_def)
  have "unat (of_nat ?k :: u32) = ?k" using k(2) by (simp add: unat_of_nat)
  then have w: "wadd ?t (of_nat ?k) = Some (?t + of_nat ?k)"
    and t: "unat (?t + of_nat ?k) = unat ?t + ?k"
    using k(2) by (simp_all add: wadd_def unat_word_ariths)
  have "in_volume limit (?t + of_nat ?k)" using k t by (simp add: in_volume_def)
  then obtain d' where d': "read_fs_sector rd (?t + of_nat ?k) d =
      Some (Inr (contents (40000 + (unat ?t + ?k))), d')" "good d'"
    using read_fs_sector_good[OF assms(1)] t by metis
  then show thesis
    by (intro that[OF _ d'(2)]) (use w in \<open>simp add: fs_entry_inode_def inode_at_def vol_inode_def
        Let_def fs_sizes try_io_def io_ok_def add.assoc\<close>)
qed

lemma fs_list_entries_good:
  assumes "good d" and "\<forall>e\<in>set (vol_listed es). vol_entry_ok limit contents e"
  shows "\<exists>d'. fs_list_entries rd (vol_sb contents) es (filled 1024 out) d =
    Some (filled 1024 (out @ vol_text contents es), d') \<and> good d'"
  using assms
proof (induction es arbitrary: out d)
  case Nil
  then show ?case by (simp add: vol_text_def vol_listed_def)
next
  case (Cons e es)
  have tail: "\<forall>e\<in>set (vol_listed es). vol_entry_ok limit contents e"
    using Cons.prems(2) by (simp add: vol_listed_def)
  show ?case
  proof (cases "fs_entry_live e \<and> get_name e \<noteq> None")
    case True
    then obtain name where name: "fs_entry_live e" "get_name e = Some name" by auto
    with Cons.prems(2) have "vol_entry_ok limit contents e" by (simp add: vol_listed_def)
    from fs_entry_inode_good[OF Cons.prems(1) this] obtain d1 where
      d1: "fs_entry_inode rd (vol_sb contents) (de_inode_num e) d = Some (Inr (vol_inode contents e), d1)"
        "good d1" by blast
    have "fs_list_entries rd (vol_sb contents) (e # es) (filled 1024 out) d =
        fs_list_entries rd (vol_sb contents) es (filled 1024 (out @ vol_line contents e)) d1"
      using name d1 by (simp add: on_ok_def append_entry_filled vol_line_def Let_def)
    moreover have "vol_text contents (e # es) = vol_line contents e @ vol_text contents es"
      using True by (simp add: vol_text_def vol_listed_def)
    ultimately show ?thesis using Cons.IH[OF d1(2) tail, of "out @ vol_line contents e"] by simp
  next
    case False
    then have "vol_text contents (e # es) = vol_text contents es"
      by (auto simp: vol_text_def vol_listed_def)
    moreover have "fs_list_entries rd (vol_sb contents) (e # es) (filled 1024 out) d =
        fs_list_entries rd (vol_sb contents) es (filled 1024 out) d"
      using False by auto
    ultimately show ?thesis using Cons.IH[OF Cons.prems(1) tail] by simp
  qed
qed

lemma fs_list_good:
  assumes "good d" and "vol_ok limit contents"
    and "\<forall>e\<in>set (vol_listed (vol_entries contents)). vol_entry_ok limit contents e"
  shows "\<exists>d'. fs_list rd d =
    Some (the (fs_terminate (filled 1024 (vol_text contents (vol_entries contents)))), d') \<and> good d'"
proof -
  obtain d1 where d1: "fs_root rd d = Some (Some (vol_sb contents,
      contents (40000 + unat (vol_root_block contents))), d1)" "good d1"
    by (rule fs_root_good[OF assms(1,2)])
  obtain d2 where d2: "fs_list_entries rd (vol_sb contents) (vol_entries contents) (filled 1024 []) d1 =
      Some (filled 1024 (vol_text contents (vol_entries contents)), d2)" "good d2"
    using fs_list_entries_good[OF d1(2) assms(3), of "[]"] by auto
  have "fs_terminate (filled 1024 out) \<noteq> None" for out
    by (auto simp: fs_terminate_def filled_def checked usize_bound_def split: if_splits)
  then obtain b where
    b: "fs_terminate (filled 1024 (vol_text contents (vol_entries contents))) = Some b" by blast
  with d1 d2 show ?thesis
    by (intro exI[of _ d2]) (simp add: fs_list_def vol_entries_def[symmetric] filled_Nil)
qed

lemma fs_lookup_good:
  assumes "good d" and "vol_ok limit contents"
    and "\<And>e. vol_find contents target = Some e \<Longrightarrow> vol_entry_ok limit contents e \<and>
      in_volume limit (in_direct_blocks (vol_inode contents e) ! 0)"
  shows "\<exists>d'. fs_lookup rd target d =
    Some (map_option (\<lambda>e. (vol_inode contents e, vol_first_block contents (vol_inode contents e)))
      (vol_find contents target), d') \<and> good d'"
proof -
  obtain d1 where d1: "fs_root rd d = Some (Some (vol_sb contents,
      contents (40000 + unat (vol_root_block contents))), d1)" "good d1"
    by (rule fs_root_good[OF assms(1,2)])
  let ?P = "\<lambda>e. fs_entry_live e \<and> get_name e = Some target"
  have "\<exists>d'. fs_lookup_entries rd (vol_sb contents) target es d =
      Some (map_option (\<lambda>e. (vol_inode contents e, vol_first_block contents (vol_inode contents e)))
        (find ?P es), d') \<and> good d'"
    if "good d" and "\<And>e. find ?P es = Some e \<Longrightarrow> vol_entry_ok limit contents e \<and>
      in_volume limit (in_direct_blocks (vol_inode contents e) ! 0)" for es d
    using that
  proof (induction es)
    case (Cons e es)
    show ?case
    proof (cases "?P e")
      case True
      with Cons.prems(2) have ok: "vol_entry_ok limit contents e"
        "in_volume limit (in_direct_blocks (vol_inode contents e) ! 0)" by auto
      obtain d2 where d2: "fs_entry_inode rd (vol_sb contents) (de_inode_num e) d =
          Some (Inr (vol_inode contents e), d2)" "good d2"
        by (rule fs_entry_inode_good[OF Cons.prems(1) ok(1)])
      obtain d3 where "read_fs_sector rd (in_direct_blocks (vol_inode contents e) ! 0) d2 =
          Some (Inr (vol_first_block contents (vol_inode contents e)), d3)" "good d3"
        using read_fs_sector_good[OF d2(2) ok(2)] by (auto simp: vol_first_block_def)
      with True d2 show ?thesis by (simp add: on_ok_def)
    next
      case False
      have step: "fs_lookup_entries rd (vol_sb contents) target (e # es) d =
          fs_lookup_entries rd (vol_sb contents) target es d"
        by (simp only: fs_lookup_entries.simps False if_False)
      have f: "find ?P (e # es) = find ?P es" by (simp only: find.simps False if_False)
      show ?thesis
        unfolding step f by (rule Cons.IH[OF Cons.prems(1)]) (rule Cons.prems(2)[unfolded f])
    qed
  qed simp
  from this[OF d1(2), of "vol_entries contents"] assms(3) d1(1) show ?thesis
    by (simp add: fs_lookup_def vol_find_def vol_entries_def)
qed

end


text \<open>A NUL-terminated ASCII name of fewer than 32 bytes is read as it is.\<close>

lemma read_filename_cstring:
  assumes "load m p (length s) = s" and "m (p + length s) = 0" and "length s < 32"
    and "\<forall>b\<in>set s. b \<noteq> 0 \<and> b < 0x80"
  shows "read_filename m p = s"
proof -
  have "load m p 32 = load m p (length s + (1 + (31 - length s)))" using assms(3) by simp
  also have "\<dots> = s @ 0 # load m (p + length s + 1) (31 - length s)"
    using assms(1,2) by (simp only: load_add) (simp add: load_def)
  finally have "takeWhile (\<lambda>b. b \<noteq> 0) (load m p 32) = s"
    using assms(4) by (simp add: takeWhile_append)
  then show ?thesis
    using assms by (simp add: read_filename_def name_length_takeWhile from_utf8_ascii)
qed

subsection \<open>Requests\<close>

text \<open>What the client sees in its buffer after a listing.\<close>

definition listing_shown :: "(nat \<Rightarrow> bytes) \<Rightarrow> bytes" where
  "listing_shown disk = take 1024 (vol_text disk (vol_entries disk) @ [0])"

lemma fs_terminate_shown:
  assumes "the (fs_terminate (filled 1024 out)) = (list_res, cursor)"
  shows "take cursor list_res = take 1024 (out @ [0])" and "cursor = min 1024 (length out + 1)"
    and "cursor \<le> length list_res"
proof -
  consider "length out < 1024" | "1024 \<le> length out" by linarith
  then have "take cursor list_res = take 1024 (out @ [0]) \<and> cursor = min 1024 (length out + 1) \<and>
      cursor \<le> length list_res"
  proof cases
    case 1
    then have f: "filled 1024 out = (out @ replicate (1024 - length out) 0, length out)"
      by (simp add: filled_def)
    from 1 have "list_res = (out @ replicate (1024 - length out) 0)[length out := 0]"
      and "cursor = length out + 1"
      using assms unfolding f by (simp_all add: fs_terminate_def checked usize_bound_def)
    moreover have "(out @ replicate (1024 - length out) 0)[length out := 0] =
        out @ replicate (1024 - length out) 0"
      using 1 by (cases "1024 - length out") (simp_all add: list_update_append)
    ultimately show ?thesis using 1 by (simp add: take_Cons' replicate_app_Cons_same)
  next
    case 2
    then have "filled 1024 out = (take 1024 out, 1024)" by (simp add: filled_def)
    with assms 2 show ?thesis by (auto simp: fs_terminate_def)
  qed
  then show "take cursor list_res = take 1024 (out @ [0])" "cursor = min 1024 (length out + 1)"
    "cursor \<le> length list_res" by auto
qed

lemma disk_ready_trans:
  "disk_ready bus regs ph disk buf m w \<Longrightarrow> same_outside buf 512 m (dw_mem w)"
  "disk_ready bus regs ph disk buf m w \<Longrightarrow> ph (dw_dev w) = Ata_Idle"
  by (simp_all add: disk_ready_def)

lemma load_store_take:
  "k \<le> length bs \<Longrightarrow> load (store m a bs) a k = take k bs"
  using load_add[of "store m a bs" a k "length bs - k"] load_store_same[of m a bs]
  by (metis append_eq_conv_conj le_add_diff_inverse length_load)

text \<open>The two requests, answered from the volume.\<close>

lemma fs_serve_list_answer:
  assumes "disk_ready bus regs ph disk buf (dw_mem w) w" and "vol_ok (2 ^ 28) disk"
    and "\<forall>e\<in>set (vol_listed (vol_entries disk)). vol_entry_ok (2 ^ 28) disk e"
    and "msg_type msg = 10"
  shows "\<exists>w'. fs_serve bus buf msg w = Some (Some (fs_response 0 0), w') \<and>
    ph (dw_dev w') = Ata_Idle \<and>
    (let client = unat (arg1 msg); max_len = unat (arg2 msg);
         n = min (length (listing_shown disk)) max_len
     in load (dw_mem w') client n = take n (listing_shown disk) \<and>
        (\<forall>x. (x < buf \<or> buf + 512 \<le> x) \<longrightarrow> (x < client \<or> client + n \<le> x) \<longrightarrow>
           dw_mem w' x = dw_mem w x))"
proof -
  obtain w1 where w1: "fs_list (fs_read_sector bus buf) w =
      Some (the (fs_terminate (filled 1024 (vol_text disk (vol_entries disk)))), w1)"
      "disk_ready bus regs ph disk buf (dw_mem w) w1"
    using server.fs_list_good[OF assms(1-3)] by blast
  obtain list_res cursor where
    lc: "the (fs_terminate (filled 1024 (vol_text disk (vol_entries disk)))) = (list_res, cursor)"
    by force
  note sh = fs_terminate_shown[OF lc, folded listing_shown_def]
  have cur: "cursor = length (listing_shown disk)" by (simp add: listing_shown_def sh(2))
  define client where "client = unat (arg1 msg)"
  define shown where "shown = listing_shown disk"
  define n where "n = min (length shown) (unat (arg2 msg))"
  have out: "take (min cursor (unat (arg2 msg))) list_res = take n shown"
    using arg_cong[OF sh(1), of "take (unat (arg2 msg))"] sh(1)
    by (cases "unat (arg2 msg) \<le> cursor") (simp_all add: n_def shown_def cur min_def)
  define m where "m = store (dw_mem w1) client (take n shown)"
  have len: "length (take n shown) = n" by (simp add: n_def)
  have serve: "fs_serve bus buf msg w = Some (Some (fs_response 0 0), w1\<lparr>dw_mem := m\<rparr>)"
    using w1(1) lc assms(4) out by (simp add: fs_serve_def fs_serve_list_def m_def client_def)
  have load: "load m client n = take n shown"
    unfolding m_def using load_store_same[of "dw_mem w1" client "take n shown"] len by simp
  have frame: "m x = dw_mem w x"
    if "x < buf \<or> buf + 512 \<le> x" "x < client \<or> client + n \<le> x" for x
    using that disk_ready_trans(1)[OF w1(2)] len unfolding m_def
    by (auto simp: store_outside same_outside_def)
  show ?thesis
    unfolding Let_def client_def[symmetric] shown_def[symmetric] n_def[symmetric]
    by (rule exI[of _ "w1\<lparr>dw_mem := m\<rparr>"])
      (simp add: serve load frame disk_ready_trans(2)[OF w1(2)])
qed

lemma fs_serve_read_answer:
  assumes "disk_ready bus regs ph disk buf (dw_mem w) w" and "vol_ok (2 ^ 28) disk"
    and "msg_type msg = 11" and "target = read_filename (dw_mem w) (unat (arg1 msg))"
    and "\<And>e. vol_find disk target = Some e \<Longrightarrow> vol_entry_ok (2 ^ 28) disk e \<and>
      in_volume (2 ^ 28) (in_direct_blocks (vol_inode disk e) ! 0)"
  shows "case vol_find disk target of
      None \<Rightarrow> \<exists>w'. fs_serve bus buf msg w = Some (Some (fs_response 999 0), w') \<and>
        same_outside buf 512 (dw_mem w) (dw_mem w')
    | Some e \<Rightarrow>
        (let i = vol_inode disk e; client = unat (arg2 msg); max_len = unat (arg3 msg);
             n = min (unat (in_size i)) max_len
         in if 512 < n then fs_serve bus buf msg w = None
            else \<exists>w'. fs_serve bus buf msg w = Some (Some (fs_response 0 (word_of_nat n)), w') \<and>
              load (dw_mem w') client n = take n (vol_first_block disk i) \<and>
              (n < max_len \<longrightarrow> dw_mem w' (client + n) = 0) \<and>
              (\<forall>x. (x < buf \<or> buf + 512 \<le> x) \<longrightarrow> (x < client \<or> client + max_len \<le> x) \<longrightarrow>
                 dw_mem w' x = dw_mem w x))"
proof -
  obtain w1 where w1: "fs_lookup (fs_read_sector bus buf) target w =
      Some (map_option (\<lambda>e. (vol_inode disk e, vol_first_block disk (vol_inode disk e)))
        (vol_find disk target), w1)" "disk_ready bus regs ph disk buf (dw_mem w) w1"
    using server.fs_lookup_good[OF assms(1,2,5)] by blast
  note same = disk_ready_trans(1)[OF w1(2)]
  show ?thesis
  proof (cases "vol_find disk target")
    case None
    with w1(1) assms(3,4) same show ?thesis by (simp add: fs_serve_def fs_serve_read_def Let_def)
  next
    case (Some e)
    define i where "i = vol_inode disk e"
    define c where "c = unat (arg2 msg)"
    define mx where "mx = unat (arg3 msg)"
    define n where "n = min (unat (in_size i)) mx"
    define bs where "bs = vol_first_block disk i"
    have len: "length bs = 512"
      using server.contents_length[OF assms(1)] by (simp add: vol_first_block_def bs_def)
    have serve: "fs_serve bus buf msg w = do {
        (n, m) \<leftarrow> fs_copy_out i bs c mx (dw_mem w1);
        Some (Some (fs_response 0 (word_of_nat n)), w1\<lparr>dw_mem := m\<rparr>)}"
      using w1(1) assms(3,4) Some
      by (simp add: fs_serve_def fs_serve_read_def i_def c_def mx_def bs_def)
    define m where "m = store (dw_mem w1) c (take n bs)"
    define m2 where "m2 = (if n < mx then store m (c + n) [0] else m)"
    have copy: "fs_copy_out i bs c mx (dw_mem w1) = (if 512 < n then None else Some (n, m2))"
      by (simp add: fs_copy_out_def n_def[symmetric] len m2_def m_def)
    have "load m2 c n = take n bs" if "n \<le> 512"
    proof -
      have "load m c n = take n bs"
        unfolding m_def by (subst load_store_take) (use that len in auto)
      then show ?thesis by (simp add: m2_def load_store_other)
    qed
    moreover have "n < mx \<Longrightarrow> m2 (c + n) = 0" by (simp add: m2_def store_def)
    moreover have "m2 x = dw_mem w x" if "x < buf \<or> buf + 512 \<le> x" "x < c \<or> c + mx \<le> x" for x
    proof -
      have "n \<le> mx" by (simp add: n_def)
      then have "m2 x = m x" using that(2) by (auto simp: m2_def store_def)
      also have "\<dots> = dw_mem w1 x"
        unfolding m_def by (rule store_outside) (use that(2) \<open>n \<le> mx\<close> in auto)
      finally show ?thesis using same that(1) by (auto simp: same_outside_def)
    qed
    ultimately have "if 512 < n then fs_serve bus buf msg w = None
        else \<exists>w'. fs_serve bus buf msg w = Some (Some (fs_response 0 (word_of_nat n)), w') \<and>
          load (dw_mem w') c n = take n bs \<and> (n < mx \<longrightarrow> dw_mem w' (c + n) = 0) \<and>
          (\<forall>x. (x < buf \<or> buf + 512 \<le> x) \<longrightarrow> (x < c \<or> c + mx \<le> x) \<longrightarrow> dw_mem w' x = dw_mem w x)"
      unfolding serve copy by (simp add: not_less)
    then show ?thesis
      unfolding Some option.case Let_def i_def[symmetric] c_def[symmetric] mx_def[symmetric]
        n_def[symmetric] bs_def[symmetric] .
  qed
qed

text \<open>
  A list request over a conforming drive with a volume on it is answered with success, and
  the client's buffer holds as much of the listing as it and the server's 1024 bytes can take,
  with its terminating NUL where there is room: one line per entry with a non-zero inode
  number and a valid name, in order, with its type and, for files, its size in decimal. Memory
  outside the client's buffer and the server's sector buffer is untouched.
\<close>

theorem fs_list_request:
  assumes "disk_ready bus regs ph disk buf (dw_mem w) w" and "vol_ok (2 ^ 28) disk"
    and "\<forall>e\<in>set (vol_listed (vol_entries disk)). vol_entry_ok (2 ^ 28) disk e"
    and "msg_type msg = 10"
  shows "\<exists>w'. fs_serve bus buf msg w = Some (Some (fs_response 0 0), w') \<and>
    ph (dw_dev w') = Ata_Idle \<and>
    (let client = unat (arg1 msg); max_len = unat (arg2 msg);
         n = min (length (listing_shown disk)) max_len
     in load (dw_mem w') client n = take n (listing_shown disk) \<and>
        (\<forall>x. (x < buf \<or> buf + 512 \<le> x) \<longrightarrow> (x < client \<or> client + n \<le> x) \<longrightarrow>
           dw_mem w' x = dw_mem w x))"
  using assms by (rule fs_serve_list_answer)

text \<open>
  C15: A read request is answered from the first block of the first entry with the name. Without
  such an entry the answer is an error; a file of at most 512 bytes (or a request for no more)
  is copied to the client up to the length asked for, followed by a NUL if there is room, and
  its length returned; anything longer makes the server copy past its local sector.
\<close>

theorem fs_read_request:
  assumes "disk_ready bus regs ph disk buf (dw_mem w) w" and "vol_ok (2 ^ 28) disk"
    and "msg_type msg = 11" and "target = read_filename (dw_mem w) (unat (arg1 msg))"
    and "\<And>e. vol_find disk target = Some e \<Longrightarrow> vol_entry_ok (2 ^ 28) disk e \<and>
      in_volume (2 ^ 28) (in_direct_blocks (vol_inode disk e) ! 0)"
  shows "case vol_find disk target of
      None \<Rightarrow> \<exists>w'. fs_serve bus buf msg w = Some (Some (fs_response 999 0), w') \<and>
        same_outside buf 512 (dw_mem w) (dw_mem w')
    | Some e \<Rightarrow>
        (let i = vol_inode disk e; client = unat (arg2 msg); max_len = unat (arg3 msg);
             n = min (unat (in_size i)) max_len
         in if 512 < n then fs_serve bus buf msg w = None
            else \<exists>w'. fs_serve bus buf msg w = Some (Some (fs_response 0 (word_of_nat n)), w') \<and>
              load (dw_mem w') client n = take n (vol_first_block disk i) \<and>
              (n < max_len \<longrightarrow> dw_mem w' (client + n) = 0) \<and>
              (\<forall>x. (x < buf \<or> buf + 512 \<le> x) \<longrightarrow> (x < client \<or> client + max_len \<le> x) \<longrightarrow>
                 dw_mem w' x = dw_mem w x))"
  by (rule fs_serve_read_answer) (use assms in auto)

subsection \<open>The servers on a formatted image\<close>

text \<open>
  Memory with the file name at 1000h, the server's sector buffer at 3000h; the drive holds a
  freshly formatted image.
\<close>

definition demo_world :: "sim_drive disk_world" where
  "demo_world = \<lparr>dw_mem = store (\<lambda>_. 0) 0x1000 (str ''hello.txt''), dw_buffer = replicate 512 0,
     dw_dev = sim_idle\<rparr>"

definition fs_request :: "u64 \<Rightarrow> u64 \<Rightarrow> u64 \<Rightarrow> u64 \<Rightarrow> message" where
  "fs_request t a b c = \<lparr>sender = 1, msg_type = t, arg1 = a, arg2 = b, arg3 = c, arg4 = 0\<rparr>"

lemma formatted_image:
  obtains img where "format_image 40000 empty_image = Some img"
    and "disk_ready (sim_bus 3 (image_sector img)) sim_regs sim_phase (image_sector img) 0x3000
      (dw_mem demo_world) demo_world"
    and "superblock_from_bytes (image_sector img 40002) = fmt_superblock"
    and "inode_at (image_sector img) fmt_superblock 0 = fmt_root_inode"
    and "inode_at (image_sector img) fmt_superblock 1 = fmt_hello_inode"
    and "image_sector img 40013 = fmt_dir_block" and "image_sector img 40014 = fmt_file_block"
proof -
  have "512 * (40000 + 4096) < usize_bound" by (simp add: usize_bound_def)
  from format_image_eq[OF this, of empty_image] obtain img g where
    img: "format_image 40000 empty_image = Some img" "hf_data img = formatted_data 40000 g" by metis
  have "volume_on_disk img (image_sector img)" by (simp add: volume_on_disk_def)
  note vol = volume_contents[OF img(2) this]
  have "ata_conforms (sim_bus 3 (image_sector img)) sim_regs sim_phase (image_sector img)"
    by (rule sim_conforms) (simp_all add: image_sector_def fs_consts)
  then have "disk_ready (sim_bus 3 (image_sector img)) sim_regs sim_phase (image_sector img) 0x3000
      (dw_mem demo_world) demo_world"
    by (simp add: disk_ready_def demo_world_def usize_bound_def)
  with that img(1) vol show thesis by blast
qed

lemma fs_entries_formatted:
  assumes "superblock_from_bytes (disk 40002) = fmt_superblock"
    and "inode_at disk fmt_superblock 0 = fmt_root_inode"
    and "disk 40013 = fmt_dir_block"
  shows "vol_sb disk = fmt_superblock" and "vol_root_block disk = 13"
    and "vol_entries disk = fmt_dir_entries @ replicate 13 (dirent_from_bytes (replicate 32 0))"
    and "vol_ok (2 ^ 28) disk"
    and "vol_listed (vol_entries disk) = [dirent_new 1 (str ''hello.txt'')]"
    and "vol_entry_ok (2 ^ 28) disk (dirent_new 1 (str ''hello.txt''))"
proof -
  show sb: "vol_sb disk = fmt_superblock" by (simp add: vol_sb_def assms(1))
  show rb: "vol_root_block disk = 13" by (simp add: vol_root_block_def sb assms(2) root_blocks)
  show es: "vol_entries disk = fmt_dir_entries @ replicate 13 (dirent_from_bytes (replicate 32 0))"
    using fmt_dir_entries_read
    by (simp add: vol_entries_def rb assms(3) fs_dir_entries_def entries_count_def fs_consts fs_sizes)
  show "vol_ok (2 ^ 28) disk"
    by (simp add: vol_ok_def sb rb fmt_in_volume in_volume_def fmt_superblock_def)
  have "\<not> fs_entry_live (dirent_from_bytes (replicate 32 0))"
    using zero_entry_free by (simp add: fs_entry_live_def entry_live_def)
  then show "vol_listed (vol_entries disk) = [dirent_new 1 (str ''hello.txt'')]"
    by (simp add: es vol_listed_def) (simp add: fmt_dir_entries_def fs_entry_live_def fmt_names)
  show "vol_entry_ok (2 ^ 28) disk (dirent_new 1 (str ''hello.txt''))"
    by (simp add: vol_entry_ok_def sb fmt_superblock_def)
qed

lemma fs_text_formatted:
  assumes "superblock_from_bytes (disk 40002) = fmt_superblock"
    and "inode_at disk fmt_superblock 0 = fmt_root_inode"
    and "inode_at disk fmt_superblock 1 = fmt_hello_inode" and "disk 40013 = fmt_dir_block"
  shows "vol_text disk (vol_entries disk) = str ''[FILE] hello.txt (102 bytes)'' @ [0x0A]"
    and "vol_find disk (str ''hello.txt'') = Some (dirent_new 1 (str ''hello.txt''))"
    and "vol_inode disk (dirent_new 1 (str ''hello.txt'')) = fmt_hello_inode"
proof -
  note vol = fs_entries_formatted[of disk, OF assms(1,2,4)]
  show "vol_text disk (vol_entries disk) = str ''[FILE] hello.txt (102 bytes)'' @ [0x0A]"
    using fmt_inode_types
    by (simp add: vol_text_def vol(5) vol_line_def vol_inode_def vol(1) assms(3) fmt_names)
      (simp add: str_def decimal_def digits_step)
  show "vol_find disk (str ''hello.txt'') = Some (dirent_new 1 (str ''hello.txt''))"
    by (simp add: vol_find_def vol(3)) (simp add: fmt_dir_entries_def fs_entry_live_def fmt_names)
  show "vol_inode disk (dirent_new 1 (str ''hello.txt'')) = fmt_hello_inode"
    by (simp add: vol_inode_def vol(1) assms(3))
qed

theorem fs_list_request_witness:
  "\<exists>img w. fs_serve (sim_bus 3 (image_sector img)) 0x3000 (fs_request 10 0x2000 1024 0) demo_world =
     Some (Some (fs_response 0 0), w) \<and>
     load (dw_mem w) 0x2000 30 = str ''[FILE] hello.txt (102 bytes)'' @ [0x0A, 0]"
proof -
  obtain img where img: "format_image 40000 empty_image = Some img"
    and ready: "disk_ready (sim_bus 3 (image_sector img)) sim_regs sim_phase (image_sector img)
      0x3000 (dw_mem demo_world) demo_world"
    and sb: "superblock_from_bytes (image_sector img 40002) = fmt_superblock"
    and ri: "inode_at (image_sector img) fmt_superblock 0 = fmt_root_inode"
    and hi: "inode_at (image_sector img) fmt_superblock 1 = fmt_hello_inode"
    and db: "image_sector img 40013 = fmt_dir_block"
    by (rule formatted_image) blast
  let ?disk = "image_sector img"
  note vol = fs_entries_formatted[of ?disk, OF sb ri db]
  have shown: "listing_shown ?disk = str ''[FILE] hello.txt (102 bytes)'' @ [0x0A, 0]"
    by (simp add: listing_shown_def fs_text_formatted(1)[OF sb ri hi db])
  have "\<forall>e\<in>set (vol_listed (vol_entries ?disk)). vol_entry_ok (2 ^ 28) ?disk e"
    using vol(5,6) by simp
  from fs_list_request[OF ready vol(4) this, of "fs_request 10 0x2000 1024 0"]
  obtain w where w: "fs_serve (sim_bus 3 ?disk) 0x3000 (fs_request 10 0x2000 1024 0) demo_world =
      Some (Some (fs_response 0 0), w)"
    and load: "load (dw_mem w) 0x2000 (min (length (listing_shown ?disk)) 1024) =
      take (min (length (listing_shown ?disk)) 1024) (listing_shown ?disk)"
    by (auto simp: fs_request_def Let_def)
  have "length (listing_shown ?disk) = 30" by (simp add: shown)
  with load have "load (dw_mem w) 0x2000 30 = listing_shown ?disk" by simp
  with w shown show ?thesis by metis
qed

theorem fs_read_request_witness:
  "\<exists>img w. fs_serve (sim_bus 3 (image_sector img)) 0x3000 (fs_request 11 0x1000 0x2000 512) demo_world =
     Some (Some (fs_response 0 102), w) \<and> load (dw_mem w) 0x2000 102 = test_file_bytes \<and>
     dw_mem w (0x2000 + 102) = 0"
proof -
  obtain img where img: "format_image 40000 empty_image = Some img"
    and ready: "disk_ready (sim_bus 3 (image_sector img)) sim_regs sim_phase (image_sector img)
      0x3000 (dw_mem demo_world) demo_world"
    and sb: "superblock_from_bytes (image_sector img 40002) = fmt_superblock"
    and ri: "inode_at (image_sector img) fmt_superblock 0 = fmt_root_inode"
    and hi: "inode_at (image_sector img) fmt_superblock 1 = fmt_hello_inode"
    and db: "image_sector img 40013 = fmt_dir_block" and fb: "image_sector img 40014 = fmt_file_block"
    by (rule formatted_image) blast
  let ?disk = "image_sector img" and ?hello = "dirent_new 1 (str ''hello.txt'')"
  note vol = fs_entries_formatted[of ?disk, OF sb ri db]
  have name: "read_filename (dw_mem demo_world) 0x1000 = str ''hello.txt''"
  proof (rule read_filename_cstring)
    show "load (dw_mem demo_world) 0x1000 (length (str ''hello.txt'')) = str ''hello.txt''"
      unfolding demo_world_def disk_world.simps by (rule load_store_same)
    show "dw_mem demo_world (0x1000 + length (str ''hello.txt'')) = 0"
      by (simp add: demo_world_def store_outside)
  qed (simp_all add: str_def)
  note find = fs_text_formatted(2)[OF sb ri hi db] and i = fs_text_formatted(3)[OF sb ri hi db]
  have ok: "\<And>e. vol_find ?disk (str ''hello.txt'') = Some e \<Longrightarrow> vol_entry_ok (2 ^ 28) ?disk e \<and>
      in_volume (2 ^ 28) (in_direct_blocks (vol_inode ?disk e) ! 0)"
    using vol(6) fmt_in_volume(2) by (simp add: find i root_blocks)
  have bs: "take 102 (vol_first_block ?disk fmt_hello_inode) = test_file_bytes"
    by (simp add: vol_first_block_def root_blocks fb fmt_file_block_def overwrite_def fs_consts)
  let ?msg = "fs_request 11 0x1000 0x2000 512"
  have msg: "msg_type ?msg = 11" "str ''hello.txt'' = read_filename (dw_mem demo_world) (unat (arg1 ?msg))"
    "unat (arg2 ?msg) = 0x2000" "unat (arg3 ?msg) = 512"
    by (simp_all add: fs_request_def name)
  have r: "vol_find ?disk (read_filename (dw_mem demo_world) (unat (arg1 ?msg))) = Some ?hello"
    using find msg(2) by simp
  from fs_read_request[OF ready vol(4) msg(1) refl, unfolded r option.case i msg(3,4) Let_def]
  show ?thesis using bs ok find i by (auto simp: fmt_inode_types(4))
qed

end
