(* ===== verification/Cpu.thy ===== *)
theory Cpu
  imports Task
begin

text \<open>
  The naked assembly of the kernel: \<open>timer_interrupt_handler\<close> (\<open>interrupts.rs\<close>),
  \<open>syscall_handler\<close> (\<open>syscall.rs\<close>) and the jump at the end of \<open>start_first_task\<close>
  (\<open>task.rs\<close>). The instructions they use act on a processor context and on memory. The
  lemmas show that what the handlers push, what \<open>Task::new\<close> and \<open>Task::new_user\<close> lay out and
  what the handlers pop is the same frame, so that a task resumes exactly where it was.
\<close>

subsection \<open>The processor\<close>

datatype reg =
    R15 | R14 | R13 | R12 | RBP | RBX | R11 | R10 | R9 | R8 | RDI | RSI | RDX | RCX | RAX

text \<open>There are fifteen of them, so register files can be compared and quantified over by evaluation.\<close>

instantiation reg :: enum
begin

definition enum_reg :: "reg list" where
  "enum_reg = [R15, R14, R13, R12, RBP, RBX, R11, R10, R9, R8, RDI, RSI, RDX, RCX, RAX]"

definition enum_all_reg :: "(reg \<Rightarrow> bool) \<Rightarrow> bool" where
  "enum_all_reg P \<longleftrightarrow> list_all P enum_class.enum"

definition enum_ex_reg :: "(reg \<Rightarrow> bool) \<Rightarrow> bool" where
  "enum_ex_reg P \<longleftrightarrow> list_ex P enum_class.enum"

instance proof
  have "r \<in> set enum_class.enum" for r :: reg by (cases r) (simp_all add: enum_reg_def)
  then show univ: "UNIV = set (enum_class.enum :: reg list)" by blast
  show "distinct (enum_class.enum :: reg list)" by (simp add: enum_reg_def)
  fix P :: "reg \<Rightarrow> bool"
  show "enum_class.enum_all P \<longleftrightarrow> Ball UNIV P" "enum_class.enum_ex P \<longleftrightarrow> Bex UNIV P"
    using univ by (auto simp: enum_all_reg_def enum_ex_reg_def list_all_iff list_ex_iff)
qed

end

record cpu =
  gpr :: "reg \<Rightarrow> u64"
  rip :: u64
  cs :: u64
  rflags :: u64
  rsp :: u64
  ss :: u64

text \<open>\<open>push\<close>, \<open>pop\<close> and \<open>iretq\<close> in 64-bit mode.\<close>

definition push :: "u64 \<Rightarrow> cpu \<times> mem \<Rightarrow> cpu \<times> mem" where
  "push v cm = (case cm of (c, m) \<Rightarrow>
     (c\<lparr>rsp := rsp c - 8\<rparr>, store64 m (unat (rsp c - 8)) v))"

definition push_reg :: "reg \<Rightarrow> cpu \<times> mem \<Rightarrow> cpu \<times> mem" where
  "push_reg r cm = push (gpr (fst cm) r) cm"

definition pop_reg :: "mem \<Rightarrow> reg \<Rightarrow> cpu \<Rightarrow> cpu" where
  "pop_reg m r c = c\<lparr>gpr := (gpr c)(r := load64 m (unat (rsp c))), rsp := rsp c + 8\<rparr>"

definition iretq :: "mem \<Rightarrow> cpu \<Rightarrow> cpu" where
  "iretq m c =
     c\<lparr>rip := load64 m (unat (rsp c)), cs := load64 m (unat (rsp c + 8)),
       rflags := load64 m (unat (rsp c + 16)), rsp := load64 m (unat (rsp c + 24)),
       ss := load64 m (unat (rsp c + 32))\<rparr>"

text \<open>
  Delivery of an interrupt through an interrupt gate: from ring 3 the stack is the \<open>rsp0\<close> of
  the TSS; the processor aligns it to 16 bytes and pushes \<open>ss\<close>, \<open>rsp\<close>, \<open>rflags\<close>, \<open>cs\<close>
  and \<open>rip\<close>. The new \<open>cs\<close>, \<open>rip\<close> and \<open>rflags\<close> of the handler play no part here and are left.
\<close>

definition deliver_interrupt :: "u64 \<Rightarrow> cpu \<times> mem \<Rightarrow> cpu \<times> mem" where
  "deliver_interrupt rsp0 cm = (case cm of (c, m) \<Rightarrow>
     let top = (if cs c AND 3 = 0 then rsp c else rsp0) AND NOT 0xF in
     push (rip c) (push (cs c) (push (rflags c) (push (rsp c) (push (ss c)
       (c\<lparr>rsp := top\<rparr>, m))))))"

text \<open>The \<open>syscall\<close> instruction, with the mask \<open>syscall::init\<close> writes to \<open>FMASK\<close>.\<close>

definition fmask :: u64 where
  "fmask = 0x200 OR 0x400"

definition syscall_instruction :: "u64 \<Rightarrow> cpu \<Rightarrow> cpu" where
  "syscall_instruction lstar c =
     c\<lparr>gpr := (gpr c)(RCX := rip c, R11 := rflags c), rflags := rflags c AND NOT fmask,
       rip := lstar, cs := 0x08, ss := 0x10\<rparr>"

subsection \<open>The handlers\<close>

definition push_order :: "reg list" where
  "push_order = [RAX, RCX, RDX, RSI, RDI, R8, R9, R10, R11, RBX, RBP, R12, R13, R14, R15]"

definition pop_order :: "reg list" where
  "pop_order = [R15, R14, R13, R12, RBP, RBX, R11, R10, R9, R8, RDI, RSI, RDX, RCX, RAX]"

text \<open>\<open>timer_interrupt_handler\<close> up to the call, which gets \<open>rsp\<close> as its argument.\<close>

definition timer_entry :: "u64 \<Rightarrow> cpu \<times> mem \<Rightarrow> cpu \<times> mem" where
  "timer_entry rsp0 cm = fold push_reg push_order (deliver_interrupt rsp0 cm)"

text \<open>The common tail of both handlers and of \<open>start_first_task\<close>: the pops and \<open>iretq\<close>.\<close>

definition resume :: "mem \<Rightarrow> u64 \<Rightarrow> cpu \<Rightarrow> cpu" where
  "resume m new_rsp c = iretq m (fold (pop_reg m) pop_order (c\<lparr>rsp := new_rsp\<rparr>))"

text \<open>\<open>syscall_handler\<close> up to the call, entered with the processor state the instruction left.\<close>

definition syscall_entry :: "u64 \<Rightarrow> cpu \<times> mem \<Rightarrow> cpu \<times> mem" where
  "syscall_entry current_kernel_stack cm = (case cm of (c, m) \<Rightarrow>
     let user_rsp = rsp c in
     fold push_reg push_order
       (push (gpr c RCX) (push 0x23 (push (gpr c R11) (push user_rsp (push 0x1B
         (c\<lparr>rsp := current_kernel_stack\<rparr>, m)))))))"

text \<open>The moves that put the arguments of \<open>handle_syscall\<close> in place.\<close>

definition syscall_args :: "cpu \<Rightarrow> cpu" where
  "syscall_args c =
     (let c = c\<lparr>gpr := (gpr c)(R8 := rsp c)\<rparr>;
          c = c\<lparr>gpr := (gpr c)(RCX := gpr c RDX)\<rparr>;
          c = c\<lparr>gpr := (gpr c)(RDX := gpr c RSI)\<rparr>;
          c = c\<lparr>gpr := (gpr c)(RSI := gpr c RDI)\<rparr>
      in c\<lparr>gpr := (gpr c)(RDI := gpr c RAX)\<rparr>)"

subsection \<open>Frames\<close>

definition load_words :: "mem \<Rightarrow> nat \<Rightarrow> nat \<Rightarrow> u64 list" where
  "load_words m a n = map (\<lambda>i. load64 m (a + 8 * i)) [0..<n]"

text \<open>The words of the frame that holds a context.\<close>

definition context_words :: "cpu \<Rightarrow> u64 list" where
  "context_words c = map (gpr c) pop_order @ [rip c, cs c, rflags c, rsp c, ss c]"

definition with_gpr :: "(reg \<times> u64) list \<Rightarrow> (reg \<Rightarrow> u64) \<Rightarrow> reg \<Rightarrow> u64" where
  "with_gpr ws g r = (case map_of ws r of Some w \<Rightarrow> w | None \<Rightarrow> g r)"

lemma length_load_words [simp]: "length (load_words m a n) = n"
  by (simp add: load_words_def)

lemma load_words_Suc: "load_words m a (Suc n) = load64 m a # load_words m (a + 8) n"
  by (simp add: load_words_def upt_conv_Cons map_Suc_upt[symmetric] ac_simps del: upt_Suc)

lemma load_words_store: "load_words (store m a (words_to_le ws)) a (length ws) = ws"
  by (rule nth_equalityI) (simp_all add: load_words_def load64_words)

lemma load_words_cong:
  "(\<And>i. i < 8 * n \<Longrightarrow> m' (a + i) = m (a + i)) \<Longrightarrow> load_words m' a n = load_words m a n"
proof -
  assume eq: "\<And>i. i < 8 * n \<Longrightarrow> m' (a + i) = m (a + i)"
  have "load64 m' (a + 8 * i) = load64 m (a + 8 * i)" if "i < n" for i
  proof -
    have "load m' (a + 8 * i) 8 = load m (a + 8 * i) 8"
    proof (rule load_cong)
      fix j :: nat assume "j < 8"
      with that have "8 * i + j < 8 * n" by simp
      from eq[OF this] show "m' (a + 8 * i + j) = m (a + 8 * i + j)" by (simp add: add.assoc)
    qed
    then show ?thesis by (simp add: load64_def)
  qed
  then show ?thesis by (simp add: load_words_def)
qed

lemma context_words_length [simp]: "length (context_words c) = 20"
  by (simp add: context_words_def pop_order_def)

text \<open>A sequence of pushes stores its words, the last one lowest.\<close>

lemma push_store:
  assumes "8 \<le> unat (rsp c)"
  shows "push v (c, m) = (c\<lparr>rsp := rsp c - 8\<rparr>, store64 m (unat (rsp c) - 8) v)"
  using assms by (simp add: push_def unat_sub word_le_nat_alt)

lemma store_words_Cons:
  "8 \<le> a \<Longrightarrow> store64 (store m a (words_to_le ws)) (a - 8) w = store m (a - 8) (words_to_le (w # ws))"
  by (rule ext) (auto simp: store_def store64_def nth_append byte_simps)

lemma push_onto:
  assumes "8 \<le> unat (rsp c)"
  shows "push v (c, store m (unat (rsp c)) (words_to_le ws)) =
    (c\<lparr>rsp := rsp c - 8\<rparr>, store m (unat (rsp c - 8)) (words_to_le (v # ws)))"
  using assms by (simp add: push_store store_words_Cons unat_sub word_le_nat_alt)

lemma unat_sub8: "8 \<le> unat (a :: u64) \<Longrightarrow> unat (a - 8) = unat a - 8"
  by (simp add: unat_sub word_le_nat_alt)

lemma push_all_onto:
  assumes "8 * length vs \<le> unat (rsp c)"
  shows "fold push vs (c, store m (unat (rsp c)) (words_to_le ws)) =
    (c\<lparr>rsp := rsp c - of_nat (8 * length vs)\<rparr>,
     store m (unat (rsp c) - 8 * length vs) (words_to_le (rev vs @ ws)))"
  using assms
proof (induction vs arbitrary: c ws)
  case Nil
  then show ?case by simp
next
  case (Cons v vs)
  have "8 \<le> unat (rsp c)" using Cons.prems by simp
  with Cons.IH[of "c\<lparr>rsp := rsp c - 8\<rparr>" "v # ws"] Cons.prems show ?case
    by (simp add: push_onto unat_sub8 algebra_simps)
qed

lemma push_all:
  assumes "8 * length vs \<le> unat (rsp c)"
  shows "fold push vs (c, m) =
    (c\<lparr>rsp := rsp c - of_nat (8 * length vs)\<rparr>,
     store m (unat (rsp c) - 8 * length vs) (words_to_le (rev vs)))"
proof -
  have "store m (unat (rsp c)) (words_to_le []) = m" by (rule ext) (auto simp: store_def)
  with push_all_onto[OF assms, of m "[]"] show ?thesis by simp
qed

lemma push_regs: "fold push_reg rs (c, m) = fold push (map (gpr c) rs) (c, m)"
proof (induction rs arbitrary: c m)
  case (Cons r rs)
  then show ?case by (simp add: push_reg_def push_def)
qed simp

lemma with_gpr_Cons:
  assumes "r \<notin> set rs"
  shows "with_gpr (zip rs ws) (g(r := w)) = with_gpr ((r, w) # zip rs ws) g"
proof
  fix x
  have "map_of (zip rs ws) r = None"
    using assms by (auto simp: map_of_eq_None_iff dest: set_zip_leftD)
  then show "with_gpr (zip rs ws) (g(r := w)) x = with_gpr ((r, w) # zip rs ws) g x"
    by (auto simp: with_gpr_def split: option.splits)
qed

lemma pop_regs:
  assumes "distinct rs" and "unat (rsp c) + 8 * length rs < 2 ^ 64"
  shows "fold (pop_reg m) rs c =
    c\<lparr>gpr := with_gpr (zip rs (load_words m (unat (rsp c)) (length rs))) (gpr c),
      rsp := rsp c + of_nat (8 * length rs)\<rparr>"
  using assms
proof (induction rs arbitrary: c)
  case Nil
  then show ?case by (simp add: with_gpr_def)
next
  case (Cons r rs)
  let ?c = "c\<lparr>gpr := (gpr c)(r := load64 m (unat (rsp c))), rsp := rsp c + 8\<rparr>"
  have u: "unat (rsp c + 8) = unat (rsp c) + 8"
    using Cons.prems(2) by (subst unat_add_lem[THEN iffD1]) auto
  have "fold (pop_reg m) (r # rs) c = fold (pop_reg m) rs ?c"
    by (simp only: fold_simps pop_reg_def)
  also have "\<dots> = ?c\<lparr>gpr := with_gpr (zip rs (load_words m (unat (rsp ?c)) (length rs))) (gpr ?c),
      rsp := rsp ?c + of_nat (8 * length rs)\<rparr>"
    by (rule Cons.IH) (use Cons.prems u in simp_all)
  also have "\<dots> = c\<lparr>gpr := with_gpr (zip (r # rs)
      (load_words m (unat (rsp c)) (length (r # rs)))) (gpr c),
      rsp := rsp c + of_nat (8 * length (r # rs))\<rparr>"
    using with_gpr_Cons[of r rs] Cons.prems(1)
    by (simp add: load_words_Suc u add.assoc)
  finally show ?case .
qed

lemma with_gpr_all: "with_gpr (zip pop_order (map f pop_order)) g = f"
proof
  fix r
  show "with_gpr (zip pop_order (map f pop_order)) g r = f r"
    by (cases r) (simp_all add: with_gpr_def pop_order_def)
qed

text \<open>The pops and \<open>iretq\<close> install the context whose words are on the stack.\<close>

lemma resume_context:
  assumes "load_words m (unat a) 20 = context_words d" and "unat a + 160 < 2 ^ 64"
  shows "resume m a c = d"
proof -
  have w: "load64 m (unat a + 8 * i) = context_words d ! i" if "i < 20" for i
    using arg_cong[OF assms(1), of "\<lambda>ws. ws ! i"] that by (simp add: load_words_def)
  have "load_words m (unat a) 15 = take 15 (load_words m (unat a) 20)"
    by (rule nth_equalityI) (simp_all add: load_words_def)
  then have g: "load_words m (unat a) 15 = map (gpr d) pop_order"
    unfolding assms(1) by (simp add: context_words_def pop_order_def)
  have u: "unat (a + of_nat n) = unat a + n" if "n \<le> 160" for n
    using assms(2) that by (simp add: unat_word_ariths unat_of_nat)
  have l: "length pop_order = 15" "distinct pop_order" by (simp_all add: pop_order_def)
  have p: "fold (pop_reg m) pop_order (c\<lparr>rsp := a\<rparr>) = c\<lparr>gpr := gpr d, rsp := a + of_nat 120\<rparr>"
    using pop_regs[of pop_order "c\<lparr>rsp := a\<rparr>" m] l assms(2) g with_gpr_all[of "gpr d" "gpr c"]
    by simp
  have "load64 m (unat (a + of_nat 120)) = rip d"
    "load64 m (unat (a + of_nat 128)) = cs d"
    "load64 m (unat (a + of_nat 136)) = rflags d"
    "load64 m (unat (a + of_nat 144)) = rsp d"
    "load64 m (unat (a + of_nat 152)) = ss d"
    using w[of 15] w[of 16] w[of 17] w[of 18] w[of 19]
    by (simp_all only: u) (simp_all add: context_words_def pop_order_def)
  then show ?thesis
    unfolding resume_def p by (simp add: iretq_def add.assoc)
qed

text \<open>What \<open>timer_entry\<close> leaves on the stack: the interrupted context, and nothing else.\<close>

definition interrupt_top :: "u64 \<Rightarrow> cpu \<Rightarrow> u64" where
  "interrupt_top rsp0 c = (if cs c AND 3 = 0 then rsp c else rsp0) AND NOT 0xF"

lemma timer_entry_saves:
  assumes "160 \<le> unat (interrupt_top rsp0 c)"
  shows "timer_entry rsp0 (c, m) =
    (c\<lparr>rsp := interrupt_top rsp0 c - 160\<rparr>,
     store m (unat (interrupt_top rsp0 c) - 160) (words_to_le (context_words c)))"
proof -
  let ?t = "interrupt_top rsp0 c"
  let ?ws = "[rip c, cs c, rflags c, rsp c, ss c]"
  let ?c = "c\<lparr>rsp := ?t\<rparr>"
  have "timer_entry rsp0 (c, m) =
      fold push ([ss c, rsp c, rflags c, cs c, rip c] @ map (gpr c) push_order) (?c, m)"
    using push_regs[of push_order]
    by (simp add: timer_entry_def deliver_interrupt_def Let_def interrupt_top_def push_def)
  then show ?thesis
    using push_all[of "[ss c, rsp c, rflags c, cs c, rip c] @ map (gpr c) push_order" ?c m] assms
    by (simp add: context_words_def push_order_def pop_order_def)
qed

text \<open>The same for \<open>syscall_entry\<close>, as the task will see it when the call returns.\<close>

definition after_syscall :: "cpu \<Rightarrow> cpu" where
  "after_syscall c =
     c\<lparr>gpr := (gpr c)(RCX := rip c, R11 := rflags c), cs := 0x23, ss := 0x1B\<rparr>"

lemma syscall_entry_saves:
  assumes "160 \<le> unat kst"
  shows "syscall_entry kst (syscall_instruction lstar c, m) =
    (syscall_instruction lstar c\<lparr>rsp := kst - 160\<rparr>,
     store m (unat kst - 160) (words_to_le (context_words (after_syscall c))))"
proof -
  let ?s = "syscall_instruction lstar c"
  let ?c = "?s\<lparr>rsp := kst\<rparr>"
  let ?vs = "[0x1B, rsp c, rflags c, 0x23, rip c] @ map (gpr ?s) push_order"
  have "syscall_entry kst (?s, m) = fold push ?vs (?c, m)"
    using push_regs[of push_order]
    by (simp add: syscall_entry_def Let_def push_def syscall_instruction_def)
  moreover have "rev ?vs = context_words (after_syscall c)"
    by (simp add: context_words_def push_order_def pop_order_def after_syscall_def
        syscall_instruction_def)
  moreover have "length ?vs = 20" by (simp add: push_order_def)
  ultimately show ?thesis using push_all[of ?vs ?c m] assms by simp
qed

text \<open>The slot \<open>add(14)\<close> of a frame is \<open>rax\<close>.\<close>

definition write_rax :: "mem \<Rightarrow> nat \<Rightarrow> u64 \<Rightarrow> mem" where
  "write_rax m frame v = store64 m (frame + 8 * 14) v"

lemma load_words_store64:
  "i < n \<Longrightarrow> load_words (store64 m (a + 8 * i) v) a n = (load_words m a n)[i := v]"
proof (rule nth_equalityI)
  fix j assume "i < n" "j < length (load_words (store64 m (a + 8 * i) v) a n)"
  moreover have "load64 (store64 m (a + 8 * i) v) (a + 8 * j) = (if i = j then v else load64 m (a + 8 * j))"
  proof (cases "i = j")
    case False
    then have "a + 8 * j + 8 \<le> a + 8 * i \<or> a + 8 * i + 8 \<le> a + 8 * j" by presburger
    with False show ?thesis by (simp add: load64_store64_other)
  qed simp
  ultimately show "load_words (store64 m (a + 8 * i) v) a n ! j = (load_words m a n)[i := v] ! j"
    by (simp add: load_words_def nth_list_update)
qed simp

lemma context_words_rax:
  "(context_words c)[14 := v] = context_words (c\<lparr>gpr := (gpr c)(RAX := v)\<rparr>)"
  by (simp add: context_words_def pop_order_def)

lemma write_rax_frame:
  "load_words m a 20 = context_words c \<Longrightarrow>
     load_words (write_rax m a v) a 20 = context_words (c\<lparr>gpr := (gpr c)(RAX := v)\<rparr>)"
  using load_words_store64[of 14 20 m a v] by (simp add: write_rax_def context_words_rax)

subsection \<open>Properties\<close>

text \<open>
  C10: A task interrupted by the timer resumes, however long after and whatever else has run,
  with every register, its \<open>rip\<close>, flags, stack and segments exactly as they were, provided the
  160 bytes of its frame are untouched; and the Rust handler is called on a 16-byte aligned
  stack.
\<close>

theorem preempted_task_resumes:
  assumes "timer_entry rsp0 (c, m) = (c', m')"
    and "160 \<le> unat (interrupt_top rsp0 c)"
    and "\<And>x. unat (rsp c') \<le> x \<Longrightarrow> x < unat (rsp c') + 160 \<Longrightarrow> m2 x = m' x"
  shows "resume m2 (rsp c') d = c \<and> unat (rsp c') mod 16 = 0"
proof -
  let ?t = "interrupt_top rsp0 c"
  have c': "rsp c' = ?t - 160" and m': "m' = store m (unat ?t - 160) (words_to_le (context_words c))"
    using timer_entry_saves[OF assms(2), of m] assms(1) by auto
  have u: "unat (rsp c') = unat ?t - 160"
    using assms(2) by (simp add: c' unat_sub word_le_nat_alt)
  have "load_words m2 (unat (rsp c')) 20 = load_words m' (unat (rsp c')) 20"
    by (rule load_words_cong) (simp add: assms(3))
  also have "\<dots> = context_words c"
    using load_words_store[of m "unat ?t - 160" "context_words c"] by (simp add: m' u)
  finally have r: "resume m2 (rsp c') d = c"
    by (rule resume_context) (use unat_lt2p[of ?t] assms(2) in \<open>simp add: u\<close>)
  have "unat ?t mod 16 = 0" unfolding interrupt_top_def by (rule and_not_15_aligned)
  then have "16 dvd unat ?t - 160" using dvd_diff_nat[of 16 "unat ?t" 160] by auto
  then show ?thesis using r u by (simp add: dvd_eq_mod_eq_0)
qed

text \<open>A task of ring 3 interrupted with \<open>rsp0\<close> at 4096, and resumed from the same memory.\<close>

definition demo_context :: cpu where
  "demo_context = \<lparr>gpr = (\<lambda>r. 7), rip = 0x1000, cs = 0x23, rflags = 0x202, rsp = 0x800, ss = 0x1B\<rparr>"

lemma demo_interrupt_top: "interrupt_top 4096 demo_context = 4096"
  by (simp add: interrupt_top_def demo_context_def)

theorem preempted_task_resumes_witness:
  "resume (snd (timer_entry 4096 (demo_context, \<lambda>_. 0)))
     (rsp (fst (timer_entry 4096 (demo_context, \<lambda>_. 0)))) demo_context = demo_context"
  using preempted_task_resumes[of 4096 demo_context "\<lambda>_. 0"
      "fst (timer_entry 4096 (demo_context, \<lambda>_. 0))"
      "snd (timer_entry 4096 (demo_context, \<lambda>_. 0))"
      "snd (timer_entry 4096 (demo_context, \<lambda>_. 0))" demo_context]
  by (simp add: demo_interrupt_top)

text \<open>
  A system call returns to the instruction after it, on the caller's stack, in ring 3 and
  with the caller's flags, with every register as it was but the three the call defines:
  \<open>rax\<close> holds the result the kernel wrote, \<open>rcx\<close> the return address and \<open>r11\<close> the flags.
\<close>

theorem syscall_returns:
  assumes "syscall_entry kst (syscall_instruction lstar c, m) = (c', m')"
    and "160 \<le> unat kst"
    and "\<And>x. unat kst - 160 \<le> x \<Longrightarrow> x < unat kst \<Longrightarrow> m2 x = write_rax m' (unat (rsp c')) result x"
  shows "resume m2 (rsp c') d =
    c\<lparr>gpr := (gpr c)(RCX := rip c, R11 := rflags c, RAX := result), cs := 0x23, ss := 0x1B\<rparr>"
proof -
  have c': "rsp c' = kst - 160"
    and m': "m' = store m (unat kst - 160) (words_to_le (context_words (after_syscall c)))"
    using syscall_entry_saves[OF assms(2), of lstar c m] assms(1) by auto
  have u: "unat (rsp c') = unat kst - 160"
    using assms(2) by (simp add: c' unat_sub word_le_nat_alt)
  have "load_words m' (unat (rsp c')) 20 = context_words (after_syscall c)"
    using load_words_store[of m "unat kst - 160" "context_words (after_syscall c)"]
    by (simp add: m' u)
  note f = write_rax_frame[OF this, of result]
  have "load_words m2 (unat (rsp c')) 20 = load_words (write_rax m' (unat (rsp c')) result) (unat (rsp c')) 20"
    by (rule load_words_cong) (use assms(2) in \<open>simp add: assms(3) u\<close>)
  from this[unfolded f] have "resume m2 (rsp c') d =
      after_syscall c\<lparr>gpr := (gpr (after_syscall c))(RAX := result)\<rparr>"
    by (rule resume_context) (use unat_lt2p[of kst] assms(2) in \<open>simp add: u\<close>)
  then show ?thesis by (simp add: after_syscall_def)
qed

theorem syscall_returns_witness:
  "gpr (resume (write_rax (snd (syscall_entry 4096 (syscall_instruction 0 demo_context, \<lambda>_. 0)))
      (unat (rsp (fst (syscall_entry 4096 (syscall_instruction 0 demo_context, \<lambda>_. 0))))) 5)
     (rsp (fst (syscall_entry 4096 (syscall_instruction 0 demo_context, \<lambda>_. 0)))) demo_context) RAX = 5"
  using syscall_returns[of 4096 0 demo_context "\<lambda>_. 0"
      "fst (syscall_entry 4096 (syscall_instruction 0 demo_context, \<lambda>_. 0))"
      "snd (syscall_entry 4096 (syscall_instruction 0 demo_context, \<lambda>_. 0))"
      "write_rax (snd (syscall_entry 4096 (syscall_instruction 0 demo_context, \<lambda>_. 0)))
        (unat (rsp (fst (syscall_entry 4096 (syscall_instruction 0 demo_context, \<lambda>_. 0))))) 5" 5 demo_context]
  by simp

text \<open>
  A task made by \<open>Task::new_user\<close> starts, when first switched to, at its entry point in
  ring 3, with interrupts enabled, all general registers zero and the I/O privilege level 3
  exactly when asked for, on its own user stack; its saved stack pointer is one frame below
  its kernel stack top, where an interrupt of the running task saves the next frame.
\<close>

theorem new_user_task_starts:
  assumes "task_new_user tid entry us ks allow_io m = Some (t, m')"
  shows "resume m' (word_of_nat (task_rsp t)) d =
      \<lparr>gpr = \<lambda>_. 0, rip = entry, cs = 0x23, rflags = (if allow_io then 0x3202 else 0x202),
       rsp = word_of_nat (and_not (fst us + snd us) 0xF), ss = 0x1B\<rparr> \<and>
    task_state t = Ready \<and> task_id t = tid \<and>
    task_rsp t + 160 = kernel_stack_top t \<and> kernel_stack_top t mod 16 = 0 \<and>
    kernel_stack_top t \<le> fst ks + snd ks"
proof -
  let ?top = "and_not (fst ks + snd ks) 0xF" and ?ut = "and_not (fst us + snd us) 0xF"
  let ?c = "\<lparr>gpr = \<lambda>_. 0, rip = entry, cs = 0x23, rflags = (if allow_io then 0x3202 else 0x202),
       rsp = word_of_nat ?ut, ss = 0x1B\<rparr>"
  have b: "fst ks + snd ks < usize_bound" "160 \<le> ?top"
    and t: "t = \<lparr>task_id = tid, task_rsp = ?top - 160, kernel_stack_top = ?top, task_state = Ready\<rparr>"
    and m': "m' = store m (?top - 160) (words_to_le (context_words ?c))"
    using assms
    by (auto simp: task_new_user_def checked frame_size_def Let_def initial_frame_def
        frame_words_def context_words_def pop_order_def split: bind_splits)
  have top: "?top \<le> fst ks + snd ks" "?top mod 16 = 0" "?top < 2 ^ 64"
    using and_not_15[OF b(1)] b(1) by (simp_all add: minus_mod_eq_mult_div usize_bound_def)
  then have u: "unat (word_of_nat (?top - 160) :: u64) = ?top - 160"
    by (simp add: unat_of_nat)
  have "resume m' (word_of_nat (?top - 160)) d = ?c"
  proof (rule resume_context)
    show "load_words m' (unat (word_of_nat (?top - 160) :: u64)) 20 = context_words ?c"
      unfolding u m' by (rule load_words_store[of m "?top - 160" "context_words ?c",
          unfolded context_words_length])
    show "unat (word_of_nat (?top - 160) :: u64) + 160 < 2 ^ 64"
      unfolding u using top b by simp
  qed
  then show ?thesis using top b by (simp add: t)
qed

theorem new_user_task_starts_witness:
  "rip (resume (snd (the (task_new_user 1 0x1234 (0x2000, 64) (0x3000, 256) False (\<lambda>_. 0))))
     (word_of_nat (task_rsp (fst (the (task_new_user 1 0x1234 (0x2000, 64) (0x3000, 256) False (\<lambda>_. 0)))))) demo_context)
   = 0x1234"
proof -
  let ?r = "task_new_user 1 0x1234 (0x2000, 64) (0x3000, 256) False (\<lambda>_. 0)"
  have "?r = Some (fst (the ?r), snd (the ?r))"
    by (simp add: task_new_user_def checked usize_bound_def and_not_15 frame_size_def Let_def)
  from new_user_task_starts[OF this, of demo_context] show ?thesis by simp
qed

end
