(* ===== verification/Ipc.thy ===== *)
theory Ipc
  imports Cpu
begin

text \<open>
  Synchronous message passing and context switches: \<open>sys_send\<close>, \<open>sys_recv\<close>, \<open>sys_try_recv\<close>
  and the yield call of \<open>kernel/src/syscall.rs\<close>, and \<open>handle_timer_interrupt\<close> of
  \<open>interrupts.rs\<close>. An operation gets the kernel's state and returns the stack pointer to
  resume from. Results go to the \<open>rax\<close> slot of the frame on the stack, as in the code.

  The invariant \<open>ipc_inv\<close> says that ids match slots, that a blocked sender's message carries its
  true id, and that no rendezvous is missed: two blocked tasks never wait for each other with a
  message that the receiver would accept.
\<close>

subsection \<open>Kernel state\<close>

text \<open>
  \<open>rsp0\<close> is the privilege stack pointer of the TSS, \<open>kstack\<close> is \<open>CURRENT_KERNEL_STACK\<close>,
  \<open>ticks\<close> is \<open>TIMER_TICKS\<close>, and \<open>port_log\<close> records the writes to I/O ports, in order.
\<close>

record kernel =
  sched :: scheduler
  memory :: mem
  rsp0 :: nat
  kstack :: nat
  ticks :: u64
  port_log :: "(nat \<times> nat) list"

definition out_port :: "nat \<Rightarrow> nat \<Rightarrow> 'a kernel_scheme \<Rightarrow> 'a kernel_scheme" where
  "out_port port v k = k\<lparr>port_log := port_log k @ [(port, v)]\<rparr>"

text \<open>The end of interrupt for the first interrupt controller.\<close>

definition pic_send_eoi :: "'a kernel_scheme \<Rightarrow> 'a kernel_scheme" where
  "pic_send_eoi k = out_port 0x20 0x20 k"

definition kwrite_rax :: "nat \<Rightarrow> u64 \<Rightarrow> 'a kernel_scheme \<Rightarrow> 'a kernel_scheme" where
  "kwrite_rax frame v k = k\<lparr>memory := write_rax (memory k) frame v\<rparr>"

definition set_state :: "nat \<Rightarrow> task_state \<Rightarrow> scheduler \<Rightarrow> scheduler option" where
  "set_state i st s =
     do {
       slot \<leftarrow> idx (tasks s) i;
       t \<leftarrow> slot;
       Some (s\<lparr>tasks := (tasks s)[i := Some (t\<lparr>task_state := st\<rparr>)]\<rparr>)
     }"

subsection \<open>Context switch\<close>

text \<open>Save the stack pointer, pick the next task and install its kernel stack.\<close>

definition switch_task :: "nat \<Rightarrow> 'a kernel_scheme \<Rightarrow> (nat \<times> 'a kernel_scheme) option" where
  "switch_task current_rsp k =
     do {
       s \<leftarrow> save_current_rsp current_rsp (sched k);
       s \<leftarrow> select_next_task s;
       new_rsp \<leftarrow> get_current_rsp s;
       cur \<leftarrow> current_task s;
       let k = k\<lparr>sched := s\<rparr>;
       Some (new_rsp, case cur of
           Some t \<Rightarrow> k\<lparr>rsp0 := kernel_stack_top t, kstack := kernel_stack_top t\<rparr>
         | None \<Rightarrow> k)
     }"

definition sys_yield :: "nat \<Rightarrow> 'a kernel_scheme \<Rightarrow> (nat \<times> 'a kernel_scheme) option" where
  "sys_yield current_rsp k =
     do {
       (new_rsp, k) \<leftarrow> switch_task current_rsp k;
       Some (new_rsp, kwrite_rax current_rsp 0 k)
     }"

definition handle_timer_interrupt ::
  "nat \<Rightarrow> 'a kernel_scheme \<Rightarrow> (nat \<times> 'a kernel_scheme) option" where
  "handle_timer_interrupt old_rsp k =
     do {
       n \<leftarrow> wadd (ticks k) 1;
       (new_rsp, k) \<leftarrow> switch_task old_rsp (k\<lparr>ticks := n\<rparr>);
       Some (new_rsp, pic_send_eoi k)
     }"

subsection \<open>Send\<close>

definition accepts :: "nat option \<Rightarrow> nat \<Rightarrow> bool" where
  "accepts src_id sender_id \<longleftrightarrow> src_id = None \<or> src_id = Some sender_id"

definition send_block ::
  "nat \<Rightarrow> message \<Rightarrow> nat \<Rightarrow> 'a kernel_scheme \<Rightarrow> (nat \<times> 'a kernel_scheme) option" where
  "send_block dest_id msg current_rsp k =
     do {
       s \<leftarrow> set_state (current_task_idx (sched k)) (Sending dest_id msg) (sched k);
       switch_task current_rsp (k\<lparr>sched := s\<rparr>)
     }"

definition send_to ::
  "nat \<Rightarrow> message \<Rightarrow> nat \<Rightarrow> nat \<Rightarrow> 'a kernel_scheme \<Rightarrow> (nat \<times> 'a kernel_scheme) option" where
  "send_to dest_id msg dest_idx current_rsp k =
     do {
       slot \<leftarrow> idx (tasks (sched k)) dest_idx;
       dest_task \<leftarrow> slot;
       case task_state dest_task of
         Receiving src_id buffer_ptr \<Rightarrow>
           if accepts src_id (sender msg) then
             do {
               let k = k\<lparr>memory := write_message (memory k) buffer_ptr msg\<rparr>;
               let k = kwrite_rax (task_rsp dest_task) 0 k;
               s \<leftarrow> set_state dest_idx Ready (sched k);
               Some (current_rsp, kwrite_rax current_rsp 0 (k\<lparr>sched := s\<rparr>))
             }
           else send_block dest_id msg current_rsp k
       | _ \<Rightarrow> send_block dest_id msg current_rsp k
     }"

definition sys_send ::
  "nat \<Rightarrow> nat \<Rightarrow> nat \<Rightarrow> 'a kernel_scheme \<Rightarrow> (nat \<times> 'a kernel_scheme) option" where
  "sys_send dest_id msg_ptr current_rsp k =
     do {
       let msg = read_message (memory k) msg_ptr;
       let sender_id = current_task_idx (sched k) + 1;
       let msg = msg\<lparr>sender := sender_id\<rparr>;
       dest_idx \<leftarrow> usub dest_id 1;
       bad \<leftarrow> (if 8 \<le> dest_idx then Some True
               else do { slot \<leftarrow> idx (tasks (sched k)) dest_idx; Some (slot = None) });
       if bad then Some (current_rsp, kwrite_rax current_rsp (- 1) k)
       else send_to dest_id msg dest_idx current_rsp k
     }"

subsection \<open>Receive\<close>

definition sends_to :: "nat \<Rightarrow> nat option \<Rightarrow> task option \<Rightarrow> bool" where
  "sends_to current_id src_id slot =
     (case slot of
        Some t \<Rightarrow> (case task_state t of
            Sending dest msg \<Rightarrow> dest = current_id \<and> accepts src_id (task_id t)
          | _ \<Rightarrow> False)
      | None \<Rightarrow> False)"

text \<open>The search loops of \<open>sys_recv\<close> and \<open>sys_try_recv\<close>: the first matching slot.\<close>

fun find_sender :: "nat \<Rightarrow> nat option \<Rightarrow> nat \<Rightarrow> task option list \<Rightarrow> nat option" where
  "find_sender current_id src_id i [] = None"
| "find_sender current_id src_id i (slot # slots) =
     (if sends_to current_id src_id slot then Some i
      else find_sender current_id src_id (i + 1) slots)"

text \<open>The rendezvous part both calls share; \<open>Inl\<close> where there is nobody to receive from.\<close>

definition recv_from ::
  "nat option \<Rightarrow> nat \<Rightarrow> nat \<Rightarrow> 'a kernel_scheme \<Rightarrow> (unit + nat \<times> 'a kernel_scheme) option" where
  "recv_from src_id msg_ptr current_rsp k =
     (case find_sender (current_task_idx (sched k) + 1) src_id 0 (tasks (sched k)) of
        None \<Rightarrow> Some (Inl ())
      | Some sender_idx \<Rightarrow>
          do {
            slot \<leftarrow> idx (tasks (sched k)) sender_idx;
            sender_task \<leftarrow> slot;
            case task_state sender_task of
              Sending dest msg \<Rightarrow>
                do {
                  let k = k\<lparr>memory := write_message (memory k) msg_ptr msg\<rparr>;
                  let k = kwrite_rax (task_rsp sender_task) 0 k;
                  s \<leftarrow> set_state sender_idx Ready (sched k);
                  Some (Inr (current_rsp, kwrite_rax current_rsp 0 (k\<lparr>sched := s\<rparr>)))
                }
            | _ \<Rightarrow> Some (Inl ())
          })"

definition src_filter_option :: "nat \<Rightarrow> nat option" where
  "src_filter_option src_filter = (if src_filter = 0 then None else Some src_filter)"

definition sys_recv ::
  "nat \<Rightarrow> nat \<Rightarrow> nat \<Rightarrow> 'a kernel_scheme \<Rightarrow> (nat \<times> 'a kernel_scheme) option" where
  "sys_recv src_filter msg_ptr current_rsp k =
     do {
       r \<leftarrow> recv_from (src_filter_option src_filter) msg_ptr current_rsp k;
       case r of
         Inr res \<Rightarrow> Some res
       | Inl _ \<Rightarrow>
           do {
             s \<leftarrow> set_state (current_task_idx (sched k))
               (Receiving (src_filter_option src_filter) msg_ptr) (sched k);
             switch_task current_rsp (k\<lparr>sched := s\<rparr>)
           }
     }"

definition sys_try_recv ::
  "nat \<Rightarrow> nat \<Rightarrow> nat \<Rightarrow> 'a kernel_scheme \<Rightarrow> (nat \<times> 'a kernel_scheme) option" where
  "sys_try_recv src_filter msg_ptr current_rsp k =
     do {
       r \<leftarrow> recv_from (src_filter_option src_filter) msg_ptr current_rsp k;
       case r of
         Inr res \<Rightarrow> Some res
       | Inl _ \<Rightarrow> Some (current_rsp, kwrite_rax current_rsp (- 1) k)
     }"

subsection \<open>Communication states\<close>

text \<open>
  The abstract view: only the state of each slot. \<open>comm_ok\<close> is the part of the invariant that
  speaks of communication.
\<close>

definition state_at :: "task option list \<Rightarrow> nat \<Rightarrow> task_state option" where
  "state_at ts i = (if i < length ts then map_option task_state (ts ! i) else None)"

definition comm_ok :: "(nat \<Rightarrow> task_state option) \<Rightarrow> bool" where
  "comm_ok st \<longleftrightarrow>
     (\<forall>i d m. st i = Some (Sending d m) \<longrightarrow> sender m = i + 1 \<and> 1 \<le> d \<and> st (d - 1) \<noteq> None) \<and>
     (\<forall>i j m f p. st i = Some (Sending (j + 1) m) \<longrightarrow> st j = Some (Receiving f p) \<longrightarrow>
        \<not> accepts f (i + 1))"

lemma comm_ready: "comm_ok st \<Longrightarrow> st i \<noteq> None \<Longrightarrow> comm_ok (st(i \<mapsto> Ready))"
  unfolding comm_ok_def by (auto split: if_splits)

lemma comm_sending:
  assumes "comm_ok st" and "st i \<noteq> None" and "1 \<le> d" and "st (d - 1) \<noteq> None"
    and "sender m = i + 1"
    and "\<And>f p. st (d - 1) = Some (Receiving f p) \<Longrightarrow> \<not> accepts f (i + 1)"
  shows "comm_ok (st(i \<mapsto> Sending d m))"
  using assms unfolding comm_ok_def by (auto split: if_splits)

lemma comm_receiving:
  assumes "comm_ok st" and "st i \<noteq> None"
    and "\<And>j m. st j = Some (Sending (i + 1) m) \<Longrightarrow> \<not> accepts f (j + 1)"
  shows "comm_ok (st(i \<mapsto> Receiving f p))"
  using assms unfolding comm_ok_def by (auto split: if_splits)

subsection \<open>The invariant\<close>

definition ipc_inv :: "scheduler \<Rightarrow> bool" where
  "ipc_inv s \<longleftrightarrow> sched_wf s \<and> state_at (tasks s) (current_task_idx s) \<noteq> None \<and>
     (\<forall>i t. i < 8 \<longrightarrow> tasks s ! i = Some t \<longrightarrow> task_id t = i + 1) \<and>
     comm_ok (state_at (tasks s))"

lemma state_at_update:
  "i < length ts \<Longrightarrow> state_at (ts[i := Some t]) = (state_at ts)(i \<mapsto> task_state t)"
  by (rule ext) (auto simp: state_at_def)

lemma state_at_Some:
  "state_at ts i = Some st \<longleftrightarrow> i < length ts \<and> (\<exists>t. ts ! i = Some t \<and> task_state t = st)"
  by (auto simp: state_at_def)

lemma set_state_ok:
  assumes "state_at (tasks s) i \<noteq> None"
  obtains t where "tasks s ! i = Some t" "i < length (tasks s)"
    "set_state i st s = Some (s\<lparr>tasks := (tasks s)[i := Some (t\<lparr>task_state := st\<rparr>)]\<rparr>)"
  using assms by (auto simp: state_at_def set_state_def checked split: if_splits)

text \<open>Changing the state of one slot keeps the invariant when it keeps \<open>comm_ok\<close>.\<close>

lemma set_state_inv:
  assumes inv: "ipc_inv s" and i: "state_at (tasks s) i \<noteq> None"
    and ok: "comm_ok ((state_at (tasks s))(i \<mapsto> st))"
  shows "\<exists>s'. set_state i st s = Some s' \<and> ipc_inv s' \<and>
    state_at (tasks s') = (state_at (tasks s))(i \<mapsto> st) \<and>
    current_task_idx s' = current_task_idx s"
proof -
  obtain t where t: "tasks s ! i = Some t" "i < length (tasks s)"
    "set_state i st s = Some (s\<lparr>tasks := (tasks s)[i := Some (t\<lparr>task_state := st\<rparr>)]\<rparr>)"
    using set_state_ok[OF i] .
  with inv ok show ?thesis
    by (auto simp: ipc_inv_def sched_wf_def state_at_update nth_list_update)
qed

lemma save_current_rsp_inv:
  assumes inv: "ipc_inv s"
  shows "\<exists>s'. save_current_rsp r s = Some s' \<and> ipc_inv s' \<and>
    state_at (tasks s') = state_at (tasks s) \<and> current_task_idx s' = current_task_idx s"
proof -
  obtain t where t: "tasks s ! current_task_idx s = Some t" "current_task_idx s < length (tasks s)"
    using inv by (auto simp: ipc_inv_def state_at_def split: if_splits)
  let ?s = "s\<lparr>tasks := (tasks s)[current_task_idx s := Some (t\<lparr>task_rsp := r\<rparr>)]\<rparr>"
  have "save_current_rsp r s = Some ?s"
    using t by (auto simp: save_current_rsp_def on_boot_thread_def checked)
  moreover have st: "state_at (tasks ?s) = state_at (tasks s)"
    using t by (auto simp: state_at_def fun_eq_iff nth_list_update)
  moreover have "ipc_inv ?s"
    using inv t st by (auto simp: ipc_inv_def sched_wf_def nth_list_update)
  ultimately show ?thesis by auto
qed

lemma runnable_state_at: "runnable_at ts i \<Longrightarrow> i < length ts \<Longrightarrow> state_at ts i \<noteq> None"
  by (auto simp: runnable_at_def state_at_def split: option.splits)

lemma select_next_task_inv:
  assumes inv: "ipc_inv s"
  shows "\<exists>s'. select_next_task s = Some s' \<and> ipc_inv s' \<and> tasks s' = tasks s \<and>
    current_task_idx s' = next_runnable (tasks s) (current_task_idx s)"
proof -
  let ?n = "next_runnable (tasks s) (current_task_idx s)"
  have wf: "sched_wf s" and n: "?n < 8"
    using inv next_runnable_less by (auto simp: ipc_inv_def sched_wf_def)
  have "state_at (tasks s) ?n \<noteq> None"
  proof (cases "?n = current_task_idx s")
    case False
    with n wf show ?thesis
      by (intro runnable_state_at next_runnable_runnable) (auto simp: sched_wf_def)
  qed (use inv in \<open>auto simp: ipc_inv_def\<close>)
  with select_next_task_spec[OF wf] inv n show ?thesis
    by (auto simp: ipc_inv_def sched_wf_def)
qed

text \<open>
  A context switch never panics, keeps the invariant and every slot's state, and returns the
  saved stack pointer of the next runnable slot, whose kernel stack it installs.
\<close>

lemma switch_task_inv:
  assumes inv: "ipc_inv (sched k)"
  shows "\<exists>new k' t. switch_task r k = Some (new, k') \<and> ipc_inv (sched k') \<and>
    state_at (tasks (sched k')) = state_at (tasks (sched k)) \<and> memory k' = memory k \<and>
    current_task_idx (sched k') = next_runnable (tasks (sched k)) (current_task_idx (sched k)) \<and>
    tasks (sched k') ! current_task_idx (sched k') = Some t \<and> new = task_rsp t \<and>
    rsp0 k' = kernel_stack_top t \<and> kstack k' = kernel_stack_top t"
proof -
  obtain s1 where s1: "save_current_rsp r (sched k) = Some s1" "ipc_inv s1"
    "state_at (tasks s1) = state_at (tasks (sched k))"
    "current_task_idx s1 = current_task_idx (sched k)"
    using save_current_rsp_inv[OF inv] by blast
  obtain s2 where s2: "select_next_task s1 = Some s2" "ipc_inv s2" "tasks s2 = tasks s1"
    "current_task_idx s2 = next_runnable (tasks s1) (current_task_idx s1)"
    using select_next_task_inv[OF s1(2)] by blast
  obtain t where t: "tasks s2 ! current_task_idx s2 = Some t" "current_task_idx s2 < length (tasks s2)"
    using s2(2) by (auto simp: ipc_inv_def state_at_def split: if_splits)
  have "runnable_at (tasks s1) j = runnable_at (tasks (sched k)) j" if "j < 8" for j
  proof -
    have "length (tasks s1) = 8" "length (tasks (sched k)) = 8"
      using s1(2) inv by (auto simp: ipc_inv_def sched_wf_def)
    with that fun_cong[OF s1(3), of j] show ?thesis
      by (auto simp: state_at_def runnable_at_def is_runnable_def split: option.splits)
  qed
  then have "next_runnable (tasks s1) c = next_runnable (tasks (sched k)) c" for c
    by (auto simp: next_runnable_def simp del: upt_Suc intro!: arg_cong[where f = "case_option c (\<lambda>i. i)"] find_cong)
  with s1 s2 t show ?thesis
    by (auto simp: switch_task_def get_current_rsp_def on_boot_thread_def current_task_def checked)
qed

text \<open>Where no other slot is runnable, the switch comes back to the caller's own frame.\<close>

lemma switch_task_stays:
  assumes inv: "ipc_inv (sched k)"
    and stay: "next_runnable (tasks (sched k)) (current_task_idx (sched k)) = current_task_idx (sched k)"
  shows "\<exists>k'. switch_task r k = Some (r, k') \<and> memory k' = memory k \<and>
    state_at (tasks (sched k')) = state_at (tasks (sched k)) \<and>
    current_task_idx (sched k') = current_task_idx (sched k)"
proof -
  let ?s = "sched k" and ?c = "current_task_idx (sched k)"
  obtain new k' t where k': "switch_task r k = Some (new, k')"
    "state_at (tasks (sched k')) = state_at (tasks ?s)" "memory k' = memory k"
    "current_task_idx (sched k') = ?c" "tasks (sched k') ! ?c = Some t" "new = task_rsp t"
    using switch_task_inv[OF inv, of r] stay by auto
  obtain u where u: "tasks ?s ! ?c = Some u" "?c < length (tasks ?s)"
    using inv by (auto simp: ipc_inv_def state_at_def split: if_splits)
  then have "save_current_rsp r ?s = Some (?s\<lparr>tasks := (tasks ?s)[?c := Some (u\<lparr>task_rsp := r\<rparr>)]\<rparr>)"
    by (auto simp: save_current_rsp_def on_boot_thread_def checked)
  with k' u have "t = u\<lparr>task_rsp := r\<rparr>"
    by (auto simp: switch_task_def select_next_task_def Let_def split: bind_splits option.splits)
  with k' show ?thesis by auto
qed

subsection \<open>What the calls do\<close>

lemma find_sender_Some:
  "find_sender c f i slots = Some j \<Longrightarrow>
     i \<le> j \<and> j < i + length slots \<and> sends_to c f (slots ! (j - i)) \<and>
     (\<forall>n. i \<le> n \<longrightarrow> n < j \<longrightarrow> \<not> sends_to c f (slots ! (n - i)))"
proof (induction slots arbitrary: i)
  case (Cons slot slots)
  show ?case
  proof (cases "sends_to c f slot")
    case True
    with Cons.prems show ?thesis by auto
  next
    case False
    with Cons.prems have "find_sender c f (i + 1) slots = Some j" by simp
    from Cons.IH[OF this] False show ?thesis
      by (auto simp: nth_Cons' Suc_le_eq)
  qed
qed simp

lemma find_sender_None:
  "find_sender c f i slots = None \<Longrightarrow> n < length slots \<Longrightarrow> \<not> sends_to c f (slots ! n)"
  by (induction slots arbitrary: i n) (auto simp: nth_Cons' split: if_splits)

lemma find_sender_first:
  assumes "j < length slots" and "sends_to c f (slots ! j)"
    and "\<And>n. n < j \<Longrightarrow> \<not> sends_to c f (slots ! n)"
  shows "find_sender c f 0 slots = Some j"
proof (cases "find_sender c f 0 slots")
  case None
  from find_sender_None[OF this assms(1)] assms(2) show ?thesis by simp
next
  case (Some i)
  from find_sender_Some[OF this] assms show ?thesis by (metis diff_zero le0 linorder_neqE_nat Some)
qed

lemma sends_to_iff:
  assumes "ipc_inv s" and "i < 8"
  shows "sends_to c f (tasks s ! i) \<longleftrightarrow>
    (\<exists>m. state_at (tasks s) i = Some (Sending c m)) \<and> accepts f (i + 1)"
  using assms by (auto simp: ipc_inv_def sched_wf_def sends_to_def state_at_def split: option.splits
      task_state.splits)

text \<open>A delivery: the message at \<open>p\<close>, zero in the \<open>rax\<close> slots of both parties.\<close>

definition delivery :: "nat \<Rightarrow> message \<Rightarrow> nat \<Rightarrow> nat \<Rightarrow> mem \<Rightarrow> mem" where
  "delivery p msg peer_rsp current_rsp mem =
     write_rax (write_rax (write_message mem p msg) peer_rsp 0) current_rsp 0"

text \<open>The message buffer does not overlap the \<open>rax\<close> slot of the frame at \<open>r\<close>.\<close>

definition clear_of_rax :: "nat \<Rightarrow> nat \<Rightarrow> bool" where
  "clear_of_rax p r \<longleftrightarrow> p + 48 \<le> r + 112 \<or> r + 120 \<le> p"

lemma read_message_store64:
  "p + 48 \<le> a \<or> a + 8 \<le> p \<Longrightarrow> read_message (store64 mem a w) p = read_message mem p"
  by (auto simp: read_message_def load64_store64_other)

lemma read_delivery:
  "clear_of_rax p r1 \<Longrightarrow> clear_of_rax p r2 \<Longrightarrow> sender msg < usize_bound \<Longrightarrow>
     read_message (delivery p msg r1 r2 mem) p = msg"
  by (auto simp: delivery_def write_rax_def clear_of_rax_def read_message_store64)

lemma delivery_rax: "load64 (delivery p msg r1 r2 mem) (r2 + 112) = 0"
  and delivery_peer_rax:
    "r1 + 8 \<le> r2 \<or> r2 + 8 \<le> r1 \<Longrightarrow> load64 (delivery p msg r1 r2 mem) (r1 + 112) = 0"
  by (auto simp: delivery_def write_rax_def load64_store64_other)

text \<open>A send that meets a waiting receiver.\<close>

lemma sys_send_rendezvous:
  fixes k :: "'a kernel_scheme" and p :: nat
  assumes inv: "ipc_inv (sched k)" and d: "1 \<le> d" "tasks (sched k) ! (d - 1) = Some t" "d \<le> 8"
    and st: "task_state t = Receiving f buf" "accepts f (current_task_idx (sched k) + 1)"
  defines "msg \<equiv> (read_message (memory k) p)\<lparr>sender := current_task_idx (sched k) + 1\<rparr>"
  shows "\<exists>k'. sys_send d p r k = Some (r, k') \<and> ipc_inv (sched k') \<and>
    memory k' = delivery buf msg (task_rsp t) r (memory k) \<and>
    state_at (tasks (sched k')) = (state_at (tasks (sched k)))(d - 1 \<mapsto> Ready) \<and>
    current_task_idx (sched k') = current_task_idx (sched k)"
proof -
  have l: "d - 1 < length (tasks (sched k))" using inv d by (auto simp: ipc_inv_def sched_wf_def)
  have s: "state_at (tasks (sched k)) (d - 1) \<noteq> None" using l d by (simp add: state_at_def)
  have "comm_ok ((state_at (tasks (sched k)))(d - 1 \<mapsto> Ready))"
    using inv s by (intro comm_ready) (simp_all add: ipc_inv_def)
  from set_state_inv[OF inv s this] show ?thesis
    using d st l
    by (auto simp: sys_send_def send_to_def checked Let_def msg_def kwrite_rax_def delivery_def)
qed

text \<open>A send to a task that is not waiting for it.\<close>

lemma sys_send_blocks:
  fixes k :: "'a kernel_scheme" and p :: nat
  assumes inv: "ipc_inv (sched k)" and d: "1 \<le> d" "tasks (sched k) ! (d - 1) = Some t" "d \<le> 8"
    and st: "\<And>f buf. task_state t = Receiving f buf \<Longrightarrow> \<not> accepts f (current_task_idx (sched k) + 1)"
  defines "msg \<equiv> (read_message (memory k) p)\<lparr>sender := current_task_idx (sched k) + 1\<rparr>"
  shows "\<exists>s'. sys_send d p r k = switch_task r (k\<lparr>sched := s'\<rparr>) \<and> ipc_inv s' \<and>
    state_at (tasks s') = (state_at (tasks (sched k)))(current_task_idx (sched k) \<mapsto> Sending d msg) \<and>
    current_task_idx s' = current_task_idx (sched k) \<and>
    set_state (current_task_idx (sched k)) (Sending d msg) (sched k) = Some s'"
proof -
  let ?c = "current_task_idx (sched k)"
  have l: "d - 1 < length (tasks (sched k))" using inv d by (auto simp: ipc_inv_def sched_wf_def)
  have s: "state_at (tasks (sched k)) ?c \<noteq> None" using inv by (simp add: ipc_inv_def)
  have "comm_ok ((state_at (tasks (sched k)))(?c \<mapsto> Sending d msg))"
    using inv s l d st by (intro comm_sending) (auto simp: ipc_inv_def state_at_def msg_def)
  from set_state_inv[OF inv s this] obtain s' where s':
    "set_state ?c (Sending d msg) (sched k) = Some s'" "ipc_inv s'"
    "state_at (tasks s') = (state_at (tasks (sched k)))(?c \<mapsto> Sending d msg)"
    "current_task_idx s' = ?c" by blast
  have "sys_send d p r k = send_block d msg r k"
    using d l st by (auto simp: sys_send_def send_to_def checked Let_def msg_def split: task_state.splits)
  with s' show ?thesis by (auto simp: send_block_def)
qed

lemma sys_send_invalid:
  assumes "ipc_inv (sched k)" and "1 \<le> d" and "d \<le> 8 \<Longrightarrow> tasks (sched k) ! (d - 1) = None"
  shows "sys_send d p r k = Some (r, kwrite_rax r (- 1) k)"
  using assms by (auto simp: sys_send_def checked Let_def ipc_inv_def sched_wf_def)

text \<open>A receive, blocking or not, that finds a blocked sender.\<close>

lemma recv_from_rendezvous:
  assumes inv: "ipc_inv (sched k)" and j: "j < 8" "tasks (sched k) ! j = Some t"
    and st: "task_state t = Sending (current_task_idx (sched k) + 1) msg" "accepts f (j + 1)"
    and first: "\<And>n m. n < j \<Longrightarrow> state_at (tasks (sched k)) n =
      Some (Sending (current_task_idx (sched k) + 1) m) \<Longrightarrow> \<not> accepts f (n + 1)"
  shows "\<exists>k'. recv_from f p r k = Some (Inr (r, k')) \<and> ipc_inv (sched k') \<and>
    memory k' = delivery p msg (task_rsp t) r (memory k) \<and> sender msg = j + 1 \<and>
    state_at (tasks (sched k')) = (state_at (tasks (sched k)))(j \<mapsto> Ready) \<and>
    current_task_idx (sched k') = current_task_idx (sched k)"
proof -
  let ?c = "current_task_idx (sched k) + 1"
  have l: "length (tasks (sched k)) = 8" using inv by (simp add: ipc_inv_def sched_wf_def)
  have sj: "state_at (tasks (sched k)) j = Some (Sending ?c msg)" using j st l by (simp add: state_at_def)
  have f: "find_sender ?c f 0 (tasks (sched k)) = Some j"
  proof (rule find_sender_first)
    show "sends_to ?c f (tasks (sched k) ! j)" using sends_to_iff[OF inv j(1)] sj st by auto
    show "\<not> sends_to ?c f (tasks (sched k) ! n)" if "n < j" for n
      using sends_to_iff[OF inv, of n] first[OF that] that j(1) by auto
  qed (use j l in simp)
  have "comm_ok (state_at (tasks (sched k)))" using inv by (simp add: ipc_inv_def)
  with sj have ok: "comm_ok ((state_at (tasks (sched k)))(j \<mapsto> Ready))" and sm: "sender msg = j + 1"
    by (auto simp: comm_ready) (auto simp: comm_ok_def)
  from set_state_inv[OF inv _ ok] sj show ?thesis
    using f j st l sm
    by (auto simp: recv_from_def checked Let_def kwrite_rax_def delivery_def)
qed

lemma recv_from_nobody:
  assumes inv: "ipc_inv (sched k)"
    and none: "\<And>j m. state_at (tasks (sched k)) j =
      Some (Sending (current_task_idx (sched k) + 1) m) \<Longrightarrow> \<not> accepts f (j + 1)"
  shows "recv_from f p r k = Some (Inl ())"
proof (cases "find_sender (current_task_idx (sched k) + 1) f 0 (tasks (sched k))")
  case (Some j)
  from find_sender_Some[OF this] inv
  have "j < 8" "sends_to (current_task_idx (sched k) + 1) f (tasks (sched k) ! j)"
    by (auto simp: ipc_inv_def sched_wf_def)
  with sends_to_iff[OF inv this(1)] none show ?thesis by blast
qed (simp add: recv_from_def)

subsection \<open>Every kernel entry keeps the invariant\<close>

text \<open>The calls are total but for a destination id of zero, and keep the invariant.\<close>

lemma sys_send_inv:
  assumes inv: "ipc_inv (sched k)" and d: "1 \<le> d"
  shows "\<exists>new k'. sys_send d p r k = Some (new, k') \<and> ipc_inv (sched k')"
proof (cases "d \<le> 8 \<and> tasks (sched k) ! (d - 1) \<noteq> None")
  case False
  then have "sys_send d p r k = Some (r, kwrite_rax r (- 1) k)"
    by (intro sys_send_invalid[OF inv d]) auto
  with inv show ?thesis by (simp add: kwrite_rax_def)
next
  case True
  then obtain t where t: "d \<le> 8" "tasks (sched k) ! (d - 1) = Some t" by auto
  show ?thesis
  proof (cases "\<exists>f buf. task_state t = Receiving f buf \<and> accepts f (current_task_idx (sched k) + 1)")
    case True
    then obtain f buf where "task_state t = Receiving f buf" "accepts f (current_task_idx (sched k) + 1)"
      by blast
    from sys_send_rendezvous[OF inv d t(2,1) this] show ?thesis by blast
  next
    case False
    with sys_send_blocks[OF inv d t(2,1), of p r]
    obtain s' where s': "sys_send d p r k = switch_task r (k\<lparr>sched := s'\<rparr>)" "ipc_inv s'" by blast
    from switch_task_inv[of "k\<lparr>sched := s'\<rparr>" r] s' show ?thesis by auto
  qed
qed

lemma recv_from_cases:
  assumes inv: "ipc_inv (sched k)"
  obtains (met) k' where "recv_from f p r k = Some (Inr (r, k'))" "ipc_inv (sched k')"
  | (nobody) "recv_from f p r k = Some (Inl ())"
      "\<And>j m. state_at (tasks (sched k)) j = Some (Sending (current_task_idx (sched k) + 1) m) \<Longrightarrow>
         \<not> accepts f (j + 1)"
proof (cases "\<exists>j m. state_at (tasks (sched k)) j =
    Some (Sending (current_task_idx (sched k) + 1) m) \<and> accepts f (j + 1)")
  case False
  then have none: "state_at (tasks (sched k)) j = Some (Sending (current_task_idx (sched k) + 1) m) \<Longrightarrow>
      \<not> accepts f (j + 1)" for j m by blast
  show ?thesis by (rule nobody[OF recv_from_nobody[OF inv none] none])
next
  case True
  let ?P = "\<lambda>j. \<exists>m. state_at (tasks (sched k)) j =
    Some (Sending (current_task_idx (sched k) + 1) m) \<and> accepts f (j + 1)"
  define j where "j = (LEAST j. ?P j)"
  have Pj: "?P j" unfolding j_def by (rule LeastI_ex) (use True in blast)
  have first: "\<not> accepts f (n + 1)"
    if "n < j" "state_at (tasks (sched k)) n = Some (Sending (current_task_idx (sched k) + 1) m)" for n m
    using not_less_Least[of n ?P] that by (auto simp: j_def)
  from Pj obtain t msg where t: "j < 8" "tasks (sched k) ! j = Some t"
    "task_state t = Sending (current_task_idx (sched k) + 1) msg" "accepts f (j + 1)"
    using inv by (auto simp: state_at_Some ipc_inv_def sched_wf_def)
  from recv_from_rendezvous[OF inv t, of p r] first met show ?thesis by blast
qed

lemma sys_recv_blocks:
  fixes k :: "'a kernel_scheme"
  assumes inv: "ipc_inv (sched k)"
    and none: "\<And>j m. state_at (tasks (sched k)) j =
      Some (Sending (current_task_idx (sched k) + 1) m) \<Longrightarrow>
      \<not> accepts (src_filter_option fl) (j + 1)"
  shows "\<exists>s'. sys_recv fl p r k = switch_task r (k\<lparr>sched := s'\<rparr>) \<and> ipc_inv s' \<and>
    state_at (tasks s') = (state_at (tasks (sched k)))
      (current_task_idx (sched k) \<mapsto> Receiving (src_filter_option fl) p) \<and>
    current_task_idx s' = current_task_idx (sched k) \<and>
    set_state (current_task_idx (sched k)) (Receiving (src_filter_option fl) p) (sched k) = Some s'"
proof -
  let ?c = "current_task_idx (sched k)"
  have s: "state_at (tasks (sched k)) ?c \<noteq> None" using inv by (simp add: ipc_inv_def)
  have "comm_ok ((state_at (tasks (sched k)))(?c \<mapsto> Receiving (src_filter_option fl) p))"
    using inv s none by (intro comm_receiving) (auto simp: ipc_inv_def)
  from set_state_inv[OF inv s this] recv_from_nobody[OF inv none] show ?thesis
    by (auto simp: sys_recv_def)
qed

lemma sys_recv_inv:
  assumes inv: "ipc_inv (sched k)"
  shows "\<exists>new k'. sys_recv fl p r k = Some (new, k') \<and> ipc_inv (sched k')"
  using inv
proof (cases rule: recv_from_cases[where f = "src_filter_option fl" and p = p and r = r])
  case (met k')
  then show ?thesis by (simp add: sys_recv_def)
next
  case nobody
  from sys_recv_blocks[OF inv, of fl p r] nobody(2) obtain s' where s':
    "sys_recv fl p r k = switch_task r (k\<lparr>sched := s'\<rparr>)" "ipc_inv s'" by blast
  from switch_task_inv[of "k\<lparr>sched := s'\<rparr>" r] s' show ?thesis by auto
qed

lemma sys_try_recv_inv:
  assumes inv: "ipc_inv (sched k)"
  shows "\<exists>new k'. sys_try_recv fl p r k = Some (new, k') \<and> ipc_inv (sched k')"
  using inv
proof (cases rule: recv_from_cases[where f = "src_filter_option fl" and p = p and r = r])
  case (met k')
  then show ?thesis by (simp add: sys_try_recv_def)
next
  case nobody
  with inv show ?thesis by (simp add: sys_try_recv_def kwrite_rax_def)
qed

lemma sys_yield_inv:
  "ipc_inv (sched k) \<Longrightarrow> \<exists>new k'. sys_yield r k = Some (new, k') \<and> ipc_inv (sched k')"
  using switch_task_inv[of k r] by (auto simp: sys_yield_def kwrite_rax_def)

lemma handle_timer_inv:
  assumes "ipc_inv (sched k)" and "ticks k \<noteq> - 1"
  shows "\<exists>new k'. handle_timer_interrupt r k = Some (new, k') \<and> ipc_inv (sched k')"
  using switch_task_inv[of "k\<lparr>ticks := ticks k + 1\<rparr>" r] assms
  by (auto simp: handle_timer_interrupt_def wadd_one pic_send_eoi_def out_port_def)

subsection \<open>Runs of the kernel\<close>

text \<open>
  A step is a kernel entry that returns, or any task's own work, which may write any memory.
  After a panic there is no step.
\<close>

inductive kernel_step :: "kernel \<Rightarrow> kernel \<Rightarrow> bool" where
  task_works: "kernel_step k (k\<lparr>memory := m\<rparr>)"
| step_send: "sys_send d p r k = Some (new, k') \<Longrightarrow> kernel_step k k'"
| step_recv: "sys_recv f p r k = Some (new, k') \<Longrightarrow> kernel_step k k'"
| step_try_recv: "sys_try_recv f p r k = Some (new, k') \<Longrightarrow> kernel_step k k'"
| step_yield: "sys_yield r k = Some (new, k') \<Longrightarrow> kernel_step k k'"
| step_timer: "handle_timer_interrupt r k = Some (new, k') \<Longrightarrow> kernel_step k k'"

inductive_cases kernel_stepE: "kernel_step k k'"

text \<open>The table as \<open>kernel_main\<close> leaves it: ids match slots, every task is ready, slot 0 is taken.\<close>

definition booted :: "scheduler \<Rightarrow> bool" where
  "booted s \<longleftrightarrow> length (tasks s) = 8 \<and> current_task_idx s = 0 \<and> tasks s ! 0 \<noteq> None \<and>
     (\<forall>i t. i < 8 \<longrightarrow> tasks s ! i = Some t \<longrightarrow> task_id t = i + 1 \<and> task_state t = Ready)"

inductive kernel_reachable :: "kernel \<Rightarrow> bool" where
  "booted (sched k) \<Longrightarrow> kernel_reachable k"
| "kernel_reachable k \<Longrightarrow> kernel_step k k' \<Longrightarrow> kernel_reachable k'"

lemma booted_inv: "booted s \<Longrightarrow> ipc_inv s"
  by (auto simp: booted_def ipc_inv_def sched_wf_def comm_ok_def state_at_def split: if_splits)

lemma sys_send_zero: "sys_send 0 p r k = None"
  by (simp add: sys_send_def usub_def Let_def)

lemma kernel_step_inv:
  assumes "kernel_step k k'" and inv: "ipc_inv (sched k)"
  shows "ipc_inv (sched k')"
  using assms(1)
proof cases
  case (step_send d p r new)
  then have "1 \<le> d" using sys_send_zero[of p r k] by (cases d) auto
  with sys_send_inv[OF inv, of d p r] step_send show ?thesis by auto
next
  case (step_timer r new)
  then have "ticks k \<noteq> - 1"
    by (auto simp: handle_timer_interrupt_def wadd_one)
  with handle_timer_inv[OF inv, of r] step_timer show ?thesis by auto
next
  case (step_recv f p r new)
  with sys_recv_inv[OF inv, of f p r] show ?thesis by auto
next
  case (step_try_recv f p r new)
  with sys_try_recv_inv[OF inv, of f p r] show ?thesis by auto
next
  case (step_yield r new)
  with sys_yield_inv[OF inv, of r] show ?thesis by auto
qed (use inv in simp)

lemma kernel_reachable_inv: "kernel_reachable k \<Longrightarrow> ipc_inv (sched k)"
  by (induction rule: kernel_reachable.induct) (auto intro: booted_inv kernel_step_inv)

subsection \<open>Properties\<close>

text \<open>A kernel with two ready tasks, for the witnesses.\<close>

definition demo_kernel :: kernel where
  "demo_kernel = \<lparr>sched = demo_scheduler, memory = (\<lambda>_. 0), rsp0 = 0, kstack = 0, ticks = 0,
     port_log = []\<rparr>"

lemma booted_demo: "booted (sched demo_kernel)"
  by (auto simp: demo_kernel_def booted_def demo_scheduler_def demo_task_def nth_Cons'
      split: if_splits)

lemma demo_reachable: "kernel_reachable demo_kernel"
  by (rule kernel_reachable.intros(1)[OF booted_demo])

text \<open>
  C1: In every state the kernel reaches from boot by any interleaving of calls, timer ticks and
  writes of the tasks to memory: a blocked sender waits for an existing task and its message
  carries its own id, whatever it wrote into the sender field; and no receiver stays blocked
  while a message it would accept waits for it.
\<close>

theorem no_rendezvous_missed:
  assumes "kernel_reachable k" and "state_at (tasks (sched k)) i = Some (Sending (j + 1) m)"
  shows "sender m = i + 1 \<and> state_at (tasks (sched k)) j \<noteq> None \<and>
    (\<forall>f p. state_at (tasks (sched k)) j = Some (Receiving f p) \<longrightarrow> \<not> accepts f (i + 1))"
  using kernel_reachable_inv[OF assms(1)] assms(2)
  unfolding ipc_inv_def comm_ok_def by fastforce

text \<open>Task 1 sends to task 2, which is not receiving, and is blocked.\<close>

lemma demo_blocked_sender:
  "\<exists>k m. kernel_reachable k \<and> state_at (tasks (sched k)) 0 = Some (Sending (1 + 1) m)"
proof -
  have t: "tasks (sched demo_kernel) ! (2 - 1) = Some (demo_task 2)"
    by (simp add: demo_kernel_def demo_scheduler_def)
  note inv = booted_inv[OF booted_demo]
  from sys_send_blocks[OF inv _ t, of 0 0] obtain s' where s':
    "sys_send 2 0 0 demo_kernel = switch_task 0 (demo_kernel\<lparr>sched := s'\<rparr>)" "ipc_inv s'"
    "\<exists>m. state_at (tasks s') 0 = Some (Sending 2 m)"
    by (auto simp: demo_task_def demo_kernel_def demo_scheduler_def)
  from switch_task_inv[of "demo_kernel\<lparr>sched := s'\<rparr>" 0] s'
  obtain n k where k: "sys_send 2 0 0 demo_kernel = Some (n, k)"
    "\<exists>m. state_at (tasks (sched k)) 0 = Some (Sending 2 m)" by auto
  from kernel_reachable.intros(2)[OF demo_reachable step_send[OF k(1)]] k(2) show ?thesis by auto
qed

theorem no_rendezvous_missed_witness:
  "\<exists>k m. kernel_reachable k \<and> state_at (tasks (sched k)) 0 = Some (Sending (1 + 1) m) \<and>
     sender m = 1"
  using demo_blocked_sender no_rendezvous_missed by fastforce

text \<open>
  C27: Every kernel entry is total in a reachable state. A receive, a try-receive, a yield, a
  send to any nonzero id and a timer tick before the counter's last value return without a
  panic, in a state that is reachable again.
\<close>

theorem kernel_entries_total:
  assumes "kernel_reachable k"
  shows "(\<exists>n k'. sys_recv f p r k = Some (n, k') \<and> kernel_reachable k') \<and>
    (\<exists>n k'. sys_try_recv f p r k = Some (n, k') \<and> kernel_reachable k') \<and>
    (\<exists>n k'. sys_yield r k = Some (n, k') \<and> kernel_reachable k') \<and>
    (d \<noteq> 0 \<longrightarrow> (\<exists>n k'. sys_send d p r k = Some (n, k') \<and> kernel_reachable k')) \<and>
    (ticks k \<noteq> - 1 \<longrightarrow> (\<exists>n k'. handle_timer_interrupt r k = Some (n, k') \<and> kernel_reachable k'))"
proof -
  note inv = kernel_reachable_inv[OF assms] and r = kernel_reachable.intros(2)[OF assms]
  show ?thesis
    using sys_recv_inv[OF inv, of f p r] sys_try_recv_inv[OF inv, of f p r]
      sys_yield_inv[OF inv, of r] sys_send_inv[OF inv, of d p r] handle_timer_inv[OF inv, of r]
      r[OF step_recv] r[OF step_try_recv] r[OF step_yield] r[OF step_send] r[OF step_timer]
    by (metis One_nat_def Suc_leI neq0_conv)
qed

theorem kernel_entries_total_witness:
  "\<exists>n k'. sys_recv 0 4096 8192 demo_kernel = Some (n, k') \<and> kernel_reachable k'"
  using kernel_entries_total[OF demo_reachable] by blast

text \<open>
  C28: A send to a task blocked in a receive that accepts the sender completes at once: the
  receiver's buffer holds the message with the sender field set to the true sender, both calls
  return zero, the receiver is ready and nothing else changes state.
\<close>

theorem send_delivers:
  fixes k :: "'a kernel_scheme"
  assumes "ipc_inv (sched k)" and "1 \<le> d" and "tasks (sched k) ! (d - 1) = Some t" and "d \<le> 8"
    and "task_state t = Receiving f buf" and "accepts f (current_task_idx (sched k) + 1)"
    and "clear_of_rax buf (task_rsp t)" and "clear_of_rax buf r"
    and "task_rsp t + 8 \<le> r \<or> r + 8 \<le> task_rsp t"
  shows "\<exists>k'. sys_send d p r k = Some (r, k') \<and>
    read_message (memory k') buf =
      (read_message (memory k) p)\<lparr>sender := current_task_idx (sched k) + 1\<rparr> \<and>
    load64 (memory k') (task_rsp t + 112) = 0 \<and> load64 (memory k') (r + 112) = 0 \<and>
    state_at (tasks (sched k')) = (state_at (tasks (sched k)))(d - 1 \<mapsto> Ready) \<and>
    current_task_idx (sched k') = current_task_idx (sched k)"
proof -
  have "current_task_idx (sched k) + 1 < usize_bound"
    using assms(1) by (simp add: ipc_inv_def sched_wf_def usize_bound_def)
  then show ?thesis
    using sys_send_rendezvous[OF assms(1-6), of p r] assms(7-9)
    by (auto simp: read_delivery delivery_rax delivery_peer_rax)
qed

text \<open>Task 2 waits for any message at 0x9000; task 1 sends the one at 0x5000.\<close>

definition waiting_task :: task where
  "waiting_task = (demo_task 2)\<lparr>task_state := Receiving None 0x9000\<rparr>"

definition waiting_scheduler :: scheduler where
  "waiting_scheduler = demo_scheduler\<lparr>tasks := (tasks demo_scheduler)[1 := Some waiting_task]\<rparr>"

definition waiting_kernel :: kernel where
  "waiting_kernel = demo_kernel\<lparr>sched := waiting_scheduler\<rparr>"

lemma waiting_inv: "ipc_inv (sched waiting_kernel)"
  by (auto simp: waiting_kernel_def waiting_scheduler_def waiting_task_def demo_scheduler_def
      demo_task_def ipc_inv_def sched_wf_def comm_ok_def state_at_def nth_Cons' split: if_splits)

theorem send_delivers_witness:
  "\<exists>k'. sys_send 2 0x5000 0x7000 waiting_kernel = Some (0x7000, k') \<and>
     sender (read_message (memory k') 0x9000) = 1"
  using send_delivers[where d = 2 and t = waiting_task and f = None and buf = "0x9000" and r = "0x7000"
      and p = "0x5000", OF waiting_inv]
  by (auto simp: waiting_kernel_def waiting_scheduler_def waiting_task_def demo_scheduler_def
      demo_task_def accepts_def clear_of_rax_def)

text \<open>
  C29: A receive, blocking or not, takes the message of the first slot, in slot order, whose task
  is blocked sending to the caller and passes the filter: the caller's buffer holds exactly that
  message, with the true sender's id, both calls return zero and the sender is ready.
\<close>

theorem recv_takes_first_sender:
  fixes k :: "'a kernel_scheme"
  assumes "ipc_inv (sched k)" and "j < 8" and "tasks (sched k) ! j = Some t"
    and "task_state t = Sending (current_task_idx (sched k) + 1) msg"
    and "accepts (src_filter_option fl) (j + 1)"
    and "\<And>n m. n < j \<Longrightarrow> state_at (tasks (sched k)) n =
      Some (Sending (current_task_idx (sched k) + 1) m) \<Longrightarrow> \<not> accepts (src_filter_option fl) (n + 1)"
    and "clear_of_rax p (task_rsp t)" and "clear_of_rax p r"
    and "task_rsp t + 8 \<le> r \<or> r + 8 \<le> task_rsp t"
  shows "\<exists>k'. sys_recv fl p r k = Some (r, k') \<and> sys_try_recv fl p r k = Some (r, k') \<and>
    read_message (memory k') p = msg \<and> sender msg = j + 1 \<and>
    load64 (memory k') (task_rsp t + 112) = 0 \<and> load64 (memory k') (r + 112) = 0 \<and>
    state_at (tasks (sched k')) = (state_at (tasks (sched k)))(j \<mapsto> Ready)"
proof -
  from recv_from_rendezvous[OF assms(1-5), of p r] assms(6)
  obtain k' where k': "recv_from (src_filter_option fl) p r k = Some (Inr (r, k'))"
    "memory k' = delivery p msg (task_rsp t) r (memory k)" "sender msg = j + 1"
    "state_at (tasks (sched k')) = (state_at (tasks (sched k)))(j \<mapsto> Ready)" by blast
  have "sender msg < usize_bound" using k'(3) assms(2) by (simp add: usize_bound_def)
  with k' assms(7-9) show ?thesis
    by (auto simp: sys_recv_def sys_try_recv_def read_delivery delivery_rax delivery_peer_rax)
qed

definition sending_task :: task where
  "sending_task = (demo_task 2)\<lparr>task_state := Sending 1
     \<lparr>sender = 2, msg_type = 7, arg1 = 0, arg2 = 0, arg3 = 0, arg4 = 0\<rparr>\<rparr>"

definition sending_kernel :: kernel where
  "sending_kernel = demo_kernel\<lparr>sched :=
     demo_scheduler\<lparr>tasks := (tasks demo_scheduler)[1 := Some sending_task]\<rparr>\<rparr>"

lemma sending_inv: "ipc_inv (sched sending_kernel)"
  by (auto simp: sending_kernel_def sending_task_def demo_scheduler_def demo_kernel_def
      demo_task_def ipc_inv_def sched_wf_def comm_ok_def state_at_def nth_Cons' split: if_splits)

theorem recv_takes_first_sender_witness:
  "\<exists>k'. sys_recv 0 0x9000 0x7000 sending_kernel = Some (0x7000, k') \<and>
     msg_type (read_message (memory k') 0x9000) = 7"
  using recv_takes_first_sender[where j = 1 and t = sending_task and fl = 0 and p = "0x9000"
      and msg = "\<lparr>sender = 2, msg_type = 7, arg1 = 0, arg2 = 0, arg3 = 0, arg4 = 0\<rparr>"
      and r = "0x7000", OF sending_inv]
  by (auto simp: sending_kernel_def sending_task_def demo_scheduler_def demo_kernel_def
      demo_task_def accepts_def clear_of_rax_def src_filter_option_def state_at_def)

text \<open>
  What the scheduler does when a blocking call leaves nobody runnable: the caller, just
  marked as blocked in its send, is resumed at once on its own frame, with no message delivered
  and no result written to its \<open>rax\<close> slot.
\<close>

theorem blocked_sender_resumes_when_alone:
  fixes k :: "'a kernel_scheme"
  assumes "ipc_inv (sched k)" and "1 \<le> d" and "tasks (sched k) ! (d - 1) = Some t" and "d \<le> 8"
    and "\<And>f buf. task_state t = Receiving f buf \<Longrightarrow> \<not> accepts f (current_task_idx (sched k) + 1)"
    and "\<And>j. j < 8 \<Longrightarrow> j \<noteq> current_task_idx (sched k) \<Longrightarrow> \<not> runnable_at (tasks (sched k)) j"
  shows "\<exists>k' m. sys_send d p r k = Some (r, k') \<and> memory k' = memory k \<and>
    current_task_idx (sched k') = current_task_idx (sched k) \<and>
    state_at (tasks (sched k')) (current_task_idx (sched k)) = Some (Sending d m)"
proof -
  let ?c = "current_task_idx (sched k)"
  from sys_send_blocks[OF assms(1-4), of p r] assms(5) obtain s' msg where s':
    "sys_send d p r k = switch_task r (k\<lparr>sched := s'\<rparr>)" "ipc_inv s'"
    "state_at (tasks s') = (state_at (tasks (sched k)))(?c \<mapsto> Sending d msg)"
    "current_task_idx s' = ?c" by blast
  have c: "?c < 8" and l: "length (tasks s') = 8" "length (tasks (sched k)) = 8"
    using assms(1) s'(2) by (auto simp: ipc_inv_def sched_wf_def)
  have "\<not> runnable_at (tasks s') j" if "j < 8" "j \<noteq> ?c" for j
    using assms(6)[OF that] fun_cong[OF s'(3), of j] that l
    by (auto simp: state_at_def runnable_at_def is_runnable_def split: option.splits)
  then have n: "next_runnable (tasks s') ?c = ?c"
    using next_runnable_runnable[of "tasks s'" ?c] next_runnable_less[OF c, of "tasks s'"] by blast
  from switch_task_stays[of "k\<lparr>sched := s'\<rparr>" r] s' n show ?thesis by auto
qed

definition lone_kernel :: kernel where
  "lone_kernel = demo_kernel\<lparr>sched :=
     demo_scheduler\<lparr>tasks := Some (demo_task 1) # replicate 7 None\<rparr>\<rparr>"

lemma lone_inv: "ipc_inv (sched lone_kernel)"
  by (auto simp: lone_kernel_def demo_scheduler_def demo_kernel_def
      demo_task_def ipc_inv_def sched_wf_def comm_ok_def state_at_def nth_Cons' split: if_splits)

lemma lone_others: "j < 8 \<Longrightarrow> j \<noteq> 0 \<Longrightarrow> \<not> runnable_at (tasks (sched lone_kernel)) j"
  by (auto simp: lone_kernel_def runnable_at_def nth_Cons')

text \<open>The only task sends to itself.\<close>

theorem blocked_sender_resumes_when_alone_witness:
  "\<exists>k' m. sys_send 1 0x5000 0x7000 lone_kernel = Some (0x7000, k') \<and>
     state_at (tasks (sched k')) 0 = Some (Sending 1 m)"
proof -
  have c: "current_task_idx (sched lone_kernel) = 0"
    and t: "tasks (sched lone_kernel) ! (1 - 1) = Some (demo_task 1)"
    by (simp_all add: lone_kernel_def demo_scheduler_def)
  from blocked_sender_resumes_when_alone[OF lone_inv _ t, where p = "0x5000" and r = "0x7000"] show ?thesis
    using lone_others by (auto simp: c demo_task_def)
qed

end
