(* ===== verification/Canvas.thy ===== *)
theory Canvas
  imports Prelude
begin

text \<open>
  Drawing by nested loops over rows and columns, as the framebuffer writer (\<open>Gop\<close>) does. The interface is one operation that colours a
  cell; the lemmas say which cells a loop over it colours.
\<close>

text \<open>
  \<open>plot k\<close> colours cell \<open>k\<close> with \<open>ink k\<close> applied to its old value if the cell is visible, and
  changes no other visible cell.
\<close>

locale plotter =
  fixes plot :: "'k \<Rightarrow> 'g \<Rightarrow> 'g option"
    and look :: "'g \<Rightarrow> 'k \<Rightarrow> 'c"
    and ink :: "'k \<Rightarrow> 'c \<Rightarrow> 'c"
    and valid :: "'g \<Rightarrow> bool"
    and visible :: "'k \<Rightarrow> bool"
  assumes plot_law: "valid g \<Longrightarrow> \<exists>g'. plot k g = Some g' \<and> valid g' \<and>
    (\<forall>j. visible j \<longrightarrow> look g' j = (if j = k then ink j (look g j) else look g j))"
begin

text \<open>
  A row: the columns where \<open>c\<close> holds are plotted at \<open>key\<close>. Plotting a cell twice must not
  matter, or not happen.
\<close>

lemma plot_row:
  assumes "valid g" and once: "(\<forall>k x. ink k (ink k x) = ink k x) \<or> (\<forall>a<n. \<forall>b<n. key a = key b \<longrightarrow> a = b)"
  shows "\<exists>g'. for_from 0 n (\<lambda>dx g. if c dx then plot (key dx) g else Some g) g = Some g' \<and>
    valid g' \<and>
    (\<forall>j. visible j \<longrightarrow>
       look g' j = (if \<exists>dx<n. c dx \<and> key dx = j then ink j (look g j) else look g j))"
proof -
  let ?P = "\<lambda>m g'. valid g' \<and> (\<forall>j. visible j \<longrightarrow>
       look g' j = (if \<exists>dx<m. c dx \<and> key dx = j then ink j (look g j) else look g j))"
  have "\<exists>s'. for_from 0 n (\<lambda>dx g. if c dx then plot (key dx) g else Some g) g = Some s' \<and>
      ?P (0 + n) s'"
  proof (rule for_from_inv[where P = ?P])
    show "?P 0 g" using assms(1) by simp
  next
    fix m g1 assume m: "m < 0 + n" and P: "?P m g1"
    show "\<exists>s'. (if c m then plot (key m) g1 else Some g1) = Some s' \<and> ?P (Suc m) s'"
    proof (cases "c m")
      case False
      with P show ?thesis by (auto simp: less_Suc_eq)
    next
      case True
      obtain g2 where g2: "plot (key m) g1 = Some g2" "valid g2"
        "\<forall>j. visible j \<longrightarrow> look g2 j = (if j = key m then ink j (look g1 j) else look g1 j)"
        using plot_law P by blast
      have new: "(\<forall>k x. ink k (ink k x) = ink k x) \<or> \<not> (\<exists>dx<m. c dx \<and> key dx = key m)"
        using once m by (metis add_0 less_trans nat_neq_iff)
      have "look g2 j = (if \<exists>dx<Suc m. c dx \<and> key dx = j then ink j (look g j) else look g j)"
        if "visible j" for j
        using g2(3) P that new True by (cases "j = key m") (auto simp: less_Suc_eq)
      with g2 True show ?thesis by auto
    qed
  qed
  then show ?thesis by simp
qed

text \<open>A block of rows whose cells are all different.\<close>

lemma plot_rows:
  assumes "valid g"
    and once: "(\<forall>k x. ink k (ink k x) = ink k x) \<or>
      (\<forall>a<h. \<forall>a'<h. \<forall>b<w. \<forall>b'<w. key a b = key a' b' \<longrightarrow> a = a' \<and> b = b')"
  shows "\<exists>g'. for_from 0 h (\<lambda>dy. for_from 0 w (\<lambda>dx g.
      if c dy dx then plot (key dy dx) g else Some g)) g = Some g' \<and> valid g' \<and>
    (\<forall>j. visible j \<longrightarrow> look g' j =
       (if \<exists>dy<h. \<exists>dx<w. c dy dx \<and> key dy dx = j then ink j (look g j) else look g j))"
proof -
  let ?row = "\<lambda>dy. for_from 0 w (\<lambda>dx g. if c dy dx then plot (key dy dx) g else Some g)"
  let ?P = "\<lambda>m g'. valid g' \<and> (\<forall>j. visible j \<longrightarrow> look g' j =
       (if \<exists>dy<m. \<exists>dx<w. c dy dx \<and> key dy dx = j then ink j (look g j) else look g j))"
  have "\<exists>s'. for_from 0 h ?row g = Some s' \<and> ?P (0 + h) s'"
  proof (rule for_from_inv[where P = ?P])
    show "?P 0 g" using assms(1) by simp
  next
    fix m g1 assume m: "m < 0 + h" and P: "?P m g1"
    have "\<exists>g'. ?row m g1 = Some g' \<and> valid g' \<and> (\<forall>j. visible j \<longrightarrow>
        look g' j = (if \<exists>dx<w. c m dx \<and> key m dx = j then ink j (look g1 j) else look g1 j))"
      by (rule plot_row) (use P once m in auto)
    then obtain g2 where g2: "?row m g1 = Some g2" "valid g2"
      "\<forall>j. visible j \<longrightarrow> look g2 j =
        (if \<exists>dx<w. c m dx \<and> key m dx = j then ink j (look g1 j) else look g1 j)" by blast
    have "look g2 j = (if \<exists>dy<Suc m. \<exists>dx<w. c dy dx \<and> key dy dx = j then ink j (look g j) else look g j)"
      if v: "visible j" for j
    proof (cases "\<exists>dx<w. c m dx \<and> key m dx = j")
      case True
      then obtain dx where dx: "dx < w" "key m dx = j" by blast
      have "(\<forall>k x. ink k (ink k x) = ink k x) \<or> \<not> (\<exists>dy<m. \<exists>dx<w. c dy dx \<and> key dy dx = j)"
      proof (cases "\<forall>k x. ink k (ink k x) = ink k x")
        case False
        with once m dx show ?thesis by (metis add_0 less_trans nat_neq_iff)
      qed blast
      with True g2(3) P v show ?thesis by (auto simp: less_Suc_eq)
    next
      case False
      with g2(3) P v show ?thesis by (auto simp: less_Suc_eq)
    qed
    with g2 show "\<exists>s'. ?row m g1 = Some s' \<and> ?P (Suc m) s'" by blast
  qed
  then show ?thesis by simp
qed

end

end
