(* ===== verification/Gop.thy ===== *)
theory Gop
  imports Bytes Canvas
begin

text \<open>
  \<open>kernel/src/gop.rs\<close>: the framebuffer writer. The framebuffer is a byte list with the geometry
  the bootloader reports; the 8x8 font is a third-party table and a parameter, from a code point
  to the eight rows of its glyph. Pixels are read back by \<open>pixel_at\<close>; the properties say which
  pixels the drawing operations change, and that none of them panics on a framebuffer whose
  geometry is consistent (\<open>fb_ok\<close>).
\<close>

subsection \<open>State\<close>

datatype pixel_format = Rgb | Bgr | U8 | OtherFormat

record frame_buffer_info =
  fb_width :: nat
  fb_height :: nat
  fb_stride :: nat
  bytes_per_pixel :: nat
  pixel_format :: pixel_format

type_synonym color = "u8 \<times> u8 \<times> u8"

record writer =
  fb :: bytes
  info :: frame_buffer_info
  x_pos :: nat
  y_pos :: nat
  text_color :: color
  bg_color :: color

type_synonym font = "nat \<Rightarrow> bytes option"

subsection \<open>Pixels\<close>

definition grey :: "u8 \<Rightarrow> u8 \<Rightarrow> u8 \<Rightarrow> u8" where
  "grey r g b = word_of_nat ((unat r + unat g + unat b) div 3)"

text \<open>The bytes of a pixel in each format; formats the code does not know are left alone.\<close>

definition encode_pixel :: "pixel_format \<Rightarrow> color \<Rightarrow> bytes" where
  "encode_pixel f c = (case c of (r, g, b) \<Rightarrow>
     (case f of
        Rgb \<Rightarrow> [r, g, b]
      | Bgr \<Rightarrow> [b, g, r]
      | U8 \<Rightarrow> [grey r g b]
      | OtherFormat \<Rightarrow> []))"

text \<open>The assignments \<open>buffer[off] = \<dots>; buffer[off + 1] = \<dots>\<close>, each with its bounds check.\<close>

fun put_bytes :: "nat \<Rightarrow> bytes \<Rightarrow> bytes \<Rightarrow> bytes option" where
  "put_bytes off [] buf = Some buf"
| "put_bytes off (b # bs) buf =
     do { buf \<leftarrow> upd buf off b; put_bytes (off + 1) bs buf }"

definition write_pixel :: "nat \<Rightarrow> nat \<Rightarrow> color \<Rightarrow> writer \<Rightarrow> writer option" where
  "write_pixel x y c g =
     (if fb_width (info g) \<le> x \<or> fb_height (info g) \<le> y then Some g
      else do {
        a \<leftarrow> umul y (fb_stride (info g));
        b \<leftarrow> uadd a x;
        pixel_offset \<leftarrow> umul b (bytes_per_pixel (info g));
        buf \<leftarrow> put_bytes pixel_offset (encode_pixel (pixel_format (info g)) c) (fb g);
        Some (g\<lparr>fb := buf\<rparr>)
      })"

subsection \<open>Rectangles and the screen\<close>

definition draw_rect :: "nat \<Rightarrow> nat \<Rightarrow> nat \<Rightarrow> nat \<Rightarrow> color \<Rightarrow> writer \<Rightarrow> writer option" where
  "draw_rect x y w h c =
     for_from 0 h (\<lambda>dy. for_from 0 w (\<lambda>dx g.
       do { px \<leftarrow> uadd x dx; py \<leftarrow> uadd y dy; write_pixel px py c g }))"

definition clear_pixels :: "writer \<Rightarrow> writer option" where
  "clear_pixels g =
     for_from 0 (fb_height (info g)) (\<lambda>y. for_from 0 (fb_width (info g)) (\<lambda>x.
       write_pixel x y (bg_color g))) g"

definition clear :: "writer \<Rightarrow> writer option" where
  "clear g = do { g \<leftarrow> clear_pixels g; Some (g\<lparr>x_pos := 10, y_pos := 10\<rparr>) }"

definition writer_new :: "bytes \<Rightarrow> frame_buffer_info \<Rightarrow> writer option" where
  "writer_new buffer i =
     clear \<lparr>fb = buffer, info = i, x_pos = 10, y_pos = 10, text_color = (255, 255, 255),
       bg_color = (20, 20, 40)\<rparr>"

definition set_colors :: "color \<Rightarrow> color \<Rightarrow> writer \<Rightarrow> writer" where
  "set_colors txt bg g = g\<lparr>text_color := txt, bg_color := bg\<rparr>"

subsection \<open>Text\<close>

definition newline :: "writer \<Rightarrow> writer option" where
  "newline g = do { y \<leftarrow> uadd (y_pos g) 12; Some (g\<lparr>x_pos := 10, y_pos := y\<rparr>) }"

text \<open>An 8x8 cell at the cursor, each pixel with the colour \<open>col row column\<close>.\<close>

definition draw_cell :: "(nat \<Rightarrow> nat \<Rightarrow> color) \<Rightarrow> nat \<Rightarrow> writer \<Rightarrow> writer option" where
  "draw_cell col rows g =
     for_from 0 rows (\<lambda>row. for_from 0 8 (\<lambda>c g.
       do {
         px \<leftarrow> uadd (x_pos g) c;
         py \<leftarrow> uadd (y_pos g) row;
         write_pixel px py (col row c) g
       })) g"

definition glyph_color :: "bytes \<Rightarrow> color \<Rightarrow> color \<Rightarrow> nat \<Rightarrow> nat \<Rightarrow> color" where
  "glyph_color rows txt bg row c = (if (rows ! row) AND push_bit c 1 \<noteq> 0 then txt else bg)"

definition write_printable :: "font \<Rightarrow> nat \<Rightarrow> writer \<Rightarrow> writer option" where
  "write_printable font ch g =
     do {
       right \<leftarrow> uadd (x_pos g) 8;
       g \<leftarrow> (if fb_width (info g) \<le> right then newline g else Some g);
       bottom \<leftarrow> uadd (y_pos g) 16;
       g \<leftarrow> (if fb_height (info g) \<le> bottom then clear g else Some g);
       g \<leftarrow> (case font ch of
               Some rows \<Rightarrow>
                 draw_cell (glyph_color rows (text_color g) (bg_color g)) (length rows) g
             | None \<Rightarrow> draw_cell (\<lambda>_ _. text_color g) 8 g);
       x \<leftarrow> uadd (x_pos g) 8;
       Some (g\<lparr>x_pos := x\<rparr>)
     }"

definition write_char :: "font \<Rightarrow> nat \<Rightarrow> writer \<Rightarrow> writer option" where
  "write_char font ch g =
     (if ch = 0x0A then newline g
      else if ch = 0x0D then Some (g\<lparr>x_pos := 10\<rparr>)
      else if ch = 0x08 then
        (if 10 < x_pos g
         then do {
           x \<leftarrow> usub (x_pos g) 8;
           draw_cell (\<lambda>_ _. bg_color g) 8 (g\<lparr>x_pos := x\<rparr>)
         }
         else Some g)
      else if ch = 0x0C then clear g
      else write_printable font ch g)"

text \<open>A string literal as the code points \<open>chars()\<close> yields.\<close>

definition text_chars :: "string \<Rightarrow> nat list" where
  "text_chars s = map of_char s"

lemma length_text_chars [simp]: "length (text_chars s) = length s"
  by (simp add: text_chars_def)

text \<open>\<open>write_str\<close>, over the code points of the text.\<close>

fun write_str :: "font \<Rightarrow> nat list \<Rightarrow> writer \<Rightarrow> writer option" where
  "write_str font [] g = Some g"
| "write_str font (c # cs) g = do { g \<leftarrow> write_char font c g; write_str font cs g }"

text \<open>\<open>_print\<close> and \<open>get_info\<close> on the global \<open>WRITER\<close>, which is \<open>None\<close> without a framebuffer.\<close>

definition print_text :: "font \<Rightarrow> nat list \<Rightarrow> writer option \<Rightarrow> writer option option" where
  "print_text font cs w =
     (case w of
        None \<Rightarrow> Some None
      | Some g \<Rightarrow> map_option Some (write_str font cs g))"

definition get_info :: "writer option \<Rightarrow> frame_buffer_info option" where
  "get_info w = map_option info w"

subsection \<open>Blitting\<close>

definition unpack :: "u32 \<Rightarrow> color" where
  "unpack p = (ucast (drop_bit 16 p AND 0xFF), ucast (drop_bit 8 p AND 0xFF), ucast (p AND 0xFF))"

text \<open>The guarded assignments of one pixel: \<open>offset + 2 < len\<close>, or \<open>offset < len\<close> for \<open>U8\<close>.\<close>

definition blit_pixel :: "nat \<Rightarrow> u32 \<Rightarrow> writer \<Rightarrow> writer option" where
  "blit_pixel offset p g =
     (let bs = encode_pixel (pixel_format (info g)) (unpack p) in
      do {
        last \<leftarrow> uadd offset (length bs - 1);
        if last < length (fb g)
        then do { buf \<leftarrow> put_bytes offset bs (fb g); Some (g\<lparr>fb := buf\<rparr>) }
        else Some g
      })"

definition blit_rows ::
  "u32 list \<Rightarrow> nat \<Rightarrow> nat \<Rightarrow> nat \<Rightarrow> nat \<Rightarrow> nat \<Rightarrow> writer \<Rightarrow> writer option" where
  "blit_rows source src_stride x y w h g =
     for_from 0 h (\<lambda>dy g.
       do {
         dest_y \<leftarrow> uadd y dy;
         a \<leftarrow> umul dest_y (fb_stride (info g));
         b \<leftarrow> uadd a x;
         dest_row_offset \<leftarrow> umul b (bytes_per_pixel (info g));
         c \<leftarrow> umul dest_y src_stride;
         src_row_offset \<leftarrow> uadd c x;
         for_from 0 w (\<lambda>dx g.
           do {
             s \<leftarrow> uadd src_row_offset dx;
             pixel \<leftarrow> idx source s;
             d \<leftarrow> umul dx (bytes_per_pixel (info g));
             offset \<leftarrow> uadd dest_row_offset d;
             blit_pixel offset pixel g
           }) g
       }) g"

definition blit_rect ::
  "u32 list \<Rightarrow> nat \<Rightarrow> nat \<Rightarrow> nat \<Rightarrow> nat \<Rightarrow> nat \<Rightarrow> writer \<Rightarrow> writer option" where
  "blit_rect source src_stride x y w h g =
     (if fb_width (info g) \<le> x \<or> fb_height (info g) \<le> y then Some g
      else blit_rows source src_stride x y
        (min w (fb_width (info g) - x)) (min h (fb_height (info g) - y)) g)"

definition blit_buffer_rect ::
  "u32 list \<Rightarrow> nat \<Rightarrow> nat \<Rightarrow> nat \<Rightarrow> nat \<Rightarrow> nat \<Rightarrow> writer option \<Rightarrow> writer option option" where
  "blit_buffer_rect source src_stride x y w h wr =
     (case wr of
        None \<Rightarrow> Some None
      | Some g \<Rightarrow> map_option Some (blit_rect source src_stride x y w h g))"

subsection \<open>Reading pixels back\<close>

definition pixel_offset :: "frame_buffer_info \<Rightarrow> nat \<Rightarrow> nat \<Rightarrow> nat" where
  "pixel_offset i x y = (y * fb_stride i + x) * bytes_per_pixel i"

definition pixel_len :: "pixel_format \<Rightarrow> nat" where
  "pixel_len f = (case f of Rgb \<Rightarrow> 3 | Bgr \<Rightarrow> 3 | U8 \<Rightarrow> 1 | OtherFormat \<Rightarrow> 0)"

definition pixel_at :: "writer \<Rightarrow> nat \<Rightarrow> nat \<Rightarrow> bytes" where
  "pixel_at g x y = slice (fb g) (pixel_offset (info g) x y) (pixel_len (pixel_format (info g)))"

definition on_screen :: "frame_buffer_info \<Rightarrow> nat \<Rightarrow> nat \<Rightarrow> bool" where
  "on_screen i x y \<longleftrightarrow> x < fb_width i \<and> y < fb_height i"

text \<open>The geometry the bootloader reports: rows fit their stride, and the buffer holds them all.\<close>

definition fb_ok :: "writer \<Rightarrow> bool" where
  "fb_ok g \<longleftrightarrow> fb_width (info g) \<le> fb_stride (info g) \<and>
     pixel_len (pixel_format (info g)) \<le> bytes_per_pixel (info g) \<and> 0 < bytes_per_pixel (info g) \<and>
     fb_height (info g) * fb_stride (info g) * bytes_per_pixel (info g) \<le> length (fb g) \<and>
     length (fb g) < usize_bound"

text \<open>Everything but the framebuffer's bytes is as in \<open>g0\<close>.\<close>

definition same_but_fb :: "writer \<Rightarrow> writer \<Rightarrow> bool" where
  "same_but_fb g0 g \<longleftrightarrow> g0\<lparr>fb := []\<rparr> = g\<lparr>fb := []\<rparr>"

lemma same_but_fb_refl [simp]: "same_but_fb g g"
  by (simp add: same_but_fb_def)

lemma same_but_fb_trans: "same_but_fb f g \<Longrightarrow> same_but_fb g h \<Longrightarrow> same_but_fb f h"
  by (simp add: same_but_fb_def)

lemma same_but_fb_fields:
  "same_but_fb g0 g \<Longrightarrow> info g = info g0 \<and> x_pos g = x_pos g0 \<and> y_pos g = y_pos g0 \<and>
     text_color g = text_color g0 \<and> bg_color g = bg_color g0"
  by (cases g0; cases g) (auto simp: same_but_fb_def)

lemma length_encode_pixel [simp]: "length (encode_pixel f c) = pixel_len f"
  by (auto simp: encode_pixel_def pixel_len_def split: prod.splits pixel_format.splits)

lemma put_bytes_overwrite:
  "off + length bs \<le> length buf \<Longrightarrow> off + length bs < usize_bound \<Longrightarrow>
     put_bytes off bs buf = Some (overwrite buf off bs)"
proof (induction bs arbitrary: off buf)
  case (Cons b bs)
  have "overwrite (buf[off := b]) (Suc off) bs = overwrite buf off (b # bs)"
  proof (rule nth_equalityI)
    show "length (overwrite (buf[off := b]) (Suc off) bs) = length (overwrite buf off (b # bs))"
      using Cons.prems by simp
  next
    fix i assume "i < length (overwrite (buf[off := b]) (Suc off) bs)"
    with Cons.prems show "overwrite (buf[off := b]) (Suc off) bs ! i = overwrite buf off (b # bs) ! i"
      by (auto simp: nth_overwrite nth_list_update nth_Cons')
  qed
  with Cons show ?case by (simp add: checked)
qed simp

lemma pixel_index_less:
  fixes x y w h s :: nat
  assumes "x < w" and "y < h" and "w \<le> s"
  shows "y * s + x + 1 \<le> h * s"
proof -
  have "y * s + x + 1 \<le> (y + 1) * s" using assms by simp
  also have "\<dots> \<le> h * s" using assms(2) by (intro mult_right_mono) auto
  finally show ?thesis .
qed

lemma pixel_fits:
  assumes "fb_ok g" and "on_screen (info g) x y"
  shows "pixel_offset (info g) x y + bytes_per_pixel (info g) \<le> length (fb g)"
    and "y * fb_stride (info g) + x < usize_bound"
    and "y * fb_stride (info g) < usize_bound"
    and "pixel_offset (info g) x y < usize_bound"
proof -
  let ?i = "info g"
  have le: "y * fb_stride ?i + x + 1 \<le> fb_height ?i * fb_stride ?i"
    using assms by (intro pixel_index_less[of x "fb_width ?i"]) (auto simp: fb_ok_def on_screen_def)
  have "pixel_offset ?i x y + bytes_per_pixel ?i = (y * fb_stride ?i + x + 1) * bytes_per_pixel ?i"
    by (simp add: pixel_offset_def algebra_simps)
  also have "\<dots> \<le> fb_height ?i * fb_stride ?i * bytes_per_pixel ?i"
    using le by (intro mult_right_mono) auto
  finally show off: "pixel_offset ?i x y + bytes_per_pixel ?i \<le> length (fb g)"
    using assms(1) by (simp add: fb_ok_def)
  with assms(1) show "pixel_offset ?i x y < usize_bound" by (simp add: fb_ok_def)
  have "(y * fb_stride ?i + x) * 1 \<le> pixel_offset ?i x y"
    unfolding pixel_offset_def using assms(1) by (intro mult_left_mono) (auto simp: fb_ok_def)
  with off assms(1) show "y * fb_stride ?i + x < usize_bound" "y * fb_stride ?i < usize_bound"
    by (auto simp: fb_ok_def)
qed

lemma write_pixel_on:
  assumes "fb_ok g" and "on_screen (info g) x y"
  shows "write_pixel x y c g = Some (g\<lparr>fb := overwrite (fb g) (pixel_offset (info g) x y)
    (encode_pixel (pixel_format (info g)) c)\<rparr>)"
proof -
  note pf = pixel_fits[OF assms]
  have "pixel_offset (info g) x y + pixel_len (pixel_format (info g)) \<le> length (fb g)"
    using pf(1) assms(1) by (simp add: fb_ok_def)
  with pf assms show ?thesis
    using put_bytes_overwrite[of "pixel_offset (info g) x y" "encode_pixel (pixel_format (info g)) c" "fb g"]
    by (simp add: write_pixel_def on_screen_def checked pixel_offset_def fb_ok_def)
qed

lemma write_pixel_off: "\<not> on_screen (info g) x y \<Longrightarrow> write_pixel x y c g = Some g"
  by (auto simp: write_pixel_def on_screen_def)

text \<open>Different pixels occupy different bytes.\<close>

lemma pixel_apart:
  assumes "fb_ok g" and "on_screen (info g) x y" and "on_screen (info g) x' y'" and "(x, y) \<noteq> (x', y')"
  shows "pixel_offset (info g) x y + bytes_per_pixel (info g) \<le> pixel_offset (info g) x' y' \<or>
    pixel_offset (info g) x' y' + bytes_per_pixel (info g) \<le> pixel_offset (info g) x y"
proof -
  let ?s = "fb_stride (info g)" and ?b = "bytes_per_pixel (info g)"
  have x: "x < ?s" "x' < ?s" using assms by (auto simp: fb_ok_def on_screen_def)
  have "y * ?s + x \<noteq> y' * ?s + x'"
  proof
    assume eq: "y * ?s + x = y' * ?s + x'"
    then have "(y * ?s + x) div ?s = (y' * ?s + x') div ?s" "(y * ?s + x) mod ?s = (y' * ?s + x') mod ?s"
      by simp_all
    with x assms(4) show False by simp
  qed
  then consider "y * ?s + x + 1 \<le> y' * ?s + x'" | "y' * ?s + x' + 1 \<le> y * ?s + x" by linarith
  then show ?thesis
  proof cases
    case 1
    from mult_right_mono[OF 1, of ?b] show ?thesis by (simp add: pixel_offset_def algebra_simps)
  next
    case 2
    from mult_right_mono[OF 2, of ?b] show ?thesis by (simp add: pixel_offset_def algebra_simps)
  qed
qed

text \<open>Writing a pixel writes that pixel and no other.\<close>

lemma write_pixel_spec:
  assumes "fb_ok g"
  shows "\<exists>g'. write_pixel x y c g = Some g' \<and> fb_ok g' \<and> same_but_fb g g' \<and>
    (\<forall>x' y'. on_screen (info g) x' y' \<longrightarrow> pixel_at g' x' y' =
       (if (x', y') = (x, y) then encode_pixel (pixel_format (info g)) c else pixel_at g x' y'))"
proof (cases "on_screen (info g) x y")
  case False
  with assms show ?thesis by (auto simp: write_pixel_off)
next
  case True
  let ?bs = "encode_pixel (pixel_format (info g)) c" and ?o = "pixel_offset (info g) x y"
  let ?g = "g\<lparr>fb := overwrite (fb g) ?o ?bs\<rparr>"
  have fits: "?o + length ?bs \<le> length (fb g)"
    using pixel_fits(1)[OF assms True] assms by (simp add: fb_ok_def)
  have "pixel_at ?g x' y' = (if (x', y') = (x, y) then ?bs else pixel_at g x' y')"
    if on: "on_screen (info g) x' y'" for x' y'
  proof (cases "(x', y') = (x, y)")
    case True
    with slice_overwrite_same[OF fits] show ?thesis by (simp add: pixel_at_def)
  next
    case False
    from pixel_apart[OF assms True on] False assms
    have "pixel_offset (info g) x' y' + pixel_len (pixel_format (info g)) \<le> ?o \<or>
        ?o + length ?bs \<le> pixel_offset (info g) x' y'"
      by (auto simp: fb_ok_def)
    from slice_overwrite_other[OF fits this] False show ?thesis by (auto simp: pixel_at_def)
  qed
  moreover have "fb_ok ?g" using assms fits by (simp add: fb_ok_def)
  ultimately show ?thesis using write_pixel_on[OF assms True] by (auto simp: same_but_fb_def)
qed

subsection \<open>The writer as a canvas\<close>

text \<open>
  Cells are pixel positions; each may have a colour of its own. The geometry and all but the
  bytes stay those of \<open>g0\<close>.
\<close>

interpretation screen: plotter "\<lambda>k. write_pixel (fst k) (snd k) (col k)"
  "\<lambda>g k. pixel_at g (fst k) (snd k)" "\<lambda>k _. encode_pixel (pixel_format (info g0)) (col k)"
  "\<lambda>g. fb_ok g \<and> same_but_fb g0 g" "\<lambda>k. on_screen (info g0) (fst k) (snd k)" for g0 col
proof unfold_locales
  fix g and k :: "nat \<times> nat"
  assume g: "fb_ok g \<and> same_but_fb g0 g"
  then have i: "info g = info g0" using same_but_fb_fields by blast
  from g write_pixel_spec[of g "fst k" "snd k" "col k"] obtain g' where
    g': "write_pixel (fst k) (snd k) (col k) g = Some g'" "fb_ok g'" "same_but_fb g g'"
    "\<forall>x' y'. on_screen (info g0) x' y' \<longrightarrow> pixel_at g' x' y' =
       (if (x', y') = k then encode_pixel (pixel_format (info g0)) (col k) else pixel_at g x' y')"
    by (auto simp: i)
  with g show "\<exists>g'. write_pixel (fst k) (snd k) (col k) g = Some g' \<and>
      (fb_ok g' \<and> same_but_fb g0 g') \<and>
      (\<forall>j. on_screen (info g0) (fst j) (snd j) \<longrightarrow> pixel_at g' (fst j) (snd j) =
        (if j = k then encode_pixel (pixel_format (info g0)) (col j) else pixel_at g (fst j) (snd j)))"
    by (auto intro: same_but_fb_trans)
qed

text \<open>A block of pixels, each with its own colour: what every drawing loop below comes to.\<close>

lemma draw_block:
  assumes "fb_ok g"
  shows "\<exists>g'. for_from 0 h (\<lambda>dy. for_from 0 w (\<lambda>dx. write_pixel (x + dx) (y + dy) (col dy dx))) g =
      Some g' \<and> fb_ok g' \<and> same_but_fb g g' \<and>
    (\<forall>px py. on_screen (info g) px py \<longrightarrow> pixel_at g' px py =
       (if x \<le> px \<and> px < x + w \<and> y \<le> py \<and> py < y + h
        then encode_pixel (pixel_format (info g)) (col (py - y) (px - x)) else pixel_at g px py))"
proof -
  let ?col = "\<lambda>k :: nat \<times> nat. col (snd k - y) (fst k - x)"
  have "for_from 0 h (\<lambda>dy. for_from 0 w (\<lambda>dx g. if True then write_pixel (fst (x + dx, y + dy))
      (snd (x + dx, y + dy)) (?col (x + dx, y + dy)) g else Some g)) g =
    for_from 0 h (\<lambda>dy. for_from 0 w (\<lambda>dx. write_pixel (x + dx) (y + dy) (col dy dx))) g"
    by simp
  moreover have "(\<exists>dy<h. \<exists>dx<w. True \<and> (x + dx, y + dy) = (px, py)) \<longleftrightarrow>
      x \<le> px \<and> px < x + w \<and> y \<le> py \<and> py < y + h" for px py
  proof
    assume "x \<le> px \<and> px < x + w \<and> y \<le> py \<and> py < y + h"
    then have "py - y < h" "px - x < w" "(x + (px - x), y + (py - y)) = (px, py)" by auto
    then show "\<exists>dy<h. \<exists>dx<w. True \<and> (x + dx, y + dy) = (px, py)" by blast
  qed auto
  ultimately show ?thesis
    using screen.plot_rows[where ?g0.0 = g and g = g and col = ?col and h = h and w = w
        and key = "\<lambda>dy dx. (x + dx, y + dy)" and c = "\<lambda>_ _. True"] assms
    by auto
qed

lemma draw_rect_block:
  assumes "x + w < usize_bound" and "y + h < usize_bound"
  shows "draw_rect x y w h c g =
    for_from 0 h (\<lambda>dy. for_from 0 w (\<lambda>dx. write_pixel (x + dx) (y + dy) c)) g"
proof -
  have row: "for_from 0 w (\<lambda>dx g. do { px \<leftarrow> uadd x dx; py \<leftarrow> uadd y dy; write_pixel px py c g }) =
      for_from 0 w (\<lambda>dx. write_pixel (x + dx) (y + dy) c)" if "dy < h" for dy
    by (rule ext, rule for_from_cong) (use assms that in \<open>simp add: uadd_ok\<close>)
  show ?thesis unfolding draw_rect_def by (rule for_from_cong) (simp add: row)
qed

lemma draw_rect_spec:
  assumes "fb_ok g" and "x + w < usize_bound" and "y + h < usize_bound"
  shows "\<exists>g'. draw_rect x y w h c g = Some g' \<and> fb_ok g' \<and> same_but_fb g g' \<and>
    (\<forall>px py. on_screen (info g) px py \<longrightarrow> pixel_at g' px py =
       (if x \<le> px \<and> px < x + w \<and> y \<le> py \<and> py < y + h
        then encode_pixel (pixel_format (info g)) c else pixel_at g px py))"
  unfolding draw_rect_block[OF assms(2,3)]
  using draw_block[OF assms(1), of h w x y "\<lambda>_ _. c"] by simp

lemma clear_spec:
  assumes "fb_ok g"
  shows "\<exists>g'. clear g = Some g' \<and> fb_ok g' \<and> info g' = info g \<and> x_pos g' = 10 \<and> y_pos g' = 10 \<and>
    text_color g' = text_color g \<and> bg_color g' = bg_color g \<and>
    (\<forall>px py. on_screen (info g) px py \<longrightarrow>
       pixel_at g' px py = encode_pixel (pixel_format (info g)) (bg_color g))"
proof -
  let ?w = "fb_width (info g)" and ?h = "fb_height (info g)"
  obtain g' where g': "clear_pixels g = Some g'" "fb_ok g'" "same_but_fb g g'"
    "\<forall>px py. on_screen (info g) px py \<longrightarrow>
       pixel_at g' px py = encode_pixel (pixel_format (info g)) (bg_color g)"
    using draw_block[OF assms, of ?h ?w 0 0 "\<lambda>_ _. bg_color g"]
    by (auto simp: clear_pixels_def on_screen_def)
  have "pixel_at (g'\<lparr>x_pos := 10, y_pos := 10\<rparr>) px py = pixel_at g' px py" for px py
    by (simp add: pixel_at_def)
  with g' same_but_fb_fields[OF g'(3)] show ?thesis by (simp add: clear_def fb_ok_def)
qed

lemma write_pixel_keeps: "write_pixel x y c g = Some g' \<Longrightarrow> same_but_fb g g'"
  by (auto simp: write_pixel_def same_but_fb_def split: if_splits bind_splits)

lemma write_row_keeps:
  assumes "for_from 0 w (\<lambda>dx. write_pixel (p dx) q (col dx)) g = Some g'"
  shows "same_but_fb g g'"
  by (rule for_from_keeps[OF assms]) (auto intro: write_pixel_keeps same_but_fb_trans)

lemma draw_cell_block:
  assumes "x_pos g + 8 < usize_bound" and "y_pos g + rows < usize_bound"
  shows "draw_cell col rows g = for_from 0 rows (\<lambda>row. for_from 0 8 (\<lambda>c.
    write_pixel (x_pos g + c) (y_pos g + row) (col row c))) g"
  unfolding draw_cell_def
proof (rule for_from_cong_inv[where P = "same_but_fb g"])
  fix row s assume row: "row < 0 + rows" and s: "same_but_fb g s"
  show "for_from 0 8 (\<lambda>c g. do { px \<leftarrow> uadd (x_pos g) c; py \<leftarrow> uadd (y_pos g) row;
        write_pixel px py (col row c) g }) s =
      for_from 0 8 (\<lambda>c. write_pixel (x_pos g + c) (y_pos g + row) (col row c)) s"
  proof (rule for_from_cong_inv[where P = "same_but_fb g"])
    fix c t assume c: "c < 0 + (8 :: nat)" and t: "same_but_fb g t"
    with same_but_fb_fields[OF t] assms row
    show "do { px \<leftarrow> uadd (x_pos t) c; py \<leftarrow> uadd (y_pos t) row; write_pixel px py (col row c) t } =
        write_pixel (x_pos g + c) (y_pos g + row) (col row c) t"
      by (simp add: uadd_ok)
  qed (use s in \<open>auto intro: write_pixel_keeps same_but_fb_trans\<close>)
qed (auto intro: write_row_keeps same_but_fb_trans)

lemma draw_cell_spec:
  assumes "fb_ok g" and "x_pos g + 8 < usize_bound" and "y_pos g + rows < usize_bound"
  shows "\<exists>g'. draw_cell col rows g = Some g' \<and> fb_ok g' \<and> same_but_fb g g' \<and>
    (\<forall>px py. on_screen (info g) px py \<longrightarrow> pixel_at g' px py =
       (if x_pos g \<le> px \<and> px < x_pos g + 8 \<and> y_pos g \<le> py \<and> py < y_pos g + rows
        then encode_pixel (pixel_format (info g)) (col (py - y_pos g) (px - x_pos g))
        else pixel_at g px py))"
  unfolding draw_cell_block[OF assms(2,3)] by (rule draw_block[OF assms(1)])

subsection \<open>The cursor\<close>

text \<open>
  The cursor stands on the grid of eight-pixel columns from ten, never right of the first
  column that does not fit.
\<close>

definition cursor_ok :: "writer \<Rightarrow> bool" where
  "cursor_ok g \<longleftrightarrow> 10 \<le> x_pos g \<and> (x_pos g - 10) mod 8 = 0 \<and> x_pos g \<le> max (fb_width (info g)) 18"

definition text_ok :: "writer \<Rightarrow> bool" where
  "text_ok g \<longleftrightarrow> fb_ok g \<and> cursor_ok g \<and> fb_width (info g) + 64 < usize_bound \<and>
     fb_height (info g) + 64 < usize_bound"

definition font_ok :: "font \<Rightarrow> bool" where
  "font_ok font \<longleftrightarrow> (\<forall>c rows. font c = Some rows \<longrightarrow> length rows = 8)"

lemma newline_ok:
  "y_pos g + 12 < usize_bound \<Longrightarrow> newline g = Some (g\<lparr>x_pos := 10, y_pos := y_pos g + 12\<rparr>)"
  by (simp add: newline_def checked)

lemma fb_ok_cursor [simp]: "fb_ok (g\<lparr>x_pos := x, y_pos := y\<rparr>) = fb_ok g" "fb_ok (g\<lparr>x_pos := x\<rparr>) = fb_ok g"
  by (simp_all add: fb_ok_def)

lemma write_printable_ok:
  assumes "text_ok g" and "font_ok font" and "y_pos g + 64 < usize_bound"
  shows "\<exists>g'. write_printable font c g = Some g' \<and> text_ok g' \<and> y_pos g' \<le> max (y_pos g + 12) 10 \<and>
    info g' = info g"
proof -
  note ok = assms(1)[unfolded text_ok_def cursor_ok_def]
  have x: "x_pos g + 64 < usize_bound" using ok by (auto simp: usize_bound_def)
  define g1 where "g1 = (if fb_width (info g) \<le> x_pos g + 8
    then g\<lparr>x_pos := 10, y_pos := y_pos g + 12\<rparr> else g)"
  have g1: "fb_ok g1" "info g1 = info g" "10 \<le> x_pos g1" "(x_pos g1 - 10) mod 8 = 0"
    "x_pos g1 + 8 \<le> max (fb_width (info g)) 18" "y_pos g1 \<le> y_pos g + 12"
    using ok by (auto simp: g1_def)
  obtain g2 where g2: "(if fb_height (info g1) \<le> y_pos g1 + 16 then clear g1 else Some g1) = Some g2"
    "fb_ok g2" "info g2 = info g" "10 \<le> x_pos g2" "(x_pos g2 - 10) mod 8 = 0"
    "x_pos g2 + 8 \<le> max (fb_width (info g)) 18" "y_pos g2 \<le> max (y_pos g + 12) 10"
    using clear_spec[OF g1(1)] g1 by (cases "fb_height (info g1) \<le> y_pos g1 + 16") auto
  have b: "x_pos g2 + 8 < usize_bound" "y_pos g2 + 8 < usize_bound"
    using g2 ok assms(3) by (auto simp: usize_bound_def)
  obtain g3 where g3: "(case font c of
      Some rows \<Rightarrow> draw_cell (glyph_color rows (text_color g2) (bg_color g2)) (length rows) g2
    | None \<Rightarrow> draw_cell (\<lambda>_ _. text_color g2) 8 g2) = Some g3" "fb_ok g3" "same_but_fb g2 g3"
    using draw_cell_spec[OF g2(2) b] assms(2) by (fastforce simp: font_ok_def split: option.splits)
  have s1: "(if fb_width (info g) \<le> x_pos g + 8 then newline g else Some g) = Some g1"
    using newline_ok[of g] assms(3) by (simp add: g1_def)
  have u: "uadd (x_pos g) 8 = Some (x_pos g + 8)" "uadd (y_pos g1) 16 = Some (y_pos g1 + 16)"
    "uadd (x_pos g3) 8 = Some (x_pos g3 + 8)"
    using x g1(6) assms(3) b(1) same_but_fb_fields[OF g3(3)] by (simp_all add: uadd_def)
  have "write_printable font c g = Some (g3\<lparr>x_pos := x_pos g3 + 8\<rparr>)"
    unfolding write_printable_def by (simp only: u s1 g2(1) g3(1) bind.bind_lunit)
  moreover have "(x_pos g2 + 8 - 10) mod 8 = 0" using g2(4,5) by presburger
  ultimately show ?thesis
    using g2 g3(2) ok same_but_fb_fields[OF g3(3)] by (auto simp: text_ok_def cursor_ok_def)
qed

lemma write_char_ok:
  assumes "text_ok g" and "font_ok font" and "y_pos g + 64 < usize_bound"
  shows "\<exists>g'. write_char font c g = Some g' \<and> text_ok g' \<and> y_pos g' \<le> max (y_pos g + 12) 10 \<and>
    info g' = info g"
proof -
  note ok = assms(1)[unfolded text_ok_def cursor_ok_def]
  consider "c = 0x0A" | "c = 0x0D" | "c = 0x08" | "c = 0x0C"
    | "c \<noteq> 0x0A \<and> c \<noteq> 0x0D \<and> c \<noteq> 0x08 \<and> c \<noteq> 0x0C" by blast
  then show ?thesis
  proof cases
    case 1
    with newline_ok[of g] assms(3) ok show ?thesis by (simp add: write_char_def text_ok_def cursor_ok_def)
  next
    case 2
    with ok show ?thesis by (simp add: write_char_def text_ok_def cursor_ok_def)
  next
    case 3
    show ?thesis
    proof (cases "10 < x_pos g")
      case False
      with 3 assms(1) show ?thesis by (simp add: write_char_def)
    next
      case True
      have h: "10 \<le> x_pos g" "(x_pos g - 10) mod 8 = 0" using ok by auto
      from h True have "18 \<le> x_pos g" by presburger
      moreover from h True have "(x_pos g - 8 - 10) mod 8 = 0" by presburger
      ultimately have p: "18 \<le> x_pos g" "(x_pos g - 8 - 10) mod 8 = 0" .
      let ?g = "g\<lparr>x_pos := x_pos g - 8\<rparr>"
      have "x_pos ?g + 8 < usize_bound" "y_pos ?g + 8 < usize_bound" "fb_ok ?g"
        using ok assms(3) p by (auto simp: usize_bound_def)
      from draw_cell_spec[OF this(3,1,2), of "\<lambda>_ _. bg_color g"] obtain g' where g':
        "draw_cell (\<lambda>_ _. bg_color g) 8 ?g = Some g'" "fb_ok g'" "same_but_fb ?g g'" by blast
      with 3 True p ok same_but_fb_fields[OF g'(3)] show ?thesis
        by (auto simp: write_char_def usub_ok text_ok_def cursor_ok_def)
    qed
  next
    case 4
    obtain g' where "clear g = Some g'" "fb_ok g'" "info g' = info g" "x_pos g' = 10" "y_pos g' = 10"
      using clear_spec[of g] ok by blast
    with 4 ok show ?thesis by (simp add: write_char_def text_ok_def cursor_ok_def)
  next
    case 5
    with write_printable_ok[OF assms] show ?thesis by (simp add: write_char_def)
  qed
qed

lemma write_str_grows:
  assumes "text_ok g" and "font_ok font" and "max (y_pos g) 10 + 12 * length cs + 64 < usize_bound"
  shows "\<exists>g'. write_str font cs g = Some g' \<and> text_ok g' \<and>
    max (y_pos g') 10 \<le> max (y_pos g) 10 + 12 * length cs \<and> info g' = info g"
  using assms(1,3)
proof (induction cs arbitrary: g)
  case (Cons c cs)
  then have "y_pos g + 64 < usize_bound" by simp
  from write_char_ok[OF Cons.prems(1) assms(2) this, of c] obtain g1 where
    g1: "write_char font c g = Some g1" "text_ok g1" "y_pos g1 \<le> max (y_pos g + 12) 10" "info g1 = info g" by blast
  with Cons.prems(2) have "max (y_pos g1) 10 + 12 * length cs + 64 < usize_bound" by simp
  from Cons.IH[OF g1(2) this] g1(1,3,4) show ?case by fastforce
qed simp

lemma write_str_ok:
  assumes "text_ok g" and "font_ok font" and "y_pos g + 12 * length cs + 128 < usize_bound"
  shows "\<exists>g'. write_str font cs g = Some g' \<and> text_ok g'"
proof -
  have "max (y_pos g) 10 + 12 * length cs + 64 < usize_bound" using assms(3) by (simp add: usize_bound_def)
  from write_str_grows[OF assms(1,2) this] show ?thesis by blast
qed

subsection \<open>Blits copy pixels\<close>

lemma pixel_len_cases: "pixel_len f = 0 \<or> pixel_len f = 1 \<or> pixel_len f = 3"
  by (cases f) (simp_all add: pixel_len_def)

lemma blit_pixel_on:
  assumes "fb_ok g" and "on_screen (info g) x y" and "off = pixel_offset (info g) x y"
  shows "blit_pixel off p g = write_pixel x y (unpack p) g"
proof -
  let ?bs = "encode_pixel (pixel_format (info g)) (unpack p)"
  note pf = pixel_fits[OF assms(1,2)]
  have fits: "off + length ?bs \<le> length (fb g)" "0 < bytes_per_pixel (info g)"
    "length (fb g) < usize_bound"
    using pf(1) assms(1,3) by (auto simp: fb_ok_def)
  then have "off + (length ?bs - 1) < length (fb g)" using pf(1) assms(3) by linarith
  with fits have "uadd off (length ?bs - 1) = Some (off + (length ?bs - 1))"
    and lt: "off + (length ?bs - 1) < length (fb g)" by (auto simp: uadd_def)
  then show ?thesis
    using put_bytes_overwrite[OF fits(1)] fits write_pixel_on[OF assms(1,2), of "unpack p"] assms(3)
    by (simp add: blit_pixel_def Let_def)
qed

lemma write_pixel_fb_ok: "write_pixel x y c g = Some g' \<Longrightarrow> fb_ok g \<Longrightarrow> fb_ok g'"
  using write_pixel_spec[of g x y c] by auto

lemma write_row_fb_ok:
  assumes "for_from 0 w (\<lambda>dx. write_pixel (p dx) q (col dx)) g = Some g'" and "fb_ok g"
  shows "fb_ok g'"
  using assms(2) by (rule for_from_keeps[OF assms(1)]) (auto intro: write_pixel_fb_ok)

text \<open>
  The loops of a blit whose clipped rectangle is on screen and inside the source are pixel writes.
\<close>

lemma blit_rows_block:
  assumes ok: "fb_ok g" and w: "x + w \<le> src_stride"
    and src: "src_stride * (y + h) \<le> length source" "length source < usize_bound"
    and on: "\<And>dy. dy < h \<Longrightarrow> on_screen (info g) x (y + dy)"
      "\<And>dx dy. dx < w \<Longrightarrow> dy < h \<Longrightarrow> on_screen (info g) (x + dx) (y + dy)"
    and h: "y + h < usize_bound"
  shows "blit_rows source src_stride x y w h g =
    for_from 0 h (\<lambda>dy. for_from 0 w (\<lambda>dx. write_pixel (x + dx) (y + dy)
      (unpack (source ! ((y + dy) * src_stride + (x + dx)))))) g"
  unfolding blit_rows_def
proof (rule for_from_cong_inv[where P = "\<lambda>s. fb_ok s \<and> same_but_fb g s"])
  let ?i = "info g"
  fix dy s assume dy: "dy < 0 + h" and s: "fb_ok s \<and> same_but_fb g s"
  have i: "info s = ?i" using s same_but_fb_fields by blast
  have dy': "dy < h" using dy by simp
  note pf = pixel_fits[OF ok on(1)[OF dy']]
  have "(y + dy) * src_stride + src_stride \<le> (y + h) * src_stride"
    using mult_right_mono[of "y + dy + 1" "y + h" src_stride] dy' by simp
  then have sr: "(y + dy) * src_stride + x + w < usize_bound" "(y + dy) * src_stride + x + w \<le> length source"
    using src w by (simp_all add: mult.commute)
  let ?body = "\<lambda>off sro. for_from 0 w (\<lambda>dx g.
       do { s \<leftarrow> uadd sro dx; pixel \<leftarrow> idx source s; d \<leftarrow> umul dx (bytes_per_pixel (info g));
         offset \<leftarrow> uadd off d; blit_pixel offset pixel g }) s"
  have "?body (pixel_offset ?i x (y + dy)) ((y + dy) * src_stride + x) =
      for_from 0 w (\<lambda>dx. write_pixel (x + dx) (y + dy)
        (unpack (source ! ((y + dy) * src_stride + (x + dx))))) s"
  proof (rule for_from_cong_inv[where P = "\<lambda>s. fb_ok s \<and> same_but_fb g s"])
    fix dx t assume dx: "dx < 0 + w" and t: "fb_ok t \<and> same_but_fb g t"
    have it: "info t = ?i" using t same_but_fb_fields by blast
    have o: "on_screen (info t) (x + dx) (y + dy)" using on(2) dx dy' it by simp
    have eq: "pixel_offset ?i x (y + dy) + dx * bytes_per_pixel ?i = pixel_offset (info t) (x + dx) (y + dy)"
      by (simp add: pixel_offset_def it algebra_simps)
    have lt: "pixel_offset (info t) (x + dx) (y + dy) < usize_bound"
      using pixel_fits(4)[of t, OF _ o] t by simp
    then have "dx * bytes_per_pixel ?i < usize_bound" using eq by linarith
    with dx sr eq lt blit_pixel_on[of t, OF _ o eq] t
    show "do { s \<leftarrow> uadd ((y + dy) * src_stride + x) dx; pixel \<leftarrow> idx source s;
        d \<leftarrow> umul dx (bytes_per_pixel (info t));
        offset \<leftarrow> uadd (pixel_offset ?i x (y + dy)) d; blit_pixel offset pixel t } =
      write_pixel (x + dx) (y + dy) (unpack (source ! ((y + dy) * src_stride + (x + dx)))) t"
      by (simp add: checked it add.assoc)
  qed (use s in \<open>auto intro: write_pixel_fb_ok write_pixel_keeps same_but_fb_trans\<close>)
  with pf sr h dy' show "do { dest_y \<leftarrow> uadd y dy; a \<leftarrow> umul dest_y (fb_stride (info s));
         b \<leftarrow> uadd a x; dest_row_offset \<leftarrow> umul b (bytes_per_pixel (info s));
         c \<leftarrow> umul dest_y src_stride; src_row_offset \<leftarrow> uadd c x; ?body dest_row_offset src_row_offset } =
      for_from 0 w (\<lambda>dx. write_pixel (x + dx) (y + dy)
        (unpack (source ! ((y + dy) * src_stride + (x + dx))))) s"
    by (simp add: checked i pixel_offset_def)
qed (use ok in \<open>auto intro: write_row_fb_ok write_row_keeps same_but_fb_trans\<close>)

lemma blit_rect_spec:
  assumes ok: "fb_ok g" and w: "x + w \<le> src_stride" and h: "y + h < usize_bound"
    and src: "src_stride * (y + h) \<le> length source" "length source < usize_bound"
  shows "\<exists>g'. blit_rect source src_stride x y w h g = Some g' \<and> fb_ok g' \<and> same_but_fb g g' \<and>
    (\<forall>px py. on_screen (info g) px py \<longrightarrow> pixel_at g' px py =
       (if x \<le> px \<and> px < x + w \<and> y \<le> py \<and> py < y + h
        then encode_pixel (pixel_format (info g)) (unpack (source ! (py * src_stride + px)))
        else pixel_at g px py))"
proof (cases "fb_width (info g) \<le> x \<or> fb_height (info g) \<le> y")
  case True
  with ok show ?thesis by (auto simp: blit_rect_def on_screen_def)
next
  case False
  let ?i = "info g"
  let ?w = "min w (fb_width ?i - x)" and ?h = "min h (fb_height ?i - y)"
  let ?col = "\<lambda>dy dx. unpack (source ! ((y + dy) * src_stride + (x + dx)))"
  have on: "on_screen ?i (x + dx) (y + dy)" if "dx < ?w" "dy < ?h" for dx dy
    using that by (auto simp: on_screen_def)
  have "src_stride * (y + ?h) \<le> src_stride * (y + h)" by (intro mult_left_mono) auto
  with src(1) have src': "src_stride * (y + ?h) \<le> length source" by linarith
  have row: "blit_rows source src_stride x y ?w ?h g =
      for_from 0 ?h (\<lambda>dy. for_from 0 ?w (\<lambda>dx. write_pixel (x + dx) (y + dy) (?col dy dx))) g"
    by (rule blit_rows_block[OF ok _ src' src(2)])
      (use w h False on in \<open>auto simp: on_screen_def\<close>)
  have clip: "x \<le> px \<and> px < x + ?w \<and> y \<le> py \<and> py < y + ?h \<longleftrightarrow>
      x \<le> px \<and> px < x + w \<and> y \<le> py \<and> py < y + h" if "on_screen ?i px py" for px py
    using that by (auto simp: on_screen_def)
  show ?thesis
    using draw_block[OF ok, of ?h ?w x y ?col] False clip
    by (simp add: blit_rect_def row cong: conj_cong) fastforce
qed

subsection \<open>Properties\<close>

text \<open>
  C35: On a consistent framebuffer no drawing panics and drawing is clipped and exact: after
  \<open>draw_rect\<close> the pixels of the screen inside the rectangle have the colour's encoding and every
  other pixel of the screen, the cursor and the colours are as before.
\<close>

theorem draw_rect_exact:
  assumes "fb_ok g" and "x + w < usize_bound" and "y + h < usize_bound"
  shows "\<exists>g'. draw_rect x y w h c g = Some g' \<and> same_but_fb g g' \<and>
    (\<forall>px py. on_screen (info g) px py \<longrightarrow> pixel_at g' px py =
       (if x \<le> px \<and> px < x + w \<and> y \<le> py \<and> py < y + h
        then encode_pixel (pixel_format (info g)) c else pixel_at g px py))"
  using draw_rect_spec[OF assms] by blast

definition tiny_writer :: writer where
  "tiny_writer = \<lparr>fb = replicate 48 0,
     info = \<lparr>fb_width = 4, fb_height = 3, fb_stride = 4, bytes_per_pixel = 4, pixel_format = Bgr\<rparr>,
     x_pos = 10, y_pos = 10, text_color = (255, 255, 255), bg_color = (20, 20, 40)\<rparr>"

lemma tiny_ok: "fb_ok tiny_writer"
  by (simp add: fb_ok_def tiny_writer_def pixel_len_def usize_bound_def)

lemma tiny_facts:
  "on_screen (info tiny_writer) 2 1" "on_screen (info tiny_writer) 2 0"
  "on_screen (info tiny_writer) 1 2" "on_screen (info tiny_writer) 3 2"
  "pixel_at tiny_writer 2 0 = [0, 0, 0]" "pixel_at tiny_writer 3 2 = [0, 0, 0]"
  "pixel_format (info tiny_writer) = Bgr"
  by (simp_all add: on_screen_def tiny_writer_def pixel_at_def pixel_offset_def pixel_len_def
      slice_def numeral_eq_Suc)

theorem draw_rect_exact_witness:
  "\<exists>g'. draw_rect 1 1 9 1 (1, 2, 3) tiny_writer = Some g' \<and> pixel_at g' 2 1 = [3, 2, 1] \<and>
     pixel_at g' 2 0 = [0, 0, 0]"
proof -
  have "(1 :: nat) + 9 < usize_bound" "(1 :: nat) + 1 < usize_bound" by (simp_all add: usize_bound_def)
  from draw_rect_exact[OF tiny_ok this, of "(1, 2, 3)"] show ?thesis
    using tiny_facts by (fastforce simp: encode_pixel_def)
qed

text \<open>
  C36: Printing never panics: on a consistent framebuffer \<open>write_str\<close> of any text, control
  characters and characters without a glyph included, returns, and leaves the cursor on its
  column grid and the framebuffer consistent.
\<close>

theorem printing_total:
  assumes "text_ok g" and "font_ok font" and "y_pos g + 12 * length cs + 128 < usize_bound"
  shows "\<exists>g'. write_str font cs g = Some g' \<and> text_ok g'"
  by (rule write_str_ok[OF assms])

theorem printing_total_witness:
  "\<exists>g'. write_str (\<lambda>_. None) [0x41, 0x0A, 0x08] tiny_writer = Some g' \<and> text_ok g'"
proof (rule printing_total)
  show "text_ok tiny_writer"
    using tiny_ok by (simp add: text_ok_def cursor_ok_def) (simp add: tiny_writer_def usize_bound_def)
qed (simp_all add: font_ok_def tiny_writer_def usize_bound_def)

text \<open>
  A blit copies exactly its rectangle: every pixel of the screen inside it gets the colour of
  the source at the same position, every other keeps its own; the source needs only to reach the
  bottom of the rectangle, however far that is off the screen.
\<close>

theorem blit_rect_copies:
  assumes "fb_ok g" and "x + w \<le> src_stride" and "y + h < usize_bound"
    and "src_stride * (y + h) \<le> length source" and "length source < usize_bound"
  shows "\<exists>g'. blit_rect source src_stride x y w h g = Some g' \<and> same_but_fb g g' \<and>
    (\<forall>px py. on_screen (info g) px py \<longrightarrow> pixel_at g' px py =
       (if x \<le> px \<and> px < x + w \<and> y \<le> py \<and> py < y + h
        then encode_pixel (pixel_format (info g)) (unpack (source ! (py * src_stride + px)))
        else pixel_at g px py))"
  using blit_rect_spec[OF assms] by blast

theorem blit_rect_copies_witness:
  "\<exists>g'. blit_rect (replicate 20 0x010203) 4 1 1 2 4 tiny_writer = Some g' \<and>
     pixel_at g' 1 2 = [3, 2, 1] \<and> pixel_at g' 3 2 = [0, 0, 0]"
proof -
  have "(1 :: nat) + 2 \<le> 4" "(1 :: nat) + 4 < usize_bound"
    "(4 :: nat) * (1 + 4) \<le> length (replicate 20 (0x010203 :: u32))"
    "length (replicate 20 (0x010203 :: u32)) < usize_bound"
    by (simp_all add: usize_bound_def)
  from blit_rect_copies[OF tiny_ok this] show ?thesis
    using tiny_facts by (fastforce simp: encode_pixel_def unpack_def)
qed

end
