(* ===== verification/Nyan.thy ===== *)
theory Nyan
  imports Gop
begin

text \<open>
  \<open>run_nyan_cat_demo\<close> of \<open>kernel/src/gop.rs\<close>: sixty frames of rectangles. The busy wait between
  frames has no effect on the state. The properties: on a framebuffer wider than 200 pixels it
  returns, with the screen cleared and the colours restored; on a narrower one it panics.
\<close>

subsection \<open>The frame\<close>

text \<open>A rectangle at an offset from a point, the sums checked.\<close>

definition rect_at ::
  "nat \<Rightarrow> nat \<Rightarrow> nat \<Rightarrow> nat \<Rightarrow> nat \<Rightarrow> nat \<Rightarrow> color \<Rightarrow> writer \<Rightarrow> writer option" where
  "rect_at cx dx cy dy w h c g =
     do { x \<leftarrow> uadd cx dx; y \<leftarrow> uadd cy dy; draw_rect x y w h c g }"

definition star_positions :: "(int \<times> nat) list" where
  "star_positions =
     [(100, 150), (250, 80), (400, 200), (550, 120), (700, 250), (850, 90),
      (150, 300), (300, 400), (500, 350), (650, 420), (800, 380)]"

definition draw_stars :: "nat \<Rightarrow> writer \<Rightarrow> writer option" where
  "draw_stars frame =
     for_each star_positions (\<lambda>(sx, sy).
       let shift = (frame * 8) mod 900;
           x = sx - int shift;
           x = (if x < 0 then x + 900 else x)
       in draw_rect (nat x) sy 4 4 (255, 255, 255))"

definition rainbow_colors :: "color list" where
  "rainbow_colors =
     [(255, 0, 0), (255, 127, 0), (255, 255, 0), (0, 255, 0), (0, 127, 255), (127, 0, 255)]"

text \<open>\<open>(0..cat_x).step_by(8)\<close>\<close>

definition trail_columns :: "nat \<Rightarrow> nat list" where
  "trail_columns cat_x = map (\<lambda>k. k * 8) [0..<(cat_x + 7) div 8]"

definition draw_rainbow :: "nat \<Rightarrow> nat \<Rightarrow> nat \<Rightarrow> writer \<Rightarrow> writer option" where
  "draw_rainbow frame cat_x cat_y =
     for_each (trail_columns cat_x) (\<lambda>rx g.
       do {
         wave_y \<leftarrow> (if ((rx div 8) + frame) mod 8 < 4 then uadd cat_y 2 else usub cat_y 2);
         for_each (enumerate 0 rainbow_colors) (\<lambda>(i, c) g.
           do { y \<leftarrow> uadd wave_y (i * 8); draw_rect rx y 8 8 c g }) g
       })"

definition cat_grey :: color where
  "cat_grey = (150, 150, 150)"

definition draw_legs :: "nat \<Rightarrow> nat \<Rightarrow> nat \<Rightarrow> writer \<Rightarrow> writer option" where
  "draw_legs frame cat_x cat_y g =
     do {
       feet_y \<leftarrow> uadd cat_y 40;
       if frame mod 4 < 2
       then for_each [10, 30, 60, 80] (\<lambda>dx. rect_at cat_x dx feet_y 0 8 8 cat_grey) g
       else for_each [12, 32, 62, 82] (\<lambda>dx. rect_at cat_x dx feet_y 2 8 8 cat_grey) g
     }"

definition draw_tail :: "nat \<Rightarrow> nat \<Rightarrow> nat \<Rightarrow> writer \<Rightarrow> writer option" where
  "draw_tail frame cat_x cat_y g =
     do {
       x \<leftarrow> usub cat_x 16;
       y \<leftarrow> uadd cat_y (if frame mod 4 < 2 then 16 else 20);
       draw_rect x y 16 8 cat_grey g
     }"

text \<open>The body and the head: offsets, sizes and colours in drawing order.\<close>

definition body_rects :: "(nat \<times> nat \<times> nat \<times> nat \<times> color) list" where
  "body_rects =
     [(0, 4, 100, 36, (200, 130, 80)), (4, 8, 92, 28, (255, 150, 200)),
      (16, 12, 4, 4, (255, 0, 100)), (40, 20, 4, 4, (255, 0, 100)), (70, 16, 4, 4, (255, 0, 100)),
      (30, 28, 4, 4, (255, 0, 100)), (80, 26, 4, 4, (255, 0, 100))]"

definition head_rects :: "(nat \<times> nat \<times> nat \<times> nat \<times> color) list" where
  "head_rects =
     [(0, 8, 32, 24, (150, 150, 150)), (0, 0, 8, 8, (150, 150, 150)), (24, 0, 8, 8, (150, 150, 150)),
      (6, 14, 4, 4, (0, 0, 0)), (22, 14, 4, 4, (0, 0, 0)),
      (2, 18, 4, 4, (255, 100, 150)), (26, 18, 4, 4, (255, 100, 150)), (14, 18, 4, 4, (0, 0, 0))]"

definition draw_rects :: "nat \<Rightarrow> nat \<Rightarrow> (nat \<times> nat \<times> nat \<times> nat \<times> color) list \<Rightarrow>
    writer \<Rightarrow> writer option" where
  "draw_rects x y rs = for_each rs (\<lambda>(dx, dy, w, h, c). rect_at x dx y dy w h c)"

definition cat_position :: "writer \<Rightarrow> nat \<times> nat" where
  "cat_position g =
     (if 200 < fb_width (info g) then fb_width (info g) div 2 - 50 else 10,
      if 100 < fb_height (info g) then fb_height (info g) div 2 - 30 else 10)"

definition nyan_frame :: "nat \<Rightarrow> writer \<Rightarrow> writer option" where
  "nyan_frame frame g =
     do {
       g \<leftarrow> draw_rect 0 0 (fb_width (info g)) (fb_height (info g)) (15, 15, 40) g;
       g \<leftarrow> draw_stars frame g;
       let (cat_x, cat_y) = cat_position g;
       g \<leftarrow> draw_rainbow frame cat_x cat_y g;
       g \<leftarrow> draw_legs frame cat_x cat_y g;
       g \<leftarrow> draw_tail frame cat_x cat_y g;
       g \<leftarrow> draw_rects cat_x cat_y body_rects g;
       head_x \<leftarrow> uadd cat_x 75;
       head_y \<leftarrow> usub cat_y 4;
       draw_rects head_x head_y head_rects g
     }"

definition run_nyan_cat_demo :: "writer option \<Rightarrow> writer option option" where
  "run_nyan_cat_demo w =
     (case w of
        None \<Rightarrow> Some None
      | Some g \<Rightarrow>
          do {
            g' \<leftarrow> for_from 0 60 nyan_frame g;
            g' \<leftarrow> clear (set_colors (text_color g) (bg_color g) g');
            Some (Some g')
          })"

subsection \<open>Every frame only draws\<close>

definition draws :: "(writer \<Rightarrow> writer option) \<Rightarrow> writer \<Rightarrow> bool" where
  "draws f g0 \<longleftrightarrow> (\<forall>g. fb_ok g \<longrightarrow> same_but_fb g0 g \<longrightarrow>
     (\<exists>g'. f g = Some g' \<and> fb_ok g' \<and> same_but_fb g0 g'))"

lemma draws_rect: "x + w < usize_bound \<Longrightarrow> y + h < usize_bound \<Longrightarrow> draws (draw_rect x y w h c) g0"
  unfolding draws_def using draw_rect_spec[of _ x w y h c] by (meson same_but_fb_trans)

lemma draws_rect_at:
  "cx + dx + w < usize_bound \<Longrightarrow> cy + dy + h < usize_bound \<Longrightarrow> draws (rect_at cx dx cy dy w h c) g0"
  using draws_rect[of "cx + dx" w "cy + dy" h c g0] by (simp add: rect_at_def uadd_ok draws_def)

lemma draws_for_each:
  "(\<And>x. x \<in> set xs \<Longrightarrow> draws (f x) g0) \<Longrightarrow> draws (for_each xs f) g0"
proof (induction xs)
  case Nil
  then show ?case by (simp add: draws_def)
next
  case (Cons x xs)
  then have "draws (f x) g0" "draws (for_each xs f) g0" by auto
  then show ?case unfolding draws_def for_each.simps by fastforce
qed

lemma draws_bind: "draws f g0 \<Longrightarrow> draws k g0 \<Longrightarrow> draws (\<lambda>g. f g \<bind> k) g0"
  unfolding draws_def by fastforce

text \<open>A screen that leaves the coordinates room.\<close>

definition small_screen :: "writer \<Rightarrow> bool" where
  "small_screen g \<longleftrightarrow> fb_width (info g) + 2000 < usize_bound \<and> fb_height (info g) + 2000 < usize_bound"

lemma draws_stars: "draws (draw_stars frame) g0"
  unfolding draw_stars_def
proof (rule draws_for_each)
  fix p assume "p \<in> set star_positions"
  then have p: "0 \<le> fst p" "fst p \<le> 850" "snd p \<le> 420" by (auto simp: star_positions_def)
  let ?s = "(frame * 8) mod 900"
  have "nat (if fst p - int s < 0 then fst p - int s + 900 else fst p - int s) \<le> 900"
    if "s < 900" for s :: nat
    using p that by (auto simp: nat_le_iff)
  from this[of ?s] have "nat (if fst p - int ?s < 0 then fst p - int ?s + 900 else fst p - int ?s) \<le> 900"
    by simp
  with p show "draws ((\<lambda>(sx, sy). let shift = (frame * 8) mod 900; x = sx - int shift;
      x = (if x < 0 then x + 900 else x) in draw_rect (nat x) sy 4 4 (255, 255, 255)) p) g0"
    by (auto simp: Let_def case_prod_beta usize_bound_def intro!: draws_rect)
qed

lemma trail_columns_bound: "rx \<in> set (trail_columns n) \<Longrightarrow> rx < n + 8"
  by (auto simp: trail_columns_def)

lemma draws_rainbow:
  assumes "cat_x + 100 < usize_bound" and "2 \<le> cat_y" and "cat_y + 100 < usize_bound"
  shows "draws (draw_rainbow frame cat_x cat_y) g0"
  unfolding draw_rainbow_def
proof (rule draws_for_each)
  fix rx assume "rx \<in> set (trail_columns cat_x)"
  then have rx: "rx + 8 < usize_bound" using trail_columns_bound assms(1) by fastforce
  let ?wave = "if ((rx div 8) + frame) mod 8 < 4 then cat_y + 2 else cat_y - 2"
  have w: "(if ((rx div 8) + frame) mod 8 < 4 then uadd cat_y 2 else usub cat_y 2) = Some ?wave"
    using assms by (simp add: uadd_ok usub_ok)
  have le: "?wave \<le> cat_y + 2" by (simp add: le_diff_conv)
  have "draws (for_each (enumerate 0 rainbow_colors) (\<lambda>(i, c) g.
      do { y \<leftarrow> uadd ?wave (i * 8); draw_rect rx y 8 8 c g })) g0"
  proof (rule draws_for_each)
    fix p assume "p \<in> set (enumerate 0 rainbow_colors)"
    then have "fst p < 6" by (cases p) (auto simp: in_set_enumerate_eq rainbow_colors_def)
    then have b: "?wave + fst p * 8 + 8 < usize_bound" using le assms(3) by linarith
    then have "uadd ?wave (fst p * 8) = Some (?wave + fst p * 8)" by (simp add: uadd_def)
    with draws_rect[OF rx b, of "snd p" g0] show "draws ((\<lambda>(i, c) g.
        do { y \<leftarrow> uadd ?wave (i * 8); draw_rect rx y 8 8 c g }) p) g0"
      by (simp add: case_prod_beta)
  qed
  then show "draws (\<lambda>g. do {
      wave_y \<leftarrow> (if ((rx div 8) + frame) mod 8 < 4 then uadd cat_y 2 else usub cat_y 2);
      for_each (enumerate 0 rainbow_colors) (\<lambda>(i, c) g.
        do { y \<leftarrow> uadd wave_y (i * 8); draw_rect rx y 8 8 c g }) g }) g0"
    unfolding w by simp
qed

lemma draws_legs:
  assumes "cat_x + 100 < usize_bound" and "cat_y + 100 < usize_bound"
  shows "draws (draw_legs frame cat_x cat_y) g0"
proof -
  have "draws (for_each [10, 30, 60, 80] (\<lambda>dx. rect_at cat_x dx (cat_y + 40) 0 8 8 cat_grey)) g0"
    "draws (for_each [12, 32, 62, 82] (\<lambda>dx. rect_at cat_x dx (cat_y + 40) 2 8 8 cat_grey)) g0"
    using assms by (auto intro!: draws_for_each draws_rect_at)
  moreover have "uadd cat_y 40 = Some (cat_y + 40)" using assms by (simp add: uadd_ok)
  ultimately show ?thesis by (simp add: draw_legs_def[abs_def] draws_def)
qed

lemma draws_tail:
  assumes "16 \<le> cat_x" and "cat_x + 100 < usize_bound" and "cat_y + 100 < usize_bound"
  shows "draws (draw_tail frame cat_x cat_y) g0"
proof -
  let ?d = "if frame mod 4 < 2 then 16 else 20"
  have "draws (draw_rect (cat_x - 16) (cat_y + ?d) 16 8 cat_grey) g0"
    using assms by (intro draws_rect) auto
  moreover have "usub cat_x 16 = Some (cat_x - 16)" "uadd cat_y ?d = Some (cat_y + ?d)"
    using assms by (auto simp: usub_ok uadd_def)
  ultimately show ?thesis by (simp add: draw_tail_def[abs_def])
qed

lemma draws_rects:
  assumes "\<forall>(dx, dy, w, h, c)\<in>set rs. x + dx + w < usize_bound \<and> y + dy + h < usize_bound"
  shows "draws (draw_rects x y rs) g0"
  unfolding draw_rects_def
  by (rule draws_for_each) (use assms in \<open>fastforce intro: draws_rect_at\<close>)

lemma nyan_frame_draws:
  assumes "small_screen g0" and "200 < fb_width (info g0)"
  shows "draws (nyan_frame frame) g0"
  unfolding draws_def
proof (intro allI impI)
  fix g assume ok: "fb_ok g" and s: "same_but_fb g0 g"
  let ?x = "fst (cat_position g0)" and ?y = "snd (cat_position g0)"
  let ?bg = "draw_rect 0 0 (fb_width (info g0)) (fb_height (info g0)) (15, 15, 40)"
  have i: "info h = info g0" if "same_but_fb g0 h" for h using same_but_fb_fields[OF that] by simp
  have b: "?x + 1000 < usize_bound" "50 \<le> ?x" "?y + 1000 < usize_bound" "10 \<le> ?y"
    using assms by (auto simp: cat_position_def small_screen_def usize_bound_def)
  have h: "uadd ?x 75 = Some (?x + 75)" "usub ?y 4 = Some (?y - 4)"
    using b by (simp_all add: uadd_ok usub_ok)
  have "draws ?bg g0" using assms(1) by (intro draws_rect) (auto simp: small_screen_def)
  then obtain g1 where g1: "?bg g = Some g1" "fb_ok g1" "same_but_fb g0 g1"
    using ok s unfolding draws_def by blast
  obtain g2 where g2: "draw_stars frame g1 = Some g2" "fb_ok g2" "same_but_fb g0 g2"
    using draws_stars g1 unfolding draws_def by blast
  have "cat_position g2 = (?x, ?y)" using i[OF g2(3)] by (simp add: cat_position_def)
  have "draws (draw_rainbow frame ?x ?y) g0" using b by (intro draws_rainbow) auto
  then obtain g3 where g3: "draw_rainbow frame ?x ?y g2 = Some g3" "fb_ok g3" "same_but_fb g0 g3"
    using g2 unfolding draws_def by blast
  have "draws (draw_legs frame ?x ?y) g0" using b by (intro draws_legs) auto
  then obtain g4 where g4: "draw_legs frame ?x ?y g3 = Some g4" "fb_ok g4" "same_but_fb g0 g4"
    using g3 unfolding draws_def by blast
  have "draws (draw_tail frame ?x ?y) g0" using b by (intro draws_tail) auto
  then obtain g5 where g5: "draw_tail frame ?x ?y g4 = Some g5" "fb_ok g5" "same_but_fb g0 g5"
    using g4 unfolding draws_def by blast
  have "draws (draw_rects ?x ?y body_rects) g0" using b by (intro draws_rects) (auto simp: body_rects_def)
  then obtain g6 where g6: "draw_rects ?x ?y body_rects g5 = Some g6" "fb_ok g6" "same_but_fb g0 g6"
    using g5 unfolding draws_def by blast
  have "draws (draw_rects (?x + 75) (?y - 4) head_rects) g0"
    using b by (intro draws_rects) (auto simp: head_rects_def)
  then obtain g7 where g7: "draw_rects (?x + 75) (?y - 4) head_rects g6 = Some g7" "fb_ok g7" "same_but_fb g0 g7"
    using g6 unfolding draws_def by blast
  have "nyan_frame frame g = Some g7"
    unfolding nyan_frame_def i[OF s]
    using g1 g2 g3 g4 g5 g6 g7 h \<open>cat_position g2 = (?x, ?y)\<close>
    by (simp add: case_prod_beta)
  with g7 show "\<exists>g'. nyan_frame frame g = Some g' \<and> fb_ok g' \<and> same_but_fb g0 g'" by blast
qed

subsection \<open>Properties\<close>

text \<open>
  The demo ends. On a consistent framebuffer wider than 200 pixels all sixty frames are drawn
  without a panic, and afterwards the text colours are those from before, the cursor is home and
  every pixel of the screen has the background colour.
\<close>

theorem demo_restores_screen:
  assumes "fb_ok g" and "small_screen g" and "200 < fb_width (info g)"
  shows "\<exists>g'. run_nyan_cat_demo (Some g) = Some (Some g') \<and> fb_ok g' \<and> info g' = info g \<and>
    text_color g' = text_color g \<and> bg_color g' = bg_color g \<and> x_pos g' = 10 \<and> y_pos g' = 10 \<and>
    (\<forall>px py. on_screen (info g) px py \<longrightarrow>
       pixel_at g' px py = encode_pixel (pixel_format (info g)) (bg_color g))"
proof -
  have "\<exists>s'. for_from 0 60 nyan_frame g = Some s' \<and> (fb_ok s' \<and> same_but_fb g s')"
    by (rule for_from_inv[where P = "\<lambda>_ s. fb_ok s \<and> same_but_fb g s"])
      (use assms nyan_frame_draws[OF assms(2,3)] in \<open>auto simp: draws_def\<close>)
  then obtain s' where s': "for_from 0 60 nyan_frame g = Some s'" "fb_ok s'" "same_but_fb g s'" by blast
  let ?s = "set_colors (text_color g) (bg_color g) s'"
  have "fb_ok ?s" using s'(2) by (simp add: fb_ok_def set_colors_def)
  from clear_spec[OF this] s' same_but_fb_fields[OF s'(3)] show ?thesis
    by (auto simp: run_nyan_cat_demo_def set_colors_def)
qed

definition wide_writer :: writer where
  "wide_writer = \<lparr>fb = replicate 256 0,
     info = \<lparr>fb_width = 256, fb_height = 1, fb_stride = 256, bytes_per_pixel = 1, pixel_format = U8\<rparr>,
     x_pos = 10, y_pos = 10, text_color = (255, 255, 255), bg_color = (20, 20, 40)\<rparr>"

theorem demo_restores_screen_witness:
  "\<exists>g'. run_nyan_cat_demo (Some wide_writer) = Some (Some g') \<and> x_pos g' = 10"
proof -
  have "fb_ok wide_writer" "small_screen wide_writer" "200 < fb_width (info wide_writer)"
    by (simp_all add: fb_ok_def small_screen_def wide_writer_def pixel_len_def usize_bound_def)
  from demo_restores_screen[OF this] show ?thesis by blast
qed

text \<open>
  On a framebuffer at most 200 pixels wide the demo panics in its first frame: the cat stands
  at column 10 and its tail would start sixteen pixels to the left of that.
\<close>

theorem demo_panics_on_narrow_screen:
  assumes "fb_ok g" and "small_screen g" and "fb_width (info g) \<le> 200"
  shows "run_nyan_cat_demo (Some g) = None"
proof -
  have keeps: "same_but_fb g0 g'" if "draws f g0" "f h = Some g'" "fb_ok h" "same_but_fb g0 h" for f g0 h g'
    using that unfolding draws_def by fastforce
  have "nyan_frame 0 g = None"
  proof (cases "do { g1 \<leftarrow> draw_rect 0 0 (fb_width (info g)) (fb_height (info g)) (15, 15, 40) g; draw_stars 0 g1 }")
    case None
    then show ?thesis unfolding nyan_frame_def by (cases "draw_rect 0 0 (fb_width (info g)) (fb_height (info g)) (15, 15, 40) g") simp_all
  next
    case (Some g2)
    have "draws (draw_rect 0 0 (fb_width (info g)) (fb_height (info g)) (15, 15, 40)) g"
      using assms(2) by (intro draws_rect) (auto simp: small_screen_def)
    from keeps[OF draws_bind[OF this draws_stars] Some assms(1)] have "same_but_fb g g2" by simp
    then have "fst (cat_position g2) = 10"
      using assms(3) same_but_fb_fields[of g g2] by (simp add: cat_position_def)
    moreover have "draw_tail 0 10 y h = None" for y h by (simp add: draw_tail_def usub_def)
    ultimately show ?thesis
      using Some unfolding nyan_frame_def
      by (cases "draw_rect 0 0 (fb_width (info g)) (fb_height (info g)) (15, 15, 40) g")
        (simp_all add: case_prod_beta bind_eq_None_conv)
  qed
  then show ?thesis by (simp add: run_nyan_cat_demo_def numeral_eq_Suc)
qed

theorem demo_panics_on_narrow_screen_witness:
  "run_nyan_cat_demo (Some tiny_writer) = None"
proof (rule demo_panics_on_narrow_screen[OF tiny_ok])
  show "small_screen tiny_writer" "fb_width (info tiny_writer) \<le> 200"
    by (simp_all add: small_screen_def tiny_writer_def usize_bound_def)
qed

end
