(* ===== verification/Syscall.thy ===== *)
theory Syscall
  imports Ipc Nyan Decimal
begin

text \<open>
  \<open>handle_syscall\<close> of \<open>kernel/src/syscall.rs\<close>: the dispatcher and every call, on the state of the
  whole machine: the kernel of \<open>Ipc\<close> with the heap counter, the framebuffer writer and a log of
  the port writes. A call either returns the stack pointer to resume from or halts the machine;
  \<open>None\<close> is a kernel panic. Port writes do not come back in the real machine (they reset it or
  power it off); the model keeps them as the code does, as writes after which the code goes on.
\<close>

subsection \<open>The machine\<close>

record machine = kernel +
  used_mem :: nat
  screen :: "writer option"

datatype outcome = Resume nat machine | Halt machine

text \<open>Return \<open>v\<close> in the \<open>rax\<close> slot and resume the caller.\<close>

definition return_rax :: "nat \<Rightarrow> u64 \<Rightarrow> machine \<Rightarrow> outcome option" where
  "return_rax current_rsp v m = Some (Resume current_rsp (kwrite_rax current_rsp v m))"

definition resume_at :: "(nat \<times> machine) option \<Rightarrow> outcome option" where
  "resume_at r = map_option (\<lambda>(rsp, m). Resume rsp m) r"

subsection \<open>Text and graphics calls\<close>

definition sys_print :: "font \<Rightarrow> nat \<Rightarrow> nat \<Rightarrow> nat \<Rightarrow> machine \<Rightarrow> outcome option" where
  "sys_print font ptr len current_rsp m =
     do {
       m \<leftarrow> (case utf8_decode (load (memory m) ptr len) of
               Some text \<Rightarrow>
                 do { w \<leftarrow> print_text font text (screen m); Some (m\<lparr>screen := w\<rparr>) }
             | None \<Rightarrow> Some m);
       return_rax current_rsp 0 m
     }"

definition sys_gop_info :: "nat \<Rightarrow> nat \<Rightarrow> machine \<Rightarrow> outcome option" where
  "sys_gop_info out_ptr current_rsp m =
     (case get_info (screen m) of
        Some i \<Rightarrow>
          let mem = memory m;
              mem = store64 mem out_ptr (word_of_nat (fb_width i));
              mem = store64 mem (out_ptr + 8) (word_of_nat (fb_height i));
              mem = store64 mem (out_ptr + 16) (word_of_nat (fb_stride i));
              mem = store64 mem (out_ptr + 24) (word_of_nat (bytes_per_pixel i))
          in return_rax current_rsp 0 (m\<lparr>memory := mem\<rparr>)
      | None \<Rightarrow> return_rax current_rsp (- 1) m)"

definition sys_gfx_demo :: "nat \<Rightarrow> machine \<Rightarrow> outcome option" where
  "sys_gfx_demo current_rsp m =
     do {
       w \<leftarrow> run_nyan_cat_demo (screen m);
       return_rax current_rsp 0 (m\<lparr>screen := w\<rparr>)
     }"

text \<open>\<open>BlitRequest\<close> of \<open>compositor.rs\<close>, six words in memory, and the source slice it names.\<close>

record blit_request =
  buffer_addr :: nat
  src_stride :: nat
  blit_x :: nat
  blit_y :: nat
  blit_w :: nat
  blit_h :: nat

definition read_blit_request :: "mem \<Rightarrow> nat \<Rightarrow> blit_request" where
  "read_blit_request mem p =
     \<lparr>buffer_addr = unat (load64 mem p), src_stride = unat (load64 mem (p + 8)),
      blit_x = unat (load64 mem (p + 16)), blit_y = unat (load64 mem (p + 24)),
      blit_w = unat (load64 mem (p + 32)), blit_h = unat (load64 mem (p + 40))\<rparr>"

definition load_u32s :: "mem \<Rightarrow> nat \<Rightarrow> nat \<Rightarrow> u32 list" where
  "load_u32s mem p n = map (\<lambda>i. u32_from_le (load mem (p + 4 * i) 4)) [0..<n]"

definition sys_blit :: "nat \<Rightarrow> nat \<Rightarrow> machine \<Rightarrow> outcome option" where
  "sys_blit req_ptr current_rsp m =
     do {
       let req = read_blit_request (memory m) req_ptr;
       rows \<leftarrow> uadd (blit_y req) (blit_h req);
       n \<leftarrow> umul (src_stride req) rows;
       let source = load_u32s (memory m) (buffer_addr req) n;
       w \<leftarrow> blit_buffer_rect source (src_stride req) (blit_x req) (blit_y req)
         (blit_w req) (blit_h req) (screen m);
       return_rax current_rsp 0 (m\<lparr>screen := w\<rparr>)
     }"

subsection \<open>Task information\<close>

definition append_state :: "task_state \<Rightarrow> bytes \<times> nat \<Rightarrow> (bytes \<times> nat) option" where
  "append_state st b =
     (case st of
        Ready \<Rightarrow> append_text (str ''Ready'') b
      | Running \<Rightarrow> append_text (str ''Running'') b
      | Sending dest msg \<Rightarrow>
          do { b \<leftarrow> append_text (str ''Sending to '') b; append_digits 10 dest b }
      | Receiving src buf \<Rightarrow>
          (case src of
             Some s \<Rightarrow> do { b \<leftarrow> append_text (str ''Receiving from '') b; append_digits 10 s b }
           | None \<Rightarrow> append_text (str ''Receiving from ANY'') b))"

definition append_task :: "task option \<Rightarrow> bytes \<times> nat \<Rightarrow> (bytes \<times> nat) option" where
  "append_task slot b =
     (case slot of
        None \<Rightarrow> Some b
      | Some t \<Rightarrow>
          do {
            b \<leftarrow> append_text (str ''Task '') b;
            b \<leftarrow> append_num 10 (task_id t) b;
            b \<leftarrow> append_text (str '': '') b;
            b \<leftarrow> append_state (task_state t) b;
            append_text [0x0A] b
          })"

definition sys_task_info :: "nat \<Rightarrow> nat \<Rightarrow> nat \<Rightarrow> machine \<Rightarrow> outcome option" where
  "sys_task_info buffer_ptr max_len current_rsp m =
     do {
       (info_str, cursor) \<leftarrow> for_each (tasks (sched m)) append_task (replicate 512 0, 0);
       let mem = store (memory m) buffer_ptr (take (min cursor max_len) info_str);
       return_rax current_rsp (word_of_nat cursor) (m\<lparr>memory := mem\<rparr>)
     }"

subsection \<open>The dispatcher\<close>

definition sys_reboot :: "nat \<Rightarrow> machine \<Rightarrow> outcome option" where
  "sys_reboot current_rsp m = Some (Resume current_rsp (out_port 0x64 0xFE m))"

text \<open>QEMU, VirtualBox and Bochs power-off ports, then \<open>hlt\<close> for ever.\<close>

definition sys_shutdown :: "machine \<Rightarrow> outcome option" where
  "sys_shutdown m =
     Some (Halt (out_port 0xB004 0x2000 (out_port 0x4004 0x3400 (out_port 0x604 0x2000 m))))"

definition handle_syscall ::
  "font \<Rightarrow> u64 \<Rightarrow> u64 \<Rightarrow> u64 \<Rightarrow> nat \<Rightarrow> machine \<Rightarrow> outcome option" where
  "handle_syscall font rax rdi rsi current_rsp m =
     (let a = unat rdi; b = unat rsi in
      if rax = 1 then sys_print font a b current_rsp m
      else if rax = 2 then resume_at (sys_yield current_rsp m)
      else if rax = 3 then resume_at (sys_send a b current_rsp m)
      else if rax = 4 then resume_at (sys_recv a b current_rsp m)
      else if rax = 5 then return_rax current_rsp (word_of_nat (used_mem m)) m
      else if rax = 6 then sys_task_info a b current_rsp m
      else if rax = 7 then return_rax current_rsp (ticks m) m
      else if rax = 8 then sys_gop_info a current_rsp m
      else if rax = 9 then sys_reboot current_rsp m
      else if rax = 10 then sys_shutdown m
      else if rax = 11 then sys_gfx_demo current_rsp m
      else if rax = 12 then sys_blit a current_rsp m
      else if rax = 14 then resume_at (sys_try_recv a b current_rsp m)
      else return_rax current_rsp (- 1) m)"

subsection \<open>Task information as text\<close>

definition state_text :: "task_state \<Rightarrow> bytes" where
  "state_text st =
     (case st of
        Ready \<Rightarrow> str ''Ready''
      | Running \<Rightarrow> str ''Running''
      | Sending dest msg \<Rightarrow> str ''Sending to '' @ digits dest
      | Receiving src buf \<Rightarrow>
          (case src of Some s \<Rightarrow> str ''Receiving from '' @ digits s
           | None \<Rightarrow> str ''Receiving from ANY''))"

definition task_text :: "task option \<Rightarrow> bytes" where
  "task_text slot =
     (case slot of
        None \<Rightarrow> []
      | Some t \<Rightarrow> str ''Task '' @ decimal (task_id t) @ str '': '' @ state_text (task_state t) @ [0x0A])"

text \<open>The numbers of a slot's line fit the ten-byte buffers.\<close>

definition prints_in_ten :: "task option \<Rightarrow> bool" where
  "prints_in_ten slot \<longleftrightarrow>
     (case slot of
        None \<Rightarrow> True
      | Some t \<Rightarrow> task_id t < 10 ^ 10 \<and>
          (case task_state t of
             Sending d m \<Rightarrow> d < 10 ^ 10
           | Receiving (Some s) p \<Rightarrow> s < 10 ^ 10
           | _ \<Rightarrow> True))"

lemma small_usize [simp]: "(512 :: nat) < usize_bound" "(10 :: nat) < usize_bound"
  by (simp_all add: usize_bound_def)

lemma decimal_in_ten: "length (decimal n) \<le> 10 \<longleftrightarrow> n < 10 ^ 10"
  using length_digits[of n 10] by (auto simp: decimal_def)

lemma digits_in_ten: "length (digits n) \<le> 10 \<longleftrightarrow> n < 10 ^ 10"
  using length_digits[of n 10] by simp

lemma append_state_filled:
  "append_state st (filled 512 out) =
     (case st of
        Sending d m \<Rightarrow> if d < 10 ^ 10 then Some (filled 512 (out @ state_text st)) else None
      | Receiving (Some s) p \<Rightarrow> if s < 10 ^ 10 then Some (filled 512 (out @ state_text st)) else None
      | _ \<Rightarrow> Some (filled 512 (out @ state_text st)))"
  by (auto simp: append_state_def state_text_def append_filled append_digits_filled digits_in_ten
      split: task_state.splits option.splits)

lemma append_task_filled:
  "append_task slot (filled 512 out) =
     (if prints_in_ten slot then Some (filled 512 (out @ task_text slot)) else None)"
proof (cases slot)
  case None
  then show ?thesis by (simp add: append_task_def prints_in_ten_def task_text_def)
next
  case (Some t)
  show ?thesis
  proof (cases "prints_in_ten slot")
    case True
    with Some show ?thesis
      by (auto simp: append_task_def prints_in_ten_def task_text_def append_filled append_num_filled
          append_state_filled decimal_in_ten split: task_state.splits option.splits)
  next
    case False
    with Some show ?thesis
      by (auto simp: append_task_def prints_in_ten_def append_filled append_num_filled
          append_state_filled decimal_in_ten split: task_state.splits option.splits)
  qed
qed

lemma append_tasks_filled:
  "for_each slots append_task (filled 512 out) =
     (if list_all prints_in_ten slots then Some (filled 512 (out @ concat (map task_text slots))) else None)"
  by (induction slots arbitrary: out) (auto simp: append_task_filled)

lemma sys_task_info_spec:
  "sys_task_info p max_len r m =
     (if list_all prints_in_ten (tasks (sched m))
      then let text = concat (map task_text (tasks (sched m))) in
        return_rax r (word_of_nat (min 512 (length text)))
          (m\<lparr>memory := store (memory m) p (take (min 512 max_len) text)\<rparr>)
      else None)"
proof -
  have t: "take (min (min 512 (length ts)) max_len) (take 512 ts @ replicate (512 - length ts) 0) =
      take (min 512 max_len) ts" for ts :: bytes
    by (cases "length ts \<le> 512") (auto simp: min_def)
  show ?thesis
    using append_tasks_filled[of "tasks (sched m)" "[]"] t
    by (simp add: sys_task_info_def filled_Nil filled_def Let_def)
qed

subsection \<open>The invariant across every call\<close>

definition outcome_machine :: "outcome \<Rightarrow> machine" where
  "outcome_machine out = (case out of Resume r m \<Rightarrow> m | Halt m \<Rightarrow> m)"

lemma resume_at_Some:
  "resume_at r = Some out \<longleftrightarrow> (\<exists>n m. r = Some (n, m) \<and> out = Resume n m)"
  by (auto simp: resume_at_def)

lemma sched_kwrite_rax [simp]: "sched (kwrite_rax r v k) = sched k"
  by (simp add: kwrite_rax_def)

text \<open>The calls that are not about communication leave the scheduler alone.\<close>

lemma plain_calls_keep_sched:
  "sys_print font a b r m = Some out \<Longrightarrow> sched (outcome_machine out) = sched m"
  "sys_task_info a b r m = Some out \<Longrightarrow> sched (outcome_machine out) = sched m"
  "sys_gop_info a r m = Some out \<Longrightarrow> sched (outcome_machine out) = sched m"
  "sys_gfx_demo r m = Some out \<Longrightarrow> sched (outcome_machine out) = sched m"
  "sys_blit a r m = Some out \<Longrightarrow> sched (outcome_machine out) = sched m"
  "sys_reboot r m = Some out \<Longrightarrow> sched (outcome_machine out) = sched m"
  "sys_shutdown m = Some out \<Longrightarrow> sched (outcome_machine out) = sched m"
  "return_rax r v m = Some out \<Longrightarrow> sched (outcome_machine out) = sched m"
  by (auto simp: sys_print_def sys_task_info_def sys_gop_info_def sys_gfx_demo_def sys_blit_def
      sys_reboot_def sys_shutdown_def return_rax_def outcome_machine_def out_port_def Let_def
      split: bind_splits option.splits)

lemma handle_syscall_inv:
  assumes inv: "ipc_inv (sched m)" and out: "handle_syscall font rax rdi rsi r m = Some out"
  shows "ipc_inv (sched (outcome_machine out))"
proof -
  have send: "unat rdi \<noteq> 0" if "resume_at (sys_send (unat rdi) (unat rsi) r m) = Some out"
  proof
    assume "unat rdi = 0"
    with that show False by (simp add: resume_at_def sys_send_zero)
  qed
  consider "rax = 2" | "rax = 3" | "rax = 4" | "rax = 14" | "rax \<notin> {2, 3, 4, 14}" by blast
  then show ?thesis
  proof cases
    case 1
    with out sys_yield_inv[OF inv, of r] show ?thesis
      by (auto simp: handle_syscall_def resume_at_Some outcome_machine_def)
  next
    case 2
    with out have o: "resume_at (sys_send (unat rdi) (unat rsi) r m) = Some out"
      by (simp add: handle_syscall_def)
    with sys_send_inv[OF inv, of "unat rdi" "unat rsi" r] send show ?thesis
      by (auto simp: resume_at_Some outcome_machine_def Suc_le_eq)
  next
    case 3
    with out sys_recv_inv[OF inv, of "unat rdi" "unat rsi" r] show ?thesis
      by (auto simp: handle_syscall_def resume_at_Some outcome_machine_def)
  next
    case 4
    with out sys_try_recv_inv[OF inv, of "unat rdi" "unat rsi" r] show ?thesis
      by (auto simp: handle_syscall_def resume_at_Some outcome_machine_def)
  next
    case 5
    with out plain_calls_keep_sched inv show ?thesis
      unfolding handle_syscall_def Let_def by (auto split: if_splits)
  qed
qed

subsection \<open>Properties\<close>

text \<open>
  No call breaks the kernel's communication invariant: for every call number and every
  argument, if the call returns or halts, ids still match slots, blocked senders still carry
  their true ids and no acceptable message is left waiting for a blocked receiver.
\<close>

theorem syscall_keeps_ipc_inv:
  assumes "ipc_inv (sched m)" and "handle_syscall font rax rdi rsi r m = Some out"
  shows "ipc_inv (sched (outcome_machine out))"
  by (rule handle_syscall_inv[OF assms])

definition demo_machine :: machine where
  "demo_machine = \<lparr>sched = demo_scheduler, memory = (\<lambda>_. 0), rsp0 = 0, kstack = 0, ticks = 9,
     port_log = [], used_mem = 5, screen = None\<rparr>"

lemma demo_machine_inv: "ipc_inv (sched demo_machine)"
  using booted_inv[OF booted_demo] by (simp add: demo_machine_def demo_kernel_def)

theorem syscall_keeps_ipc_inv_witness:
  "ipc_inv (sched (outcome_machine (the (handle_syscall (\<lambda>_. None) 7 0 0 4096 demo_machine))))"
proof -
  have "handle_syscall (\<lambda>_. None) 7 0 0 4096 demo_machine =
      Some (the (handle_syscall (\<lambda>_. None) 7 0 0 4096 demo_machine))"
    by (simp add: handle_syscall_def return_rax_def)
  from syscall_keeps_ipc_inv[OF demo_machine_inv this] show ?thesis .
qed



text \<open>
  Task information reports every task: when all numbers fit ten digits, the caller's buffer
  holds the line of every occupied slot in slot order, cut at 512 bytes and at the caller's limit,
  and \<open>rax\<close> is the length of the text cut at 512 only. Otherwise the kernel panics.
\<close>

theorem task_info_reports:
  "sys_task_info p max_len r m =
     (if list_all prints_in_ten (tasks (sched m))
      then let text = concat (map task_text (tasks (sched m))) in
        return_rax r (word_of_nat (min 512 (length text)))
          (m\<lparr>memory := store (memory m) p (take (min 512 max_len) text)\<rparr>)
      else None)"
  by (rule sys_task_info_spec)



end
