(* ===== verification/Terminal.thy ===== *)
theory Terminal
  imports Shell Fs_Server Syscall
begin

text \<open>
  What the shell does on the screen. The system calls it relies on are the locale
  \<open>shell_services\<close>: printing adds to what has been printed and changes no memory. Inside it the
  line editor is related to an editor on lists, and the commands to their output. The terminal
  at the end connects the shell to the file system and ATA servers of this kernel and provides
  the interface.
\<close>

subsection \<open>Reference editor\<close>

text \<open>One key on a line of at most 64 characters, and what is echoed for it.\<close>

definition edit :: "bytes \<Rightarrow> u8 \<Rightarrow> bytes" where
  "edit line c =
     (if c = 0x08 then butlast line else if length line < 64 then line @ [c] else line)"

definition echo :: "bytes \<Rightarrow> u8 \<Rightarrow> bytes" where
  "echo line c = (if c = 0x08 then (if line = [] then [] else [c]) else if length line < 64 then [c] else [])"

fun echoes :: "bytes \<Rightarrow> bytes \<Rightarrow> bytes" where
  "echoes line [] = []"
| "echoes line (c # ks) = echo line c @ echoes (edit line c) ks"

text \<open>A display on which a backspace takes the last character away.\<close>

definition display :: "bytes \<Rightarrow> bytes \<Rightarrow> bytes" where
  "display = foldl (\<lambda>shown c. if c = 0x08 then butlast shown else shown @ [c])"

lemma display_append: "display shown (a @ b) = display (display shown a) b"
  by (simp add: display_def)

lemma display_echoes: "display line (echoes line ks) = foldl edit line ks"
proof (induction ks arbitrary: line)
  case (Cons c ks)
  have "display line (echo line c) = edit line c"
    by (simp add: display_def echo_def edit_def)
  with Cons show ?case by (simp add: display_append)
qed (simp add: display_def)

text \<open>The keys of a line, one after the other.\<close>

fun shell_keys :: "'w os \<Rightarrow> locals \<Rightarrow> bytes \<Rightarrow> shell \<Rightarrow> 'w \<Rightarrow> (shell \<times> 'w) option" where
  "shell_keys os at [] s w = Some (s, w)"
| "shell_keys os at (c # ks) s w =
     do { (s, w) \<leftarrow> shell_key os at c s w; shell_keys os at ks s w }"

lemma shell_keys_append:
  "shell_keys os at (a @ b) s w = shell_keys os at a s w \<bind> (\<lambda>(s, w). shell_keys os at b s w)"
  by (induction a arbitrary: s w) (auto split: bind_splits)

text \<open>The command buffer holds a line.\<close>

definition holds_line :: "bytes \<Rightarrow> shell \<Rightarrow> bool" where
  "holds_line line s \<longleftrightarrow> length (cmd_buf s) = 64 \<and> length line \<le> 64 \<and> cmd_len s = length line \<and>
     take (length line) (cmd_buf s) = line"

subsection \<open>Formatted output\<close>

lemma num_text_decimal: "n < usize_bound \<Longrightarrow> num_text n = Some (decimal n)"
  using format_num_spec[of "replicate 20 0" n] decimal_fits_20[of n]
    drop_overwrite_end[of "decimal n" "replicate 20 0"] decimal_ascii[of n]
  by (simp add: num_text_def usize_bound_def)

lemma unat_less_usize: "unat (w :: u64) < usize_bound"
  using unat_lt2p[of w] by (simp add: usize_bound_def)

lemma put_filled:
  assumes "n < usize_bound" and "length out + length s \<le> n"
  shows "put s (filled n out) = Some (filled n (out @ s))"
  using append_filled[OF assms(1), of s out] assms
  by (auto simp: put_def append_text_def filled_def usub_def uadd_def min_def Let_def bind_eq_Some_conv)

lemma for_put:
  assumes "\<And>i st. lo \<le> i \<Longrightarrow> i < lo + k \<Longrightarrow> f i st = put (s i) st" and "n < usize_bound"
    and "length out + (\<Sum>i\<leftarrow>[lo..<lo + k]. length (s i)) \<le> n"
  shows "for_from lo k f (filled n out) = Some (filled n (out @ concat (map s [lo..<lo + k])))"
  using assms
proof (induction k arbitrary: lo out)
  case (Suc k)
  have up: "[lo..<lo + Suc k] = lo # [Suc lo..<Suc lo + k]"
    by (subst upt_rec) (simp del: upt_Suc)
  have "length out + length (s lo) \<le> n" using Suc.prems(3) unfolding up by simp
  then have "f lo (filled n out) = Some (filled n (out @ s lo))"
    using Suc.prems(1)[of lo] put_filled[of n out "s lo"] Suc.prems(2) by simp
  moreover have "for_from (Suc lo) k f (filled n (out @ s lo)) =
      Some (filled n ((out @ s lo) @ concat (map s [Suc lo..<Suc lo + k])))"
    by (rule Suc.IH) (use Suc.prems(1,2) Suc.prems(3)[unfolded up] in \<open>auto simp del: upt_Suc\<close>)
  ultimately show ?case unfolding up by simp
qed simp

lemma filled_text: "length out \<le> n \<Longrightarrow> take (snd (filled n out)) (fst (filled n out)) = out"
  by (simp add: filled_def)

text \<open>Two hexadecimal digits of a byte, and a line of a dump.\<close>

definition hex2 :: "u8 \<Rightarrow> bytes" where
  "hex2 b = [hex_chars ! (unat b div 16), hex_chars ! (unat b mod 16)]"

definition printable :: "u8 \<Rightarrow> u8" where
  "printable b = (if 32 \<le> b \<and> b \<le> 126 then b else 0x2E)"

definition dump_text :: "bytes \<Rightarrow> nat \<Rightarrow> bytes" where
  "dump_text sector line =
     (let offset = line * 16 in
      [0x30, hex_chars ! (offset div 256), hex_chars ! (offset div 16 mod 16),
       hex_chars ! (offset mod 16), 0x3A, 0x20] @
      concat (map (\<lambda>b. hex2 b @ [0x20]) (slice sector offset 16)) @ str '' |'' @
      map printable (slice sector offset 16) @ str ''|'' @ [0x0A])"

lemma length_hex_chars [simp]: "length hex_chars = 16"
  by (simp add: hex_chars_def)

lemma hex_byte_hex2: "hex_byte b = Some (hex2 b)"
proof -
  have "unat (drop_bit 4 b) = unat b div 16" 
    by (simp only: unat_drop_bit_eq) (simp add: drop_bit_eq_div)
  moreover have "unat (b AND 0xF) = unat b mod 16"
  proof -
    have "(0xF :: u8) = mask 4" by (simp add: mask_eq_exp_minus_1)
    then have "b AND 0xF = take_bit 4 b" by (simp only: take_bit_eq_mask)
    then show ?thesis by (simp only: unsigned_take_bit_eq) (simp add: take_bit_eq_mod)
  qed
  moreover have "unat b div 16 < 16" using unat_lt2p[of b] by simp
  ultimately show ?thesis by (simp add: hex_byte_def hex2_def checked)
qed

lemma nibble: "n AND 0xF = n mod 16" for n :: nat
proof -
  have "(0xF :: nat) = mask 4" by (simp add: mask_eq_exp_minus_1)
  then show ?thesis by (simp only: take_bit_eq_mask[symmetric] take_bit_eq_mod) simp
qed

lemma slice_map: "lo + n \<le> length xs \<Longrightarrow> slice xs lo n = map (\<lambda>i. xs ! (lo + i)) [0..<n]"
  by (rule nth_equalityI) (auto simp: slice_def)

lemma dump_line_text:
  assumes "length sector = 512" and "line < 32"
  shows "dump_line sector line = Some (filled 80 (dump_text sector line))"
    and "length (dump_text sector line) = 74"
proof -
  let ?o = "line * 16"
  define hs where "hs = concat (map (\<lambda>i. hex2 (sector ! (?o + i)) @ [0x20]) [0..<0 + 16])"
  define ks where "ks = concat (map (\<lambda>i. [printable (sector ! (?o + i))]) [0..<0 + 16])"
  define h where "h = [0x30, hex_chars ! (?o div 256), hex_chars ! (?o div 16 mod 16),
    hex_chars ! (?o mod 16), 0x3A, 0x20]"
  have big: "(80 :: nat) < usize_bound" by (simp add: usize_bound_def)
  have len: "length h = 6" "length hs = 48" "length ks = 16"
    by (simp_all add: h_def hs_def ks_def hex2_def upt_rec)
  have o: "?o < 512" using assms(2) by simp
  have digits: "idx hex_chars (drop_bit 8 ?o AND 0xF) = Some (hex_chars ! (?o div 256))"
    "idx hex_chars (drop_bit 4 ?o AND 0xF) = Some (hex_chars ! (?o div 16 mod 16))"
    "idx hex_chars (?o AND 0xF) = Some (hex_chars ! (?o mod 16))"
  proof -
    have "?o div 256 mod 16 = ?o div 256" using o by (intro mod_less) simp
    then show "idx hex_chars (drop_bit 8 ?o AND 0xF) = Some (hex_chars ! (?o div 256))"
      unfolding nibble by (simp add: drop_bit_eq_div checked)
    show "idx hex_chars (drop_bit 4 ?o AND 0xF) = Some (hex_chars ! (?o div 16 mod 16))"
      "idx hex_chars (?o AND 0xF) = Some (hex_chars ! (?o mod 16))"
      unfolding nibble by (simp_all add: drop_bit_eq_div checked)
  qed
  have item: "idx sector (?o + i) = Some (sector ! (?o + i))" if "i < 16" for i
    using that o assms by (simp add: checked)
  have start: "put h (replicate 80 0, 0) = Some (filled 80 h)"
    using put_filled[OF big, of "[]" h] len by (simp add: filled_Nil)
  have hex: "for_range 16 (\<lambda>i st. do { b \<leftarrow> idx sector (?o + i); h \<leftarrow> hex_byte b; put (h @ [0x20]) st })
      (filled 80 h) = Some (filled 80 (h @ hs))"
    unfolding hs_def
    by (rule for_put[OF _ big]) (use item len in \<open>simp_all add: hex_byte_hex2 hex2_def upt_rec\<close>)
  have bar: "put (str '' |'') (filled 80 (h @ hs)) = Some (filled 80 (h @ hs @ str '' |''))"
    using put_filled[OF big, of "h @ hs" "str '' |''"] len by simp
  have chars: "for_range 16 (\<lambda>i st. do { b \<leftarrow> idx sector (?o + i);
        put [if 32 \<le> b \<and> b \<le> 126 then b else 0x2E] st }) (filled 80 (h @ hs @ str '' |'')) =
      Some (filled 80 ((h @ hs @ str '' |'') @ ks))"
    unfolding ks_def
    by (rule for_put[OF _ big]) (use item len in \<open>simp_all add: printable_def upt_rec\<close>)
  have finish: "put (str ''|'' @ [0x0A]) (filled 80 ((h @ hs @ str '' |'') @ ks)) =
      Some (filled 80 (h @ hs @ str '' |'' @ ks @ str ''|'' @ [0x0A]))"
    using put_filled[OF big, of "(h @ hs @ str '' |'') @ ks" "str ''|'' @ [0x0A]"] len by simp
  have eq: "dump_text sector line = h @ hs @ str '' |'' @ ks @ str ''|'' @ [0x0A]"
  proof -
    have "slice sector ?o 16 = map (\<lambda>i. sector ! (?o + i)) [0..<16]"
      using o assms by (intro slice_map) auto
    then show ?thesis by (simp add: dump_text_def h_def hs_def ks_def comp_def Let_def)
  qed
  show "dump_line sector line = Some (filled 80 (dump_text sector line))"
    unfolding dump_line_def Let_def digits bind.simps h_def[symmetric] start hex bar chars finish eq
    by (rule refl)
  show "length (dump_text sector line) = 74" using len by (simp add: eq)
qed

text \<open>
  The number after \<open>dump\<close>: the value of the digits at the start, if a \<open>u32\<close> holds it; larger
  numbers overflow, which panics.
\<close>

definition is_digit :: "u8 \<Rightarrow> bool" where
  "is_digit b \<longleftrightarrow> 0x30 \<le> b \<and> b \<le> 0x39"

definition value_from :: "nat \<Rightarrow> bytes \<Rightarrow> nat" where
  "value_from = foldl (\<lambda>acc b. acc * 10 + (unat b - 0x30))"

lemma value_from_ge: "acc \<le> value_from acc ds"
proof (induction ds arbitrary: acc)
  case (Cons b ds)
  have "acc \<le> acc * 10 + (unat b - 0x30)" by simp
  also have "\<dots> \<le> value_from (acc * 10 + (unat b - 0x30)) ds" by (rule Cons)
  finally show ?case by (simp add: value_from_def)
qed (simp add: value_from_def)

lemma digit_value:
  assumes "is_digit b"
  shows "unat (ucast (b - 0x30 :: u8) :: u32) = unat b - 0x30"
proof -
  have "unat (b - 0x30) = unat b - 0x30"
    using assms by (simp add: is_digit_def unat_sub word_le_nat_alt)
  moreover have "unat (ucast (b - 0x30) :: u32) = unat (b - 0x30)"
    using unat_lt2p[of "b - 0x30"] by (simp add: unsigned_ucast_eq take_bit_eq_mod)
  ultimately show ?thesis by simp
qed

lemma parse_lba_digit:
  assumes "is_digit b" and "acc < 2 ^ 32"
  shows "parse_lba (b # s) (word_of_nat acc) =
    (let v = acc * 10 + (unat b - 0x30) in if v < 2 ^ 32 then parse_lba s (word_of_nat v) else None)"
proof -
  let ?d = "unat b - 0x30" and ?x = "ucast (b - 0x30) :: u32"
  have acc: "unat (word_of_nat acc :: u32) = acc" using assms(2) by (simp add: unat_of_nat)
  have d: "unat ?x = ?d" "?x = word_of_nat ?d"
    using digit_value[OF assms(1)] by (simp, metis of_nat_unat ucast_id)
  have step: "parse_lba (b # s) (word_of_nat acc) =
      do { l \<leftarrow> wmul (word_of_nat acc) 10; l \<leftarrow> wadd l ?x; parse_lba s l }"
    using assms(1) by (simp add: is_digit_def)
  show ?thesis
  proof (cases "acc * 10 < 2 ^ 32")
    case True
    then have mul: "wmul (word_of_nat acc :: u32) 10 = Some (word_of_nat (acc * 10))"
      using acc by (simp add: wmul_def)
    have u: "unat (word_of_nat (acc * 10) :: u32) = acc * 10"
      using True by (simp only: unat_of_nat) simp
    have "wadd (word_of_nat (acc * 10) :: u32) ?x =
        (if acc * 10 + ?d < 2 ^ 32 then Some (word_of_nat (acc * 10 + ?d)) else None)"
      unfolding wadd_def u d(1) by (simp add: d(2))
    then show ?thesis unfolding step mul Let_def by simp
  next
    case False
    then have "wmul (word_of_nat acc :: u32) 10 = None" using acc by (simp add: wmul_def)
    with False step show ?thesis by (simp add: Let_def)
  qed
qed

lemma parse_lba_value:
  assumes "acc < 2 ^ 32"
  shows "parse_lba s (word_of_nat acc) =
    (let v = value_from acc (takeWhile is_digit s) in
     if v < 2 ^ 32 then Some (word_of_nat v) else None)"
  using assms
proof (induction s arbitrary: acc)
  case (Cons b s)
  show ?case
  proof (cases "is_digit b")
    case True
    let ?v = "acc * 10 + (unat b - 0x30)"
    have step: "value_from acc (takeWhile is_digit (b # s)) = value_from ?v (takeWhile is_digit s)"
      using True by (simp add: value_from_def)
    show ?thesis
    proof (cases "?v < 2 ^ 32")
      case v: True
      then show ?thesis
        unfolding step parse_lba_digit[OF True Cons.prems] Let_def
        using Cons.IH[OF v] by (simp add: Let_def)
    next
      case v: False
      have "\<not> value_from ?v (takeWhile is_digit s) < 2 ^ 32"
        using v value_from_ge[of ?v] by (meson le_less_trans)
      with v show ?thesis
        unfolding step parse_lba_digit[OF True Cons.prems] Let_def by simp
    qed
  next
    case False
    then have "parse_lba (b # s) (word_of_nat acc) = Some (word_of_nat acc)"
      by (auto simp: is_digit_def)
    with False Cons.prems show ?thesis by (simp add: value_from_def)
  qed
qed (simp add: value_from_def)

subsection \<open>Interface\<close>

locale shell_services =
  fixes os :: "'w os" and out :: "'w \<Rightarrow> bytes" and ok :: "'w \<Rightarrow> bool"
  assumes mem_set: "os_mem os (os_set_mem os m w) = m"
    and ok_set: "ok w \<Longrightarrow> ok (os_set_mem os m w)"
    and out_set: "out (os_set_mem os m w) = out w"
    and print: "ok w \<Longrightarrow> \<exists>w'. os_print os s w = Some w' \<and> ok w' \<and> out w' = out w @ s \<and>
      os_mem os w' = os_mem os w"
begin

text \<open>A step that only prints.\<close>

definition prints :: "'w \<Rightarrow> bytes \<Rightarrow> 'w option \<Rightarrow> bool" where
  "prints w s r \<longleftrightarrow> (\<exists>w'. r = Some w' \<and> ok w' \<and> out w' = out w @ s \<and> os_mem os w' = os_mem os w)"

lemma print_prints: "ok w \<Longrightarrow> prints w s (os_print os s w)"
  using print[of w s] by (auto simp: prints_def)

lemma prints_then:
  assumes "prints w a r" and "\<And>w'. ok w' \<Longrightarrow> prints w' b (f w')"
  shows "prints w (a @ b) (r \<bind> f)"
  using assms unfolding prints_def by fastforce

lemma print_all_prints: "ok w \<Longrightarrow> prints w (concat texts) (print_all os texts w)"
proof (induction texts arbitrary: w)
  case (Cons s texts)
  then show ?case by (simp add: prints_then[OF print_prints])
qed (simp add: prints_def)

lemma for_prints:
  assumes "\<And>i w. lo \<le> i \<Longrightarrow> i < lo + n \<Longrightarrow> ok w \<Longrightarrow> os_mem os w = m \<Longrightarrow> prints w (s i) (f i w)"
  shows "ok w \<Longrightarrow> os_mem os w = m \<Longrightarrow> prints w (concat (map s [lo..<lo + n])) (for_from lo n f w)"
  using assms
proof (induction n arbitrary: lo w)
  case (Suc n)
  obtain w' where w': "f lo w = Some w'" "ok w'" "out w' = out w @ s lo" "os_mem os w' = m"
    using Suc.prems(3)[of lo w] Suc.prems(1,2) by (auto simp: prints_def)
  have "prints w' (concat (map s [Suc lo..<Suc lo + n])) (for_from (Suc lo) n f w')"
    by (rule Suc.IH) (use w' Suc.prems(3) in auto)
  with w' Suc.prems(2) show ?case by (auto simp: prints_def upt_rec)
qed (simp add: prints_def)

text \<open>One key, and a line of keys.\<close>

lemma key_edits:
  assumes "ok w" and "holds_line line s" and "c \<noteq> 0x0A"
  shows "\<exists>s' w'. shell_key os at c s w = Some (s', w') \<and> holds_line (edit line c) s' \<and> ok w' \<and>
    out w' = out w @ echo line c \<and> os_mem os w' = os_mem os w"
proof -
  note s = assms(2)[unfolded holds_line_def]
  consider "c = 0x08" "line = []" | "c = 0x08" "line \<noteq> []" | "c \<noteq> 0x08" "length line < 64"
    | "c \<noteq> 0x08" "\<not> length line < 64" by blast
  then show ?thesis
  proof cases
    case 1
    then show ?thesis using assms s by (simp add: shell_key_def edit_def echo_def holds_line_def)
  next
    case 2
    obtain w' where w': "os_print os [0x08] w = Some w'" "ok w'" "out w' = out w @ [0x08]"
      "os_mem os w' = os_mem os w" using print[OF assms(1)] by blast
    have "take (length line - 1) (cmd_buf s) = butlast line"
      using s by (metis butlast_conv_take butlast_take diff_le_self min.absorb2 take_take)
    moreover have "length line - 1 \<le> 64" using s by linarith
    ultimately show ?thesis using 2 w' s
      by (simp add: shell_key_def edit_def echo_def holds_line_def)
  next
    case 3
    obtain w' where w': "os_print os [c] w = Some w'" "ok w'" "out w' = out w @ [c]"
      "os_mem os w' = os_mem os w" using print[OF assms(1)] by blast
    have "take (Suc (length line)) ((cmd_buf s)[length line := c]) = line @ [c]"
      using s 3(2) by (simp add: take_Suc_conv_app_nth)
    with 3 w' s assms(3) show ?thesis
      by (simp add: shell_key_def edit_def echo_def holds_line_def checked)
  next
    case 4
    then show ?thesis using assms s by (auto simp: shell_key_def edit_def echo_def holds_line_def)
  qed
qed

lemma keys_edit:
  assumes "0x0A \<notin> set ks" and "ok w" and "holds_line line s"
  shows "\<exists>s' w'. shell_keys os at ks s w = Some (s', w') \<and> holds_line (foldl edit line ks) s' \<and>
    ok w' \<and> out w' = out w @ echoes line ks \<and> os_mem os w' = os_mem os w"
  using assms
proof (induction ks arbitrary: w line s)
  case (Cons c ks)
  from key_edits[OF Cons.prems(2,3), of c at] Cons.prems(1) obtain s1 w1
    where 1: "shell_key os at c s w = Some (s1, w1)" "holds_line (edit line c) s1" "ok w1"
      "out w1 = out w @ echo line c" "os_mem os w1 = os_mem os w" by auto
  from Cons.IH[OF _ 1(3,2)] Cons.prems(1) 1 show ?case by auto
qed simp

text \<open>Enter, with the command between a newline and the prompt.\<close>

lemma enter_runs:
  assumes "ok w" and "holds_line line s" and "\<forall>b\<in>set line. b < 0x80"
  shows "\<exists>w'. ok w' \<and> out w' = out w @ [0x0A] \<and> os_mem os w' = os_mem os w \<and>
    shell_key os at 0x0A s w =
      do {
        w \<leftarrow> (if line = [] then Some w' else run_command os at (trim line) w');
        w \<leftarrow> os_print os prompt w;
        Some (s\<lparr>cmd_len := 0\<rparr>, w)
      }"
proof -
  obtain w' where w': "os_print os [0x0A] w = Some w'" "ok w'" "out w' = out w @ [0x0A]"
    "os_mem os w' = os_mem os w" using print[OF assms(1)] by blast
  have "from_utf8 (take (cmd_len s) (cmd_buf s)) = Some line"
    using assms(2,3) by (simp add: holds_line_def)
  moreover have "0 < cmd_len s \<longleftrightarrow> line \<noteq> []" using assms(2) by (simp add: holds_line_def)
  ultimately show ?thesis using w' by (intro exI[of _ w']) (simp add: shell_key_def shell_enter_def)
qed

lemma line_runs:
  assumes keys: "\<forall>c\<in>set ks. c < 0x80 \<and> c \<noteq> 0x0A" and ok: "ok w" and s: "holds_line [] s"
  shows "\<exists>s' w'. ok w' \<and> out w' = out w @ echoes [] ks @ [0x0A] \<and> os_mem os w' = os_mem os w \<and>
    holds_line [] s' \<and> shell_keys os at (ks @ [0x0A]) s w =
      do {
        w \<leftarrow> (if foldl edit [] ks = [] then Some w'
               else run_command os at (trim (foldl edit [] ks)) w');
        w \<leftarrow> os_print os prompt w;
        Some (s', w)
      }"
proof -
  have nl: "0x0A \<notin> set ks" using keys by blast
  obtain s1 w1 where 1: "shell_keys os at ks s w = Some (s1, w1)" "holds_line (foldl edit [] ks) s1"
    "ok w1" "out w1 = out w @ echoes [] ks" "os_mem os w1 = os_mem os w"
    using keys_edit[OF nl ok s] by blast
  have ascii: "\<forall>b\<in>set (foldl edit line ks). b < 0x80"
    if "\<forall>b\<in>set line. b < 0x80" "\<forall>b\<in>set ks. b < 0x80" for line ks :: bytes
    using that
  proof (induction ks arbitrary: line)
    case (Cons c ks)
    have "\<forall>b\<in>set (edit line c). b < 0x80"
      using Cons.prems by (auto simp: edit_def dest: in_set_butlastD)
    with Cons show ?case by simp
  qed simp
  from enter_runs[OF 1(3,2), of at] ascii[of "[]" ks] keys obtain w' where
    "ok w'" "out w' = out w1 @ [0x0A]" "os_mem os w' = os_mem os w1"
    "shell_key os at 0x0A s1 w1 = do {
        w \<leftarrow> (if foldl edit [] ks = [] then Some w'
               else run_command os at (trim (foldl edit [] ks)) w');
        w \<leftarrow> os_print os prompt w;
        Some (s1\<lparr>cmd_len := 0\<rparr>, w)
      }" by auto
  moreover have "holds_line [] (s1\<lparr>cmd_len := 0\<rparr>)" using 1(2) by (simp add: holds_line_def)
  ultimately show ?thesis
    by (intro exI[of _ "s1\<lparr>cmd_len := 0\<rparr>"] exI[of _ w'])
      (simp add: shell_keys_append 1 bind_assoc split_beta)
qed

text \<open>The commands that only format numbers.\<close>

lemma dump_prints:
  assumes "ok w" and "length sector = 512" and "bytes_at os a 512 w = sector"
  shows "prints w (concat (map (dump_text sector) [0..<32]))
    (for_range 32 (\<lambda>line w. do {
       (line_buf, cursor) \<leftarrow> dump_line (bytes_at os a 512 w) line;
       os_print os (take cursor line_buf) w }) w)"
proof -
  have "prints w (concat (map (dump_text sector) [0..<0 + 32]))
    (for_range 32 (\<lambda>line w. do {
       (line_buf, cursor) \<leftarrow> dump_line (bytes_at os a 512 w) line;
       os_print os (take cursor line_buf) w }) w)"
  proof (rule for_prints[OF _ assms(1) refl])
    fix i :: nat and v assume i: "i < 0 + 32" and v: "ok v" "os_mem os v = os_mem os w"
    have "bytes_at os a 512 v = sector" using v(2) assms(3) by (simp add: bytes_at_def)
    then show "prints v (dump_text sector i) (do {
        (line_buf, cursor) \<leftarrow> dump_line (bytes_at os a 512 v) i; os_print os (take cursor line_buf) v })"
      using dump_line_text[OF assms(2), of i] i print_prints[OF v(1)] by (simp add: filled_def)
  qed
  then show ?thesis by simp
qed

lemma uptime_prints:
  assumes "ok w" and "os_ticks os w < usize_bound"
  shows "prints w (str ''System Uptime: '' @ decimal (os_ticks os w div 200) @ str '' seconds ('' @
    decimal (os_ticks os w) @ str '' raw ticks)'' @ [0x0A]) (cmd_uptime os w)"
proof -
  have "os_ticks os w div 200 < usize_bound" using assms(2) div_le_dividend le_less_trans by blast
  then show ?thesis
    using assms print_all_prints[OF assms(1), of "[str ''System Uptime: '', decimal (os_ticks os w div 200),
      str '' seconds ('', decimal (os_ticks os w), str '' raw ticks)'' @ [0x0A]]"]
    by (simp add: cmd_uptime_def num_text_decimal PIT_HZ_def checked Let_def)
qed

lemma free_prints:
  assumes "ok w"
  shows "if os_used os w \<le> 1024 * 1024
    then prints w (str ''Heap Memory Stats:'' @ [0x0A] @ str ''  Total size: '' @ decimal (1024 * 1024) @
        str '' bytes'' @ [0x0A] @ str ''  Used size:  '' @ decimal (os_used os w) @
        str '' bytes'' @ [0x0A] @ str ''  Free size:  '' @ decimal (1024 * 1024 - os_used os w) @
        str '' bytes'' @ [0x0A]) (cmd_free os w)
    else cmd_free os w = None"
proof (cases "os_used os w \<le> 1024 * 1024")
  case True
  let ?out = "str ''Heap Memory Stats:'' @ [0x0A] @ str ''  Total size: '' @ decimal (1024 * 1024) @
        str '' bytes'' @ [0x0A] @ str ''  Used size:  '' @ decimal (os_used os w) @
        str '' bytes'' @ [0x0A] @ str ''  Free size:  '' @ decimal (1024 * 1024 - os_used os w) @
        str '' bytes'' @ [0x0A]"
  have seven: "length (decimal n) \<le> 7" if "n \<le> 1024 * 1024" for n
    using that length_digits[of n 7] by (simp add: decimal_def)
  have len: "length ?out \<le> 128"
    using seven[of "1024 * 1024"] seven[OF True] seven[of "1024 * 1024 - os_used os w"] by simp
  have "cmd_free os w = os_print os (take (snd (filled 128 ?out)) (fst (filled 128 ?out))) w"
    using True by (simp add: cmd_free_def num_text_decimal checked usize_bound_def append_filled
      filled_Nil[symmetric] split_beta Let_def)
  then have "cmd_free os w = os_print os ?out w" unfolding filled_text[OF len] .
  then show ?thesis using True print_prints[OF assms, of ?out] by simp
qed (simp add: cmd_free_def usub_def Let_def)

end

subsection \<open>The terminal\<close>

text \<open>
  The machine behind the shell: memory, the drive with the ATA server's buffer, what has been
  printed, and the kernel. Requests go to the two servers; an unanswered one leaves the shell
  waiting. Printing is logged as the bytes handed to call 1. The other calls are the
  dispatcher's, with the result in the caller's frame.
\<close>

record 'd terminal =
  term_disk :: "'d disk_world"
  term_out :: bytes
  term_machine :: machine

definition term_call ::
  "font \<Rightarrow> nat \<Rightarrow> u64 \<Rightarrow> nat \<Rightarrow> nat \<Rightarrow> 'd terminal \<Rightarrow> (u64 \<times> 'd terminal) option" where
  "term_call font frame rax rdi rsi w =
     (case handle_syscall font rax (word_of_nat rdi) (word_of_nat rsi) frame
        (term_machine w\<lparr>memory := dw_mem (term_disk w)\<rparr>) of
        Some (Resume r m) \<Rightarrow>
          Some (load64 (memory m) (frame + 112),
            w\<lparr>term_machine := m, term_disk := term_disk w\<lparr>dw_mem := memory m\<rparr>\<rparr>)
      | _ \<Rightarrow> None)"

definition term_request ::
  "'d port_bus \<Rightarrow> nat \<Rightarrow> nat \<Rightarrow> message \<Rightarrow> 'd terminal \<Rightarrow> (message \<times> 'd terminal) option" where
  "term_request bus buf dest msg w =
     (if dest = 2 then
        (case fs_serve bus buf msg (term_disk w) of
           Some (Some resp, d) \<Rightarrow> Some (resp, w\<lparr>term_disk := d\<rparr>)
         | _ \<Rightarrow> None)
      else if dest = 3 then
        (case ata_serve bus msg (term_disk w) of
           (Some resp, d) \<Rightarrow> Some (resp, w\<lparr>term_disk := d\<rparr>)
         | _ \<Rightarrow> None)
      else None)"

definition terminal_os :: "'d port_bus \<Rightarrow> nat \<Rightarrow> font \<Rightarrow> nat \<Rightarrow> 'd terminal os" where
  "terminal_os bus buf font frame =
     \<lparr>os_mem = (\<lambda>w. dw_mem (term_disk w)),
      os_set_mem = (\<lambda>m w. w\<lparr>term_disk := term_disk w\<lparr>dw_mem := m\<rparr>\<rparr>),
      os_print = (\<lambda>s w. Some (w\<lparr>term_out := term_out w @ s\<rparr>)),
      os_call = term_request bus buf,
      os_used = (\<lambda>w. used_mem (term_machine w)),
      os_task_info = (\<lambda>a n w. map_option (\<lambda>(r, w). (unat r, w)) (term_call font frame 6 a n w)),
      os_ticks = (\<lambda>w. unat (ticks (term_machine w))),
      os_gop_info = (\<lambda>a w. case term_call font frame 8 a 0 w of Some r \<Rightarrow> r | None \<Rightarrow> (- 1, w)),
      os_reboot = (\<lambda>w. map_option snd (term_call font frame 9 0 0 w)),
      os_shutdown = (\<lambda>w. map_option snd (term_call font frame 10 0 0 w)),
      os_gfx_demo = (\<lambda>w. map_option snd (term_call font frame 11 0 0 w))\<rparr>"

definition term_ready ::
  "'d port_bus \<Rightarrow> ('d \<Rightarrow> nat \<Rightarrow> u8) \<Rightarrow> ('d \<Rightarrow> ata_phase) \<Rightarrow> (nat \<Rightarrow> bytes) \<Rightarrow> nat \<Rightarrow> 'd terminal \<Rightarrow> bool" where
  "term_ready bus regs ph disk buf w \<longleftrightarrow>
     disk_ready bus regs ph disk buf (dw_mem (term_disk w)) (term_disk w)"

interpretation terminal: shell_services "terminal_os bus buf font frame" term_out
  "term_ready bus regs ph disk buf"
  by unfold_locales (auto simp: terminal_os_def term_ready_def disk_ready_def)

subsection \<open>Listing, reading and dumping\<close>

text \<open>
  The shell's arrays lie in the address space, apart from the file system server's buffer and
  from each other.
\<close>

definition locals_ok :: "locals \<Rightarrow> nat \<Rightarrow> bool" where
  "locals_ok at buf \<longleftrightarrow>
     (\<forall>v. at v + 1024 < 2 ^ 64 \<and> (buf + 512 \<le> at v \<or> at v + 1024 \<le> buf)) \<and>
     (at F_Buf + 32 \<le> at File_Content \<or> at File_Content + 512 \<le> at F_Buf)"

lemma locals_okD: "locals_ok at buf \<Longrightarrow> at v < 2 ^ 64"
  unfolding locals_ok_def by (meson add_lessD1)

lemma word_of_nat_64: "n < 2 ^ 64 \<Longrightarrow> unat (word_of_nat n :: u64) = n"
  by (simp only: unat_of_nat) simp

lemma nul_index_found: "0 \<notin> set s \<Longrightarrow> nul_index (s @ 0 # r) = Some (length s)"
  by (induction s) auto

lemma terminal_simps:
  "os_mem (terminal_os bus buf font frame) w = dw_mem (term_disk w)"
  "os_set_mem (terminal_os bus buf font frame) m w = w\<lparr>term_disk := term_disk w\<lparr>dw_mem := m\<rparr>\<rparr>"
  "os_print (terminal_os bus buf font frame) s w = Some (w\<lparr>term_out := term_out w @ s\<rparr>)"
  "os_call (terminal_os bus buf font frame) = term_request bus buf"
  "new_local (terminal_os bus buf font frame) a n w =
     w\<lparr>term_disk := term_disk w\<lparr>dw_mem := store (dw_mem (term_disk w)) a (replicate n 0)\<rparr>\<rparr>"
  "bytes_at (terminal_os bus buf font frame) a n w = load (dw_mem (term_disk w)) a n"
  by (simp_all add: terminal_os_def new_local_def bytes_at_def)

lemma disk_ready_mem:
  "disk_ready bus regs ph disk buf (dw_mem d) d \<Longrightarrow> disk_ready bus regs ph disk buf m (d\<lparr>dw_mem := m\<rparr>)"
  by (simp add: disk_ready_def)

lemma ls_prints:
  assumes "term_ready bus regs ph disk buf w" and "vol_ok (2 ^ 28) disk"
    and "\<forall>e\<in>set (vol_listed (vol_entries disk)). vol_entry_ok (2 ^ 28) disk e"
    and "length (vol_text disk (vol_entries disk)) < 1024" and "0 \<notin> set (vol_text disk (vol_entries disk))"
    and "locals_ok at buf"
  shows "\<exists>w'. cmd_ls (terminal_os bus buf font frame) at w = Some w' \<and>
    term_out w' = term_out w @ vol_text disk (vol_entries disk)"
proof -
  let ?a = "at Fs_Buf" and ?text = "vol_text disk (vol_entries disk)"
  define m where "m = store (dw_mem (term_disk w)) ?a (replicate 1024 0)"
  define d where "d = term_disk w\<lparr>dw_mem := m\<rparr>"
  define msg where "msg = shell_request 10 ?a 1024 0"
  have a: "?a < 2 ^ 64" using assms(6) by (rule locals_okD)
  have ready: "disk_ready bus regs ph disk buf (dw_mem d) d"
    using disk_ready_mem assms(1) by (simp add: d_def term_ready_def)
  have msg: "msg_type msg = 10" "unat (arg1 msg) = ?a" "unat (arg2 msg) = 1024"
    using word_of_nat_64[OF a] by (simp_all add: msg_def shell_request_def)
  have shown: "listing_shown disk = ?text @ [0]" using assms(4) by (simp add: listing_shown_def)
  from fs_serve_list_answer[OF ready assms(2,3) msg(1)] obtain d' where
    d': "fs_serve bus buf msg d = Some (Some (fs_response 0 0), d')"
    and load: "load (dw_mem d') ?a (length (?text @ [0])) = ?text @ [0]"
    using assms(4) unfolding msg shown by (auto simp: Let_def)
  have "load (dw_mem d') ?a 1024 = load (dw_mem d') ?a (length (?text @ [0]) + (1023 - length ?text))"
    using assms(4) by simp
  also have "\<dots> = ?text @ 0 # load (dw_mem d') (?a + length (?text @ [0])) (1023 - length ?text)"
    unfolding load_add load by simp
  finally have nul: "nul_index (load (dw_mem d') ?a 1024) = Some (length ?text)"
    using nul_index_found[OF assms(5)] by simp
  have "load (dw_mem d') ?a (length ?text) = ?text"
    using load load_add[of "dw_mem d'" ?a "length ?text" 1] by simp
  with d' nul show ?thesis
    by (simp add: cmd_ls_def terminal_simps term_request_def m_def[symmetric] d_def[symmetric]
      msg_def[symmetric] fs_response_def)
qed

text \<open>A file name the shell passes on: at most 31 visible ASCII characters.\<close>

definition plain_name :: "bytes \<Rightarrow> bool" where
  "plain_name s \<longleftrightarrow> s \<noteq> [] \<and> length s < 32 \<and> (\<forall>b\<in>set s. 0x20 < b \<and> b < 0x7F)"

text \<open>What \<open>cat\<close> shows of a file: at most 512 bytes of its first block.\<close>

definition cat_text :: "(nat \<Rightarrow> bytes) \<Rightarrow> bytes \<Rightarrow> bytes" where
  "cat_text disk name =
     (case vol_find disk name of
        None \<Rightarrow> str ''File not found!'' @ [0x0A]
      | Some e \<Rightarrow>
          take (min (unat (in_size (vol_inode disk e))) 512) (vol_first_block disk (vol_inode disk e)) @ [0x0A])"

lemma name_array:
  assumes "plain_name s"
  shows "copy_slice (replicate 32 0) 0 (take (min (length s) 31) s) \<bind>
      (\<lambda>f. upd f (min (length s) 31) 0) = Some (s @ replicate (32 - length s) 0)"
proof -
  have len: "length s < 32" using assms by (simp add: plain_name_def)
  then have "copy_slice (replicate 32 0) 0 s = Some (s @ replicate (32 - length s) 0)"
    by (simp add: copy_slice_def overwrite_def)
  moreover have "replicate (32 - length s) (0 :: u8) = 0 # replicate (31 - length s) 0"
    using len by (simp add: replicate_Suc[symmetric] Suc_diff_le del: replicate_Suc)
  then have "upd (s @ replicate (32 - length s) 0) (length s) 0 = Some (s @ replicate (32 - length s) 0)"
    using len by (simp add: upd_def list_update_append)
  ultimately show ?thesis using len by (simp add: min_def)
qed

lemma name_in_memory:
  assumes "plain_name s" and "load m p 32 = s @ replicate (32 - length s) 0"
  shows "read_filename m p = s"
proof (rule read_filename_cstring)
  have len: "length s < 32" using assms(1) by (simp add: plain_name_def)
  have "load m p 32 = load m p (length s) @ load m (p + length s) (32 - length s)"
    using load_add[of m p "length s" "32 - length s"] len by simp
  with assms(2) have both: "load m p (length s) = s" "load m (p + length s) (32 - length s) = replicate (32 - length s) 0"
    by (simp_all add: append_eq_append_conv)
  from both(1) show "load m p (length s) = s" .
  have "load m (p + length s) (32 - length s) ! 0 = 0" using both(2) len by simp
  then show "m (p + length s) = 0" using len by (simp add: load_nth)
  show "length s < 32" by (rule len)
  show "\<forall>b\<in>set s. b \<noteq> 0 \<and> b < 0x80"
    using assms(1) by (auto simp: plain_name_def word_less_nat_alt)
qed

lemma cat_prints:
  assumes "term_ready bus regs ph disk buf w" and "vol_ok (2 ^ 28) disk" and "plain_name name"
    and "\<And>e. vol_find disk name = Some e \<Longrightarrow> vol_entry_ok (2 ^ 28) disk e \<and>
      in_volume (2 ^ 28) (in_direct_blocks (vol_inode disk e) ! 0)"
    and "locals_ok at buf"
  shows "\<exists>w'. cmd_cat (terminal_os bus buf font frame) at name w = Some w' \<and>
    term_out w' = term_out w @ cat_text disk name"
proof -
  let ?n = "at F_Buf" and ?c = "at File_Content" and ?arr = "name @ replicate (32 - length name) 0"
  define m where "m = store (store (dw_mem (term_disk w)) ?n ?arr) ?c (replicate 512 0)"
  define d where "d = term_disk w\<lparr>dw_mem := m\<rparr>"
  define msg where "msg = shell_request 11 ?n ?c 512"
  have len: "length name < 32" "name \<noteq> []" using assms(3) by (simp_all add: plain_name_def)
  have ready: "disk_ready bus regs ph disk buf (dw_mem d) d"
    using disk_ready_mem assms(1) by (simp add: d_def term_ready_def)
  have msg: "msg_type msg = 11" "unat (arg1 msg) = ?n" "unat (arg2 msg) = ?c" "unat (arg3 msg) = 512"
    using word_of_nat_64[OF locals_okD[OF assms(5)]] by (simp_all add: msg_def shell_request_def)
  have "load (dw_mem d) ?n 32 = load (store (dw_mem (term_disk w)) ?n ?arr) ?n (length ?arr)"
    using assms(5) len(1) by (simp add: d_def m_def locals_ok_def load_store_other)
  also have "\<dots> = ?arr" by (rule load_store_same)
  finally have name: "name = read_filename (dw_mem d) (unat (arg1 msg))"
    using name_in_memory[OF assms(3)] unfolding msg(2) by metis
  have cat: "cmd_cat (terminal_os bus buf font frame) at name w =
      do {
        (resp, w) \<leftarrow> term_request bus buf 2 msg (w\<lparr>term_disk := d\<rparr>);
        if msg_type resp = 0 then
          Some (w\<lparr>term_out := term_out w @ load (dw_mem (term_disk w)) ?c (unat (arg1 resp)) @ [0x0A]\<rparr>)
        else Some (w\<lparr>term_out := term_out w @ str ''File not found!'' @ [0x0A]\<rparr>)
      }"
  proof -
    obtain f1 where "copy_slice (replicate 32 0) 0 (take (min (length name) 31) name) = Some f1"
      "upd f1 (min (length name) 31) 0 = Some ?arr"
      using name_array[OF assms(3)] by (auto simp: bind_eq_Some_conv)
    then show ?thesis
      using len(2) by (simp add: cmd_cat_def terminal_simps Let_def msg_def d_def m_def cong: if_cong)
  qed
  show ?thesis
  proof (cases "vol_find disk name")
    case None
    with fs_serve_read_answer[OF ready assms(2) msg(1) name assms(4)] show ?thesis
      by (auto simp: cat term_request_def fs_response_def cat_text_def)
  next
    case (Some e)
    define n where "n = min (unat (in_size (vol_inode disk e))) 512"
    from Some fs_serve_read_answer[OF ready assms(2) msg(1) name assms(4)] obtain d' where
      d': "fs_serve bus buf msg d = Some (Some (fs_response 0 (word_of_nat n)), d')"
      and load: "load (dw_mem d') ?c n = take n (vol_first_block disk (vol_inode disk e))"
      unfolding msg n_def by (auto simp: Let_def)
    have "unat (word_of_nat n :: u64) = n" by (rule word_of_nat_64) (simp add: n_def)
    with d' load Some show ?thesis
      by (simp add: cat term_request_def fs_response_def cat_text_def n_def[symmetric])
  qed
qed

lemma trim_prefix_none: "find (\<lambda>p. take (length p) s = p) ps = None \<Longrightarrow> trim_prefix ps k s = s"
  by (cases k) simp_all

lemma find_visible:
  assumes "\<forall>p\<in>set ps. \<exists>c r. p = c # r \<and> \<not> (0x20 < c \<and> c < 0x7F)"
    and "\<forall>b\<in>set s. 0x20 < b \<and> b < 0x7F" and "s \<noteq> []"
  shows "find (\<lambda>p. take (length p) s = p) ps = None"
  using assms by (cases s) (fastforce simp: find_None_iff)+

lemma trim_visible:
  assumes "\<forall>b\<in>set s. 0x20 < b \<and> b < 0x7F" and "s \<noteq> []"
  shows "trim s = s"
proof -
  have "\<forall>p\<in>set white_space. \<exists>c r. p = c # r \<and> \<not> (0x20 < c \<and> c < 0x7F)"
    and "\<forall>p\<in>set (map rev white_space). \<exists>c r. p = c # r \<and> \<not> (0x20 < c \<and> c < 0x7F)"
    by (simp_all add: white_space_def upt_rec)
  from find_visible[OF this(1) assms] find_visible[OF this(2), of "rev s"] assms
  show ?thesis by (simp add: trim_def Let_def trim_prefix_none)
qed

lemma read_lba_answer:
  assumes "term_ready bus regs ph disk buf w" and "a < 2 ^ 64" and "unat lba < 2 ^ 28"
  shows "\<exists>w'. read_lba (terminal_os bus buf font frame) a lba w = Some (ata_response 0, w') \<and>
    term_out w' = term_out w \<and> load (dw_mem (term_disk w')) a 512 = disk (unat lba) \<and>
    term_ready bus regs ph disk buf w'"
proof -
  define m where "m = store (dw_mem (term_disk w)) a (replicate 512 0)"
  define d where "d = term_disk w\<lparr>dw_mem := m\<rparr>"
  have ok: "ata_conforms bus regs ph disk" "ph (dw_dev d) = Ata_Idle" "length (dw_buffer d) = 512"
    "buf + 512 < usize_bound"
    using assms(1) by (simp_all add: d_def term_ready_def disk_ready_def)
  obtain d' where d': "read_sector bus 0 lba (dw_buffer d) (dw_dev d) = (Inr (), disk (unat lba), d')"
      "ph d' = Ata_Idle"
    using read_sector_ok[OF ok(1-3), of lba] assms(3) by auto
  have len: "length (disk (unat lba)) = 512" by (rule ata_conforms_length[OF ok(1)])
  let ?w = "w\<lparr>term_disk := d\<lparr>dw_buffer := disk (unat lba), dw_dev := d',
    dw_mem := store m a (disk (unat lba))\<rparr>\<rparr>"
  have dm: "dw_mem d = m" by (simp add: d_def)
  have "ata_serve bus (shell_request 1 (unat lba) a 0) d = (Some (ata_response 0),
      d\<lparr>dw_buffer := disk (unat lba), dw_dev := d', dw_mem := store m a (disk (unat lba))\<rparr>)"
    using d'(1) word_of_nat_64[OF assms(2)] dm
    by (simp add: ata_serve_def ata_serve_read_def shell_request_def u32_via_u64 Let_def)
  then have "read_lba (terminal_os bus buf font frame) a lba w = Some (ata_response 0, ?w)"
    by (simp add: read_lba_def terminal_simps term_request_def m_def[symmetric] d_def[symmetric])
  moreover have "load (store m a (disk (unat lba))) a 512 = disk (unat lba)"
    using load_store_same[of m a "disk (unat lba)"] len by simp
  moreover have "term_ready bus regs ph disk buf ?w"
    using ok d'(2) len by (simp add: term_ready_def disk_ready_def)
  ultimately show ?thesis by (intro exI[of _ ?w]) simp
qed

lemma cmd_dump_prints:
  assumes "term_ready bus regs ph disk buf w" and "locals_ok at buf"
    and "value_from 0 (takeWhile is_digit arg) < 2 ^ 28"
  shows "\<exists>w'. cmd_dump (terminal_os bus buf font frame) at arg w = Some w' \<and>
    term_out w' = term_out w @
      concat (map (dump_text (disk (value_from 0 (takeWhile is_digit arg)))) [0..<32])"
proof -
  let ?v = "value_from 0 (takeWhile is_digit arg)" and ?os = "terminal_os bus buf font frame"
  let ?a = "at Sector_Buf"
  have lba: "parse_lba arg 0 = Some (word_of_nat ?v)" "unat (word_of_nat ?v :: u32) = ?v"
    using parse_lba_value[of 0 arg] assms(3) by (simp_all add: Let_def unat_of_nat)
  obtain w1 where w1: "read_lba ?os ?a (word_of_nat ?v) w = Some (ata_response 0, w1)"
    "term_out w1 = term_out w" "load (dw_mem (term_disk w1)) ?a 512 = disk ?v"
    "term_ready bus regs ph disk buf w1"
    using read_lba_answer[OF assms(1) locals_okD[OF assms(2), of Sector_Buf],
      where lba = "word_of_nat ?v" and font = font and frame = frame] lba(2) assms(3) by auto
  have "length (disk ?v) = 512" using w1(3) by (metis length_load)
  from terminal.dump_prints[OF w1(4) this, of font frame ?a] w1 lba(1) show ?thesis
    by (auto simp: cmd_dump_def ata_response_def terminal.prints_def terminal_simps)
qed

subsection \<open>The shell on a terminal\<close>

lemma shell_new_line: "holds_line [] shell_new"
  by (simp add: holds_line_def shell_new_def)

text \<open>
  C7: The line editor of the shell refines an editor on lists. Whatever ASCII keys are typed
  before Enter, backspaces and overlong lines included, the shell runs the command it runs on
  the edited line, once, after a newline and before the prompt; what has been echoed, with its
  backspaces applied, is that line; and typing changes no memory but the editor's own buffer,
  which is empty again at the end.
\<close>

theorem shell_runs_line:
  assumes "shell_services os out ok" and "ok w" and "\<forall>c\<in>set ks. c < 0x80 \<and> c \<noteq> 0x0A"
  shows "\<exists>s' w1 echoed.
    shell_keys os at (ks @ [0x0A]) shell_new w =
      do {
        w \<leftarrow> (if foldl edit [] ks = [] then Some w1
               else run_command os at (trim (foldl edit [] ks)) w1);
        w \<leftarrow> os_print os prompt w;
        Some (s', w)
      } \<and>
    out w1 = out w @ echoed @ [0x0A] \<and> display [] echoed = foldl edit [] ks \<and>
    ok w1 \<and> os_mem os w1 = os_mem os w \<and> cmd_len s' = 0"
proof -
  from shell_services.line_runs[OF assms(1,3,2) shell_new_line, of at] obtain s' w1 where
    "ok w1" "out w1 = out w @ echoes [] ks @ [0x0A]" "os_mem os w1 = os_mem os w" "holds_line [] s'"
    "shell_keys os at (ks @ [0x0A]) shell_new w =
      do {
        w \<leftarrow> (if foldl edit [] ks = [] then Some w1
               else run_command os at (trim (foldl edit [] ks)) w1);
        w \<leftarrow> os_print os prompt w;
        Some (s', w)
      }" by blast
  then show ?thesis
    by (intro exI[of _ s'] exI[of _ w1] exI[of _ "echoes [] ks"])
      (simp add: display_echoes holds_line_def)
qed


text \<open>
  C34: \<open>dump\<close> prints the sector its argument names as thirty-two lines of sixteen bytes, in
  hexadecimal and as text, for every number below the drive's limit; a number that does not fit
  32 bits makes the shell panic.
\<close>

theorem shell_dumps_sector:
  assumes "term_ready bus regs ph disk buf w" and "locals_ok at buf"
    and "\<forall>b\<in>set arg. 0x20 < b \<and> b < 0x7F" and "arg \<noteq> []"
    and "n = value_from 0 (takeWhile is_digit arg)"
  shows "(n < 2 ^ 28 \<longrightarrow> (\<exists>w'. run_command (terminal_os bus buf font frame) at (str ''dump '' @ arg) w = Some w' \<and>
      term_out w' = term_out w @ concat (map (dump_text (disk n)) [0..<32]))) \<and>
    (2 ^ 32 \<le> n \<longrightarrow> run_command (terminal_os bus buf font frame) at (str ''dump '' @ arg) w = None)"
proof -
  have "trim arg = arg" using assms(3,4) by (rule trim_visible)
  moreover have "strip_prefix ''dump '' (str ''dump '' @ arg) = Some arg"
    "strip_prefix ''cat '' (str ''dump '' @ arg) = None"
    "str ''dump '' @ arg \<noteq> str ''help''" "str ''dump '' @ arg \<noteq> str ''ls''"
    "str ''dump '' @ arg \<noteq> str ''clear''" "str ''dump '' @ arg \<noteq> str ''free''"
    "str ''dump '' @ arg \<noteq> str ''sysinfo''"
    by (simp_all add: strip_prefix_def str_def)
  ultimately have run: "run_command (terminal_os bus buf font frame) at (str ''dump '' @ arg) w =
      cmd_dump (terminal_os bus buf font frame) at arg w"
    by (simp add: run_command_def)
  have "parse_lba arg 0 = None" if "2 ^ 32 \<le> n"
    using parse_lba_value[of 0 arg] that assms(5) by (simp add: Let_def)
  then show ?thesis
    unfolding run using cmd_dump_prints[OF assms(1,2), of arg font frame] assms(5)
    by (auto simp: cmd_dump_def)
qed

text \<open>The formatted image behind the terminal, and the shell's arrays from 10000h on.\<close>

definition demo_terminal :: "sim_drive terminal" where
  "demo_terminal = \<lparr>term_disk = demo_world, term_out = [], term_machine = demo_machine\<rparr>"

definition demo_locals :: locals where
  "demo_locals v = (case v of Fs_Buf \<Rightarrow> 0x10000 | F_Buf \<Rightarrow> 0x11000 | File_Content \<Rightarrow> 0x12000
     | Task_Buf \<Rightarrow> 0x13000 | Sector_Buf \<Rightarrow> 0x14000 | Info_Buf \<Rightarrow> 0x15000 | Mbr_Sector \<Rightarrow> 0x16000
     | Sb_Sector \<Rightarrow> 0x17000)"

lemma demo_locals_ok: "locals_ok demo_locals 0x3000"
  unfolding locals_ok_def by (auto simp: demo_locals_def split: local.splits)

definition demo_os :: "host_file \<Rightarrow> sim_drive terminal os" where
  "demo_os img = terminal_os (sim_bus 3 (image_sector img)) 0x3000 (\<lambda>_. None) 0x8000"

text \<open>What the properties need of the demo terminal.\<close>

lemma demo_terminal_ready:
  obtains img where "format_image 40000 empty_image = Some img"
    and "\<And>w. term_disk w = demo_world \<Longrightarrow>
      term_ready (sim_bus 3 (image_sector img)) sim_regs sim_phase (image_sector img) 0x3000 w"
    and "vol_ok (2 ^ 28) (image_sector img)"
    and "\<forall>e\<in>set (vol_listed (vol_entries (image_sector img))). vol_entry_ok (2 ^ 28) (image_sector img) e"
    and "vol_text (image_sector img) (vol_entries (image_sector img)) =
      str ''[FILE] hello.txt (102 bytes)'' @ [0x0A]"
    and "vol_find (image_sector img) (str ''hello.txt'') = Some (dirent_new 1 (str ''hello.txt''))"
    and "vol_inode (image_sector img) (dirent_new 1 (str ''hello.txt'')) = fmt_hello_inode"
    and "take 102 (vol_first_block (image_sector img) fmt_hello_inode) = test_file_bytes"
    and "vol_entry_ok (2 ^ 28) (image_sector img) (dirent_new 1 (str ''hello.txt''))"
proof (rule formatted_image, goal_cases)
  case (1 img)
  note vol = fs_entries_formatted[of "image_sector img", OF 1(4,5,7)]
    and found = fs_text_formatted[of "image_sector img", OF 1(4,5,6,7)]
  have "take 102 (vol_first_block (image_sector img) fmt_hello_inode) = test_file_bytes"
    by (simp add: vol_first_block_def root_blocks 1(8) fmt_file_block_def overwrite_def fs_consts)
  moreover have "\<forall>e\<in>set (vol_listed (vol_entries (image_sector img))). vol_entry_ok (2 ^ 28) (image_sector img) e"
    using vol(5,6) by simp
  moreover have "term_ready (sim_bus 3 (image_sector img)) sim_regs sim_phase (image_sector img) 0x3000 w"
    if "term_disk w = demo_world" for w using 1(3) that by (simp add: term_ready_def)
  ultimately show ?case using 1(1)[OF 1(2)] vol(4,6) found by blast
qed

lemma demo_services:
  "shell_services (demo_os img) term_out
     (term_ready (sim_bus 3 (image_sector img)) sim_regs sim_phase (image_sector img) 0x3000)"
  unfolding demo_os_def by (rule terminal.shell_services_axioms)

text \<open>Typing \<open>lz\<close>, backspace, \<open>s\<close> and Enter lists the formatted image.\<close>

theorem shell_runs_line_witness:
  "\<exists>img s w echoed. shell_keys (demo_os img) demo_locals [0x6C, 0x7A, 0x08, 0x73, 0x0A] shell_new
       demo_terminal = Some (s, w) \<and>
     display [] echoed = str ''ls'' \<and>
     term_out w = echoed @ [0x0A] @ str ''[FILE] hello.txt (102 bytes)'' @ [0x0A] @ prompt"
proof (rule demo_terminal_ready, goal_cases)
  case (1 img)
  let ?os = "demo_os img" and ?keys = "[0x6C, 0x7A, 0x08, 0x73] :: bytes"
  have line: "foldl edit [] ?keys = str ''ls''" and ascii: "\<forall>c\<in>set ?keys. c < 0x80 \<and> c \<noteq> 0x0A"
    by (simp_all add: edit_def str_def)
  have trim: "trim (str ''ls'') = str ''ls''" by (rule trim_visible) (simp_all add: str_def)
  have ready: "term_ready (sim_bus 3 (image_sector img)) sim_regs sim_phase (image_sector img) 0x3000 demo_terminal"
    by (rule 1(2)) (simp add: demo_terminal_def)
  from shell_runs_line[OF demo_services ready ascii, of demo_locals, unfolded line trim]
  obtain s w1 echoed where run: "shell_keys ?os demo_locals (?keys @ [0x0A]) shell_new demo_terminal =
      do { w \<leftarrow> run_command ?os demo_locals (str ''ls'') w1; w \<leftarrow> os_print ?os prompt w; Some (s, w) }"
    and out: "term_out w1 = echoed @ [0x0A]" and echoed: "display [] echoed = str ''ls''"
    and ok: "term_ready (sim_bus 3 (image_sector img)) sim_regs sim_phase (image_sector img) 0x3000 w1"
    by (auto simp: demo_terminal_def str_def)
  have "length (vol_text (image_sector img) (vol_entries (image_sector img))) < 1024"
    "0 \<notin> set (vol_text (image_sector img) (vol_entries (image_sector img)))"
    by (simp_all add: 1(5) str_def)
  from ls_prints[OF ok 1(3,4) this demo_locals_ok] obtain w2 where
    "cmd_ls ?os demo_locals w1 = Some w2"
    "term_out w2 = term_out w1 @ str ''[FILE] hello.txt (102 bytes)'' @ [0x0A]"
    unfolding demo_os_def 1(5) by blast
  moreover have "str ''ls'' \<noteq> str ''help''" by (simp add: str_def)
  ultimately have "shell_keys ?os demo_locals (?keys @ [0x0A]) shell_new demo_terminal =
      Some (s, w2\<lparr>term_out := term_out w2 @ prompt\<rparr>)"
    unfolding run by (simp add: run_command_def demo_os_def terminal_simps)
  then show ?case using out echoed \<open>term_out w2 = _\<close>
    by (intro exI[of _ img] exI[of _ s] exI[of _ "w2\<lparr>term_out := term_out w2 @ prompt\<rparr>"] exI[of _ echoed])
      simp
qed


theorem shell_dumps_sector_witness:
  "(\<exists>img w. run_command (demo_os img) demo_locals (str ''dump 40014'') demo_terminal = Some w \<and>
     term_out w = concat (map (dump_text (image_sector img 40014)) [0..<32])) \<and>
   (\<exists>img. run_command (demo_os img) demo_locals (str ''dump 4294967296'') demo_terminal = None)"
proof (rule demo_terminal_ready, goal_cases)
  case (1 img)
  have ready: "term_ready (sim_bus 3 (image_sector img)) sim_regs sim_phase (image_sector img) 0x3000 demo_terminal"
    by (rule 1(2)) (simp add: demo_terminal_def)
  have small: "\<forall>b\<in>set (str ''40014''). 0x20 < b \<and> b < 0x7F" "str ''40014'' \<noteq> []"
      "40014 = value_from 0 (takeWhile is_digit (str ''40014''))"
    and large: "\<forall>b\<in>set (str ''4294967296''). 0x20 < b \<and> b < 0x7F" "str ''4294967296'' \<noteq> []"
      "4294967296 = value_from 0 (takeWhile is_digit (str ''4294967296''))"
    by (simp_all add: str_def value_from_def is_digit_def)
  have joined: "str ''dump '' @ str ''40014'' = str ''dump 40014''"
    "str ''dump '' @ str ''4294967296'' = str ''dump 4294967296''" by (simp_all add: str_def)
  from shell_dumps_sector[OF ready demo_locals_ok small, where font = "\<lambda>_. None" and frame = "0x8000"]
    shell_dumps_sector[OF ready demo_locals_ok large, where font = "\<lambda>_. None" and frame = "0x8000"]
  show ?case unfolding joined demo_os_def[symmetric] by (auto simp: demo_terminal_def)
qed

end
