(* ===== verification/Input_Server.thy ===== *)
theory Input_Server
  imports Byte_Queue Task
begin

text \<open>
  \<open>task_input_server\<close> of \<open>kernel/src/main.rs\<close> and \<open>scancode_to_ascii\<close> of \<open>shell.rs\<close>: the
  server drains the two byte queues the interrupt handlers fill, decodes key presses and
  three-byte mouse packets and sends an event message to the GUI server for each. The messages
  sent are collected in order; \<open>None\<close> is an index out of the packet array.
\<close>

subsection \<open>Scancodes\<close>

definition scancode_table :: "(u8 \<times> u8) list" where
  "scancode_table =
     [(0x1E, 0x61), (0x30, 0x62), (0x2E, 0x63), (0x20, 0x64),
      (0x12, 0x65), (0x21, 0x66), (0x22, 0x67), (0x23, 0x68),
      (0x17, 0x69), (0x24, 0x6A), (0x25, 0x6B), (0x26, 0x6C),
      (0x32, 0x6D), (0x31, 0x6E), (0x18, 0x6F), (0x19, 0x70),
      (0x10, 0x71), (0x13, 0x72), (0x1F, 0x73), (0x14, 0x74),
      (0x16, 0x75), (0x2F, 0x76), (0x11, 0x77), (0x2D, 0x78),
      (0x15, 0x79), (0x2C, 0x7A),
      (0x02, 0x31), (0x03, 0x32), (0x04, 0x33), (0x05, 0x34),
      (0x06, 0x35), (0x07, 0x36), (0x08, 0x37), (0x09, 0x38),
      (0x0A, 0x39), (0x0B, 0x30),
      (0x1C, 0x0A), (0x39, 0x20), (0x0E, 0x08), (0x34, 0x2E), (0x0C, 0x2D), (0x35, 0x2F)]"

definition scancode_to_ascii :: "u8 \<Rightarrow> u8 option" where
  "scancode_to_ascii scancode = map_of scancode_table scancode"

subsection \<open>The keyboard\<close>

definition key_event :: "u8 \<Rightarrow> message" where
  "key_event c = \<lparr>sender = 4, msg_type = 20, arg1 = ucast c, arg2 = 0, arg3 = 0, arg4 = 0\<rparr>"

text \<open>The body of the keyboard loop; its state is \<open>last_scancode\<close>.\<close>

definition handle_scancode :: "u8 \<Rightarrow> u8 \<times> message list \<Rightarrow> u8 \<times> message list" where
  "handle_scancode scancode st =
     (case st of (last_scancode, sent) \<Rightarrow>
        if scancode AND 0x80 = 0 \<and> scancode \<noteq> last_scancode then
          (scancode, case scancode_to_ascii scancode of
               Some c \<Rightarrow> sent @ [key_event c]
             | None \<Rightarrow> sent)
        else if scancode AND 0x80 \<noteq> 0 then (0, sent)
        else st)"

subsection \<open>The mouse\<close>

record mouse_state =
  mouse_cycle :: nat
  mouse_packet :: bytes

text \<open>A movement byte as \<open>i32\<close>, extended by the sign bit of the flags, and as \<open>u64\<close>.\<close>

definition mouse_delta :: "u8 \<Rightarrow> bool \<Rightarrow> u64" where
  "mouse_delta b negative =
     (let d = (ucast b :: u32) in scast (if negative then d OR NOT 0xFF else d))"

definition mouse_event :: "u8 \<Rightarrow> u8 \<Rightarrow> u8 \<Rightarrow> message" where
  "mouse_event flags x y =
     \<lparr>sender = 4, msg_type = 30,
      arg1 = mouse_delta x (flags AND 0x10 \<noteq> 0), arg2 = mouse_delta y (flags AND 0x20 \<noteq> 0),
      arg3 = of_bool (flags AND 0x01 \<noteq> 0), arg4 = of_bool (flags AND 0x02 \<noteq> 0)\<rparr>"

definition handle_mouse_byte ::
  "u8 \<Rightarrow> (mouse_state \<times> message list) option \<Rightarrow> (mouse_state \<times> message list) option" where
  "handle_mouse_byte b st =
     do {
       (s, sent) \<leftarrow> st;
       if mouse_cycle s = 0 \<and> b AND 0x08 = 0 then Some (s, sent)
       else do {
         packet \<leftarrow> upd (mouse_packet s) (mouse_cycle s) b;
         let cycle = mouse_cycle s + 1;
         if cycle = 3 then
           do {
             flags \<leftarrow> idx packet 0;
             x \<leftarrow> idx packet 1;
             y \<leftarrow> idx packet 2;
             Some (\<lparr>mouse_cycle = 0, mouse_packet = packet\<rparr>, sent @ [mouse_event flags x y])
           }
         else Some (\<lparr>mouse_cycle = cycle, mouse_packet = packet\<rparr>, sent)
       }
     }"

definition mouse_start :: mouse_state where
  "mouse_start = \<lparr>mouse_cycle = 0, mouse_packet = replicate 3 0\<rparr>"

subsection \<open>The server\<close>

record input_server =
  last_scancode :: u8
  mouse :: mouse_state

definition input_start :: input_server where
  "input_start = \<lparr>last_scancode = 0, mouse = mouse_start\<rparr>"

text \<open>
  One round of the loop up to the yield: the keyboard queue is drained, then the mouse queue.
  A queue holds at most 255 bytes, so 256 rounds of each drain loop suffice.
\<close>

definition input_round ::
  "byte_queue \<Rightarrow> byte_queue \<Rightarrow> input_server \<Rightarrow>
     (byte_queue \<times> byte_queue \<times> input_server \<times> message list) option" where
  "input_round scan_queue mouse_queue s =
     do {
       (scan_queue, (last_sc, sent)) \<leftarrow>
         while_pop bq_pop handle_scancode 256 scan_queue (last_scancode s, []);
       (mouse_queue, st) \<leftarrow>
         while_pop bq_pop handle_mouse_byte 256 mouse_queue (Some (mouse s, sent));
       (ms, sent) \<leftarrow> st;
       Some (scan_queue, mouse_queue, \<lparr>last_scancode = last_sc, mouse = ms\<rparr>, sent)
     }"


subsection \<open>Key presses\<close>

text \<open>The scancode of a character, and the bytes of pressing it \<open>n\<close> more times than once
  (the keyboard's own repeat) and releasing it.\<close>

definition key_code :: "u8 \<Rightarrow> u8" where
  "key_code c = the (map_of (map (\<lambda>(s, c). (c, s)) scancode_table) c)"

definition typable :: "u8 \<Rightarrow> bool" where
  "typable c \<longleftrightarrow> c \<in> snd ` set scancode_table"

definition keystroke :: "u8 \<times> nat \<Rightarrow> bytes" where
  "keystroke k = replicate (Suc (snd k)) (key_code (fst k)) @ [key_code (fst k) OR 0x80]"

lemma scancode_table_distinct:
  "distinct (map fst scancode_table)" "distinct (map snd scancode_table)"
  by (simp_all add: scancode_table_def)

text \<open>The table is injective, and its codes are non-zero press codes.\<close>

lemma scancode_inverse:
  "typable c \<Longrightarrow> scancode_to_ascii (key_code c) = Some c \<and> key_code c AND 0x80 = 0 \<and> key_code c \<noteq> 0"
proof -
  assume "typable c"
  then obtain s where s: "(s, c) \<in> set scancode_table" by (auto simp: typable_def)
  have "fst \<circ> (\<lambda>(s, c). (c, s)) = (snd :: u8 \<times> u8 \<Rightarrow> u8)" by auto
  then have "distinct (map fst (map (\<lambda>(s, c). (c, s)) scancode_table))"
    using scancode_table_distinct(2) by simp
  moreover have "(c, s) \<in> set (map (\<lambda>(s, c). (c, s)) scancode_table)" using s by force
  ultimately have "key_code c = s" by (simp add: key_code_def)
  moreover have "map_of scancode_table s = Some c"
    using s scancode_table_distinct(1) by simp
  moreover have "\<forall>(s, c)\<in>set scancode_table. s AND 0x80 = 0 \<and> s \<noteq> 0"
    by (simp add: scancode_table_def)
  ultimately show ?thesis using s by (auto simp: scancode_to_ascii_def)
qed

lemma repeat_ignored:
  "s AND 0x80 = 0 \<Longrightarrow> fold handle_scancode (replicate n s) (s, sent) = (s, sent)"
  by (induction n) (simp_all add: handle_scancode_def)

lemma keystroke_once:
  assumes "typable (fst k)"
  shows "fold handle_scancode (keystroke k) (0, sent) = (0, sent @ [key_event (fst k)])"
proof -
  let ?s = "key_code (fst k)"
  note inv = scancode_inverse[OF assms]
  have release: "(?s OR 0x80) AND 0x80 \<noteq> 0"
  proof
    assume "(?s OR 0x80) AND 0x80 = 0"
    then have "bit ((?s OR 0x80) AND 0x80) 7 = bit (0 :: u8) 7" by simp
    then show False by (simp add: bit_simps)
  qed
  have "handle_scancode ?s (0, sent) = (?s, sent @ [key_event (fst k)])"
    using inv by (simp add: handle_scancode_def)
  moreover have "handle_scancode (?s OR 0x80) (?s, out) = (0, out)" for out
    using release by (simp add: handle_scancode_def)
  ultimately show ?thesis
    using repeat_ignored[of ?s "snd k"] inv by (simp add: keystroke_def)
qed

lemma keystrokes_events:
  "\<forall>k\<in>set ks. typable (fst k) \<Longrightarrow>
    fold handle_scancode (concat (map keystroke ks)) (0, sent) =
      (0, sent @ map (\<lambda>k. key_event (fst k)) ks)"
  by (induction ks arbitrary: sent) (simp_all add: keystroke_once)

subsection \<open>Mouse packets\<close>

text \<open>
  The reference: skip bytes without the synchronisation bit, then take three. The second part
  is an unfinished packet.
\<close>

fun mouse_parse :: "bytes \<Rightarrow> (u8 \<times> u8 \<times> u8) list \<times> bytes" where
  "mouse_parse [] = ([], [])"
| "mouse_parse [b] = (if b AND 0x08 = 0 then ([], []) else ([], [b]))"
| "mouse_parse [b, x] = (if b AND 0x08 = 0 then mouse_parse [x] else ([], [b, x]))"
| "mouse_parse (b # x # y # bs) =
     (if b AND 0x08 = 0 then mouse_parse (x # y # bs)
      else (case mouse_parse bs of (ps, r) \<Rightarrow> ((b, x, y) # ps, r)))"

definition packet_event :: "u8 \<times> u8 \<times> u8 \<Rightarrow> message" where
  "packet_event p = (case p of (f, x, y) \<Rightarrow> mouse_event f x y)"

lemma handle_mouse_skip:
  "mouse_cycle s = 0 \<Longrightarrow> b AND 0x08 = 0 \<Longrightarrow>
    handle_mouse_byte b (Some (s, sent)) = Some (s, sent)"
  by (simp add: handle_mouse_byte_def)

lemma handle_mouse_first:
  "mouse_cycle s = 0 \<Longrightarrow> b AND 0x08 \<noteq> 0 \<Longrightarrow> mouse_packet s = [p, q, r] \<Longrightarrow>
    handle_mouse_byte b (Some (s, sent)) = Some (\<lparr>mouse_cycle = Suc 0, mouse_packet = [b, q, r]\<rparr>, sent)"
  by (simp add: handle_mouse_byte_def upd_def)

lemma handle_mouse_second:
  "handle_mouse_byte x (Some (\<lparr>mouse_cycle = Suc 0, mouse_packet = [b, q, r]\<rparr>, sent)) =
    Some (\<lparr>mouse_cycle = 2, mouse_packet = [b, x, r]\<rparr>, sent)"
  by (simp add: handle_mouse_byte_def upd_def)

lemma handle_mouse_third:
  "handle_mouse_byte y (Some (\<lparr>mouse_cycle = 2, mouse_packet = [b, x, r]\<rparr>, sent)) =
    Some (\<lparr>mouse_cycle = 0, mouse_packet = [b, x, y]\<rparr>, sent @ [mouse_event b x y])"
  by (simp add: handle_mouse_byte_def upd_def idx_def numeral_2_eq_2)

lemmas handle_mouse = handle_mouse_skip handle_mouse_first handle_mouse_second handle_mouse_third

lemma mouse_stream:
  assumes "mouse_cycle s = 0" and "length (mouse_packet s) = 3"
  shows "\<exists>s'. fold handle_mouse_byte bs (Some (s, sent)) =
      Some (s', sent @ map packet_event (fst (mouse_parse bs))) \<and>
    mouse_cycle s' = length (snd (mouse_parse bs)) \<and> length (mouse_packet s') = 3 \<and>
    take (mouse_cycle s') (mouse_packet s') = snd (mouse_parse bs)"
  using assms
proof (induction bs arbitrary: s sent rule: mouse_parse.induct)
  case 1
  then show ?case by simp
next
  case (2 b)
  then obtain p q r where "mouse_packet s = [p, q, r]"
    by (auto simp: numeral_3_eq_3 length_Suc_conv)
  with 2 show ?case by (cases "b AND 0x08 = 0") (simp_all add: handle_mouse)
next
  case (3 b x)
  then obtain p q r where "mouse_packet s = [p, q, r]"
    by (auto simp: numeral_3_eq_3 length_Suc_conv)
  with 3 show ?case by (cases "b AND 0x08 = 0") (auto simp: handle_mouse)
next
  case (4 b x y bs)
  then obtain p q r where pk: "mouse_packet s = [p, q, r]"
    by (auto simp: numeral_3_eq_3 length_Suc_conv)
  show ?case
  proof (cases "b AND 0x08 = 0")
    case True
    with 4 show ?thesis by (auto simp: handle_mouse_skip)
  next
    case False
    obtain ps rest where parse: "mouse_parse bs = (ps, rest)" by force
    have "fold handle_mouse_byte (b # x # y # bs) (Some (s, sent)) =
        fold handle_mouse_byte bs (Some (\<lparr>mouse_cycle = 0, mouse_packet = [b, x, y]\<rparr>,
          sent @ [mouse_event b x y]))"
      using 4(3) False pk
      by (simp add: handle_mouse_first handle_mouse_second handle_mouse_third)
    with 4(2)[OF False, of "\<lparr>mouse_cycle = 0, mouse_packet = [b, x, y]\<rparr>" "sent @ [mouse_event b x y]"]
      False parse show ?thesis by (simp add: packet_event_def)
  qed
qed

text \<open>A movement is the nine-bit two's complement number of its byte and its sign flag.\<close>

lemma mouse_delta_sint:
  "sint (mouse_delta b negative) = int (unat b) - (if negative then 256 else 0)"
proof -
  have b: "unat b < 256" using unat_lt2p[of b] by simp
  have u: "(ucast b :: u32) = word_of_int (int (unat b))"
    by (simp add: unsigned_ucast_eq flip: uint_nat)
  have s: "sint (word_of_int k :: u32) = k" if "- 256 \<le> k" "k < 256" for k
    using that by (simp add: sint_sbintrunc' signed_take_bit_int_eq_self)
  have "(ucast b :: u32) OR NOT 0xFF = ucast b + NOT 0xFF"
  proof (rule disjunctive_add_eq_or[symmetric], rule bit_word_eqI)
    fix n
    have "bit (0xFF :: u32) n \<longleftrightarrow> n < 8" if "n < 32"
      using that bit_mask_iff[of 8 n, where ?'a = u32] by (simp add: mask_eq_exp_minus_1)
    then show "n < LENGTH(32) \<Longrightarrow> bit ((ucast b :: u32) AND NOT 0xFF) n = bit (0 :: u32) n"
      by (auto simp: bit_simps dest: bit_imp_le_length)
  qed
  also have "\<dots> = ucast b + word_of_int (- 256)" by simp
  also have "\<dots> = word_of_int (int (unat b) + - 256)"
    unfolding u by (rule of_int_add[symmetric])
  finally have n: "(ucast b :: u32) OR NOT 0xFF = word_of_int (int (unat b) + - 256)" .
  have wide: "sint (scast d :: u64) = sint d" for d :: u32
    by (rule sint_up_scast) (simp add: is_up)
  show ?thesis
  proof (cases negative)
    case True
    then have "sint (mouse_delta b negative) = sint (word_of_int (int (unat b) + - 256) :: u32)"
      by (simp only: mouse_delta_def Let_def n wide if_True)
    also have "\<dots> = int (unat b) + - 256" by (rule s) (use b in linarith)+
    finally show ?thesis using True by simp
  next
    case False
    then have "sint (mouse_delta b negative) = sint (word_of_int (int (unat b)) :: u32)"
      by (simp only: mouse_delta_def Let_def u wide if_False)
    also have "\<dots> = int (unat b)" by (rule s) (use b in linarith)+
    finally show ?thesis using False by simp
  qed
qed

end
