(* ===== verification/Input_Path.thy ===== *)
theory Input_Path
  imports Devices Input_Server
begin

text \<open>
  From the devices to the GUI server: bytes of the keyboard and of the mouse raise interrupts,
  the handlers of \<open>Devices\<close> queue them and acknowledge the interrupt, and the next round of the
  input server sends the events.
\<close>

text \<open>
  A byte of the keyboard raises line 1; a byte of the mouse raises line 12, which is line 4 of
  the slave behind line 2 of the master. The handler runs at once.
\<close>

definition keyboard_interrupt :: "u8 \<Rightarrow> byte_queue \<times> pc \<Rightarrow> byte_queue \<times> pc" where
  "keyboard_interrupt b st =
     (case st of (q, s) \<Rightarrow> keyboard_isr pc_bus
        (q, s\<lparr>kbc_output := [b], master := (master s)\<lparr>in_service := 1 # in_service (master s)\<rparr>\<rparr>))"

definition mouse_interrupt :: "u8 \<Rightarrow> byte_queue \<times> pc \<Rightarrow> byte_queue \<times> pc" where
  "mouse_interrupt b st =
     (case st of (q, s) \<Rightarrow> mouse_isr pc_bus
        (q, s\<lparr>kbc_output := [b], master := (master s)\<lparr>in_service := 2 # in_service (master s)\<rparr>,
          slave := (slave s)\<lparr>in_service := 4 # in_service (slave s)\<rparr>\<rparr>))"

text \<open>No line stays in service: each handler acknowledges the controllers its line uses.\<close>

lemma keyboard_interrupt_pc:
  "keyboard_interrupt b (q, s) = (bq_push b q, s\<lparr>kbc_output := []\<rparr>)"
  by (simp add: keyboard_interrupt_def keyboard_isr_def master_eoi_def pc_in_def pc_out_def
      pic_command_def)

lemma mouse_interrupt_pc:
  "mouse_interrupt b (q, s) = (bq_push b q, s\<lparr>kbc_output := []\<rparr>)"
  by (simp add: mouse_interrupt_def mouse_isr_def pic_send_eoi_slave_def pc_in_def pc_out_def
      pic_command_def)

lemma keyboard_interrupts:
  "fold keyboard_interrupt bs (q, s) =
     (fold bq_push bs q, if bs = [] then s else s\<lparr>kbc_output := []\<rparr>)"
  by (induction bs arbitrary: q s) (simp_all add: keyboard_interrupt_pc)

lemma mouse_interrupts:
  "fold mouse_interrupt bs (q, s) =
     (fold bq_push bs q, if bs = [] then s else s\<lparr>kbc_output := []\<rparr>)"
  by (induction bs arbitrary: q s) (simp_all add: mouse_interrupt_pc)

lemma drain:
  assumes "bq_inv q" and "bq_contents q = []" and "length bs \<le> 255"
  shows "\<exists>q'. while_pop bq_pop body 256 (fold bq_push bs q) s = Some (q', fold body bs s) \<and>
    bq_contents q' = [] \<and> bq_inv q'"
proof -
  let ?q = "fold bq_push bs q"
  have c: "bq_contents ?q = bs" using bq.items_enq_all[OF assms(1), of bs] assms by simp
  then have "length (bq_contents ?q) < 256" using assms(3) by simp
  from bq.while_pop_drains[OF bq.valid_enq_all[OF assms(1)] this, of body s] c
  show ?thesis by simp
qed



text \<open>
  Mouse movements are the nine-bit two's complement numbers of their packet, and the
  buttons its two low bits; however bytes are lost or stray, decoding is the reference that
  skips to the next byte with the synchronisation bit and takes three.
\<close>

theorem mouse_packets_decoded:
  "\<exists>s. fold handle_mouse_byte bs (Some (mouse_start, [])) =
      Some (s, map packet_event (fst (mouse_parse bs))) \<and>
    mouse_cycle s = length (snd (mouse_parse bs)) \<and>
    sint (arg1 (packet_event (f, x, y))) = int (unat x) - (if bit f 4 then 256 else 0) \<and>
    sint (arg2 (packet_event (f, x, y))) = int (unat y) - (if bit f 5 then 256 else 0) \<and>
    arg3 (packet_event (f, x, y)) = of_bool (bit f 0) \<and>
    arg4 (packet_event (f, x, y)) = of_bool (bit f 1)"
proof -
  have test: "f AND 0x10 \<noteq> 0 \<longleftrightarrow> bit f 4" "f AND 0x20 \<noteq> 0 \<longleftrightarrow> bit f 5"
    "f AND 0x01 \<noteq> 0 \<longleftrightarrow> bit f 0" "f AND 0x02 \<noteq> 0 \<longleftrightarrow> bit f 1"
    using and_exp_eq_0_iff_not_bit[of f 4] and_exp_eq_0_iff_not_bit[of f 5]
      and_exp_eq_0_iff_not_bit[of f 0] and_exp_eq_0_iff_not_bit[of f 1] by simp_all
  from mouse_stream[of mouse_start bs "[]"] obtain s where
    "fold handle_mouse_byte bs (Some (mouse_start, [])) =
      Some (s, map packet_event (fst (mouse_parse bs)))" "mouse_cycle s = length (snd (mouse_parse bs))"
    by (auto simp: mouse_start_def)
  then show ?thesis
    unfolding packet_event_def mouse_event_def prod.case message.simps test mouse_delta_sint by blast
qed

end
