(* ===== verification/Paging.thy ===== *)
theory Paging
  imports Bytes
begin

text \<open>
  \<open>kernel/src/paging.rs\<close>: the boot-time frame allocator, \<open>map_page\<close> and
  \<open>mark_all_user_accessible\<close>. Page tables live in memory, seen through the bootloader's mapping
  of physical memory at \<open>PHYS_MEM_OFFSET\<close>. The operations of the \<open>x86_64\<close> crate on a table
  entry are a parameter with named laws; \<open>x86_ops\<close> is the architecture's entry format. The
  specification both operations are held against is \<open>walk\<close>, the processor's own translation.
\<close>

subsection \<open>The frame allocator\<close>

datatype region_kind = Usable | Unusable

record memory_region =
  region_start :: nat
  region_end :: nat
  region_kind :: region_kind

record frame_allocator =
  regions :: "memory_region list"
  next_region :: nat
  next_frame_in_region :: nat

definition frame_allocator_new :: "memory_region list \<Rightarrow> frame_allocator" where
  "frame_allocator_new rs = \<lparr>regions = rs, next_region = 0, next_frame_in_region = 0\<rparr>"

text \<open>The loop: every round but the last moves to the next region.\<close>

function allocate_frame :: "frame_allocator \<Rightarrow> (nat option \<times> frame_allocator) option" where
  "allocate_frame a =
     (if length (regions a) \<le> next_region a then Some (None, a)
      else
        (let region = regions a ! next_region a;
             skip = a\<lparr>next_region := next_region a + 1, next_frame_in_region := 0\<rparr>
         in if region_kind region \<noteq> Usable then allocate_frame skip
            else
              (case uadd (region_start region) 0xFFF of
                 None \<Rightarrow> None
               | Some s \<Rightarrow>
                   (case uadd (drop_bit 12 s) (next_frame_in_region a) of
                      None \<Rightarrow> None
                    | Some frame \<Rightarrow>
                        if frame < drop_bit 12 (region_end region)
                        then Some (Some (push_bit 12 frame mod 2 ^ 64),
                          a\<lparr>next_frame_in_region := next_frame_in_region a + 1\<rparr>)
                        else allocate_frame skip))))"
  by auto
termination
  by (relation "measure (\<lambda>a. length (regions a) - next_region a)") auto

declare allocate_frame.simps [simp del]

subsection \<open>Table entries\<close>

text \<open>
  \<open>is_unused\<close>, \<open>addr\<close>, \<open>flags\<close> and \<open>set_addr\<close> of a \<open>PageTableEntry\<close> (the last with
  \<open>PhysAddr::new\<close>; \<open>None\<close> where one of them panics), and whether \<open>VirtAddr::new\<close> accepts an
  address.
\<close>

record entry_ops =
  e_unused :: "u64 \<Rightarrow> bool"
  e_addr :: "u64 \<Rightarrow> nat"
  e_flags :: "u64 \<Rightarrow> u64"
  e_make :: "nat \<Rightarrow> u64 \<Rightarrow> u64 option"
  virt_ok :: "nat \<Rightarrow> bool"

definition PRESENT :: u64 where "PRESENT = 0x1"
definition WRITABLE :: u64 where "WRITABLE = 0x2"
definition USER_ACCESSIBLE :: u64 where "USER_ACCESSIBLE = 0x4"
definition HUGE_PAGE :: u64 where "HUGE_PAGE = 0x80"

definition contains :: "u64 \<Rightarrow> u64 \<Rightarrow> bool" where
  "contains flags f \<longleftrightarrow> flags AND f = f"

subsection \<open>State\<close>

record paging =
  phys_mem_offset :: nat
  frame_alloc :: "frame_allocator option"
  pg_mem :: mem
  cr3 :: nat

definition phys_to_virt :: "paging \<Rightarrow> nat \<Rightarrow> nat option" where
  "phys_to_virt p phys = uadd phys (phys_mem_offset p)"

definition paging_init :: "nat \<Rightarrow> memory_region list \<Rightarrow> paging \<Rightarrow> paging" where
  "paging_init offset rs p =
     p\<lparr>phys_mem_offset := offset, frame_alloc := Some (frame_allocator_new rs)\<rparr>"

definition active_level4_table :: "paging \<Rightarrow> nat option" where
  "active_level4_table p = phys_to_virt p (cr3 p)"

definition read_entry :: "paging \<Rightarrow> nat \<Rightarrow> nat \<Rightarrow> u64" where
  "read_entry p table i = load64 (pg_mem p) (table + 8 * i)"

definition set_entry :: "entry_ops \<Rightarrow> nat \<Rightarrow> nat \<Rightarrow> nat \<Rightarrow> u64 \<Rightarrow> paging \<Rightarrow> paging option" where
  "set_entry ops table i addr flags p =
     do {
       e \<leftarrow> e_make ops addr flags;
       Some (p\<lparr>pg_mem := store64 (pg_mem p) (table + 8 * i) e\<rparr>)
     }"

definition alloc_zeroed_frame :: "(paging, nat) fs_io" where
  "alloc_zeroed_frame p =
     (case frame_alloc p of
        None \<Rightarrow> Some (Inl ''Frame allocator not initialized'', p)
      | Some a \<Rightarrow>
          do {
            (frame, a) \<leftarrow> allocate_frame a;
            let p = p\<lparr>frame_alloc := Some a\<rparr>;
            case frame of
              None \<Rightarrow> Some (Inl ''Out of physical frames'', p)
            | Some phys \<Rightarrow>
                do {
                  v \<leftarrow> phys_to_virt p phys;
                  Some (Inr phys, p\<lparr>pg_mem := store (pg_mem p) v (replicate 4096 0)\<rparr>)
                }
          })"

subsection \<open>Mapping a page\<close>

text \<open>Steps 1 to 3: the table an entry points to, made first if the entry is unused.\<close>

definition table_flags :: u64 where
  "table_flags = PRESENT OR WRITABLE OR USER_ACCESSIBLE"

definition ensure_table :: "entry_ops \<Rightarrow> nat \<Rightarrow> nat \<Rightarrow> (paging, unit) fs_io" where
  "ensure_table ops table i p =
     (if e_unused ops (read_entry p table i) then
        try_io alloc_zeroed_frame (\<lambda>frame_phys p.
          map_option (\<lambda>p. (Inr (), p)) (set_entry ops table i frame_phys table_flags p)) p
      else Some (Inr (), p))"

definition next_table :: "entry_ops \<Rightarrow> nat \<Rightarrow> nat \<Rightarrow> (paging, nat) fs_io" where
  "next_table ops table i =
     try_io (ensure_table ops table i) (\<lambda>_ p.
       do { v \<leftarrow> phys_to_virt p (e_addr ops (read_entry p table i)); Some (Inr v, p) })"

definition table_index :: "nat \<Rightarrow> nat \<Rightarrow> nat" where
  "table_index level virt = drop_bit (12 + 9 * (level - 1)) virt AND 0x1FF"

definition map_page :: "entry_ops \<Rightarrow> nat \<Rightarrow> nat \<Rightarrow> u64 \<Rightarrow> (paging, unit) fs_io" where
  "map_page ops virt_page phys_frame flags p =
     do {
       l4_table \<leftarrow> active_level4_table p;
       try_io (next_table ops l4_table (table_index 4 virt_page)) (\<lambda>l3_table.
         try_io (next_table ops l3_table (table_index 3 virt_page)) (\<lambda>l2_table.
           try_io (next_table ops l2_table (table_index 2 virt_page)) (\<lambda>l1_table p.
             do {
               p \<leftarrow> set_entry ops l1_table (table_index 1 virt_page) phys_frame flags p;
               if virt_ok ops virt_page then Some (Inr (), p) else None
             }))) p
     }"

subsection \<open>Marking pages for user access\<close>

text \<open>
  One entry of a table: if it is present it gets the flag, and \<open>below\<close> is done with the table
  it points to. The four nested loops are one definition per level.
\<close>

definition mark_entry ::
  "entry_ops \<Rightarrow> (u64 \<Rightarrow> nat \<Rightarrow> paging \<Rightarrow> paging option) \<Rightarrow> nat \<Rightarrow> nat \<Rightarrow> paging \<Rightarrow> paging option" where
  "mark_entry ops below table i p =
     (let e = read_entry p table i; flags = e_flags ops e in
      if \<not> contains flags PRESENT then Some p
      else do {
        let addr = e_addr ops e;
        p \<leftarrow> set_entry ops table i addr (flags OR USER_ACCESSIBLE) p;
        below flags addr p
      })"

definition mark_l1 :: "entry_ops \<Rightarrow> nat \<Rightarrow> paging \<Rightarrow> paging option" where
  "mark_l1 ops l1 = for_range 512 (mark_entry ops (\<lambda>flags addr p. Some p) l1)"

definition mark_l2 :: "entry_ops \<Rightarrow> nat \<Rightarrow> paging \<Rightarrow> paging option" where
  "mark_l2 ops l2 = for_range 512 (mark_entry ops (\<lambda>flags addr p.
     if contains flags HUGE_PAGE then Some p
     else do { l1 \<leftarrow> phys_to_virt p addr; mark_l1 ops l1 p }) l2)"

definition mark_l3 :: "entry_ops \<Rightarrow> nat \<Rightarrow> paging \<Rightarrow> paging option" where
  "mark_l3 ops l3 = for_range 512 (mark_entry ops (\<lambda>flags addr p.
     if contains flags HUGE_PAGE then Some p
     else do { l2 \<leftarrow> phys_to_virt p addr; mark_l2 ops l2 p }) l3)"

definition mark_all_user_accessible :: "entry_ops \<Rightarrow> paging \<Rightarrow> paging option" where
  "mark_all_user_accessible ops p =
     do {
       l4 \<leftarrow> active_level4_table p;
       for_range 512 (mark_entry ops (\<lambda>flags addr p.
         do { l3 \<leftarrow> phys_to_virt p addr; mark_l3 ops l3 p }) l4) p
     }"


subsection \<open>Frames\<close>

text \<open>The frames of a region, and those an allocator has still to hand out.\<close>

definition region_frames :: "memory_region \<Rightarrow> nat list" where
  "region_frames r =
     (if region_kind r = Usable
      then map (\<lambda>k. k * 4096) [(region_start r + 0xFFF) div 4096 ..< region_end r div 4096]
      else [])"

definition remaining_frames :: "frame_allocator \<Rightarrow> nat list" where
  "remaining_frames a =
     (if next_region a < length (regions a)
      then drop (next_frame_in_region a) (region_frames (regions a ! next_region a)) @
        concat (map region_frames (drop (next_region a + 1) (regions a)))
      else [])"

text \<open>
  The memory map is addressable, and the allocator stands inside it: it has handed out no more
  frames of a region than the region has.
\<close>

definition regions_ok :: "memory_region list \<Rightarrow> bool" where
  "regions_ok rs \<longleftrightarrow>
     (\<forall>r\<in>set rs. region_start r + 0xFFF < usize_bound \<and> region_end r < usize_bound)"

definition frames_ok :: "frame_allocator \<Rightarrow> bool" where
  "frames_ok a \<longleftrightarrow> regions_ok (regions a) \<and>
     (next_region a < length (regions a) \<longrightarrow>
        next_frame_in_region a \<le> length (region_frames (regions a ! next_region a)))"

lemma region_frames_nth:
  assumes "region_kind r = Usable" and "k < length (region_frames r)"
  shows "region_frames r ! k = ((region_start r + 0xFFF) div 4096 + k) * 4096"
  using assms by (simp add: region_frames_def)

lemma remaining_skip:
  assumes "next_region a < length (regions a)"
  shows "remaining_frames (a\<lparr>next_region := next_region a + 1, next_frame_in_region := 0\<rparr>) =
    concat (map region_frames (drop (next_region a + 1) (regions a)))"
proof (cases "next_region a + 1 < length (regions a)")
  case True
  then have "drop (next_region a + 1) (regions a) =
      regions a ! (next_region a + 1) # drop (next_region a + 2) (regions a)"
    by (simp add: Cons_nth_drop_Suc[symmetric])
  with True show ?thesis by (simp add: remaining_frames_def)
qed (simp add: remaining_frames_def)

text \<open>What one call does: the head of the remaining frames goes, the rest remain.\<close>

definition hands_out :: "frame_allocator \<Rightarrow> bool" where
  "hands_out a \<longleftrightarrow> (\<exists>a'. allocate_frame a =
       Some (case remaining_frames a of [] \<Rightarrow> None | f # fs \<Rightarrow> Some f, a') \<and>
     remaining_frames a' = tl (remaining_frames a) \<and> frames_ok a' \<and> regions a' = regions a)"

lemma hands_out_skip:
  assumes "next_region a < length (regions a)"
    and "drop (next_frame_in_region a) (region_frames (regions a ! next_region a)) = []"
    and "allocate_frame a =
      allocate_frame (a\<lparr>next_region := next_region a + 1, next_frame_in_region := 0\<rparr>)"
    and "hands_out (a\<lparr>next_region := next_region a + 1, next_frame_in_region := 0\<rparr>)"
  shows "hands_out a"
proof -
  have "remaining_frames a =
      remaining_frames (a\<lparr>next_region := next_region a + 1, next_frame_in_region := 0\<rparr>)"
    unfolding remaining_skip[OF assms(1)] using assms(1,2) by (simp add: remaining_frames_def)
  with assms(3,4) show ?thesis by (simp add: hands_out_def)
qed

lemma shift_page: "drop_bit 12 n = n div 4096" for n :: nat
  by (simp add: drop_bit_eq_div)

lemma frame_below: "x < n div 4096 \<Longrightarrow> x * 4096 \<le> (n :: nat)"
  by (metis Suc_leI less_eq_div_iff_mult_less_eq less_imp_le_nat zero_less_numeral)

text \<open>A usable region: its page numbers do not overflow, and a frame left in it is handed out.\<close>

lemma usable_region:
  assumes "frames_ok a" and "next_region a < length (regions a)"
  defines "r \<equiv> regions a ! next_region a"
  assumes usable: "region_kind r = Usable"
  shows "uadd (region_start r) 0xFFF = Some (region_start r + 0xFFF)"
    and "uadd ((region_start r + 0xFFF) div 4096) (next_frame_in_region a) =
      Some ((region_start r + 0xFFF) div 4096 + next_frame_in_region a)"
    and "length (region_frames r) = region_end r div 4096 - (region_start r + 0xFFF) div 4096"
    and "region_end r < usize_bound"
proof -
  let ?s = "(region_start r + 0xFFF) div 4096" and ?k = "next_frame_in_region a"
  have r: "region_start r + 0xFFF < usize_bound" "region_end r < usize_bound" and k: "?k \<le> length (region_frames r)"
    using assms(1,2) by (auto simp: r_def frames_ok_def regions_ok_def)
  show len: "length (region_frames r) = region_end r div 4096 - ?s" using usable by (simp add: region_frames_def)
  have "?s \<le> usize_bound div 4096" using r(1) by (intro div_le_mono) simp
  moreover have "region_end r div 4096 \<le> usize_bound div 4096" using r(2) by (intro div_le_mono) simp
  ultimately have "?s + ?k < usize_bound" using k len by (simp add: usize_bound_def)
  with r show "uadd ?s ?k = Some (?s + ?k)" "uadd (region_start r) 0xFFF = Some (region_start r + 0xFFF)"
    "region_end r < usize_bound" by (simp_all add: uadd_def)
qed

lemma frame_left:
  assumes ok: "frames_ok a" and n: "next_region a < length (regions a)"
  defines "r \<equiv> regions a ! next_region a" and "k \<equiv> next_frame_in_region a"
  assumes usable: "region_kind r = Usable" and inside: "(region_start r + 0xFFF) div 4096 + k < region_end r div 4096"
  shows "hands_out a"
proof -
  let ?s = "(region_start r + 0xFFF) div 4096" and ?a = "a\<lparr>next_frame_in_region := k + 1\<rparr>"
  note u = usable_region[OF ok n usable[unfolded r_def], folded r_def k_def]
  have "(?s + k) * 4096 \<le> region_end r" using inside by (rule frame_below)
  then have "push_bit 12 (?s + k) mod 2 ^ 64 = (?s + k) * 4096"
    using u(4) by (simp add: push_bit_eq_mult usize_bound_def)
  then have alloc: "allocate_frame a = Some (Some ((?s + k) * 4096), ?a)"
    using n usable u(1,2) inside
    by (subst allocate_frame.simps) (simp add: Let_def shift_page r_def[symmetric] k_def[symmetric])
  have kl: "k < length (region_frames r)" using inside u(3) by simp
  then have "drop k (region_frames r) = (?s + k) * 4096 # drop (k + 1) (region_frames r)"
    using region_frames_nth[OF usable kl] by (simp add: Cons_nth_drop_Suc[symmetric])
  then have "remaining_frames a = (?s + k) * 4096 # remaining_frames ?a"
    using n by (simp add: remaining_frames_def r_def k_def)
  moreover have "frames_ok ?a" using ok kl by (simp add: frames_ok_def r_def)
  ultimately show ?thesis using alloc by (simp add: hands_out_def)
qed

lemma allocate_frame_spec: "frames_ok a \<Longrightarrow> hands_out a"
proof (induction a rule: allocate_frame.induct)
  case (1 a)
  show ?case
  proof (cases "next_region a < length (regions a)")
    case False
    with 1(3) show ?thesis
      by (simp add: allocate_frame.simps[of a] remaining_frames_def hands_out_def)
  next
    case True
    let ?r = "regions a ! next_region a" and ?k = "next_frame_in_region a"
    let ?skip = "a\<lparr>next_region := next_region a + 1, next_frame_in_region := 0\<rparr>"
    have skip_ok: "frames_ok ?skip" using 1(3) by (simp add: frames_ok_def)
    show ?thesis
    proof (cases "region_kind ?r = Usable")
      case False
      have "allocate_frame a = allocate_frame ?skip"
        using True False by (subst allocate_frame.simps) (simp add: Let_def)
      then show ?thesis
        using hands_out_skip[OF True] 1(1)[OF _ refl refl False skip_ok] True False
        by (simp add: region_frames_def)
    next
      case usable: True
      note u = usable_region[OF 1(3) True usable]
      show ?thesis
      proof (cases "(region_start ?r + 0xFFF) div 4096 + ?k < region_end ?r div 4096")
        case False
        have "allocate_frame a = allocate_frame ?skip"
          using True usable u(1,2) False by (subst allocate_frame.simps) (simp add: Let_def shift_page)
        moreover have "drop ?k (region_frames ?r) = []"
          using False u(3) by (simp only: drop_eq_Nil)
        moreover have "hands_out ?skip"
          using 1(2)[OF _ refl refl _ _ _ _ skip_ok, of "region_start ?r + 0xFFF" "(region_start ?r + 0xFFF) div 4096 + ?k"]
            True usable u(1,2) False by (simp add: shift_page)
        ultimately show ?thesis using hands_out_skip[OF True] by simp
      qed (rule frame_left[OF 1(3) True usable])
    qed
  qed
qed

text \<open>\<open>n\<close> calls one after the other.\<close>

fun allocate_frames :: "nat \<Rightarrow> frame_allocator \<Rightarrow> (nat option list \<times> frame_allocator) option" where
  "allocate_frames 0 a = Some ([], a)"
| "allocate_frames (Suc n) a =
     do {
       (f, a) \<leftarrow> allocate_frame a;
       (fs, a) \<leftarrow> allocate_frames n a;
       Some (f # fs, a)
     }"

lemma allocate_frames_spec:
  "frames_ok a \<Longrightarrow> \<exists>a'. allocate_frames n a =
     Some (map Some (take n (remaining_frames a)) @
       replicate (n - length (remaining_frames a)) None, a') \<and>
     remaining_frames a' = drop n (remaining_frames a) \<and> frames_ok a'"
proof (induction n arbitrary: a)
  case (Suc n)
  obtain b where b: "allocate_frame a =
      Some (case remaining_frames a of [] \<Rightarrow> None | f # fs \<Rightarrow> Some f, b)"
      "remaining_frames b = tl (remaining_frames a)" "frames_ok b"
    using allocate_frame_spec[OF Suc.prems] by (auto simp: hands_out_def)
  from Suc.IH[OF b(3)] b(1,2) show ?case
    by (cases "remaining_frames a") auto
qed simp

text \<open>All the frames of a memory map, and a map whose regions are in order and do not overlap.\<close>

definition usable_frames :: "memory_region list \<Rightarrow> nat list" where
  "usable_frames rs = concat (map region_frames rs)"

definition regions_disjoint :: "memory_region list \<Rightarrow> bool" where
  "regions_disjoint rs \<longleftrightarrow> sorted_wrt (\<lambda>r s. region_end r \<le> region_start s) rs"

lemma remaining_new: "remaining_frames (frame_allocator_new rs) = usable_frames rs"
  by (cases rs) (simp_all add: remaining_frames_def frame_allocator_new_def usable_frames_def)

lemma frames_ok_new: "regions_ok rs \<Longrightarrow> frames_ok (frame_allocator_new rs)"
  by (simp add: frames_ok_def frame_allocator_new_def)

text \<open>A frame of a region is a page of it, and every whole page of a usable region is a frame.\<close>

definition page_of :: "nat \<Rightarrow> memory_region \<Rightarrow> bool" where
  "page_of f r \<longleftrightarrow> region_kind r = Usable \<and> f mod 4096 = 0 \<and>
     region_start r \<le> f \<and> f + 4096 \<le> region_end r"

lemma div_le_iff: "(s + 0xFFF) div 4096 \<le> k \<longleftrightarrow> s \<le> k * (4096 :: nat)"
proof -
  have "(s + 0xFFF) div 4096 < Suc k \<longleftrightarrow> s + 0xFFF < Suc k * 4096"
    by (rule div_less_iff_less_mult) simp
  then show ?thesis by (simp only: less_Suc_eq_le mult_Suc) arith
qed

lemma le_div_iff: "k < e div 4096 \<longleftrightarrow> k * 4096 + 4096 \<le> (e :: nat)"
proof -
  have "Suc k \<le> e div 4096 \<longleftrightarrow> Suc k * 4096 \<le> e"
    by (rule less_eq_div_iff_mult_less_eq) simp
  then show ?thesis by (simp only: Suc_le_eq mult_Suc add.commute)
qed

lemma page_bounds:
  "(s + 0xFFF) div 4096 \<le> k \<and> k < e div 4096 \<longleftrightarrow> s \<le> k * 4096 \<and> k * 4096 + 4096 \<le> (e :: nat)"
  by (simp only: div_le_iff le_div_iff)

lemma frames_mem: "f \<in> set (map (\<lambda>k. k * 4096) [a..<b]) \<longleftrightarrow> (\<exists>k. f = k * 4096 \<and> a \<le> k \<and> k < b)"
  by auto

lemma region_frames_set: "f \<in> set (region_frames r) \<longleftrightarrow> page_of f r"
proof -
  have "f \<in> set (region_frames r) \<longleftrightarrow> region_kind r = Usable \<and>
      (\<exists>k. f = k * 4096 \<and> (region_start r + 0xFFF) div 4096 \<le> k \<and> k < region_end r div 4096)"
    by (cases "region_kind r = Usable")
      (simp_all only: region_frames_def frames_mem if_True if_False list.set empty_iff simp_thms)
  also have "\<dots> \<longleftrightarrow> region_kind r = Usable \<and> (\<exists>k. f = k * 4096) \<and>
      region_start r \<le> f \<and> f + 4096 \<le> region_end r"
    unfolding page_bounds by blast
  also have "(\<exists>k. f = k * 4096) \<longleftrightarrow> f mod 4096 = 0"
    by (auto simp: mod_eq_0_iff_dvd dvd_def mult.commute)
  finally show ?thesis by (simp only: page_of_def)
qed

lemma usable_frames_set: "f \<in> set (usable_frames rs) \<longleftrightarrow> (\<exists>r\<in>set rs. page_of f r)"
  by (simp add: usable_frames_def region_frames_set)

lemma usable_frames_distinct: "regions_disjoint rs \<Longrightarrow> distinct (usable_frames rs)"
proof (induction rs)
  case (Cons r rs)
  have "distinct (region_frames r)" by (simp add: region_frames_def distinct_map inj_on_def)
  moreover have "set (region_frames r) \<inter> set (usable_frames rs) = {}"
    using Cons.prems
    by (fastforce simp: regions_disjoint_def usable_frames_set region_frames_set page_of_def)
  ultimately show ?case
    using Cons by (simp add: usable_frames_def regions_disjoint_def)
qed (simp add: usable_frames_def)


definition demo_regions :: "memory_region list" where
  "demo_regions =
     [\<lparr>region_start = 0, region_end = 0x1800, region_kind = Unusable\<rparr>,
      \<lparr>region_start = 0x1801, region_end = 0x4FFF, region_kind = Usable\<rparr>,
      \<lparr>region_start = 0x5000, region_end = 0x5FFF, region_kind = Usable\<rparr>,
      \<lparr>region_start = 0x6000, region_end = 0x7000, region_kind = Usable\<rparr>]"

lemma demo_regions_ok: "regions_ok demo_regions \<and> regions_disjoint demo_regions"
  by (simp add: demo_regions_def regions_ok_def regions_disjoint_def usize_bound_def)


end
