(* ===== verification/Page_Walk.thy ===== *)
theory Page_Walk
  imports Paging
begin

text \<open>
  What the operations of \<open>kernel/src/paging.rs\<close> do to the address space. \<open>walk\<close> is the
  processor's translation of a virtual address through the tables in memory, for an access that
  needs given rights. Under the documented laws of a table entry (the locale \<open>entry_format\<close>),
  \<open>map_page\<close> changes the translation of the page it maps and of no other, and
  \<open>mark_all_user_accessible\<close> lets user code reach exactly what the kernel could reach.
\<close>

subsection \<open>Rights\<close>

text \<open>The bits of an entry that hold the address.\<close>

definition addr_mask :: u64 where
  "addr_mask = 0x000FFFFFFFFFF000"

lemma contains_trans: "contains f g \<Longrightarrow> contains g h \<Longrightarrow> contains f h"
  unfolding contains_def by (metis and.assoc)

lemma contains_or_left: "contains f h \<Longrightarrow> contains (f OR g) h"
  unfolding contains_def bit_eq_iff by (auto simp: bit_simps)

lemma contains_or_right: "contains (f OR g) g"
  unfolding contains_def bit_eq_iff by (auto simp: bit_simps)

lemma contains_or_iff: "contains f (g OR h) \<longleftrightarrow> contains f g \<and> contains f h"
  unfolding contains_def bit_eq_iff by (auto simp: bit_simps)

text \<open>Adding a flag does not show in flags that have no bit in common with it.\<close>

lemma contains_or_other: "g AND h = 0 \<Longrightarrow> contains (f OR g) h \<longleftrightarrow> contains f h"
proof -
  assume "g AND h = 0"
  then have "(f OR g) AND h = f AND h" by (simp add: bit.conj_disj_distrib2)
  then show ?thesis by (simp add: contains_def)
qed

lemma user_flag_bits:
  "USER_ACCESSIBLE AND PRESENT = 0" "USER_ACCESSIBLE AND HUGE_PAGE = 0"
  "USER_ACCESSIBLE AND addr_mask = 0" "table_flags AND addr_mask = 0"
  "contains table_flags PRESENT" "\<not> contains table_flags HUGE_PAGE" "\<not> contains 0 PRESENT"
  by (simp_all add: USER_ACCESSIBLE_def PRESENT_def HUGE_PAGE_def WRITABLE_def addr_mask_def
    table_flags_def contains_def)

subsection \<open>The processor's translation\<close>

text \<open>
  \<open>walk ops E need l t v\<close> translates \<open>v\<close> from a table at \<open>t\<close> of level \<open>l\<close>, where \<open>E\<close> gives
  the entries of the tables by physical address: each entry on the way must have the rights
  \<open>need\<close>. An entry of level 3 or 2 with \<open>HUGE_PAGE\<close> maps 1 GiB or 2 MiB itself; the bit is
  reserved at level 4, where it faults, and is another bit at level 1.
\<close>

type_synonym entries = "nat \<Rightarrow> nat \<Rightarrow> u64"

fun walk :: "entry_ops \<Rightarrow> entries \<Rightarrow> u64 \<Rightarrow> nat \<Rightarrow> nat \<Rightarrow> nat \<Rightarrow> nat option" where
  "walk ops E need 0 t v = Some (t + v mod 4096)"
| "walk ops E need (Suc l) t v =
     (let e = E t (table_index (Suc l) v); flags = e_flags ops e in
      if \<not> contains flags need then None
      else if contains flags HUGE_PAGE \<and> l = 3 then None
      else if contains flags HUGE_PAGE \<and> 0 < l then Some (e_addr ops e + v mod 2 ^ (12 + 9 * l))
      else walk ops E need l (e_addr ops e) v)"

text \<open>The tables in the memory of a paging state, and the translation from its \<open>CR3\<close>.\<close>

definition ents :: "paging \<Rightarrow> entries" where
  "ents p t i =
     (if t mod 4096 = 0 \<and> i < 512 then read_entry p (t + phys_mem_offset p) i else 0)"

definition translate :: "entry_ops \<Rightarrow> paging \<Rightarrow> u64 \<Rightarrow> nat \<Rightarrow> nat option" where
  "translate ops p need v = walk ops (ents p) need 4 (cr3 p) v"

text \<open>\<open>table_of ops E r d v\<close>: the table \<open>v\<close> is looked up in after \<open>d\<close> steps from \<open>r\<close>.\<close>

fun table_of :: "entry_ops \<Rightarrow> entries \<Rightarrow> nat \<Rightarrow> nat \<Rightarrow> nat \<Rightarrow> nat option" where
  "table_of ops E r 0 v = Some r"
| "table_of ops E r (Suc d) v =
     do {
       t \<leftarrow> table_of ops E r d v;
       let e = E t (table_index (4 - d) v);
       if contains (e_flags ops e) PRESENT \<and> \<not> contains (e_flags ops e) HUGE_PAGE
       then Some (e_addr ops e) else None
     }"

lemma table_index_mod: "table_index l v = v div 2 ^ (12 + 9 * (l - 1)) mod 512"
proof -
  have "(0x1FF :: nat) = mask 9" by (simp add: mask_eq_exp_minus_1)
  then show ?thesis
    unfolding table_index_def by (simp only: take_bit_eq_mask[symmetric] take_bit_eq_mod drop_bit_eq_div)
      simp
qed

lemma table_index_less [simp]: "table_index l v < 512"
  by (simp add: table_index_mod)

text \<open>
  Only the entries a lookup passes matter: where two states agree on them, so do the walk and
  the tables of an address.
\<close>

lemma table_of_cong:
  assumes "\<And>k t. k < d \<Longrightarrow> table_of ops E r k v = Some t \<Longrightarrow>
    E' t (table_index (4 - k) v) = E t (table_index (4 - k) v)"
  shows "table_of ops E' r d v = table_of ops E r d v"
  using assms
proof (induction d)
  case (Suc d)
  have "table_of ops E' r d v = table_of ops E r d v" by (rule Suc.IH) (simp add: Suc.prems)
  then show ?case using Suc.prems[of d] by (cases "table_of ops E r d v") (simp_all add: Let_def)
qed simp

lemma walk_cong:
  assumes agree: "\<And>k t. k < 4 \<Longrightarrow> table_of ops E r k v = Some t \<Longrightarrow>
      E' t (table_index (4 - k) v) = E t (table_index (4 - k) v)"
    and need: "contains need PRESENT"
  shows "walk ops E' need 4 r v = walk ops E need 4 r v"
proof -
  have "l \<le> 4 \<Longrightarrow> table_of ops E r (4 - l) v = Some t \<Longrightarrow>
      walk ops E' need l t v = walk ops E need l t v" for l t
  proof (induction l arbitrary: t)
    case (Suc l)
    let ?e = "E t (table_index (Suc l) v)"
    have e: "E' t (table_index (Suc l) v) = ?e"
      using agree[of "4 - Suc l" t] Suc.prems by simp
    have "walk ops E' need l (e_addr ops ?e) v = walk ops E need l (e_addr ops ?e) v"
      if "contains (e_flags ops ?e) need" "\<not> contains (e_flags ops ?e) HUGE_PAGE"
    proof (rule Suc.IH)
      have "4 - l = Suc (4 - Suc l)" using Suc.prems(1) by simp
      moreover have "contains (e_flags ops ?e) PRESENT" using that(1) need by (rule contains_trans)
      ultimately show "table_of ops E r (4 - l) v = Some (e_addr ops ?e)"
        using Suc.prems that(2) by (simp add: Let_def)
    qed (use Suc.prems in simp)
    then show ?case
      unfolding walk.simps Let_def e
      by (cases "contains (e_flags ops ?e) need"; cases "contains (e_flags ops ?e) HUGE_PAGE";
        cases "l = 0") simp_all
  qed simp
  from this[of 4 r] show ?thesis by simp
qed

text \<open>A walk passes through the tables of its address.\<close>

lemma walk_none:
  assumes "contains need PRESENT"
  shows "d \<le> 4 \<Longrightarrow> table_of ops E r d v = Some t \<Longrightarrow> walk ops E need (4 - d) t v = None \<Longrightarrow>
    walk ops E need 4 r v = None"
proof (induction d arbitrary: t)
  case (Suc d)
  from Suc.prems(2) obtain s where s: "table_of ops E r d v = Some s"
    "t = e_addr ops (E s (table_index (4 - d) v))"
    "\<not> contains (e_flags ops (E s (table_index (4 - d) v))) HUGE_PAGE"
    by (auto simp: Let_def bind_eq_Some_conv split: if_splits)
  have l: "4 - d = Suc (4 - Suc d)" using Suc.prems(1) by simp
  have "walk ops E need (4 - d) s v = None"
    unfolding l walk.simps Let_def using s(2,3) Suc.prems(3) l by simp
  with s(1) Suc.prems(1) show ?case by (intro Suc.IH) simp_all
qed simp

lemma walk_down:
  assumes "\<And>k t. k < d \<Longrightarrow> table_of ops E r k v = Some t \<Longrightarrow>
    contains (e_flags ops (E t (table_index (4 - k) v))) need"
  shows "d \<le> 4 \<Longrightarrow> table_of ops E r d v = Some t \<Longrightarrow>
    walk ops E need 4 r v = walk ops E need (4 - d) t v"
  using assms
proof (induction d arbitrary: t)
  case (Suc d)
  from Suc.prems(2) obtain s where s: "table_of ops E r d v = Some s"
    "t = e_addr ops (E s (table_index (4 - d) v))"
    "\<not> contains (e_flags ops (E s (table_index (4 - d) v))) HUGE_PAGE"
    by (auto simp: Let_def bind_eq_Some_conv split: if_splits)
  have l: "4 - d = Suc (4 - Suc d)" using Suc.prems(1) by simp
  have "walk ops E need 4 r v = walk ops E need (4 - d) s v"
    using Suc.prems(1,3) s(1) by (intro Suc.IH) simp_all
  also have "\<dots> = walk ops E need (4 - Suc d) t v"
    using s Suc.prems(3)[OF _ s(1)] unfolding l walk.simps Let_def by simp
  finally show ?case .
qed simp

declare table_of.simps(2) [simp del]

subsection \<open>The tables form a tree\<close>

text \<open>A physical page is a table at one level only, and for one prefix of an address.\<close>

definition tree_ok :: "entry_ops \<Rightarrow> entries \<Rightarrow> nat \<Rightarrow> bool" where
  "tree_ok ops E r \<longleftrightarrow>
     (\<forall>d d' v v' t. d \<le> 3 \<and> d' \<le> 3 \<and> table_of ops E r d v = Some t \<and> table_of ops E r d' v' = Some t \<longrightarrow>
        d = d' \<and> (\<forall>k<d. table_index (4 - k) v = table_index (4 - k) v'))"

definition is_table :: "entry_ops \<Rightarrow> entries \<Rightarrow> nat \<Rightarrow> nat \<Rightarrow> bool" where
  "is_table ops E r t \<longleftrightarrow> (\<exists>d\<le>3. \<exists>v. table_of ops E r d v = Some t)"

definition passes :: "entry_ops \<Rightarrow> entries \<Rightarrow> nat \<Rightarrow> nat \<Rightarrow> nat \<Rightarrow> nat \<Rightarrow> nat \<Rightarrow> bool" where
  "passes ops E r d t i w \<longleftrightarrow> table_of ops E r d w = Some t \<and> table_index (4 - d) w = i"

lemma tree_ok_cong:
  "(\<And>k w. k \<le> 3 \<Longrightarrow> table_of ops E' r k w = table_of ops E r k w) \<Longrightarrow> tree_ok ops E' r = tree_ok ops E r"
  unfolding tree_ok_def by (simp cong: conj_cong)

lemma is_table_cong:
  "(\<And>k w. k \<le> 3 \<Longrightarrow> table_of ops E' r k w = table_of ops E r k w) \<Longrightarrow>
    is_table ops E' r t = is_table ops E r t"
  unfolding is_table_def by (simp cong: conj_cong)

lemma tree_okD:
  assumes "tree_ok ops E r" and "d \<le> 3" "table_of ops E r d v = Some t"
    and "d' \<le> 3" "table_of ops E r d' v' = Some t"
  shows "d = d'" and "k < d \<Longrightarrow> table_index (4 - k) v = table_index (4 - k) v'"
  using assms unfolding tree_ok_def by blast+

lemma passes_same_index:
  assumes "tree_ok ops E r" and "d \<le> 3"
    and "passes ops E r d t i v" and "passes ops E r d t i w" and "k \<le> d"
  shows "table_index (4 - k) v = table_index (4 - k) w"
proof (cases "k = d")
  case False
  with assms show ?thesis
    using tree_okD(2)[OF assms(1,2) _ assms(2), of v t w k] by (simp add: passes_def)
qed (use assms in \<open>simp add: passes_def\<close>)

text \<open>
  A fresh page \<open>f\<close> of zeros, hung under the entry \<open>i\<close> of a table \<open>t\<close> that was not present.
\<close>

definition links ::
  "entry_ops \<Rightarrow> entries \<Rightarrow> nat \<Rightarrow> nat \<Rightarrow> nat \<Rightarrow> nat \<Rightarrow> nat \<Rightarrow> nat \<Rightarrow> u64 \<Rightarrow> entries \<Rightarrow> bool" where
  "links ops E r d v t i f e E' \<longleftrightarrow>
     tree_ok ops E r \<and> d < 3 \<and> passes ops E r d t i v \<and>
     \<not> contains (e_flags ops (E t i)) PRESENT \<and> \<not> is_table ops E r f \<and>
     \<not> contains (e_flags ops 0) PRESENT \<and>
     e_addr ops e = f \<and> e_flags ops e = table_flags \<and>
     E' = (\<lambda>x k. if x = t \<and> k = i then e else if x = f then 0 else E x k)"

lemma links_entry:
  assumes "links ops E r d v t i f e E'" and "table_of ops E r k w = Some x" and "k \<le> 3"
    and "\<not> (k = d \<and> passes ops E r d t i w)"
  shows "E' x (table_index (4 - k) w) = E x (table_index (4 - k) w)"
proof -
  have "x \<noteq> f" using assms(1,2,3) by (auto simp: links_def is_table_def)
  moreover have "\<not> (x = t \<and> table_index (4 - k) w = i)"
  proof
    assume x: "x = t \<and> table_index (4 - k) w = i"
    have "k = d"
      using assms(1,2,3) x tree_okD(1)[of ops E r k w t d v]
      by (auto simp: links_def passes_def)
    with x assms(2,4) show False by (simp add: passes_def)
  qed
  ultimately show ?thesis using assms(1) by (auto simp: links_def)
qed

lemma links_table_of:
  assumes l: "links ops E r d v t i f e E'" and "k \<le> 3"
  shows "table_of ops E' r k w =
    (if k \<le> d \<or> \<not> passes ops E r d t i w then table_of ops E r k w
     else if k = Suc d then Some f else None)"
proof (cases "k \<le> d \<or> \<not> passes ops E r d t i w")
  case True
  have "table_of ops E' r k w = table_of ops E r k w"
  proof (rule table_of_cong)
    fix j x assume "j < k" "table_of ops E r j w = Some x"
    then show "E' x (table_index (4 - j) w) = E x (table_index (4 - j) w)"
      using links_entry[OF l, of j w x] True \<open>k \<le> 3\<close> by auto
  qed
  with True show ?thesis by simp
next
  case False
  then have p: "table_of ops E r d w = Some t" "table_index (4 - d) w = i"
    by (auto simp: passes_def)
  have "table_of ops E' r d w = table_of ops E r d w"
  proof (rule table_of_cong)
    fix j x assume "j < d" "table_of ops E r j w = Some x"
    then show "E' x (table_index (4 - j) w) = E x (table_index (4 - j) w)"
      using links_entry[OF l, of j w x] False \<open>k \<le> 3\<close> by auto
  qed
  moreover have "E' t i = e" "e_flags ops e = table_flags" "e_addr ops e = f" "f \<noteq> t"
    using l by (auto simp: links_def is_table_def passes_def intro: less_imp_le)
  moreover from this(4) have "E' f x = 0" for x using l by (auto simp: links_def)
  ultimately have "table_of ops E' r (Suc d) w = Some f" and
    none: "table_of ops E' r (Suc (Suc d)) w = None"
    using p l user_flag_bits by (simp_all add: Let_def links_def table_of.simps(2))
  have deep: "table_of ops E' r (Suc (Suc d + j)) w = None" for j
    by (induction j) (use none in \<open>simp_all add: table_of.simps(2)\<close>)
  have "table_of ops E' r k w = None" if "Suc d < k"
    using less_imp_Suc_add[OF that] deep by (elim exE) (simp only:)
  with \<open>table_of ops E' r (Suc d) w = Some f\<close> False show ?thesis by (cases "k = Suc d") auto
qed

lemma links_split:
  assumes l: "links ops E r d v t i f e E'" and k: "k \<le> 3" and x: "table_of ops E' r k w = Some x"
  shows "x = f \<and> k = Suc d \<and> passes ops E r d t i w \<or> x \<noteq> f \<and> table_of ops E r k w = Some x"
proof (cases "k \<le> d \<or> \<not> passes ops E r d t i w")
  case True
  with links_table_of[OF l k, of w] x have old: "table_of ops E r k w = Some x" by simp
  then have "is_table ops E r x" using k unfolding is_table_def by blast
  with l old show ?thesis by (auto simp: links_def)
next
  case False
  with links_table_of[OF l k, of w] x have "k = Suc d" "x = f" by (simp_all split: if_splits)
  with False show ?thesis by simp
qed

lemma links_tables:
  assumes "links ops E r d v t i f e E'" and "is_table ops E' r x"
  shows "is_table ops E r x \<or> x = f"
proof -
  from assms(2) obtain k w where k: "k \<le> 3" and w: "table_of ops E' r k w = Some x"
    unfolding is_table_def by blast
  from links_split[OF assms(1) k w] show ?thesis
  proof
    assume "x \<noteq> f \<and> table_of ops E r k w = Some x"
    with k show ?thesis unfolding is_table_def by blast
  qed simp
qed

lemma links_tree:
  assumes l: "links ops E r d v t i f e E'"
  shows "tree_ok ops E' r"
  unfolding tree_ok_def
proof (intro allI impI, elim conjE)
  fix a b u w x
  assume ab: "a \<le> 3" "b \<le> 3" and x: "table_of ops E' r a u = Some x" "table_of ops E' r b w = Some x"
  have tree: "tree_ok ops E r" and d: "d \<le> 3" using l by (simp_all add: links_def)
  show "a = b \<and> (\<forall>k<a. table_index (4 - k) u = table_index (4 - k) w)"
  proof (cases "x = f")
    case True
    with links_split[OF l ab(1) x(1)] links_split[OF l ab(2) x(2)]
    have "a = Suc d" "b = Suc d" and p: "passes ops E r d t i u" "passes ops E r d t i w"
      by simp_all
    with passes_same_index[OF tree d p] show ?thesis by (simp only: less_Suc_eq_le) blast
  next
    case False
    with links_split[OF l ab(1) x(1)] links_split[OF l ab(2) x(2)]
    have "table_of ops E r a u = Some x" "table_of ops E r b w = Some x" by simp_all
    from tree_okD[OF tree ab(1) this(1) ab(2) this(2)] show ?thesis by blast
  qed
qed

text \<open>No address is translated differently: where the new table hangs nothing was mapped.\<close>

lemma links_walk:
  assumes l: "links ops E r d v t i f e E'" and need: "contains need PRESENT"
  shows "walk ops E' need 4 r w = walk ops E need 4 r w"
proof (cases "passes ops E r d t i w")
  case False
  show ?thesis
    by (rule walk_cong[OF _ need]) (use links_entry[OF l] False in simp)
next
  case True
  then have p: "table_of ops E r d w = Some t" "table_index (4 - d) w = i"
    by (auto simp: passes_def)
  have d: "d < 3" using l by (simp add: links_def)
  have "\<not> contains (e_flags ops (E t i)) need"
    using l contains_trans[OF _ need] by (auto simp: links_def)
  moreover have "4 - d = Suc (3 - d)" using d by simp
  ultimately have "walk ops E need (4 - d) t w = None" using p(2) by (simp add: Let_def)
  then have "walk ops E need 4 r w = None" using walk_none[OF need _ p(1)] d by simp
  moreover have "walk ops E' need 4 r w = None"
  proof (rule walk_none[OF need])
    show "Suc d \<le> 4" using d by simp
    show "table_of ops E' r (Suc d) w = Some f"
      using links_table_of[OF l, of "Suc d" w] d True by simp
    have "f \<noteq> t" using l p(1) by (auto simp: links_def is_table_def intro: less_imp_le)
    then have "E' f k = 0" for k using l by (auto simp: links_def)
    moreover have "\<not> contains (e_flags ops 0) need"
      using l contains_trans[OF _ need] by (auto simp: links_def)
    moreover have "4 - Suc d = Suc (2 - d)" using d by simp
    ultimately show "walk ops E' need (4 - Suc d) f w = None" by (simp add: Let_def)
  qed
  ultimately show ?thesis by simp
qed

text \<open>
  The entry of a page in its last table: other pages keep their translation, and this one gets
  what the entry says, for the rights the tables above grant.
\<close>

definition sets_leaf :: "entry_ops \<Rightarrow> entries \<Rightarrow> nat \<Rightarrow> nat \<Rightarrow> nat \<Rightarrow> u64 \<Rightarrow> entries \<Rightarrow> bool" where
  "sets_leaf ops E r v t e E' \<longleftrightarrow> tree_ok ops E r \<and> table_of ops E r 3 v = Some t \<and>
     E' = (\<lambda>x k. if x = t \<and> k = table_index 1 v then e else E x k)"

lemma sets_leaf_entry:
  assumes "sets_leaf ops E r v t e E'" and "table_of ops E r k w = Some x" and "k \<le> 3"
    and "\<not> (k = 3 \<and> x = t \<and> table_index 1 w = table_index 1 v)"
  shows "E' x (table_index (4 - k) w) = E x (table_index (4 - k) w)"
  using assms tree_okD(1)[of ops E r k w t 3 v] by (auto simp: sets_leaf_def)

lemma sets_leaf_table_of:
  assumes "sets_leaf ops E r v t e E'" and "k \<le> 3"
  shows "table_of ops E' r k w = table_of ops E r k w"
  by (rule table_of_cong) (use sets_leaf_entry[OF assms(1)] assms(2) in auto)

definition same_page :: "nat \<Rightarrow> nat \<Rightarrow> bool" where
  "same_page v w \<longleftrightarrow> (\<forall>k<4. table_index (4 - k) v = table_index (4 - k) w)"

lemma sets_leaf_other:
  assumes l: "sets_leaf ops E r v t e E'" and need: "contains need PRESENT" and "\<not> same_page v w"
  shows "walk ops E' need 4 r w = walk ops E need 4 r w"
proof (rule walk_cong[OF _ need])
  fix k x assume k: "k < 4" "table_of ops E r k w = Some x"
  show "E' x (table_index (4 - k) w) = E x (table_index (4 - k) w)"
  proof (rule sets_leaf_entry[OF l k(2)])
    show "\<not> (k = 3 \<and> x = t \<and> table_index 1 w = table_index 1 v)"
    proof
      assume x: "k = 3 \<and> x = t \<and> table_index 1 w = table_index 1 v"
      have "passes ops E r 3 t (table_index 1 v) v" "passes ops E r 3 t (table_index 1 v) w"
        using l x k(2) by (simp_all add: passes_def sets_leaf_def)
      then have "same_page v w"
        using l passes_same_index[of ops E r 3 t "table_index 1 v" v w]
        by (simp add: same_page_def sets_leaf_def)
      with assms(3) show False ..
    qed
  qed (use k in simp)
qed

subsection \<open>Table entries in memory\<close>

lemma load64_zeros: "load64 (store m a (replicate n 0)) b = 0" if "a \<le> b" "b + 8 \<le> a + n"
proof -
  have "load (store m a (replicate n 0)) b 8 = replicate 8 0"
    by (rule nth_equalityI) (use that in \<open>auto simp: load_def store_def\<close>)
  then show ?thesis by (simp add: load64_def u64_from_le_def numeral_eq_Suc)
qed

text \<open>Entries of whole tables do not overlap.\<close>

lemma entry_disjoint:
  fixes s t :: nat
  assumes "s mod 4096 = 0" "t mod 4096 = 0" "i < 512" "k < 512" and "\<not> (s = t \<and> i = k)"
  shows "s + 8 * i + 8 \<le> t + 8 * k \<or> t + 8 * k + 8 \<le> s + 8 * i"
proof -
  obtain a b where "s = 4096 * a" "t = 4096 * b"
    using assms(1,2) by (metis mult_div_mod_eq add_0_right)
  with assms show ?thesis by (cases a b rule: linorder_cases) auto
qed

lemma page_disjoint:
  fixes s t :: nat
  assumes "s mod 4096 = 0" "t mod 4096 = 0" "i < 512" and "s \<noteq> t"
  shows "s + 8 * i + 8 \<le> t \<or> t + 4096 \<le> s + 8 * i"
proof -
  obtain a b where "s = 4096 * a" "t = 4096 * b"
    using assms(1,2) by (metis mult_div_mod_eq add_0_right)
  with assms show ?thesis by (cases a b rule: linorder_cases) auto
qed

lemma ents_store:
  assumes "t mod 4096 = 0" and "i < 512"
  shows "ents (p\<lparr>pg_mem := store64 (pg_mem p) (t + phys_mem_offset p + 8 * i) e\<rparr>) =
    (\<lambda>x k. if x = t \<and> k = i then e else ents p x k)"
proof (intro ext)
  fix x k
  show "ents (p\<lparr>pg_mem := store64 (pg_mem p) (t + phys_mem_offset p + 8 * i) e\<rparr>) x k =
    (if x = t \<and> k = i then e else ents p x k)"
  proof (cases "x mod 4096 = 0 \<and> k < 512 \<and> \<not> (x = t \<and> k = i)")
    case True
    with entry_disjoint[OF _ assms(1) _ assms(2), of x k]
    have "x + phys_mem_offset p + 8 * k + 8 \<le> t + phys_mem_offset p + 8 * i \<or>
        t + phys_mem_offset p + 8 * i + 8 \<le> x + phys_mem_offset p + 8 * k"
      by auto
    from load64_store64_other[OF this] True show ?thesis by (auto simp: ents_def read_entry_def)
  qed (use assms in \<open>auto simp: ents_def read_entry_def\<close>)
qed

lemma ents_zero:
  assumes "f mod 4096 = 0"
  shows "ents (p\<lparr>pg_mem := store (pg_mem p) (f + phys_mem_offset p) (replicate 4096 0)\<rparr>) =
    (\<lambda>x k. if x = f then 0 else ents p x k)"
proof (intro ext)
  fix x k
  show "ents (p\<lparr>pg_mem := store (pg_mem p) (f + phys_mem_offset p) (replicate 4096 0)\<rparr>) x k =
    (if x = f then 0 else ents p x k)"
  proof (cases "x mod 4096 = 0 \<and> k < 512")
    case True
    show ?thesis
    proof (cases "x = f")
      case False
      with page_disjoint[OF _ assms, of x k] True
      have "x + phys_mem_offset p + 8 * k + 8 \<le> f + phys_mem_offset p \<or>
          f + phys_mem_offset p + length (replicate 4096 (0 :: u8)) \<le> x + phys_mem_offset p + 8 * k"
        by auto
      from load64_store_other[OF this] True False show ?thesis by (auto simp: ents_def read_entry_def)
    qed (use True in \<open>simp add: ents_def read_entry_def load64_zeros\<close>)
  qed (use assms in \<open>auto simp: ents_def read_entry_def\<close>)
qed

lemma ents_frame_alloc [simp]: "ents (p\<lparr>frame_alloc := a\<rparr>) = ents p"
  by (intro ext) (simp add: ents_def read_entry_def)

subsection \<open>The laws of an entry\<close>

text \<open>
  What the code relies on in the crate's \<open>PageTableEntry\<close>: an entry made from a page address
  below 4 PiB and flags gives both back, every entry's address is a page address, and an unused
  entry is not present.
\<close>

locale entry_format =
  fixes ops :: entry_ops
  assumes addr_page: "e_addr ops e mod 4096 = 0"
    and addr_bound: "e_addr ops e < 2 ^ 52"
    and flags_bits: "e_flags ops e AND addr_mask = 0"
    and make: "a mod 4096 = 0 \<Longrightarrow> a < 2 ^ 52 \<Longrightarrow> f AND addr_mask = 0 \<Longrightarrow>
      \<exists>e. e_make ops a f = Some e \<and> e_addr ops e = a \<and> e_flags ops e = f"
    and unused_absent: "e_unused ops e \<Longrightarrow> \<not> contains (e_flags ops e) PRESENT"
    and zero_unused: "e_unused ops 0"

text \<open>
  The states the operations run in: physical memory is mapped at the offset, the tables form a
  tree, and no frame the allocator has left is one of them.
\<close>

definition maps_memory :: "paging \<Rightarrow> bool" where
  "maps_memory p \<longleftrightarrow> phys_mem_offset p + 2 ^ 52 \<le> usize_bound \<and> cr3 p mod 4096 = 0 \<and> cr3 p < 2 ^ 52"

definition frames_fresh :: "entry_ops \<Rightarrow> entries \<Rightarrow> nat \<Rightarrow> frame_allocator \<Rightarrow> bool" where
  "frames_fresh ops E r a \<longleftrightarrow> frames_ok a \<and> distinct (remaining_frames a) \<and>
     (\<forall>f\<in>set (remaining_frames a). f < 2 ^ 52 \<and> f mod 4096 = 0 \<and> \<not> is_table ops E r f)"

definition paging_ok :: "entry_ops \<Rightarrow> paging \<Rightarrow> bool" where
  "paging_ok ops p \<longleftrightarrow> maps_memory p \<and> tree_ok ops (ents p) (cr3 p) \<and>
     (\<forall>a. frame_alloc p = Some a \<longrightarrow> frames_fresh ops (ents p) (cr3 p) a)"

text \<open>
  The entries above a page: each is unused, or leads to a table and grants the rights \<open>need\<close>.
  \<open>opened d\<close>: \<open>d\<close> of them have been passed.
\<close>

definition path_ok :: "entry_ops \<Rightarrow> paging \<Rightarrow> u64 \<Rightarrow> nat \<Rightarrow> bool" where
  "path_ok ops p need v \<longleftrightarrow> (\<forall>k<3. \<forall>t. table_of ops (ents p) (cr3 p) k v = Some t \<longrightarrow>
     (let e = ents p t (table_index (4 - k) v) in
      e_unused ops e \<or> contains (e_flags ops e) need \<and> \<not> contains (e_flags ops e) HUGE_PAGE))"

definition opened :: "entry_ops \<Rightarrow> paging \<Rightarrow> u64 \<Rightarrow> nat \<Rightarrow> nat \<Rightarrow> nat \<Rightarrow> bool" where
  "opened ops p need v d t \<longleftrightarrow> table_of ops (ents p) (cr3 p) d v = Some t \<and>
     (\<forall>k<d. \<forall>t. table_of ops (ents p) (cr3 p) k v = Some t \<longrightarrow>
        contains (e_flags ops (ents p t (table_index (4 - k) v))) need)"

text \<open>
  How many frames are left; the pages that are neither a table nor one of them; and a step that
  moves no page and leaves such pages alone.
\<close>

definition frames_left :: "paging \<Rightarrow> nat" where
  "frames_left p = (case frame_alloc p of None \<Rightarrow> 0 | Some a \<Rightarrow> length (remaining_frames a))"

definition free_frames :: "paging \<Rightarrow> nat set" where
  "free_frames p = (case frame_alloc p of None \<Rightarrow> {} | Some a \<Rightarrow> set (remaining_frames a))"

definition spare :: "entry_ops \<Rightarrow> paging \<Rightarrow> nat \<Rightarrow> bool" where
  "spare ops p f \<longleftrightarrow> \<not> is_table ops (ents p) (cr3 p) f \<and> f \<notin> free_frames p"

definition keeps_pages :: "entry_ops \<Rightarrow> paging \<Rightarrow> paging \<Rightarrow> bool" where
  "keeps_pages ops p q \<longleftrightarrow> paging_ok ops q \<and> cr3 q = cr3 p \<and> phys_mem_offset q = phys_mem_offset p \<and>
     (\<forall>f. spare ops p f \<longrightarrow> spare ops q f) \<and>
     (\<forall>need w. contains need PRESENT \<longrightarrow> translate ops q need w = translate ops p need w)"

lemma keeps_pages_trans:
  "keeps_pages ops p q \<Longrightarrow> keeps_pages ops q s \<Longrightarrow> keeps_pages ops p s"
  by (simp add: keeps_pages_def)

lemma keeps_pages_refl: "paging_ok ops p \<Longrightarrow> keeps_pages ops p p"
  by (simp add: keeps_pages_def)

subsection \<open>Mapping a page\<close>

context entry_format
begin

lemma table_of_page:
  "r mod 4096 = 0 \<Longrightarrow> r < 2 ^ 52 \<Longrightarrow> table_of ops E r d v = Some t \<Longrightarrow> t mod 4096 = 0 \<and> t < 2 ^ 52"
proof (cases d)
  case (Suc k)
  assume "table_of ops E r d v = Some t"
  with Suc obtain e where "t = e_addr ops e"
    by (auto simp: table_of.simps(2) Let_def bind_eq_Some_conv split: if_splits)
  then show ?thesis using addr_page addr_bound by simp
qed simp

lemma phys_to_virt_ok:
  "maps_memory p \<Longrightarrow> a < 2 ^ 52 \<Longrightarrow> phys_to_virt p a = Some (a + phys_mem_offset p)"
  by (simp add: phys_to_virt_def maps_memory_def uadd_def)

lemma set_entry_ok:
  assumes "t mod 4096 = 0" "i < 512" "a mod 4096 = 0" "a < 2 ^ 52" "f AND addr_mask = 0"
  shows "\<exists>e q. set_entry ops (t + phys_mem_offset p) i a f p = Some q \<and>
    e_addr ops e = a \<and> e_flags ops e = f \<and>
    ents q = (\<lambda>x k. if x = t \<and> k = i then e else ents p x k) \<and>
    phys_mem_offset q = phys_mem_offset p \<and> cr3 q = cr3 p \<and> frame_alloc q = frame_alloc p"
proof -
  obtain e where "e_make ops a f = Some e" "e_addr ops e = a" "e_flags ops e = f"
    using make[OF assms(3-5)] by blast
  then show ?thesis using ents_store[OF assms(1,2), of p e]
    by (intro exI[of _ e]) (simp add: set_entry_def)
qed

text \<open>A fresh frame: the next one of the allocator, filled with zeros, or an error.\<close>

lemma alloc_zeroed_frame_ok:
  assumes ok: "paging_ok ops p"
  shows "(\<exists>e q. alloc_zeroed_frame p = Some (Inl e, q) \<and> keeps_pages ops p q \<and> ents q = ents p \<and>
      frames_left p = 0) \<or>
    (\<exists>f q a. alloc_zeroed_frame p = Some (Inr f, q) \<and>
      phys_mem_offset q = phys_mem_offset p \<and> cr3 q = cr3 p \<and> frame_alloc q = Some a \<and>
      ents q = (\<lambda>x k. if x = f then 0 else ents p x k) \<and>
      f mod 4096 = 0 \<and> f < 2 ^ 52 \<and> \<not> is_table ops (ents p) (cr3 p) f \<and>
      frames_fresh ops (ents p) (cr3 p) a \<and> f \<notin> set (remaining_frames a) \<and>
      free_frames p = insert f (set (remaining_frames a)) \<and>
      frames_left p = Suc (length (remaining_frames a)))"
proof (cases "frame_alloc p")
  case None
  then show ?thesis using keeps_pages_refl[OF ok]
    by (simp add: alloc_zeroed_frame_def frames_left_def)
next
  case (Some a)
  with ok have a: "frames_fresh ops (ents p) (cr3 p) a" by (simp add: paging_ok_def)
  then obtain b where b: "allocate_frame a =
      Some (case remaining_frames a of [] \<Rightarrow> None | f # fs \<Rightarrow> Some f, b)"
      "remaining_frames b = tl (remaining_frames a)" "frames_ok b"
    using allocate_frame_spec[of a] by (auto simp: hands_out_def frames_fresh_def)
  show ?thesis
  proof (cases "remaining_frames a")
    case Nil
    let ?q = "p\<lparr>frame_alloc := Some b\<rparr>"
    have "alloc_zeroed_frame p = Some (Inl ''Out of physical frames'', ?q)"
      using Some b(1) Nil by (simp add: alloc_zeroed_frame_def Let_def)
    moreover have "keeps_pages ops p ?q"
      using ok b Nil
      by (simp add: keeps_pages_def paging_ok_def maps_memory_def translate_def frames_fresh_def
        spare_def free_frames_def)
    ultimately show ?thesis using Some Nil by (simp add: frames_left_def)
  next
    case (Cons f fs)
    have f: "f mod 4096 = 0" "f < 2 ^ 52" "\<not> is_table ops (ents p) (cr3 p) f"
      using a Cons by (simp_all add: frames_fresh_def)
    have v: "phys_to_virt (p\<lparr>frame_alloc := Some b\<rparr>) f = Some (f + phys_mem_offset p)"
      using ok f(2) phys_to_virt_ok[of p f] by (simp add: paging_ok_def phys_to_virt_def)
    let ?q = "p\<lparr>frame_alloc := Some b,
      pg_mem := store (pg_mem p) (f + phys_mem_offset p) (replicate 4096 0)\<rparr>"
    have "alloc_zeroed_frame p = Some (Inr f, ?q)"
      using Some b(1) Cons v by (simp add: alloc_zeroed_frame_def Let_def)
    moreover have "ents ?q = (\<lambda>x k. if x = f then 0 else ents p x k)"
      using ents_zero[OF f(1), of "p\<lparr>frame_alloc := Some b\<rparr>"] unfolding ents_frame_alloc by simp
    moreover have "frames_fresh ops (ents p) (cr3 p) b" "f \<notin> set (remaining_frames b)"
      and "frames_left p = Suc (length (remaining_frames b))"
      and "free_frames p = insert f (set (remaining_frames b))"
      using a b(2,3) Cons Some by (simp_all add: frames_fresh_def frames_left_def free_frames_def)
    ultimately show ?thesis using f
      by (intro disjI2 exI[of _ f] exI[of _ ?q] exI[of _ b]) simp
  qed
qed

text \<open>Steps 1 to 3 of \<open>map_page\<close>: the state after a new table has been hung in.\<close>

lemma linked_ok:
  assumes ok: "paging_ok ops p" and op: "opened ops p need v d t"
    and path: "path_ok ops p need v" and need: "contains table_flags need"
    and l: "links ops (ents p) (cr3 p) d v t (table_index (4 - d) v) f e (ents s)"
    and s: "phys_mem_offset s = phys_mem_offset p" "cr3 s = cr3 p" "frame_alloc s = Some a"
    and a: "frames_fresh ops (ents p) (cr3 p) a" "f \<notin> set (remaining_frames a)"
      "free_frames p = insert f (set (remaining_frames a))"
  shows "keeps_pages ops p s" and "path_ok ops s need v" and "opened ops s need v (Suc d) f"
proof -
  let ?E = "ents p" and ?r = "cr3 p" and ?i = "table_index (4 - d) v"
  have d: "d < 3" and e: "e_flags ops e = table_flags" using l by (simp_all add: links_def)
  have t: "table_of ops ?E ?r d v = Some t" using op by (simp add: opened_def)
  have pass: "passes ops ?E ?r d t ?i v" using t by (simp add: passes_def)
  have es: "ents s t ?i = e" using l by (simp add: links_def)
  have tables: "table_of ops (ents s) ?r k v =
      (if k \<le> d then table_of ops ?E ?r k v else if k = Suc d then Some f else None)" if "k \<le> 3" for k
    using links_table_of[OF l that, of v] pass by simp
  have entry: "ents s x (table_index (4 - k) v) = ?E x (table_index (4 - k) v)"
    if "table_of ops ?E ?r k v = Some x" "k < d" for k x
    using links_entry[OF l that(1)] that(2) d by simp
  have "frames_fresh ops (ents s) ?r a"
    using a links_tables[OF l] unfolding frames_fresh_def by blast
  then have "paging_ok ops s"
    using ok s links_tree[OF l] by (simp add: paging_ok_def maps_memory_def)
  moreover have "spare ops s x" if "spare ops p x" for x
    using that s a(3) links_tables[OF l, of x] by (auto simp: spare_def free_frames_def)
  ultimately show "keeps_pages ops p s"
    using s links_walk[OF l] by (simp add: keeps_pages_def translate_def)
  have flags: "contains (e_flags ops (ents s x (table_index (4 - k) v))) need"
    if "k \<le> d" "table_of ops ?E ?r k v = Some x" for k x
  proof (cases "k = d")
    case True
    with that t es e need show ?thesis by simp
  next
    case False
    with that entry[OF that(2)] op show ?thesis by (simp add: opened_def)
  qed
  show "opened ops s need v (Suc d) f"
    using tables flags d s(2) by (simp add: opened_def less_Suc_eq_le)
  show "path_ok ops s need v"
    unfolding path_ok_def s(2)
  proof (intro allI impI)
    fix k x assume k: "k < 3" "table_of ops (ents s) ?r k v = Some x"
    consider "k < d" | "k = d" | "k = Suc d" "x = f"
      using k tables[of k] by (force split: if_splits)
    then show "let e = ents s x (table_index (4 - k) v) in
      e_unused ops e \<or> contains (e_flags ops e) need \<and> \<not> contains (e_flags ops e) HUGE_PAGE"
    proof cases
      case 1
      then have x: "table_of ops ?E ?r k v = Some x" using k tables[of k] by simp
      with entry[OF x 1] path k(1) show ?thesis unfolding path_ok_def by (simp add: Let_def)
    next
      case 2
      then have "x = t" using k t tables[of k] by simp
      with 2 es e need user_flag_bits(6) show ?thesis by simp
    next
      case 3
      have "f \<noteq> t" using l t d by (auto simp: links_def is_table_def intro: less_imp_le)
      then have "ents s f i = 0" for i using l by (simp add: links_def)
      with 3 zero_unused show ?thesis by simp
    qed
  qed
qed

text \<open>
  One descent: an error, which needs the frames to be gone, keeps every page; a success has
  passed one entry more.
\<close>

definition descends :: "paging \<Rightarrow> u64 \<Rightarrow> nat \<Rightarrow> nat \<Rightarrow> (string + nat) \<Rightarrow> paging \<Rightarrow> bool" where
  "descends p need v d res q \<longleftrightarrow> keeps_pages ops p q \<and> path_ok ops q need v \<and>
     (\<forall>e. res = Inl e \<longrightarrow> frames_left p = 0) \<and> frames_left p \<le> Suc (frames_left q) \<and>
     (\<forall>a. res = Inr a \<longrightarrow> (\<exists>s. a = s + phys_mem_offset q \<and> opened ops q need v d s))"

lemma read_table:
  assumes "paging_ok ops p" and "opened ops p need v d t"
  shows "t mod 4096 = 0" and "t < 2 ^ 52"
    and "read_entry p (t + phys_mem_offset p) (table_index l w) = ents p t (table_index l w)"
  using assms table_of_page[of "cr3 p" "ents p" d v t]
  by (simp_all add: ents_def paging_ok_def maps_memory_def opened_def)

lemma next_table_descends:
  assumes ok: "paging_ok ops p" and d: "d < 3" and op: "opened ops p need v d t"
    and path: "path_ok ops p need v" and need: "contains need PRESENT"
    and used: "\<not> e_unused ops (ents p t (table_index (4 - d) v))"
  shows "\<exists>res. next_table ops (t + phys_mem_offset p) (table_index (4 - d) v) p = Some (res, p) \<and>
    descends p need v (Suc d) res p"
proof -
  let ?e = "ents p t (table_index (4 - d) v)"
  have t: "table_of ops (ents p) (cr3 p) d v = Some t" using op by (simp add: opened_def)
  have e: "contains (e_flags ops ?e) need" "\<not> contains (e_flags ops ?e) HUGE_PAGE"
    using path d t used by (auto simp: path_ok_def Let_def)
  have "table_of ops (ents p) (cr3 p) (Suc d) v = Some (e_addr ops ?e)"
    using t e contains_trans[OF e(1) need] by (simp add: table_of.simps(2))
  then have "opened ops p need v (Suc d) (e_addr ops ?e)"
    using op e(1) t by (simp add: opened_def less_Suc_eq)
  moreover have "next_table ops (t + phys_mem_offset p) (table_index (4 - d) v) p =
      Some (Inr (e_addr ops ?e + phys_mem_offset p), p)"
    using used read_table(3)[OF ok op] ok phys_to_virt_ok[OF _ addr_bound, of p]
    by (simp add: next_table_def ensure_table_def try_io_def paging_ok_def)
  ultimately show ?thesis using keeps_pages_refl[OF ok] path by (auto simp: descends_def)
qed

lemma next_table_ok:
  assumes ok: "paging_ok ops p" and d: "d < 3" and op: "opened ops p need v d t"
    and path: "path_ok ops p need v" and need: "contains need PRESENT" "contains table_flags need"
  shows "\<exists>res q. next_table ops (t + phys_mem_offset p) (table_index (4 - d) v) p = Some (res, q) \<and>
    descends p need v (Suc d) res q"
proof (cases "e_unused ops (ents p t (table_index (4 - d) v))")
  case False
  from next_table_descends[OF ok d op path need(1) False] show ?thesis by blast
next
  case True
  let ?i = "table_index (4 - d) v"
  note page = read_table[OF ok op]
  have t: "table_of ops (ents p) (cr3 p) d v = Some t" using op by (simp add: opened_def)
  from alloc_zeroed_frame_ok[OF ok] show ?thesis
  proof (elim disjE exE conjE)
    fix e q assume "alloc_zeroed_frame p = Some (Inl e, q)" "keeps_pages ops p q" "ents q = ents p"
      "frames_left p = 0"
    then show ?thesis using True page(3) path
      by (simp add: next_table_def ensure_table_def try_io_def path_ok_def keeps_pages_def descends_def)
  next
    fix f q a
    assume al: "alloc_zeroed_frame p = Some (Inr f, q)"
      and q: "phys_mem_offset q = phys_mem_offset p" "cr3 q = cr3 p" "frame_alloc q = Some a"
      and Eq: "ents q = (\<lambda>x k. if x = f then 0 else ents p x k)"
      and f: "f mod 4096 = 0" "f < 2 ^ 52" "\<not> is_table ops (ents p) (cr3 p) f"
      and fr: "frames_fresh ops (ents p) (cr3 p) a" "f \<notin> set (remaining_frames a)"
        "free_frames p = insert f (set (remaining_frames a))"
      and left: "frames_left p = Suc (length (remaining_frames a))"
    from set_entry_ok[OF page(1) table_index_less f(1,2) user_flag_bits(4), of q "4 - d" v]
    obtain e s where s: "set_entry ops (t + phys_mem_offset q) ?i f table_flags q = Some s"
      and e: "e_addr ops e = f" "e_flags ops e = table_flags"
      and Es: "ents s = (\<lambda>x k. if x = t \<and> k = ?i then e else ents q x k)"
      and sq: "phys_mem_offset s = phys_mem_offset q" "cr3 s = cr3 q" "frame_alloc s = frame_alloc q"
      by (elim exE conjE) (rule that)
    have l: "links ops (ents p) (cr3 p) d v t ?i f e (ents s)"
      using ok d t f(3) e unused_absent[OF True] unused_absent[OF zero_unused]
      unfolding links_def Es Eq by (simp add: paging_ok_def passes_def)
    have off: "phys_mem_offset s = phys_mem_offset p" "cr3 s = cr3 p" "frame_alloc s = Some a"
      using sq q by simp_all
    note linked = linked_ok[OF ok op path need(2) l off fr]
    have "paging_ok ops s" using linked(1) by (simp add: keeps_pages_def)
    have et: "ents s t ?i = e" by (simp add: Es)
    have "read_entry s (t + phys_mem_offset p) ?i = e"
      using et page(1) off(1) by (simp add: ents_def)
    then have "next_table ops (t + phys_mem_offset p) ?i p = Some (Inr (f + phys_mem_offset p), s)"
      using True page(3) al s q(1) e(1) phys_to_virt_ok[of s f] f(2) off(1) \<open>paging_ok ops s\<close>
      by (simp add: next_table_def ensure_table_def try_io_def paging_ok_def)
    then show ?thesis using linked off(1,3) left by (auto simp: descends_def frames_left_def)
  qed
qed

text \<open>The last step: the entry of the page itself.\<close>

lemma leaf_ok:
  assumes ok: "paging_ok ops p" and op: "opened ops p need v 3 t" and need: "contains need PRESENT"
    and e: "e_addr ops e = a" "e_flags ops e = flags"
    and Eq: "ents q = (\<lambda>x k. if x = t \<and> k = table_index 1 v then e else ents p x k)"
    and q: "phys_mem_offset q = phys_mem_offset p" "cr3 q = cr3 p" "frame_alloc q = frame_alloc p"
  shows "paging_ok ops q" and "spare ops q = spare ops p"
    and "same_page v w \<Longrightarrow> translate ops q need w =
      (if contains flags need then Some (a + w mod 4096) else None)"
    and "\<not> same_page v w \<Longrightarrow> contains need' PRESENT \<Longrightarrow>
      translate ops q need' w = translate ops p need' w"
proof -
  let ?r = "cr3 p"
  have l: "sets_leaf ops (ents p) ?r v t e (ents q)"
    using ok op Eq by (simp add: sets_leaf_def paging_ok_def opened_def)
  note tables = sets_leaf_table_of[OF l]
  have "tree_ok ops (ents q) ?r"
    using ok tree_ok_cong[OF tables] by (simp add: paging_ok_def)
  moreover have "is_table ops (ents q) ?r = is_table ops (ents p) ?r"
    using is_table_cong[OF tables] by (intro ext)
  ultimately show "paging_ok ops q" and "spare ops q = spare ops p"
    using ok q by (simp_all add: paging_ok_def maps_memory_def frames_fresh_def fun_eq_iff spare_def free_frames_def)
  show "translate ops q need' w = translate ops p need' w"
    if "\<not> same_page v w" "contains need' PRESENT"
    using sets_leaf_other[OF l that(2,1)] q(2) by (simp add: translate_def)
  assume same: "same_page v w"
  have vw: "table_of ops (ents p) ?r k w = table_of ops (ents p) ?r k v" if "k \<le> 4" for k
    using that by (induction k) (use same in \<open>simp_all add: table_of.simps(2) same_page_def\<close>)
  have "walk ops (ents q) need 4 ?r w = walk ops (ents q) need (4 - 3) t w"
  proof (rule walk_down)
    show "table_of ops (ents q) ?r 3 w = Some t"
      using tables vw op by (simp add: opened_def)
    fix k x assume k: "k < 3" "table_of ops (ents q) ?r k w = Some x"
    then have x: "table_of ops (ents p) ?r k w = Some x" using tables[of k w] by simp
    then have "table_of ops (ents p) ?r k v = Some x" using vw k(1) by simp
    with op k(1) have "contains (e_flags ops (ents p x (table_index (4 - k) v))) need"
      by (simp add: opened_def)
    moreover have "table_index (4 - k) v = table_index (4 - k) w"
      using same k(1) by (simp add: same_page_def)
    ultimately show "contains (e_flags ops (ents q x (table_index (4 - k) w))) need"
      using sets_leaf_entry[OF l x] k(1) by simp
  qed simp
  moreover have "table_index 1 v = table_index 1 w"
    using same by (auto simp: same_page_def dest: spec[of _ 3])
  then have "ents q t (table_index 1 w) = e" by (simp add: Eq)
  ultimately show "translate ops q need w =
      (if contains flags need then Some (a + w mod 4096) else None)"
    using e q(2) by (simp add: translate_def Let_def)
qed

text \<open>
  \<open>map_page\<close>: what it does to the translation. Its error needs the frames to have run out.
\<close>

definition maps_to :: "paging \<Rightarrow> u64 \<Rightarrow> nat \<Rightarrow> nat \<Rightarrow> u64 \<Rightarrow> bool \<Rightarrow> paging \<Rightarrow> bool" where
  "maps_to p need v frame flags done q \<longleftrightarrow> paging_ok ops q \<and> cr3 q = cr3 p \<and>
     phys_mem_offset q = phys_mem_offset p \<and> (\<forall>f. spare ops p f \<longrightarrow> spare ops q f) \<and>
     (\<forall>w. done \<and> same_page v w \<longrightarrow> translate ops q need w =
        (if contains flags need then Some (frame + w mod 4096) else None)) \<and>
     (\<forall>need' w. contains need' PRESENT \<and> \<not> (done \<and> same_page v w) \<longrightarrow>
        translate ops q need' w = translate ops p need' w)"

lemma maps_to_keeps:
  assumes "keeps_pages ops p q" and "maps_to q need v frame flags done s"
  shows "maps_to p need v frame flags done s"
  using assms by (simp add: maps_to_def keeps_pages_def)

definition maps_within ::
  "paging \<Rightarrow> u64 \<Rightarrow> nat \<Rightarrow> nat \<Rightarrow> u64 \<Rightarrow> nat \<Rightarrow> ((string + unit) \<times> paging) option \<Rightarrow> bool" where
  "maps_within p need v frame flags n out \<longleftrightarrow> (\<exists>res q. out = Some (res, q) \<and>
     maps_to p need v frame flags (res = Inr ()) q \<and> (n \<le> frames_left p \<longrightarrow> res = Inr ()))"

text \<open>A descent in front of a step that maps the page.\<close>

lemma descend_then:
  assumes ok: "paging_ok ops p" "path_ok ops p need v" and d: "d < 3"
    and op: "opened ops p need v d t" and need: "contains need PRESENT" "contains table_flags need"
    and rest: "\<And>q s. paging_ok ops q \<Longrightarrow> path_ok ops q need v \<Longrightarrow> opened ops q need v (Suc d) s \<Longrightarrow>
      maps_within q need v frame flags n (rest (s + phys_mem_offset q) q)"
  shows "maps_within p need v frame flags (Suc n)
    (try_io (next_table ops (t + phys_mem_offset p) (table_index (4 - d) v)) rest p)"
proof -
  from next_table_ok[OF ok(1) d op ok(2) need] obtain r1 q
    where n: "next_table ops (t + phys_mem_offset p) (table_index (4 - d) v) p = Some (r1, q)"
      and q: "descends p need v (Suc d) r1 q" by blast
  then have keeps: "keeps_pages ops p q" and okq: "paging_ok ops q" "path_ok ops q need v"
    by (simp_all add: descends_def keeps_pages_def)
  show ?thesis
  proof (cases r1)
    case (Inl e)
    have "maps_to p need v frame flags (Inl e = Inr ()) q"
      using keeps by (simp add: maps_to_def keeps_pages_def)
    then show ?thesis using n q Inl by (auto simp: maps_within_def try_io_def descends_def)
  next
    case (Inr a)
    with q obtain s where a: "a = s + phys_mem_offset q" "opened ops q need v (Suc d) s"
      by (auto simp: descends_def)
    from rest[OF okq a(2)] obtain res z
      where z: "rest (s + phys_mem_offset q) q = Some (res, z)"
        "maps_to q need v frame flags (res = Inr ()) z" "n \<le> frames_left q \<longrightarrow> res = Inr ()"
      by (auto simp: maps_within_def)
    from maps_to_keeps[OF keeps z(2)] show ?thesis
      using n q Inr a(1) z(1,3) by (simp add: maps_within_def try_io_def descends_def)
  qed
qed

lemma last_step:
  assumes ok: "paging_ok ops p" and op: "opened ops p need v 3 t" and need: "contains need PRESENT"
    and frame: "frame mod 4096 = 0" "frame < 2 ^ 52" and flags: "flags AND addr_mask = 0"
    and v: "virt_ok ops v"
  shows "maps_within p need v frame flags 0
    (do { q \<leftarrow> set_entry ops (t + phys_mem_offset p) (table_index 1 v) frame flags p;
          if virt_ok ops v then Some (Inr (), q) else None })"
proof -
  note page = read_table[OF ok op]
  from set_entry_ok[OF page(1) table_index_less frame flags, of p 1 v]
  obtain e s where s: "set_entry ops (t + phys_mem_offset p) (table_index 1 v) frame flags p = Some s"
    and e: "e_addr ops e = frame" "e_flags ops e = flags"
    and Es: "ents s = (\<lambda>x k. if x = t \<and> k = table_index 1 v then e else ents p x k)"
    and sp: "phys_mem_offset s = phys_mem_offset p" "cr3 s = cr3 p" "frame_alloc s = frame_alloc p"
    by (elim exE conjE) (rule that)
  have "maps_to p need v frame flags True s"
    using leaf_ok[OF ok op need e Es sp] sp unfolding maps_to_def by simp
  then show ?thesis unfolding s maps_within_def using v by simp
qed

lemma map_page_ok:
  assumes ok: "paging_ok ops p" and path: "path_ok ops p need v"
    and need: "contains need PRESENT" "contains table_flags need"
    and frame: "frame mod 4096 = 0" "frame < 2 ^ 52" and flags: "flags AND addr_mask = 0"
    and v: "virt_ok ops v"
  shows "maps_within p need v frame flags 3 (map_page ops v frame flags p)"
proof -
  have l4: "active_level4_table p = Some (cr3 p + phys_mem_offset p)"
    using ok phys_to_virt_ok[of p "cr3 p"]
    by (simp add: active_level4_table_def paging_ok_def maps_memory_def)
  have "opened ops p need v 0 (cr3 p)" by (simp add: opened_def)
  define k1 :: "nat \<Rightarrow> (paging, unit) fs_io" where "k1 = (\<lambda>l1 p. do { q \<leftarrow> set_entry ops l1 (table_index 1 v) frame flags p;
    if virt_ok ops v then Some (Inr (), q) else None })"
  define k2 where "k2 = (\<lambda>l2. try_io (next_table ops l2 (table_index 2 v)) k1)"
  define k3 where "k3 = (\<lambda>l3. try_io (next_table ops l3 (table_index 3 v)) k2)"
  have 1: "maps_within q need v frame flags 0 (k1 (s + phys_mem_offset q) q)"
    if "paging_ok ops q" "opened ops q need v (Suc 2) s" for q s
    using last_step[OF that(1) _ need(1) frame flags v] that(2) by (simp add: k1_def eval_nat_numeral)
  have 2: "maps_within q need v frame flags (Suc 0) (k2 (s + phys_mem_offset q) q)"
    if "paging_ok ops q" "path_ok ops q need v" "opened ops q need v (Suc 1) s" for q s
    using descend_then[of q need v 2 s frame flags 0 k1, OF that(1,2) _ _ need] that(3) 1
    by (simp add: k2_def eval_nat_numeral)
  have 3: "maps_within q need v frame flags (Suc (Suc 0)) (k3 (s + phys_mem_offset q) q)"
    if "paging_ok ops q" "path_ok ops q need v" "opened ops q need v (Suc 0) s" for q s
    using descend_then[of q need v 1 s frame flags "Suc 0" k2, OF that(1,2) _ _ need] that(3) 2
    by (simp add: k3_def)
  have "maps_within p need v frame flags (Suc (Suc (Suc 0)))
      (try_io (next_table ops (cr3 p + phys_mem_offset p) (table_index (4 - 0) v)) k3 p)"
    by (rule descend_then[OF ok path _ \<open>opened ops p need v 0 (cr3 p)\<close> need]) (simp_all only: 3)
  moreover have "map_page ops v frame flags p =
      try_io (next_table ops (cr3 p + phys_mem_offset p) (table_index (4 - 0) v)) k3 p"
    unfolding map_page_def l4 k3_def k2_def k1_def by simp
  ultimately show ?thesis by (simp only: numeral_3_eq_3)
qed

end

subsection \<open>User access everywhere\<close>

text \<open>
  What marking does to the entries: the address stays, and a present entry may get the flag.
  \<open>covered E l t\<close>: every present entry below a table of level \<open>l\<close> has it.
\<close>

definition marked :: "entry_ops \<Rightarrow> entries \<Rightarrow> entries \<Rightarrow> bool" where
  "marked ops E E' \<longleftrightarrow> (\<forall>t i. e_addr ops (E' t i) = e_addr ops (E t i) \<and>
     (e_flags ops (E' t i) = e_flags ops (E t i) \<or>
      contains (e_flags ops (E t i)) PRESENT \<and>
        e_flags ops (E' t i) = e_flags ops (E t i) OR USER_ACCESSIBLE))"

fun covered :: "entry_ops \<Rightarrow> entries \<Rightarrow> nat \<Rightarrow> nat \<Rightarrow> bool" where
  "covered ops E 0 t = True"
| "covered ops E (Suc l) t = (\<forall>i<512. contains (e_flags ops (E t i)) PRESENT \<longrightarrow>
     contains (e_flags ops (E t i)) USER_ACCESSIBLE \<and>
     (\<not> contains (e_flags ops (E t i)) HUGE_PAGE \<longrightarrow> covered ops E l (e_addr ops (E t i))))"

lemma marked_refl: "marked ops E E"
  by (simp add: marked_def)

lemma marked_trans: "marked ops E F \<Longrightarrow> marked ops F G \<Longrightarrow> marked ops E G"
proof -
  assume a: "marked ops E F" and b: "marked ops F G"
  show ?thesis
    unfolding marked_def
  proof (intro allI)
    fix t i
    have "e_addr ops (F t i) = e_addr ops (E t i) \<and>
        (e_flags ops (F t i) = e_flags ops (E t i) \<or> contains (e_flags ops (E t i)) PRESENT \<and>
          e_flags ops (F t i) = e_flags ops (E t i) OR USER_ACCESSIBLE)"
      using a unfolding marked_def by blast
    moreover have "e_addr ops (G t i) = e_addr ops (F t i) \<and>
        (e_flags ops (G t i) = e_flags ops (F t i) \<or> contains (e_flags ops (F t i)) PRESENT \<and>
          e_flags ops (G t i) = e_flags ops (F t i) OR USER_ACCESSIBLE)"
      using b unfolding marked_def by blast
    ultimately show "e_addr ops (G t i) = e_addr ops (E t i) \<and>
        (e_flags ops (G t i) = e_flags ops (E t i) \<or> contains (e_flags ops (E t i)) PRESENT \<and>
          e_flags ops (G t i) = e_flags ops (E t i) OR USER_ACCESSIBLE)"
      by (auto simp: or.assoc)
  qed
qed

lemma marked_flags:
  assumes "marked ops E E'"
  shows "USER_ACCESSIBLE AND f = 0 \<Longrightarrow>
      contains (e_flags ops (E' t i)) f \<longleftrightarrow> contains (e_flags ops (E t i)) f"
    and "contains (e_flags ops (E t i)) USER_ACCESSIBLE \<Longrightarrow>
      contains (e_flags ops (E' t i)) USER_ACCESSIBLE"
    and "e_addr ops (E' t i) = e_addr ops (E t i)"
proof -
  have m: "e_addr ops (E' t i) = e_addr ops (E t i)"
    "e_flags ops (E' t i) = e_flags ops (E t i) \<or>
     e_flags ops (E' t i) = e_flags ops (E t i) OR USER_ACCESSIBLE"
    using assms unfolding marked_def by blast+
  from m(1) show "e_addr ops (E' t i) = e_addr ops (E t i)" .
  show "contains (e_flags ops (E' t i)) f \<longleftrightarrow> contains (e_flags ops (E t i)) f"
    if "USER_ACCESSIBLE AND f = 0"
    using m(2) contains_or_other[OF that] by (elim disjE) simp_all
  show "contains (e_flags ops (E' t i)) USER_ACCESSIBLE"
    if "contains (e_flags ops (E t i)) USER_ACCESSIBLE"
    using m(2) contains_or_left[OF that] that by (elim disjE) simp_all
qed

lemma covered_marked: "marked ops E E' \<Longrightarrow> covered ops E l t \<Longrightarrow> covered ops E' l t"
proof (induction l arbitrary: t)
  case (Suc l)
  show ?case
    using Suc.prems(2) Suc.IH[OF Suc.prems(1)] marked_flags[OF Suc.prems(1)] user_flag_bits(1,2)
    by simp
qed simp

text \<open>Before marking, and once all is covered, user code reaches what the kernel reaches.\<close>

lemma walk_marked:
  assumes m: "marked ops E E'" and need: "need AND USER_ACCESSIBLE = 0"
  shows "walk ops E' need l t v = walk ops E need l t v"
proof (induction l arbitrary: t)
  case (Suc l)
  have "USER_ACCESSIBLE AND need = 0" using need by (simp add: and.commute)
  note same = marked_flags(1)[OF m this] marked_flags(1)[OF m user_flag_bits(2)] marked_flags(3)[OF m]
  show ?case unfolding walk.simps Let_def same Suc.IH by (rule refl)
qed simp

lemma walk_covered:
  assumes "contains need PRESENT"
  shows "covered ops E l t \<Longrightarrow> walk ops E (need OR USER_ACCESSIBLE) l t v = walk ops E need l t v"
proof (induction l arbitrary: t)
  case (Suc l)
  let ?f = "e_flags ops (E t (table_index (Suc l) v))"
  have "contains ?f (need OR USER_ACCESSIBLE) \<longleftrightarrow> contains ?f need"
    using Suc.prems contains_trans[OF _ assms, of ?f] by (auto simp: contains_or_iff)
  moreover have "walk ops E (need OR USER_ACCESSIBLE) l (e_addr ops (E t (table_index (Suc l) v))) v =
      walk ops E need l (e_addr ops (E t (table_index (Suc l) v))) v"
    if "contains ?f need" "\<not> contains ?f HUGE_PAGE"
    using Suc.prems that contains_trans[OF that(1) assms] by (intro Suc.IH) simp
  ultimately show ?case
    unfolding walk.simps Let_def
    by (cases "contains ?f need"; cases "contains ?f HUGE_PAGE"; cases "l = 0") simp_all
qed simp

text \<open>One state of the marking loops against the state they began with.\<close>

definition marks :: "entry_ops \<Rightarrow> paging \<Rightarrow> paging \<Rightarrow> bool" where
  "marks ops p q \<longleftrightarrow> marked ops (ents p) (ents q) \<and> cr3 q = cr3 p \<and>
     phys_mem_offset q = phys_mem_offset p"

lemma marks_trans: "marks ops p q \<Longrightarrow> marks ops q s \<Longrightarrow> marks ops p s"
  using marked_trans unfolding marks_def by metis

lemma marks_refl: "marks ops p p"
  by (simp add: marks_def marked_refl)

context entry_format
begin

lemma mark_entry_ok:
  assumes mem: "maps_memory p" and t: "t mod 4096 = 0" and i: "i < 512"
    and below: "\<And>flags addr q. maps_memory q \<Longrightarrow> addr mod 4096 = 0 \<Longrightarrow> addr < 2 ^ 52 \<Longrightarrow>
      \<exists>s. below flags addr q = Some s \<and> marks ops q s \<and>
        (\<not> contains flags HUGE_PAGE \<longrightarrow> covered ops (ents s) l addr)"
  shows "\<exists>q. mark_entry ops below (t + phys_mem_offset p) i p = Some q \<and> marks ops p q \<and>
    (contains (e_flags ops (ents q t i)) PRESENT \<longrightarrow>
      contains (e_flags ops (ents q t i)) USER_ACCESSIBLE \<and>
      (\<not> contains (e_flags ops (ents q t i)) HUGE_PAGE \<longrightarrow>
        covered ops (ents q) l (e_addr ops (ents q t i))))"
proof -
  let ?e = "ents p t i"
  have read: "read_entry p (t + phys_mem_offset p) i = ?e" using t i by (simp add: ents_def)
  show ?thesis
  proof (cases "contains (e_flags ops ?e) PRESENT")
    case False
    then show ?thesis using read marks_refl by (simp add: mark_entry_def Let_def)
  next
    case True
    have "(e_flags ops ?e OR USER_ACCESSIBLE) AND addr_mask = 0"
      using flags_bits user_flag_bits(3) by (simp add: bit.conj_disj_distrib2)
    from set_entry_ok[OF t i addr_page addr_bound this, of p ?e] obtain e q
      where q: "set_entry ops (t + phys_mem_offset p) i (e_addr ops ?e)
          (e_flags ops ?e OR USER_ACCESSIBLE) p = Some q"
        and e: "e_addr ops e = e_addr ops ?e" "e_flags ops e = e_flags ops ?e OR USER_ACCESSIBLE"
        and Eq: "ents q = (\<lambda>x k. if x = t \<and> k = i then e else ents p x k)"
        and same: "phys_mem_offset q = phys_mem_offset p" "cr3 q = cr3 p"
      by (elim exE conjE) (rule that)
    have pq: "marks ops p q" using Eq e True same by (simp add: marks_def marked_def)
    have "maps_memory q" using mem same by (simp add: maps_memory_def)
    from below[OF this addr_page addr_bound, of "e_flags ops ?e" ?e] obtain s
      where s: "below (e_flags ops ?e) (e_addr ops ?e) q = Some s" "marks ops q s"
        "\<not> contains (e_flags ops ?e) HUGE_PAGE \<longrightarrow> covered ops (ents s) l (e_addr ops ?e)"
      by blast
    have "marks ops p s" using pq s(2) by (rule marks_trans)
    then have m: "marked ops (ents p) (ents s)" "marked ops (ents q) (ents s)"
      using s(2) by (simp_all add: marks_def)
    have "contains (e_flags ops (ents q t i)) USER_ACCESSIBLE"
      using e by (simp add: Eq contains_or_right)
    then have "contains (e_flags ops (ents s t i)) USER_ACCESSIBLE" by (rule marked_flags(2)[OF m(2)])
    moreover have "contains (e_flags ops (ents s t i)) HUGE_PAGE \<longleftrightarrow> contains (e_flags ops ?e) HUGE_PAGE"
      by (rule marked_flags(1)[OF m(1) user_flag_bits(2)])
    moreover have "mark_entry ops below (t + phys_mem_offset p) i p = Some s"
      using True read q s(1) by (simp add: mark_entry_def Let_def)
    ultimately show ?thesis using \<open>marks ops p s\<close> s(3) marked_flags(3)[OF m(1)] by simp
  qed
qed

lemma mark_table_ok:
  assumes mem: "maps_memory p" and t: "t mod 4096 = 0"
    and below: "\<And>flags addr q. maps_memory q \<Longrightarrow> addr mod 4096 = 0 \<Longrightarrow> addr < 2 ^ 52 \<Longrightarrow>
      \<exists>s. below flags addr q = Some s \<and> marks ops q s \<and>
        (\<not> contains flags HUGE_PAGE \<longrightarrow> covered ops (ents s) l addr)"
  shows "\<exists>q. for_range 512 (mark_entry ops below (t + phys_mem_offset p)) p = Some q \<and>
    marks ops p q \<and> covered ops (ents q) (Suc l) t"
proof -
  let ?done = "\<lambda>q i. contains (e_flags ops (ents q t i)) PRESENT \<longrightarrow>
      contains (e_flags ops (ents q t i)) USER_ACCESSIBLE \<and>
      (\<not> contains (e_flags ops (ents q t i)) HUGE_PAGE \<longrightarrow>
        covered ops (ents q) l (e_addr ops (ents q t i)))"
  let ?inv = "\<lambda>i q. marks ops p q \<and> (\<forall>j<i. ?done q j)"
  have "\<exists>q. for_range 512 (mark_entry ops below (t + phys_mem_offset p)) p = Some q \<and> ?inv (0 + 512) q"
  proof (rule for_from_inv[where P = ?inv])
    show "?inv 0 p" using marks_refl by simp
  next
    fix i q assume i: "i < 0 + 512" and inv: "?inv i q"
    then have mq: "maps_memory q" and off: "phys_mem_offset q = phys_mem_offset p"
      using mem by (simp_all add: marks_def maps_memory_def)
    from mark_entry_ok[OF mq t _ below, of i] i obtain s
      where s: "mark_entry ops below (t + phys_mem_offset p) i q = Some s" "marks ops q s" "?done s i"
      unfolding off by auto
    have "?done s j" if "j < Suc i" for j
    proof (cases "j = i")
      case False
      with that inv have "?done q j" by simp
      moreover have m: "marked ops (ents q) (ents s)" using s(2) by (simp add: marks_def)
      ultimately show ?thesis
        using marked_flags[OF m] user_flag_bits(1,2) covered_marked[OF m] by simp
    qed (use s(3) in simp)
    moreover have "marks ops p s" using inv s(2) marks_trans by blast
    ultimately show "\<exists>s. mark_entry ops below (t + phys_mem_offset p) i q = Some s \<and> ?inv (Suc i) s"
      using s(1) by blast
  qed
  then show ?thesis by auto
qed

lemma mark_l1_ok:
  assumes "maps_memory p" "t mod 4096 = 0"
  shows "\<exists>q. mark_l1 ops (t + phys_mem_offset p) p = Some q \<and> marks ops p q \<and>
    covered ops (ents q) (Suc 0) t"
  unfolding mark_l1_def by (rule mark_table_ok[OF assms]) (simp add: marks_refl)

lemma mark_l2_ok:
  assumes "maps_memory p" "t mod 4096 = 0"
  shows "\<exists>q. mark_l2 ops (t + phys_mem_offset p) p = Some q \<and> marks ops p q \<and>
    covered ops (ents q) (Suc (Suc 0)) t"
  unfolding mark_l2_def
  by (rule mark_table_ok[OF assms]) (use mark_l1_ok in \<open>simp add: marks_refl phys_to_virt_ok\<close>)

lemma mark_l3_ok:
  assumes "maps_memory p" "t mod 4096 = 0"
  shows "\<exists>q. mark_l3 ops (t + phys_mem_offset p) p = Some q \<and> marks ops p q \<and>
    covered ops (ents q) (Suc (Suc (Suc 0))) t"
  unfolding mark_l3_def
  by (rule mark_table_ok[OF assms]) (use mark_l2_ok in \<open>simp add: marks_refl phys_to_virt_ok\<close>)

lemma mark_all_ok:
  assumes mem: "maps_memory p"
  shows "\<exists>q. mark_all_user_accessible ops p = Some q \<and> marks ops p q \<and>
    covered ops (ents q) 4 (cr3 p)"
proof -
  have root: "active_level4_table p = Some (cr3 p + phys_mem_offset p)" "cr3 p mod 4096 = 0"
    using mem phys_to_virt_ok[OF mem, of "cr3 p"]
    by (simp_all add: active_level4_table_def maps_memory_def)
  let ?below = "\<lambda>flags addr p. do { l3 \<leftarrow> phys_to_virt p addr; mark_l3 ops l3 p }"
  have "\<exists>q. for_range 512 (mark_entry ops ?below (cr3 p + phys_mem_offset p)) p = Some q \<and>
      marks ops p q \<and> covered ops (ents q) (Suc (Suc (Suc (Suc 0)))) (cr3 p)"
  proof (rule mark_table_ok[OF mem root(2)])
    fix flags :: u64 and addr :: nat and q
    assume q: "maps_memory q" and addr: "addr mod 4096 = 0" "addr < 2 ^ 52"
    from mark_l3_ok[OF q addr(1)] obtain s where
      "mark_l3 ops (addr + phys_mem_offset q) q = Some s" "marks ops q s"
      "covered ops (ents s) (Suc (Suc (Suc 0))) addr" by (elim exE conjE)
    then show "\<exists>s. ?below flags addr q = Some s \<and> marks ops q s \<and>
        (\<not> contains flags HUGE_PAGE \<longrightarrow> covered ops (ents s) (Suc (Suc (Suc 0))) addr)"
      unfolding phys_to_virt_ok[OF q addr(2)] bind.simps by blast
  qed
  then show ?thesis using root(1) by (simp add: mark_all_user_accessible_def eval_nat_numeral)
qed

end

subsection \<open>The entry format of the processor\<close>

text \<open>
  The architecture's entry: bits 12 to 51 are the address, the other bits are flags, and an
  address is canonical when its upper 17 bits agree.
\<close>

definition x86_ops :: entry_ops where
  "x86_ops =
     \<lparr>e_unused = (\<lambda>e. e = 0),
      e_addr = (\<lambda>e. unat (e AND addr_mask)),
      e_flags = (\<lambda>e. e AND NOT addr_mask),
      e_make = (\<lambda>a f. if a < 2 ^ 52 \<and> a mod 4096 = 0 then Some (of_nat a OR f) else None),
      virt_ok = (\<lambda>v. v < 2 ^ 47 \<or> 2 ^ 64 - 2 ^ 47 \<le> v \<and> v < 2 ^ 64)\<rparr>"

lemma addr_mask_split: "addr_mask = mask 52 AND NOT (mask 12)"
  by (simp add: addr_mask_def mask_eq_exp_minus_1)

lemma addr_of_page:
  assumes "a mod 4096 = 0" "a < 2 ^ 52"
  shows "(of_nat a :: u64) AND addr_mask = of_nat a" and "unat (of_nat a :: u64) = a"
proof -
  have "take_bit 12 a = 0" "take_bit 52 a = a" using assms by (simp_all add: take_bit_eq_mod)
  with take_bit_of_nat[of 12 a, where 'a = "64 word"] take_bit_of_nat[of 52 a, where 'a = "64 word"]
  have "take_bit 12 (of_nat a :: u64) = 0" "take_bit 52 (of_nat a :: u64) = of_nat a"
    by simp_all
  then have low: "(of_nat a :: u64) AND mask 12 = 0" and high: "(of_nat a :: u64) AND mask 52 = of_nat a"
    by (simp_all add: take_bit_eq_mask)
  have "(of_nat a :: u64) AND NOT (mask 12) = (of_nat a AND mask 12) OR (of_nat a AND NOT (mask 12))"
    using low by simp
  also have "\<dots> = of_nat a" by (simp flip: bit.conj_disj_distrib)
  finally show "(of_nat a :: u64) AND addr_mask = of_nat a"
    using high by (simp add: addr_mask_split flip: and.assoc)
  show "unat (of_nat a :: u64) = a" using assms(2) by (simp add: unat_of_nat)
qed

interpretation x86: entry_format x86_ops
proof unfold_locales
  fix e :: u64
  have "take_bit 12 (e AND addr_mask) = e AND (addr_mask AND mask 12)"
    by (simp only: take_bit_eq_mask and.assoc)
  moreover have "addr_mask AND mask 12 = 0" by (simp add: addr_mask_def mask_eq_exp_minus_1)
  ultimately have "take_bit 12 (unat (e AND addr_mask)) = 0"
    by (simp add: unsigned_take_bit_eq[symmetric])
  then show "e_addr x86_ops e mod 4096 = 0" by (simp add: x86_ops_def take_bit_eq_mod)
  have "take_bit 52 (e AND addr_mask) = e AND addr_mask"
    by (simp add: take_bit_eq_mask addr_mask_split ac_simps)
  then have "take_bit 52 (unat (e AND addr_mask)) = unat (e AND addr_mask)"
    by (simp add: unsigned_take_bit_eq[symmetric])
  then show "e_addr x86_ops e < 2 ^ 52"
    by (simp add: x86_ops_def take_bit_nat_eq_self_iff)
  show "e_flags x86_ops e AND addr_mask = 0" by (simp add: x86_ops_def and.assoc)
  show "e_unused x86_ops e \<Longrightarrow> \<not> contains (e_flags x86_ops e) PRESENT"
    by (simp add: x86_ops_def contains_def PRESENT_def)
next
  fix a :: nat and f :: u64
  assume a: "a mod 4096 = 0" "a < 2 ^ 52" and f: "f AND addr_mask = 0"
  have "(of_nat a OR f) AND addr_mask = of_nat a"
    using addr_of_page[OF a] f by (simp add: bit.conj_disj_distrib2)
  moreover have "(of_nat a OR f) AND NOT addr_mask = f"
  proof -
    have "of_nat a AND NOT addr_mask = (of_nat a AND addr_mask) AND NOT addr_mask"
      using addr_of_page[OF a] by simp
    also have "\<dots> = 0" by (simp add: and.assoc)
    finally have "(of_nat a OR f) AND NOT addr_mask = f AND NOT addr_mask"
      by (simp add: bit.conj_disj_distrib2)
    also have "\<dots> = (f AND addr_mask) OR (f AND NOT addr_mask)" using f by simp
    also have "\<dots> = f" by (simp flip: bit.conj_disj_distrib)
    finally show ?thesis .
  qed
  ultimately show "\<exists>e. e_make x86_ops a f = Some e \<and> e_addr x86_ops e = a \<and> e_flags x86_ops e = f"
    using a addr_of_page(2)[OF a] by (simp add: x86_ops_def)
qed (simp add: x86_ops_def)

subsection \<open>The two operations and the address space\<close>

lemma mod_digit:
  "x mod (512 * m) = y mod (512 * m) \<longleftrightarrow> x mod 512 = y mod 512 \<and> x div 512 mod m = y div 512 mod m"
  for x y m :: nat
proof -
  have "n mod (512 * m) mod 512 = n mod 512" and "n mod (512 * m) div 512 = n div 512 mod m"
    and "n mod (512 * m) = 512 * (n div 512 mod m) + n mod 512" for n :: nat
    by (simp_all add: mod_mod_cancel mod_mult2_eq)
  then show ?thesis by metis
qed

text \<open>The four indices are bits 12 to 47 of the address.\<close>

lemma same_page_iff: "same_page v w \<longleftrightarrow> v div 4096 mod 2 ^ 36 = w div 4096 mod 2 ^ 36"
proof -
  have "v div 4096 mod 2 ^ 36 = w div 4096 mod 2 ^ 36 \<longleftrightarrow>
      v div 4096 mod (512 * (512 * (512 * 512))) = w div 4096 mod (512 * (512 * (512 * 512)))" by simp
  also have "\<dots> \<longleftrightarrow> table_index 1 v = table_index 1 w \<and> table_index 2 v = table_index 2 w \<and>
      table_index 3 v = table_index 3 w \<and> table_index 4 v = table_index 4 w"
    unfolding mod_digit by (simp add: table_index_mod div_mult2_eq[symmetric])
  also have "\<dots> \<longleftrightarrow> same_page v w"
    unfolding same_page_def by (auto simp: numeral_eq_Suc less_Suc_eq)
  finally show ?thesis by blast
qed

text \<open>
  C3: \<open>map_page\<close> as an update of the address space. From a state whose tables form a tree that
  shares no page with the frames still to be handed out, mapping page \<open>v\<close> to \<open>frame\<close> does not
  panic and keeps the state well formed. If it succeeds, the page translates to the frame for
  every access whose rights \<open>need\<close> the given flags grant (the tables above it grant all of
  \<open>PRESENT\<close>, \<open>WRITABLE\<close> and \<open>USER_ACCESSIBLE\<close>, those that were there before what they
  granted) and to nothing for the others; every other page translates as before, for every kind
  of access. If it fails, no page at all is translated differently, and it fails only when
  fewer than three frames are left.
\<close>

theorem map_page_refines:
  assumes "entry_format ops" and "paging_ok ops p" and "path_ok ops p need v"
    and "contains need PRESENT" and "contains table_flags need"
    and "frame mod 4096 = 0" and "frame < 2 ^ 52" and "flags AND addr_mask = 0" and "virt_ok ops v"
  shows "\<exists>res q. map_page ops v frame flags p = Some (res, q) \<and> paging_ok ops q \<and>
    (3 \<le> frames_left p \<longrightarrow> res = Inr ()) \<and>
    (\<forall>w. res = Inr () \<and> same_page v w \<longrightarrow> translate ops q need w =
        (if contains flags need then Some (frame + w mod 4096) else None)) \<and>
    (\<forall>need' w. contains need' PRESENT \<and> \<not> (res = Inr () \<and> same_page v w) \<longrightarrow>
        translate ops q need' w = translate ops p need' w)"
  using entry_format.map_page_ok[OF assms]
  unfolding entry_format.maps_within_def[OF assms(1)] entry_format.maps_to_def[OF assms(1)]
  by blast

text \<open>One empty table at \<open>0x1000\<close>, and the frames from \<open>0x2000\<close> up.\<close>

definition bare_paging :: paging where
  "bare_paging =
     paging_init 0 [\<lparr>region_start = 0x2000, region_end = 0x8000, region_kind = Usable\<rparr>]
       \<lparr>phys_mem_offset = 0, frame_alloc = None, pg_mem = (\<lambda>a. 0), cr3 = 0x1000\<rparr>"

definition user_page :: u64 where
  "user_page = PRESENT OR USER_ACCESSIBLE"

lemma load64_blank: "load64 (\<lambda>a. 0) x = 0"
  by (simp add: load64_def load_def map_replicate_const u64_from_le_def numeral_eq_Suc)

lemma bare_tables: "table_of ops (ents bare_paging) 0x1000 d v = Some t \<Longrightarrow>
    entry_format ops \<Longrightarrow> d = 0 \<and> t = 0x1000"
proof (induction d arbitrary: t)
  case (Suc d)
  have "ents bare_paging t i = 0" for t i
    by (simp add: ents_def read_entry_def bare_paging_def paging_init_def load64_blank)
  then show ?case
    using Suc.prems entry_format.unused_absent[OF Suc.prems(2) entry_format.zero_unused[OF Suc.prems(2)]]
    by (auto simp: table_of.simps(2) Let_def bind_eq_Some_conv)
qed simp

lemma bare_paging_ok: "paging_ok x86_ops bare_paging" and bare_cr3: "cr3 bare_paging = 0x1000"
  and bare_frames: "frames_left bare_paging = 6"
proof -
  note tables = bare_tables[OF _ x86.entry_format_axioms]
  show cr3: "cr3 bare_paging = 0x1000" by (simp add: bare_paging_def paging_init_def)
  have rem: "frame_alloc bare_paging = Some (frame_allocator_new
      [\<lparr>region_start = 0x2000, region_end = 0x8000, region_kind = Usable\<rparr>])"
    by (simp add: bare_paging_def paging_init_def)
  have fs: "usable_frames [\<lparr>region_start = 0x2000, region_end = 0x8000, region_kind = Usable\<rparr>] =
      [0x2000, 0x3000, 0x4000, 0x5000, 0x6000, 0x7000]"
    by (simp add: usable_frames_def region_frames_def upt_rec)
  show "frames_left bare_paging = 6"
    using rem fs by (simp add: frames_left_def remaining_new)
  have "tree_ok x86_ops (ents bare_paging) 0x1000"
    unfolding tree_ok_def using tables by blast
  moreover have "\<not> is_table x86_ops (ents bare_paging) 0x1000 f" if "f \<noteq> 0x1000" for f
    unfolding is_table_def using tables that by blast
  moreover have "maps_memory bare_paging"
    by (simp add: maps_memory_def bare_paging_def paging_init_def usize_bound_def)
  ultimately show "paging_ok x86_ops bare_paging"
    using rem fs
    by (auto simp: paging_ok_def cr3 frames_fresh_def remaining_new frames_ok_new regions_ok_def
      usize_bound_def)
qed

lemma bare_path_ok: "path_ok x86_ops bare_paging need v"
proof -
  have zero: "ents bare_paging t i = 0" for t i
    by (simp add: ents_def read_entry_def bare_paging_def paging_init_def load64_blank)
  show ?thesis using x86.zero_unused by (simp add: path_ok_def zero)
qed

lemma user_page_rights:
  "contains user_page PRESENT" "contains table_flags user_page" "contains user_page user_page"
  "user_page AND addr_mask = 0"
  by (simp_all add: user_page_def table_flags_def contains_def PRESENT_def WRITABLE_def
    USER_ACCESSIBLE_def addr_mask_def)

theorem map_page_refines_witness:
  "\<exists>q. map_page x86_ops 0x400000 0x9000 user_page bare_paging = Some (Inr (), q) \<and>
    translate x86_ops q user_page 0x400010 = Some 0x9010 \<and>
    translate x86_ops q user_page 0x401010 = translate x86_ops bare_paging user_page 0x401010"
proof -
  have "virt_ok x86_ops 0x400000" by (simp add: x86_ops_def)
  from map_page_refines[OF x86.entry_format_axioms bare_paging_ok bare_path_ok
      user_page_rights(1,2) _ _ user_page_rights(4) this, of "0x9000"] bare_frames
  obtain q where "map_page x86_ops 0x400000 0x9000 user_page bare_paging = Some (Inr (), q)"
    and "\<forall>w. same_page 0x400000 w \<longrightarrow> translate x86_ops q user_page w =
        (if contains user_page user_page then Some (0x9000 + w mod 4096) else None)"
    and "\<forall>w. \<not> same_page 0x400000 w \<longrightarrow>
        translate x86_ops q user_page w = translate x86_ops bare_paging user_page w"
    using user_page_rights(1) by auto
  moreover have "same_page 0x400000 0x400010" "\<not> same_page 0x400000 0x401010"
    by (simp_all add: same_page_iff)
  ultimately show ?thesis using user_page_rights(3) by auto
qed

text \<open>
  A load and a store of the processor at a virtual address: \<open>None\<close> is a page fault. Physical
  memory is what the mapping at \<open>PHYS_MEM_OFFSET\<close> shows.
\<close>

definition read_virtual :: "entry_ops \<Rightarrow> nat \<Rightarrow> paging \<Rightarrow> u64 option" where
  "read_virtual ops v p =
     do {
       a \<leftarrow> translate ops p PRESENT v;
       Some (load64 (pg_mem p) (a + phys_mem_offset p))
     }"

definition write_virtual :: "entry_ops \<Rightarrow> nat \<Rightarrow> u64 \<Rightarrow> paging \<Rightarrow> paging option" where
  "write_virtual ops v w p =
     do {
       a \<leftarrow> translate ops p (PRESENT OR WRITABLE) v;
       Some (p\<lparr>pg_mem := store64 (pg_mem p) (a + phys_mem_offset p) w\<rparr>)
     }"

text \<open>What is stored in a page that is no table moves no page.\<close>

lemma ents_outside:
  assumes f: "f mod 4096 = 0" and t: "t \<noteq> f"
    and m: "\<And>x. m x \<noteq> pg_mem p x \<Longrightarrow> f + phys_mem_offset p \<le> x \<and> x < f + phys_mem_offset p + 4096"
  shows "ents (p\<lparr>pg_mem := m\<rparr>) t i = ents p t i"
proof (cases "t mod 4096 = 0 \<and> i < 512")
  case True
  then have "t + 8 * i + 8 \<le> f \<or> f + 4096 \<le> t + 8 * i" using page_disjoint[OF _ f _ t] by simp
  then have "load m (t + phys_mem_offset p + 8 * i) 8 = load (pg_mem p) (t + phys_mem_offset p + 8 * i) 8"
    using m by (intro load_cong) force
  then show ?thesis by (simp add: ents_def read_entry_def load64_def)
qed (auto simp: ents_def)

lemma spare_page_translate:
  assumes f: "f mod 4096 = 0" "\<not> is_table ops (ents p) (cr3 p) f" and need: "contains need PRESENT"
    and m: "\<And>x. m x \<noteq> pg_mem p x \<Longrightarrow> f + phys_mem_offset p \<le> x \<and> x < f + phys_mem_offset p + 4096"
  shows "translate ops (p\<lparr>pg_mem := m\<rparr>) need v = translate ops p need v"
proof -
  have same: "ents (p\<lparr>pg_mem := m\<rparr>) t (table_index (4 - k) v) = ents p t (table_index (4 - k) v)"
    if "k < 4" "table_of ops (ents p) (cr3 p) k v = Some t" for k t
  proof (rule ents_outside[OF f(1) _ m])
    from that have "k \<le> 3" by simp
    with that(2) have "is_table ops (ents p) (cr3 p) t" unfolding is_table_def by blast
    with f(2) show "t \<noteq> f" by blast
  qed
  have "walk ops (ents (p\<lparr>pg_mem := m\<rparr>)) need 4 (cr3 p) v = walk ops (ents p) need 4 (cr3 p) v"
    by (rule walk_cong[OF _ need]) (rule same)
  then show ?thesis by (simp add: translate_def)
qed

lemma mark_all_translates:
  assumes "entry_format ops" and "maps_memory p"
  shows "\<exists>q. mark_all_user_accessible ops p = Some q \<and>
    (\<forall>need v. contains need PRESENT \<and> need AND USER_ACCESSIBLE = 0 \<longrightarrow>
      translate ops q (need OR USER_ACCESSIBLE) v = translate ops p need v \<and>
      translate ops q need v = translate ops p need v)"
proof -
  from entry_format.mark_all_ok[OF assms] obtain q
    where q: "mark_all_user_accessible ops p = Some q" "marks ops p q" "covered ops (ents q) 4 (cr3 p)"
    by blast
  have "translate ops q need v = translate ops p need v"
    if "need AND USER_ACCESSIBLE = 0" for need v
    using q(2) walk_marked[OF _ that] by (simp add: marks_def translate_def)
  moreover have "translate ops q (need OR USER_ACCESSIBLE) v = translate ops q need v"
    if "contains need PRESENT" for need v
    using q(2) walk_covered[OF that q(3)] by (simp add: marks_def translate_def)
  ultimately show ?thesis using q(1) by auto
qed

text \<open>
  C11: \<open>mark_all_user_accessible\<close> returns, and what an access can then reach from user code
  is exactly what the same kind of access could reach from the kernel before: for rights
  \<open>need\<close> without the user bit, the translation of every address with that bit added is the
  translation without it in the old state. The kernel's own translation does not change, so a
  page that was read-only stays so for both.
\<close>

theorem mark_user_accessible:
  assumes "entry_format ops" and "maps_memory p"
  shows "\<exists>q. mark_all_user_accessible ops p = Some q \<and>
    (\<forall>need v. contains need PRESENT \<and> need AND USER_ACCESSIBLE = 0 \<longrightarrow>
      translate ops q (need OR USER_ACCESSIBLE) v = translate ops p need v \<and>
      translate ops q need v = translate ops p need v)"
  by (rule mark_all_translates[OF assms])

text \<open>A 2 MiB page at address 0 that only the kernel may use.\<close>

definition kernel_paging :: paging where
  "kernel_paging = \<lparr>phys_mem_offset = 0, frame_alloc = None,
     pg_mem = store64 (store64 (store64 (\<lambda>a. 0) 0x1000 0x2003) 0x2000 0x3003) 0x3000 0x83, cr3 = 0x1000\<rparr>"

lemma kernel_entries:
  "ents kernel_paging 0x1000 0 = 0x2003" "ents kernel_paging 0x2000 0 = 0x3003"
  "ents kernel_paging 0x3000 0 = 0x83"
  by (simp_all add: ents_def read_entry_def kernel_paging_def load64_store64_other)

lemma kernel_cr3: "cr3 kernel_paging = 0x1000"
  by (simp add: kernel_paging_def)

lemmas kernel_steps =
  walk.simps(2)[of ops E need 3, simplified] walk.simps(2)[of ops E need 2, simplified]
  walk.simps(2)[of ops E need 1, unfolded Suc_1] for ops E need

theorem mark_user_accessible_witness:
  "\<exists>q. mark_all_user_accessible x86_ops kernel_paging = Some q \<and>
    translate x86_ops kernel_paging user_page 0x1234 = None \<and>
    translate x86_ops q user_page 0x1234 = Some 0x1234"
proof -
  have "maps_memory kernel_paging" by (simp add: maps_memory_def kernel_paging_def usize_bound_def)
  from mark_user_accessible[OF x86.entry_format_axioms this]
  obtain q where q: "mark_all_user_accessible x86_ops kernel_paging = Some q"
    and eq: "\<forall>need v. contains need PRESENT \<and> need AND USER_ACCESSIBLE = 0 \<longrightarrow>
      translate x86_ops q (need OR USER_ACCESSIBLE) v = translate x86_ops kernel_paging need v"
    by blast
  have idx: "table_index 4 0x1234 = 0" "table_index 3 0x1234 = 0" "table_index 2 0x1234 = 0"
    by (simp_all add: table_index_mod)
  have "contains PRESENT PRESENT" "PRESENT AND USER_ACCESSIBLE = 0"
    by (simp_all add: contains_def PRESENT_def USER_ACCESSIBLE_def)
  moreover have "translate x86_ops kernel_paging PRESENT 0x1234 = Some 0x1234"
    and "translate x86_ops kernel_paging user_page 0x1234 = None"
    using idx kernel_entries by (simp_all add: translate_def kernel_cr3 kernel_steps user_page_def
      PRESENT_def USER_ACCESSIBLE_def HUGE_PAGE_def contains_def addr_mask_def x86_ops_def)
  ultimately show ?thesis using q eq unfolding user_page_def by metis
qed

end
