(* ===== verification/Renderer.thy ===== *)
theory Renderer
  imports Complex_Main Gop
begin

text \<open>
  \<open>kernel/src/gui/renderer.rs\<close>: drawing into a back buffer of \<open>u32\<close> pixels. The buffer is a
  list and every primitive a function on it; \<open>None\<close> is a panic (an arithmetic overflow or
  underflow: every store is guarded by the length). The font is a parameter, a map from code
  points to the eight rows of a glyph.
\<close>

subsection \<open>Loops over pixels\<close>

text \<open>
  The two nested loops most primitives share: \<open>body dx dy idx\<close> at every offset of a \<open>w\<close> by \<open>h\<close>
  rectangle whose corner is at \<open>x\<close>, \<open>y\<close>.
\<close>

definition pixels ::
  "nat \<Rightarrow> nat \<Rightarrow> nat \<Rightarrow> nat \<Rightarrow> nat \<Rightarrow> (nat \<Rightarrow> nat \<Rightarrow> nat \<Rightarrow> u32 list \<Rightarrow> u32 list option) \<Rightarrow>
     u32 list \<Rightarrow> u32 list option" where
  "pixels stride x y w h body = for_range h (\<lambda>dy buffer.
     do {
       py \<leftarrow> uadd y dy;
       row_offset \<leftarrow> umul py stride;
       for_range w (\<lambda>dx buffer.
         do {
           px \<leftarrow> uadd x dx;
           i \<leftarrow> uadd row_offset px;
           body dx dy i buffer
         }) buffer
     })"

text \<open>The same over signed coordinates that may lie left of or above the buffer.\<close>

definition isize_ok :: "int \<Rightarrow> int option" where
  "isize_ok i = (if - (2 ^ 63) \<le> i \<and> i < 2 ^ 63 then Some i else None)"

definition as_isize :: "nat \<Rightarrow> int" where
  "as_isize n = (if n < 2 ^ 63 then int n else int n - 2 ^ 64)"

definition signed_pixels ::
  "nat \<Rightarrow> nat \<Rightarrow> nat \<Rightarrow> nat \<Rightarrow> nat \<Rightarrow> nat \<Rightarrow>
     (nat \<Rightarrow> nat \<Rightarrow> int \<Rightarrow> int \<Rightarrow> nat \<Rightarrow> u32 list \<Rightarrow> u32 list option) \<Rightarrow> u32 list \<Rightarrow> u32 list option" where
  "signed_pixels stride x y back w h body = for_range h (\<lambda>dy buffer.
     do {
       py \<leftarrow> isize_ok (as_isize y - as_isize back);
       py \<leftarrow> isize_ok (py + as_isize dy);
       if py < 0 then Some buffer
       else do {
         row_offset \<leftarrow> umul (nat py) stride;
         for_range w (\<lambda>dx buffer.
           do {
             px \<leftarrow> isize_ok (as_isize x - as_isize back);
             px \<leftarrow> isize_ok (px + as_isize dx);
             if px < 0 then Some buffer
             else do { i \<leftarrow> uadd row_offset (nat px); body dx dy px py i buffer }
           }) buffer
       }
     })"

definition paint :: "u32 \<Rightarrow> nat \<Rightarrow> u32 list \<Rightarrow> u32 list option" where
  "paint color i buffer = (if i < length buffer then upd buffer i color else Some buffer)"

subsection \<open>Blending\<close>

definition blend_channel :: "u32 \<Rightarrow> u32 \<Rightarrow> u32 \<Rightarrow> u32 option" where
  "blend_channel fg bg a =
     do {
       f \<leftarrow> wmul fg a;
       rest \<leftarrow> wsub 255 a;
       b \<leftarrow> wmul bg rest;
       s \<leftarrow> wadd f b;
       Some ((s div 255) AND 0xFF)
     }"

definition channel :: "nat \<Rightarrow> u32 \<Rightarrow> u32" where
  "channel k color = drop_bit k color AND 0xFF"

definition blend_pixel :: "nat \<Rightarrow> u32 \<Rightarrow> u8 \<Rightarrow> u32 list \<Rightarrow> u32 list option" where
  "blend_pixel i color alpha buffer =
     (if length buffer \<le> i then Some buffer
      else if alpha = 255 then upd buffer i color
      else if alpha = 0 then Some buffer
      else do {
        bg \<leftarrow> idx buffer i;
        let a = ucast alpha;
        r \<leftarrow> blend_channel (channel 16 color) (channel 16 bg) a;
        g \<leftarrow> blend_channel (channel 8 color) (channel 8 bg) a;
        b \<leftarrow> blend_channel (channel 0 color) (channel 0 bg) a;
        upd buffer i (push_bit 16 r OR push_bit 8 g OR b)
      })"

subsection \<open>Rectangles\<close>

definition draw_rect_buf :: "nat \<Rightarrow> nat \<Rightarrow> nat \<Rightarrow> nat \<Rightarrow> nat \<Rightarrow> u32 \<Rightarrow> u32 list \<Rightarrow> u32 list option" where
  "draw_rect_buf stride x y w h color = pixels stride x y w h (\<lambda>dx dy i. paint color i)"

definition draw_translucent_rect ::
  "nat \<Rightarrow> nat \<Rightarrow> nat \<Rightarrow> nat \<Rightarrow> nat \<Rightarrow> u32 \<Rightarrow> u8 \<Rightarrow> u32 list \<Rightarrow> u32 list option" where
  "draw_translucent_rect stride x y w h color alpha = pixels stride x y w h (\<lambda>dx dy i buffer.
     if i < length buffer then blend_pixel i color alpha buffer else Some buffer)"

text \<open>The corner test: whether the pixel at an offset of the rectangle is drawn.\<close>

definition inside_circle :: "nat \<Rightarrow> nat \<Rightarrow> nat \<Rightarrow> bool option" where
  "inside_circle a b r =
     do {
       r_sq \<leftarrow> umul r r;
       a_sq \<leftarrow> umul a a;
       b_sq \<leftarrow> umul b b;
       dist_sq \<leftarrow> uadd a_sq b_sq;
       Some (\<not> as_isize r_sq < as_isize dist_sq)
     }"

definition corner_draws :: "nat \<Rightarrow> nat \<Rightarrow> nat \<Rightarrow> nat \<Rightarrow> nat \<Rightarrow> bool option" where
  "corner_draws w h r dx dy =
     (if dx < r \<and> dy < r then
        do { a \<leftarrow> usub r dx; b \<leftarrow> usub r dy; inside_circle a b r }
      else do {
        right \<leftarrow> usub w r;
        if right \<le> dx \<and> dy < r then
          do { cx \<leftarrow> usub right 1; a \<leftarrow> usub dx cx; b \<leftarrow> usub r dy; inside_circle a b r }
        else if dx < r \<or> right \<le> dx then
          do {
            bottom \<leftarrow> usub h r;
            if dx < r \<and> bottom \<le> dy then
              do { cy \<leftarrow> usub bottom 1; a \<leftarrow> usub r dx; b \<leftarrow> usub dy cy; inside_circle a b r }
            else if right \<le> dx \<and> bottom \<le> dy then
              do {
                cx \<leftarrow> usub right 1;
                cy \<leftarrow> usub bottom 1;
                a \<leftarrow> usub dx cx;
                b \<leftarrow> usub dy cy;
                inside_circle a b r
              }
            else Some True
          }
        else Some True
      })"

definition draw_rounded_rect ::
  "nat \<Rightarrow> nat \<Rightarrow> nat \<Rightarrow> nat \<Rightarrow> nat \<Rightarrow> nat \<Rightarrow> u32 \<Rightarrow> u32 list \<Rightarrow> u32 list option" where
  "draw_rounded_rect stride x y w h r color buffer =
     do {
       r_sq \<leftarrow> umul r r;
       pixels stride x y w h (\<lambda>dx dy i buffer.
         if length buffer \<le> i then Some buffer
         else do {
           draw \<leftarrow> corner_draws w h r dx dy;
           if draw then upd buffer i color else Some buffer
         }) buffer
     }"

definition draw_translucent_rounded_rect ::
  "nat \<Rightarrow> nat \<Rightarrow> nat \<Rightarrow> nat \<Rightarrow> nat \<Rightarrow> nat \<Rightarrow> u32 \<Rightarrow> u8 \<Rightarrow> u32 list \<Rightarrow> u32 list option" where
  "draw_translucent_rounded_rect stride x y w h r color alpha buffer =
     do {
       r_sq \<leftarrow> umul r r;
       pixels stride x y w h (\<lambda>dx dy i buffer.
         if length buffer \<le> i then Some buffer
         else do {
           draw \<leftarrow> corner_draws w h r dx dy;
           if draw then blend_pixel i color alpha buffer else Some buffer
         }) buffer
     }"

subsection \<open>Shadows\<close>

text \<open>
  Single precision: a non-negative number rounded to 24 significant bits, ties to even. The
  bound on the scaling steps covers the normal range; the code stays between \<open>2 ^ - 30\<close> and
  \<open>2 ^ 30\<close>.
\<close>

definition round_even :: "rat \<Rightarrow> int" where
  "round_even q =
     (let n = \<lfloor>q\<rfloor>; f = q - of_int n in
      if f < 1 / 2 then n else if 1 / 2 < f then n + 1 else if even n then n else n + 1)"

fun f32_fit :: "nat \<Rightarrow> rat \<Rightarrow> rat" where
  "f32_fit 0 q = q"
| "f32_fit (Suc k) q =
     (if q < 2 ^ 23 then f32_fit k (2 * q) / 2
      else if 2 ^ 24 \<le> q then 2 * f32_fit k (q / 2)
      else of_int (round_even q))"

definition f32 :: "rat \<Rightarrow> rat" where
  "f32 q = (if q = 0 then 0 else f32_fit 150 q)"

text \<open>\<open>as u8\<close> truncates and saturates.\<close>

definition f32_as_u8 :: "rat \<Rightarrow> u8" where
  "f32_as_u8 q = word_of_int (max 0 (min 255 \<lfloor>q\<rfloor>))"

definition shadow_alpha :: "int \<Rightarrow> nat \<Rightarrow> u8" where
  "shadow_alpha edge shadow_sz =
     (let ratio = f32 (1 - f32 (f32 (of_int edge) / f32 (of_nat shadow_sz)))
      in f32_as_u8 (f32 (ratio * 120)))"

text \<open>The distance to the window along one axis.\<close>

definition edge_dist :: "nat \<Rightarrow> nat \<Rightarrow> nat \<Rightarrow> int \<Rightarrow> int option" where
  "edge_dist shadow_sz lo len p =
     (if p < as_isize lo then isize_ok (as_isize lo - p)
      else do {
        hi \<leftarrow> uadd lo len;
        if as_isize hi \<le> p then do { d \<leftarrow> isize_ok (p - as_isize hi); isize_ok (d + 1) }
        else Some (as_isize shadow_sz)
      })"

definition under_window :: "nat \<Rightarrow> nat \<Rightarrow> nat \<Rightarrow> nat \<Rightarrow> int \<Rightarrow> int \<Rightarrow> bool option" where
  "under_window wx wy ww wh px py =
     (if px < as_isize wx then Some False
      else do {
        right \<leftarrow> uadd wx ww;
        if \<not> px < as_isize right \<or> py < as_isize wy then Some False
        else do { bottom \<leftarrow> uadd wy wh; Some (py < as_isize bottom) }
      })"

definition draw_shadow ::
  "nat \<Rightarrow> nat \<Rightarrow> nat \<Rightarrow> nat \<Rightarrow> nat \<Rightarrow> nat \<Rightarrow> u32 list \<Rightarrow> u32 list option" where
  "draw_shadow stride wx wy ww wh shadow_sz buffer =
     do {
       both \<leftarrow> umul shadow_sz 2;
       rows \<leftarrow> uadd wh both;
       columns \<leftarrow> uadd ww both;
       signed_pixels stride wx wy shadow_sz columns rows (\<lambda>dx dy px py i buffer.
         if length buffer \<le> i then Some buffer
         else do {
           under \<leftarrow> under_window wx wy ww wh px py;
           if under then Some buffer
           else do {
             dist_x \<leftarrow> edge_dist shadow_sz wx ww px;
             dist_y \<leftarrow> edge_dist shadow_sz wy wh py;
             let edge = max dist_x dist_y;
             if f32 (of_int edge) < f32 (of_nat shadow_sz)
             then blend_pixel i 0x000000 (shadow_alpha edge shadow_sz) buffer
             else Some buffer
           }
         }) buffer
     }"

subsection \<open>Cursor, text and circles\<close>

definition cursor_mask :: "string list" where
  "cursor_mask =
     [''X               '',
      ''XX              '',
      ''X.X             '',
      ''X..X            '',
      ''X...X           '',
      ''X....X          '',
      ''X.....X         '',
      ''X......X        '',
      ''X.......X       '',
      ''X........X      '',
      ''X.....XXXX      '',
      ''X..X..X         '',
      ''X.X X..X        '',
      ''XX   X..X       '',
      ''X     X..X      '',
      ''       XX       '']"

definition draw_mouse_cursor :: "nat \<Rightarrow> nat \<Rightarrow> nat \<Rightarrow> u32 list \<Rightarrow> u32 list option" where
  "draw_mouse_cursor stride mx my = for_each (enumerate 0 cursor_mask) (\<lambda>(row, line) buffer.
     do {
       py \<leftarrow> uadd my row;
       row_offset \<leftarrow> umul py stride;
       for_each (enumerate 0 line) (\<lambda>(col, ch) buffer.
         do {
           px \<leftarrow> uadd mx col;
           i \<leftarrow> uadd row_offset px;
           if length buffer \<le> i then Some buffer
           else if ch = CHR ''X'' then upd buffer i 0x000000
           else if ch = CHR ''.'' then upd buffer i 0xFFFFFF
           else Some buffer
         }) buffer
     })"

definition draw_char :: "font \<Rightarrow> nat \<Rightarrow> nat \<Rightarrow> nat \<Rightarrow> nat \<Rightarrow> u32 \<Rightarrow> u32 list \<Rightarrow> u32 list option" where
  "draw_char font stride x y c color buffer =
     (case font c of
        None \<Rightarrow> Some buffer
      | Some font_char \<Rightarrow>
          for_each (enumerate 0 font_char) (\<lambda>(row, b) buffer.
            do {
              py \<leftarrow> uadd y row;
              row_offset \<leftarrow> umul py stride;
              for_range 8 (\<lambda>col buffer.
                if b AND push_bit col 1 \<noteq> 0 then
                  do { px \<leftarrow> uadd x col; i \<leftarrow> uadd row_offset px; paint color i buffer }
                else Some buffer) buffer
            }) buffer)"

fun draw_string ::
  "font \<Rightarrow> nat \<Rightarrow> nat \<Rightarrow> nat \<Rightarrow> nat list \<Rightarrow> u32 \<Rightarrow> u32 list \<Rightarrow> u32 list option" where
  "draw_string font stride x y [] color buffer = Some buffer"
| "draw_string font stride x y (c # chars) color buffer =
     do {
       buffer \<leftarrow> draw_char font stride x y c color buffer;
       x \<leftarrow> uadd x 8;
       draw_string font stride x y chars color buffer
     }"

definition draw_filled_circle :: "nat \<Rightarrow> nat \<Rightarrow> nat \<Rightarrow> nat \<Rightarrow> u32 \<Rightarrow> u32 list \<Rightarrow> u32 list option" where
  "draw_filled_circle stride cx cy r color buffer =
     do {
       r_sq \<leftarrow> umul r r;
       both \<leftarrow> umul r 2;
       signed_pixels stride cx cy r (both + 1) (both + 1) (\<lambda>dx dy px py i buffer.
         if length buffer \<le> i then Some buffer
         else do {
           dist_x \<leftarrow> isize_ok (as_isize r - as_isize dx);
           dist_y \<leftarrow> isize_ok (as_isize r - as_isize dy);
           x_sq \<leftarrow> isize_ok (dist_x * dist_x);
           y_sq \<leftarrow> isize_ok (dist_y * dist_y);
           dist_sq \<leftarrow> isize_ok (x_sq + y_sq);
           if dist_sq \<le> as_isize r_sq then upd buffer i color else Some buffer
         }) buffer
     }"

subsection \<open>Painting keeps the buffer\<close>

text \<open>A step that does not panic on a buffer of \<open>n\<close> pixels and keeps its length.\<close>

definition paints :: "nat \<Rightarrow> (u32 list \<Rightarrow> u32 list option) \<Rightarrow> bool" where
  "paints n f \<longleftrightarrow> (\<forall>b. length b = n \<longrightarrow> (\<exists>b'. f b = Some b' \<and> length b' = n))"

named_theorems paints

lemma paints_Some [paints]: "paints n Some"
  by (simp add: paints_def)

lemma paints_bind [paints]: "paints n f \<Longrightarrow> paints n g \<Longrightarrow> paints n (\<lambda>b. f b \<bind> g)"
  unfolding paints_def by fastforce

lemma paints_bindD: "m = Some x \<Longrightarrow> paints n (g x) \<Longrightarrow> paints n (\<lambda>b. m \<bind> (\<lambda>x. g x b))"
  by (simp add: paints_def)

lemma paints_if: "(c \<Longrightarrow> paints n f) \<Longrightarrow> (\<not> c \<Longrightarrow> paints n g) \<Longrightarrow> paints n (\<lambda>b. if c then f b else g b)"
  by (simp add: paints_def)

lemma paints_if_length:
  "(n \<le> i \<Longrightarrow> paints n f) \<Longrightarrow> (i < n \<Longrightarrow> paints n g) \<Longrightarrow>
    paints n (\<lambda>b. if length b \<le> i then f b else g b)"
  unfolding paints_def by (simp add: not_le)

lemma paints_for_from:
  assumes "\<And>i. lo \<le> i \<Longrightarrow> i < lo + k \<Longrightarrow> paints n (f i)"
  shows "paints n (for_from lo k f)"
  unfolding paints_def
proof (intro allI impI)
  fix b :: "u32 list" assume "length b = n"
  then show "\<exists>b'. for_from lo k f b = Some b' \<and> length b' = n"
    by (rule for_from_inv[where P = "\<lambda>_ b. length b = n"]) (use assms in \<open>auto simp: paints_def\<close>)
qed

lemma paints_for_each: "(\<And>x. x \<in> set xs \<Longrightarrow> paints n (f x)) \<Longrightarrow> paints n (for_each xs f)"
proof (induction xs)
  case (Cons x xs)
  have "for_each (x # xs) f = (\<lambda>b. f x b \<bind> for_each xs f)" by (rule ext) simp
  with Cons show ?case by (simp add: paints_bind)
qed (simp add: paints_def)

lemma paint_paints [paints]: "paints n (paint color i)"
  by (simp add: paints_def paint_def checked)

lemma upd_paints: "i < n \<Longrightarrow> paints n (\<lambda>b. upd b i color)"
  by (simp add: paints_def checked)

text \<open>The two loops, where no coordinate overflows.\<close>

lemma small_pixel:
  assumes "y + h \<le> 2 ^ 31" "x + w \<le> 2 ^ 31" "stride \<le> 2 ^ 31" "dy < h" "dx < w"
  shows "uadd y dy = Some (y + dy)" "umul (y + dy) stride = Some ((y + dy) * stride)"
    "uadd x dx = Some (x + dx)" "uadd ((y + dy) * stride) (x + dx) = Some ((y + dy) * stride + (x + dx))"
proof -
  have "(y + dy) * stride \<le> 2 ^ 31 * 2 ^ 31" using assms by (intro mult_le_mono) auto
  then have "(y + dy) * stride \<le> 2 ^ 62" by simp
  with assms show "uadd y dy = Some (y + dy)" "umul (y + dy) stride = Some ((y + dy) * stride)"
    "uadd x dx = Some (x + dx)" "uadd ((y + dy) * stride) (x + dx) = Some ((y + dy) * stride + (x + dx))"
    by (simp_all add: checked usize_bound_def)
qed

lemma pixels_paints:
  assumes small: "y + h \<le> 2 ^ 31" "x + w \<le> 2 ^ 31" "stride \<le> 2 ^ 31"
    and body: "\<And>dx dy i. dx < w \<Longrightarrow> dy < h \<Longrightarrow> paints n (body dx dy i)"
  shows "paints n (pixels stride x y w h body)"
proof -
  have "paints n (\<lambda>b. do { py \<leftarrow> uadd y dy; row \<leftarrow> umul py stride;
      for_range w (\<lambda>dx b. do { px \<leftarrow> uadd x dx; i \<leftarrow> uadd row px; body dx dy i b }) b })"
    if dy: "dy < h" for dy
  proof -
    have inner: "paints n (for_range w (\<lambda>dx b. do { px \<leftarrow> uadd x dx;
        i \<leftarrow> uadd ((y + dy) * stride) px; body dx dy i b }))"
    proof (rule paints_for_from)
      fix dx assume dx: "dx < 0 + w"
      then show "paints n (\<lambda>b. do { px \<leftarrow> uadd x dx; i \<leftarrow> uadd ((y + dy) * stride) px; body dx dy i b })"
        using body[OF _ dy, of dx] small_pixel[OF small dy, of dx] by simp
    qed
    show ?thesis
    proof (cases "w = 0")
      case True
      have "(y + dy) * stride \<le> 2 ^ 31 * 2 ^ 31" using small dy by (intro mult_le_mono) auto
      then show ?thesis using True small dy by (simp add: paints_def checked usize_bound_def)
    next
      case False
      with small_pixel[OF small dy, of 0] inner show ?thesis by simp
    qed
  qed
  then show ?thesis unfolding pixels_def by (intro paints_for_from) simp
qed

lemma isize_small: "- (2 ^ 62) \<le> i \<Longrightarrow> i \<le> 2 ^ 62 \<Longrightarrow> isize_ok i = Some i"
  by (simp add: isize_ok_def)

lemma isize_squares:
  assumes "\<bar>a\<bar> \<le> 2 ^ 20" "\<bar>b\<bar> \<le> 2 ^ 20"
  shows "isize_ok (a * a) = Some (a * a)" "isize_ok (b * b) = Some (b * b)"
    "isize_ok (a * a + b * b) = Some (a * a + b * b)"
proof -
  have sq: "0 \<le> c * c \<and> c * c \<le> 1099511627776" if "\<bar>c\<bar> \<le> 2 ^ 20" for c :: int
    using abs_le_square_iff[of c "2 ^ 20"] that by (simp add: power2_eq_square)
  obtain x y where xy: "x = a * a" "y = b * b" by blast
  have "0 \<le> x" "x \<le> 1099511627776" "0 \<le> y" "y \<le> 1099511627776"
    using sq[OF assms(1)] sq[OF assms(2)] xy by simp_all
  then have "isize_ok x = Some x" "isize_ok y = Some y" "isize_ok (x + y) = Some (x + y)"
    by (simp_all add: isize_ok_def)
  then show "isize_ok (a * a) = Some (a * a)" "isize_ok (b * b) = Some (b * b)"
    "isize_ok (a * a + b * b) = Some (a * a + b * b)" unfolding xy by blast+
qed

lemma as_isize_small: "n \<le> 2 ^ 62 \<Longrightarrow> as_isize n = int n"
  by (simp add: as_isize_def)

text \<open>A step that does not panic and keeps a property of the buffer.\<close>

definition keeps :: "(u32 list \<Rightarrow> bool) \<Rightarrow> (u32 list \<Rightarrow> u32 list option) \<Rightarrow> bool" where
  "keeps P f \<longleftrightarrow> (\<forall>b. P b \<longrightarrow> (\<exists>b'. f b = Some b' \<and> P b'))"

lemma paints_keeps: "paints n = keeps (\<lambda>b. length b = n)"
  by (simp add: fun_eq_iff paints_def keeps_def)

lemma keeps_Some: "keeps P Some"
  by (simp add: keeps_def)

lemma keeps_for_from:
  assumes "\<And>i. lo \<le> i \<Longrightarrow> i < lo + k \<Longrightarrow> keeps P (f i)"
  shows "keeps P (for_from lo k f)"
  unfolding keeps_def
proof (intro allI impI)
  fix b assume "P b"
  then show "\<exists>b'. for_from lo k f b = Some b' \<and> P b'"
    by (rule for_from_inv[where P = "\<lambda>_. P"]) (use assms in \<open>auto simp: keeps_def\<close>)
qed

lemma signed_pixels_keeps:
  assumes small: "y + h \<le> 2 ^ 31" "x + w \<le> 2 ^ 31" "stride \<le> 2 ^ 30" "back \<le> 2 ^ 30"
    and body: "\<And>dx dy px py. dx < w \<Longrightarrow> dy < h \<Longrightarrow> px = int x - int back + int dx \<Longrightarrow>
      py = int y - int back + int dy \<Longrightarrow> 0 \<le> px \<Longrightarrow> 0 \<le> py \<Longrightarrow>
      keeps P (body dx dy px py (nat py * stride + nat px))"
  shows "keeps P (signed_pixels stride x y back w h body)"
  unfolding signed_pixels_def
proof (rule keeps_for_from)
  fix dy assume dy: "dy < 0 + h"
  let ?py = "int y - int back + int dy"
  have py: "isize_ok (as_isize y - as_isize back) = Some (int y - int back)"
    "isize_ok (int y - int back + as_isize dy) = Some ?py"
    using small dy by (simp_all add: as_isize_small isize_small)
  have row: "umul (nat ?py) stride = Some (nat ?py * stride)" and row_le: "nat ?py * stride \<le> 2 ^ 61"
  proof -
    have "nat ?py * stride \<le> 2 ^ 31 * 2 ^ 30" using small dy by (intro mult_le_mono) auto
    then show "nat ?py * stride \<le> 2 ^ 61" by simp
    then show "umul (nat ?py) stride = Some (nat ?py * stride)" by (simp add: checked usize_bound_def)
  qed
  have inner: "keeps P (for_range w (\<lambda>dx buffer. do {
      px \<leftarrow> isize_ok (as_isize x - as_isize back); px \<leftarrow> isize_ok (px + as_isize dx);
      if px < 0 then Some buffer
      else do { i \<leftarrow> uadd (nat ?py * stride) (nat px); body dx dy px ?py i buffer } }))" if "0 \<le> ?py"
  proof (rule keeps_for_from)
    fix dx assume dx: "dx < 0 + w"
    let ?px = "int x - int back + int dx"
    have px: "isize_ok (as_isize x - as_isize back) = Some (int x - int back)"
      "isize_ok (int x - int back + as_isize dx) = Some ?px"
      using small dx by (simp_all add: as_isize_small isize_small)
    have "nat ?px \<le> 2 ^ 32" using small dx by simp
    then have "uadd (nat ?py * stride) (nat ?px) = Some (nat ?py * stride + nat ?px)"
      using row_le by (simp add: checked usize_bound_def)
    then show "keeps P (\<lambda>buffer. do {
        px \<leftarrow> isize_ok (as_isize x - as_isize back); px \<leftarrow> isize_ok (px + as_isize dx);
        if px < 0 then Some buffer
        else do { i \<leftarrow> uadd (nat ?py * stride) (nat px); body dx dy px ?py i buffer } })"
      using px body[of dx dy ?px ?py] dx dy that keeps_Some by (cases "?px < 0") simp_all
  qed
  show "keeps P (\<lambda>buffer. do {
      py \<leftarrow> isize_ok (as_isize y - as_isize back); py \<leftarrow> isize_ok (py + as_isize dy);
      if py < 0 then Some buffer
      else do {
        row_offset \<leftarrow> umul (nat py) stride;
        for_range w (\<lambda>dx buffer. do {
          px \<leftarrow> isize_ok (as_isize x - as_isize back); px \<leftarrow> isize_ok (px + as_isize dx);
          if px < 0 then Some buffer
          else do { i \<leftarrow> uadd row_offset (nat px); body dx dy px py i buffer } }) buffer
      } })"
    using py row inner keeps_Some by (cases "?py < 0") simp_all
qed

lemma signed_pixels_paints:
  assumes "y + h \<le> 2 ^ 31" "x + w \<le> 2 ^ 31" "stride \<le> 2 ^ 30" "back \<le> 2 ^ 30"
    and body: "\<And>dx dy i px py. dx < w \<Longrightarrow> dy < h \<Longrightarrow> px = int x - int back + int dx \<Longrightarrow>
      py = int y - int back + int dy \<Longrightarrow> 0 \<le> px \<Longrightarrow> 0 \<le> py \<Longrightarrow> paints n (body dx dy px py i)"
  shows "paints n (signed_pixels stride x y back w h body)"
  using assms(1-4) body unfolding paints_keeps by (rule signed_pixels_keeps)

subsection \<open>Blending is bounded\<close>

lemma channel_less: "channel k color \<le> 255"
proof -
  have "(0xFF :: u32) = mask 8" by (simp add: mask_eq_exp_minus_1)
  then have "unat (channel k color) < 256"
    unfolding channel_def by (simp only: take_bit_eq_mask[symmetric] unsigned_take_bit_eq) (simp add: take_bit_eq_mod)
  then show ?thesis by (simp add: word_le_nat_alt)
qed

text \<open>The blend of two channels is the weighted mean, rounded down, and stays a channel.\<close>

lemma blend_channel_mean:
  assumes "fg \<le> 255" "bg \<le> 255" "a \<le> 255"
  shows "\<exists>c. blend_channel fg bg a = Some c \<and>
    unat c = (unat fg * unat a + unat bg * (255 - unat a)) div 255"
proof -
  let ?f = "unat fg" and ?b = "unat bg" and ?a = "unat a"
  have le: "?f \<le> 255" "?b \<le> 255" "?a \<le> 255" using assms by (simp_all add: word_le_nat_alt)
  have f: "?f * ?a \<le> 255 * ?a" and b: "?b * (255 - ?a) \<le> 255 * (255 - ?a)"
    using le by (simp_all add: mult_le_mono1)
  have sum: "?f * ?a + ?b * (255 - ?a) \<le> 255 * 255"
    using add_mono[OF f b] le by (simp add: diff_mult_distrib2)
  have ua: "unat (255 - a) = 255 - ?a" using assms(3) by (simp add: unat_sub)
  have "?f * ?a < 2 ^ 32" "?b * (255 - ?a) < 2 ^ 32" using sum by simp_all
  then have mul: "unat (fg * a) = ?f * ?a" "unat (bg * (255 - a)) = ?b * (255 - ?a)"
    using ua by (simp_all add: unat_word_ariths)
  then have s: "unat (fg * a + bg * (255 - a)) = ?f * ?a + ?b * (255 - ?a)"
    using sum by (simp add: unat_word_ariths)
  let ?q = "(fg * a + bg * (255 - a)) div 255"
  have q: "unat ?q = (?f * ?a + ?b * (255 - ?a)) div 255" using s by (simp add: unat_div)
  have "unat ?q < 256" unfolding q using div_le_mono[OF sum, of 255] by simp
  then have "unat (take_bit 8 ?q) = unat ?q"
    by (simp only: unsigned_take_bit_eq) (simp add: take_bit_eq_mod)
  then have "take_bit 8 ?q = ?q" by (simp only: word_unat_eq_iff)
  moreover have "?q AND 0xFF = take_bit 8 ?q"
  proof -
    have "(0xFF :: u32) = mask 8" by (simp add: mask_eq_exp_minus_1)
    then show ?thesis by (simp only: take_bit_eq_mask)
  qed
  ultimately have "blend_channel fg bg a = Some ?q"
    using assms(3) mul s sum ua \<open>?f * ?a < 2 ^ 32\<close> \<open>?b * (255 - ?a) < 2 ^ 32\<close>
    by (simp add: blend_channel_def wmul_def wsub_def wadd_def)
  with q show ?thesis by blast
qed

lemma blend_pixel_paints [paints]: "paints n (blend_pixel i color alpha)"
proof -
  have a: "(ucast alpha :: u32) \<le> 255"
    using unat_lt2p[of alpha] by (simp add: word_le_nat_alt unsigned_ucast_eq take_bit_eq_mod)
  show ?thesis
    unfolding paints_def
  proof (intro allI impI)
    fix b :: "u32 list" assume b: "length b = n"
    obtain r g bl where "blend_channel (channel 16 color) (channel 16 (b ! i)) (ucast alpha) = Some r"
      "blend_channel (channel 8 color) (channel 8 (b ! i)) (ucast alpha) = Some g"
      "blend_channel (channel 0 color) (channel 0 (b ! i)) (ucast alpha) = Some bl"
      using blend_channel_mean[OF channel_less channel_less a] by metis
    then show "\<exists>b'. blend_pixel i color alpha b = Some b' \<and> length b' = n"
      using b by (simp add: blend_pixel_def checked Let_def)
  qed
qed

subsection \<open>Rounded corners\<close>

text \<open>The shape of a rounded rectangle: the four corner squares are cut by a circle.\<close>

definition corner_keep :: "nat \<Rightarrow> nat \<Rightarrow> nat \<Rightarrow> nat \<Rightarrow> nat \<Rightarrow> bool" where
  "corner_keep w h r dx dy \<longleftrightarrow>
     (let a = (if dx < r then r - dx else if w - r \<le> dx then dx + 1 - (w - r) else 0);
          b = (if dy < r then r - dy else if h - r \<le> dy then dy + 1 - (h - r) else 0)
      in a = 0 \<or> b = 0 \<or> a * a + b * b \<le> r * r)"

lemma inside_circle_ok:
  assumes "a \<le> 2 ^ 20" "b \<le> 2 ^ 20" "r \<le> 2 ^ 20"
  shows "inside_circle a b r = Some (a * a + b * b \<le> r * r)"
proof -
  have "a * a \<le> 2 ^ 20 * 2 ^ 20" "b * b \<le> 2 ^ 20 * 2 ^ 20" "r * r \<le> 2 ^ 20 * 2 ^ 20"
    using mult_le_mono[OF assms(1) assms(1)] mult_le_mono[OF assms(2) assms(2)]
      mult_le_mono[OF assms(3) assms(3)] by simp_all
  moreover have "(int (a * a + b * b) \<le> int (r * r)) = (a * a + b * b \<le> r * r)" by (rule of_nat_le_iff)
  ultimately show ?thesis
    by (simp add: inside_circle_def checked usize_bound_def as_isize_small not_less del: of_nat_mult of_nat_add)
qed

lemma corner_draws_keep:
  assumes "r \<le> w" "r \<le> 2 ^ 19" "dx < w" "dy < h"
  shows "corner_draws w h r dx dy = Some (corner_keep w h r dx dy)"
proof -
  consider "dx < r" "dy < r" | "\<not> dx < r" "w - r \<le> dx" "dy < r" | "\<not> dx < r" "\<not> w - r \<le> dx" "dy < r"
    | "dx < r" "\<not> dy < r" "h - r \<le> dy" | "dx < r" "\<not> dy < r" "\<not> h - r \<le> dy"
    | "\<not> dx < r" "w - r \<le> dx" "\<not> dy < r" "h - r \<le> dy"
    | "\<not> dx < r" "w - r \<le> dx" "\<not> dy < r" "\<not> h - r \<le> dy"
    | "\<not> dx < r" "\<not> w - r \<le> dx" "\<not> dy < r" by blast
  then show ?thesis
    by cases (use assms in \<open>simp_all add: corner_draws_def corner_keep_def checked inside_circle_ok Suc_diff_le Let_def\<close>)
qed

subsection \<open>Which pixels are drawn\<close>

text \<open>
  \<open>painted\<close> describes a buffer in screen coordinates: the pixels a predicate selects have gone
  through \<open>g\<close>, the others are as before.
\<close>

definition painted ::
  "nat \<Rightarrow> (nat \<Rightarrow> nat \<Rightarrow> bool) \<Rightarrow> (u32 \<Rightarrow> u32) \<Rightarrow> u32 list \<Rightarrow> u32 list \<Rightarrow> bool" where
  "painted stride sel g b b' \<longleftrightarrow> length b' = length b \<and>
     (\<forall>i<length b. b' ! i = (if sel (i mod stride) (i div stride) then g (b ! i) else b ! i))"

lemma pixel_index:
  fixes stride :: nat
  assumes "px < stride"
  shows "py * stride + px = i \<longleftrightarrow> i mod stride = px \<and> i div stride = py"
  using assms by (auto simp: mod_mult_self3)

lemma painted_step:
  assumes "painted stride sel g b b1" and "px < stride" and "\<not> sel px py" and "i = py * stride + px"
  shows "painted stride (\<lambda>qx qy. sel qx qy \<or> keep \<and> qx = px \<and> qy = py) g b
    (if i < length b \<and> keep then b1[i := g (b1 ! i)] else b1)"
  using assms pixel_index[OF assms(2), of py]
  by (auto simp: painted_def nth_list_update)

definition in_rect :: "nat \<Rightarrow> nat \<Rightarrow> nat \<Rightarrow> nat \<Rightarrow> nat \<Rightarrow> nat \<Rightarrow> bool" where
  "in_rect x y w h px py \<longleftrightarrow> x \<le> px \<and> px < x + w \<and> y \<le> py \<and> py < y + h"

lemma painted_cong:
  "painted stride sel g b b' \<Longrightarrow> (\<And>px py. sel px py = sel' px py) \<Longrightarrow> painted stride sel' g b b'"
  by (simp add: painted_def)

lemma pixels_spec:
  assumes small: "y + h \<le> 2 ^ 31" "x + w \<le> 2 ^ 31" "stride \<le> 2 ^ 31" and wide: "x + w \<le> stride"
    and body: "\<And>dx dy i b1. dx < w \<Longrightarrow> dy < h \<Longrightarrow> length b1 = length b \<Longrightarrow>
      body dx dy i b1 = Some (if i < length b \<and> keep dx dy then b1[i := g (b1 ! i)] else b1)"
  shows "\<exists>b'. pixels stride x y w h body b = Some b' \<and>
    painted stride (\<lambda>px py. in_rect x y w h px py \<and> keep (px - x) (py - y)) g b b'"
proof -
  let ?sel = "\<lambda>px py. in_rect x y w h px py \<and> keep (px - x) (py - y)"
  let ?row = "\<lambda>dy dx px py. ?sel px py \<and> (py < y + dy \<or> py = y + dy \<and> px < x + dx)"
  have "\<exists>b'. pixels stride x y w h body b = Some b' \<and> painted stride (?row (0 + h) 0) g b b'"
    unfolding pixels_def
  proof (rule for_from_inv[where P = "\<lambda>dy b'. painted stride (?row dy 0) g b b'"])
    show "painted stride (?row 0 0) g b b" by (auto simp: painted_def in_rect_def)
  next
    fix dy b1 assume dy: "dy < 0 + h" and b1: "painted stride (?row dy 0) g b b1"
    have "\<exists>b2. for_range w (\<lambda>dx buffer. do { px \<leftarrow> uadd x dx; i \<leftarrow> uadd ((y + dy) * stride) px;
        body dx dy i buffer }) b1 = Some b2 \<and> painted stride (?row dy (0 + w)) g b b2"
    proof (rule for_from_inv[where P = "\<lambda>dx b'. painted stride (?row dy dx) g b b'"])
      show "painted stride (?row dy 0) g b b1" by (rule b1)
    next
      fix dx b2 assume dx: "dx < 0 + w" and b2: "painted stride (?row dy dx) g b b2"
      let ?i = "(y + dy) * stride + (x + dx)"
      have "painted stride (\<lambda>qx qy. ?row dy dx qx qy \<or> keep dx dy \<and> qx = x + dx \<and> qy = y + dy) g b
          (if ?i < length b \<and> keep dx dy then b2[?i := g (b2 ! ?i)] else b2)"
        by (rule painted_step[OF b2]) (use wide dx in auto)
      then have "painted stride (?row dy (Suc dx)) g b
          (if ?i < length b \<and> keep dx dy then b2[?i := g (b2 ! ?i)] else b2)"
        by (rule painted_cong) (use dx dy in \<open>auto simp: in_rect_def less_Suc_eq\<close>)
      moreover have "length b2 = length b" using b2 by (simp add: painted_def)
      ultimately show "\<exists>b3. do { px \<leftarrow> uadd x dx; i \<leftarrow> uadd ((y + dy) * stride) px; body dx dy i b2 } =
          Some b3 \<and> painted stride (?row dy (Suc dx)) g b b3"
        using small_pixel[OF small, of dy dx] dx dy body[of dx dy b2 ?i] by simp
    qed
    then obtain b2 where b2: "for_range w (\<lambda>dx buffer. do { px \<leftarrow> uadd x dx;
        i \<leftarrow> uadd ((y + dy) * stride) px; body dx dy i buffer }) b1 = Some b2"
      "painted stride (?row dy w) g b b2" by auto
    have "painted stride (?row (Suc dy) 0) g b b2"
      using b2(2) by (rule painted_cong) (auto simp: in_rect_def)
    moreover have "(y + dy) * stride \<le> 2 ^ 31 * 2 ^ 31" using small dy by (intro mult_le_mono) auto
    then have "uadd y dy = Some (y + dy)" "umul (y + dy) stride = Some ((y + dy) * stride)"
      using small dy by (simp_all add: checked usize_bound_def)
    ultimately show "\<exists>b2. do { py \<leftarrow> uadd y dy; row_offset \<leftarrow> umul py stride;
        for_range w (\<lambda>dx buffer. do { px \<leftarrow> uadd x dx; i \<leftarrow> uadd row_offset px; body dx dy i buffer }) b1 } =
        Some b2 \<and> painted stride (?row (Suc dy) 0) g b b2"
      using b2(1) by simp
  qed
  then obtain b' where b': "pixels stride x y w h body b = Some b'" "painted stride (?row (0 + h) 0) g b b'"
    by blast
  have "painted stride ?sel g b b'"
    using b'(2) by (rule painted_cong) (auto simp: in_rect_def)
  with b'(1) show ?thesis by blast
qed

lemma draw_rect_buf_spec:
  assumes "y + h \<le> 2 ^ 31" "x + w \<le> stride" "stride \<le> 2 ^ 31"
  shows "\<exists>b'. draw_rect_buf stride x y w h color b = Some b' \<and>
    painted stride (in_rect x y w h) (\<lambda>_. color) b b'"
proof -
  have "x + w \<le> 2 ^ 31" using assms by simp
  from pixels_spec[OF assms(1) this assms(3,2), of b "\<lambda>dx dy i. paint color i" "\<lambda>_ _. True" "\<lambda>_. color"]
  show ?thesis unfolding draw_rect_buf_def by (simp add: paint_def checked)
qed

lemma draw_rounded_rect_spec:
  assumes "y + h \<le> 2 ^ 31" "x + w \<le> stride" "stride \<le> 2 ^ 31" and "r \<le> w" "r \<le> 2 ^ 19"
  shows "\<exists>b'. draw_rounded_rect stride x y w h r color b = Some b' \<and>
    painted stride (\<lambda>px py. in_rect x y w h px py \<and> corner_keep w h r (px - x) (py - y)) (\<lambda>_. color) b b'"
proof -
  have r: "umul r r = Some (r * r)"
    using mult_le_mono[OF assms(5) assms(5)] by (simp add: checked usize_bound_def)
  have "x + w \<le> 2 ^ 31" using assms by simp
  from pixels_spec[OF assms(1) this assms(3,2), of b "\<lambda>dx dy i buffer. if length buffer \<le> i then Some buffer
      else do { draw \<leftarrow> corner_draws w h r dx dy; if draw then upd buffer i color else Some buffer }"
      "corner_keep w h r" "\<lambda>_. color"]
  show ?thesis
    unfolding draw_rounded_rect_def using r corner_draws_keep[OF assms(4,5)]
    by (auto simp: checked not_le)
qed

subsection \<open>No primitive panics\<close>

text \<open>A box of coordinates well inside the machine's range.\<close>

definition small_box :: "nat \<Rightarrow> nat \<Rightarrow> nat \<Rightarrow> nat \<Rightarrow> nat \<Rightarrow> bool" where
  "small_box stride x y w h \<longleftrightarrow> x + w \<le> 2 ^ 30 \<and> y + h \<le> 2 ^ 30 \<and> stride \<le> 2 ^ 30"

lemma draw_rect_buf_paints: "small_box stride x y w h \<Longrightarrow> paints n (draw_rect_buf stride x y w h color)"
  unfolding draw_rect_buf_def small_box_def by (intro pixels_paints paint_paints) auto

lemma draw_translucent_rect_paints:
  "small_box stride x y w h \<Longrightarrow> paints n (draw_translucent_rect stride x y w h color alpha)"
  unfolding draw_translucent_rect_def small_box_def
  by (intro pixels_paints) (auto simp: paints_def blend_pixel_paints[unfolded paints_def])

lemma rounded_paints:
  assumes "small_box stride x y w h" "r \<le> w" "r \<le> 2 ^ 19" and "\<And>i. i < n \<Longrightarrow> paints n (f i)"
  shows "paints n (\<lambda>buffer. do {
       r_sq \<leftarrow> umul r r;
       pixels stride x y w h (\<lambda>dx dy i buffer.
         if length buffer \<le> i then Some buffer
         else do { draw \<leftarrow> corner_draws w h r dx dy; if draw then f i buffer else Some buffer }) buffer })"
proof -
  have r: "umul r r = Some (r * r)"
    using mult_le_mono[OF assms(3) assms(3)] by (simp add: checked usize_bound_def)
  have "paints n (pixels stride x y w h (\<lambda>dx dy i buffer.
         if length buffer \<le> i then Some buffer
         else do { draw \<leftarrow> corner_draws w h r dx dy; if draw then f i buffer else Some buffer }))"
  proof (rule pixels_paints)
    fix dx dy i assume "dx < w" "dy < h"
    then have keep: "corner_draws w h r dx dy = Some (corner_keep w h r dx dy)"
      using corner_draws_keep[OF assms(2,3)] by simp
    show "paints n (\<lambda>buffer. if length buffer \<le> i then Some buffer
         else do { draw \<leftarrow> corner_draws w h r dx dy; if draw then f i buffer else Some buffer })"
      unfolding keep bind.simps using assms(4) paints_Some by (intro paints_if_length paints_if) auto
  qed (use assms(1) in \<open>auto simp: small_box_def\<close>)
  then show ?thesis unfolding r by simp
qed

lemma draw_rounded_rect_paints:
  "small_box stride x y w h \<Longrightarrow> r \<le> w \<Longrightarrow> r \<le> 2 ^ 19 \<Longrightarrow> paints n (draw_rounded_rect stride x y w h r color)"
  unfolding draw_rounded_rect_def by (rule rounded_paints) (auto intro: upd_paints)

lemma draw_translucent_rounded_rect_paints:
  "small_box stride x y w h \<Longrightarrow> r \<le> w \<Longrightarrow> r \<le> 2 ^ 19 \<Longrightarrow>
    paints n (draw_translucent_rounded_rect stride x y w h r color alpha)"
  unfolding draw_translucent_rounded_rect_def by (rule rounded_paints) (auto intro: blend_pixel_paints)

lemma edge_dist_ok:
  assumes "lo + len \<le> 2 ^ 31" "s \<le> 2 ^ 30" "0 \<le> p" "p \<le> 2 ^ 32"
  shows "\<exists>d. edge_dist s lo len p = Some d"
proof -
  have "uadd lo len = Some (lo + len)" using assms by (simp add: checked usize_bound_def)
  then show ?thesis
    using assms by (auto simp: edge_dist_def as_isize_small isize_small)
qed

lemma draw_shadow_paints:
  assumes "small_box stride wx wy ww wh" "s \<le> 2 ^ 20"
  shows "paints n (draw_shadow stride wx wy ww wh s)"
proof -
  have small: "wx + ww \<le> 2 ^ 30" "wy + wh \<le> 2 ^ 30" "stride \<le> 2 ^ 30" using assms(1) by (auto simp: small_box_def)
  have both: "umul s 2 = Some (s * 2)" "uadd wh (s * 2) = Some (wh + s * 2)" "uadd ww (s * 2) = Some (ww + s * 2)"
    using small assms(2) by (simp_all add: checked usize_bound_def)
  have sums: "uadd wx ww = Some (wx + ww)" "uadd wy wh = Some (wy + wh)"
    using small by (simp_all add: checked usize_bound_def)
  have "paints n (signed_pixels stride wx wy s (ww + s * 2) (wh + s * 2) (\<lambda>dx dy px py i buffer.
         if length buffer \<le> i then Some buffer
         else do {
           under \<leftarrow> under_window wx wy ww wh px py;
           if under then Some buffer
           else do {
             dist_x \<leftarrow> edge_dist s wx ww px;
             dist_y \<leftarrow> edge_dist s wy wh py;
             let edge = max dist_x dist_y;
             if f32 (of_int edge) < f32 (of_nat s)
             then blend_pixel i 0x000000 (shadow_alpha edge s) buffer
             else Some buffer
           }
         }))"
  proof (rule signed_pixels_paints)
    fix dx dy i and px py :: int
    assume d: "dx < ww + s * 2" "dy < wh + s * 2" and p: "px = int wx - int s + int dx"
      "py = int wy - int s + int dy" "0 \<le> px" "0 \<le> py"
    have "px \<le> 2 ^ 32" "py \<le> 2 ^ 32" using p d small assms(2) by simp_all
    then obtain a b where e: "edge_dist s wx ww px = Some a" "edge_dist s wy wh py = Some b"
      using edge_dist_ok[of wx ww s px] edge_dist_ok[of wy wh s py] small assms(2) p(3,4) by auto
    obtain u where u: "under_window wx wy ww wh px py = Some u"
      using that by (cases "under_window wx wy ww wh px py") (auto simp: under_window_def sums split: if_splits)
    show "paints n (\<lambda>buffer. if length buffer \<le> i then Some buffer
         else do {
           under \<leftarrow> under_window wx wy ww wh px py;
           if under then Some buffer
           else do {
             dist_x \<leftarrow> edge_dist s wx ww px;
             dist_y \<leftarrow> edge_dist s wy wh py;
             let edge = max dist_x dist_y;
             if f32 (of_int edge) < f32 (of_nat s)
             then blend_pixel i 0x000000 (shadow_alpha edge s) buffer
             else Some buffer
           }
         })"
      unfolding u e bind.simps Let_def
      by (intro paints_if_length paints_if paints_Some blend_pixel_paints)
  qed (use small assms(2) in auto)
  then show ?thesis unfolding draw_shadow_def both bind.simps .
qed

lemma draw_mouse_cursor_paints:
  assumes "small_box stride mx my 0 0"
  shows "paints n (draw_mouse_cursor stride mx my)"
  unfolding draw_mouse_cursor_def
proof (rule paints_for_each, clarify)
  fix row and line :: string assume "(row, line) \<in> set (enumerate 0 cursor_mask)"
  then have row: "row < 16" and line: "length line = 16"
    by (auto simp: in_set_enumerate_eq cursor_mask_def less_Suc_eq numeral_eq_Suc)
  have m: "mx \<le> 2 ^ 30" "my \<le> 2 ^ 30" "stride \<le> 2 ^ 30" using assms by (simp_all add: small_box_def)
  have py: "uadd my row = Some (my + row)" "umul (my + row) stride = Some ((my + row) * stride)"
    and px: "col < 16 \<Longrightarrow> uadd mx col = Some (mx + col)"
      "col < 16 \<Longrightarrow> uadd ((my + row) * stride) (mx + col) = Some ((my + row) * stride + (mx + col))" for col
    using small_pixel[of my 16 mx 16 stride row 0] small_pixel[of my 16 mx 16 stride row col] row m by simp_all
  have "paints n (for_each (enumerate 0 line) (\<lambda>(col, ch) buffer.
         do {
           px \<leftarrow> uadd mx col;
           i \<leftarrow> uadd ((my + row) * stride) px;
           if length buffer \<le> i then Some buffer
           else if ch = CHR ''X'' then upd buffer i 0x000000
           else if ch = CHR ''.'' then upd buffer i 0xFFFFFF
           else Some buffer
         }))"
  proof (rule paints_for_each, clarify)
    fix col ch assume "(col, ch) \<in> set (enumerate 0 line)"
    then have "col < 16" using line by (simp add: in_set_enumerate_eq)
    then show "paints n (\<lambda>buffer. do {
           px \<leftarrow> uadd mx col;
           i \<leftarrow> uadd ((my + row) * stride) px;
           if length buffer \<le> i then Some buffer
           else if ch = CHR ''X'' then upd buffer i 0x000000
           else if ch = CHR ''.'' then upd buffer i 0xFFFFFF
           else Some buffer })"
      unfolding px[OF \<open>col < 16\<close>] bind.simps
      by (intro paints_if_length paints_if paints_Some upd_paints)
  qed
  then show "paints n (\<lambda>buffer. do {
       py \<leftarrow> uadd my row;
       row_offset \<leftarrow> umul py stride;
       for_each (enumerate 0 line) (\<lambda>(col, ch) buffer.
         do {
           px \<leftarrow> uadd mx col;
           i \<leftarrow> uadd row_offset px;
           if length buffer \<le> i then Some buffer
           else if ch = CHR ''X'' then upd buffer i 0x000000
           else if ch = CHR ''.'' then upd buffer i 0xFFFFFF
           else Some buffer
         }) buffer })"
    unfolding py bind.simps .
qed

text \<open>A font whose glyphs have eight rows.\<close>

lemma draw_char_paints:
  assumes font: "\<forall>c g. font c = Some g \<longrightarrow> length g = 8" and "small_box stride x y 0 0"
  shows "paints n (draw_char font stride x y c color)"
proof (cases "font c")
  case None
  then show ?thesis by (simp add: draw_char_def paints_def)
next
  case (Some g)
  have m: "x \<le> 2 ^ 30" "y \<le> 2 ^ 30" "stride \<le> 2 ^ 30" using assms(2) by (simp_all add: small_box_def)
  have "paints n (for_each (enumerate 0 g) (\<lambda>(row, b) buffer.
            do {
              py \<leftarrow> uadd y row;
              row_offset \<leftarrow> umul py stride;
              for_range 8 (\<lambda>col buffer.
                if b AND push_bit col 1 \<noteq> 0 then
                  do { px \<leftarrow> uadd x col; i \<leftarrow> uadd row_offset px; paint color i buffer }
                else Some buffer) buffer
            }))"
  proof (rule paints_for_each, clarify)
    fix row b assume "(row, b) \<in> set (enumerate 0 g)"
    then have row: "row < 8" using font Some by (simp add: in_set_enumerate_eq)
    have py: "uadd y row = Some (y + row)" "umul (y + row) stride = Some ((y + row) * stride)"
      and px: "col < 8 \<Longrightarrow> uadd x col = Some (x + col)"
        "col < 8 \<Longrightarrow> uadd ((y + row) * stride) (x + col) = Some ((y + row) * stride + (x + col))" for col
      using small_pixel[of y 8 x 8 stride row 0] small_pixel[of y 8 x 8 stride row col] row m by simp_all
    show "paints n (\<lambda>buffer. do {
              py \<leftarrow> uadd y row;
              row_offset \<leftarrow> umul py stride;
              for_range 8 (\<lambda>col buffer.
                if b AND push_bit col 1 \<noteq> 0 then
                  do { px \<leftarrow> uadd x col; i \<leftarrow> uadd row_offset px; paint color i buffer }
                else Some buffer) buffer })"
      unfolding py bind.simps
      by (intro paints_for_from paints_if paints_Some) (simp add: px paint_paints)
  qed
  then show ?thesis unfolding draw_char_def Some option.case .
qed

lemma draw_string_paints:
  assumes "\<forall>c g. font c = Some g \<longrightarrow> length g = 8"
  shows "small_box stride x y (8 * length chars) 0 \<Longrightarrow> paints n (draw_string font stride x y chars color)"
proof (induction chars arbitrary: x)
  case (Cons c chars)
  have x8: "uadd x 8 = Some (x + 8)" using Cons.prems by (simp add: small_box_def checked usize_bound_def)
  have "paints n (draw_char font stride x y c color)"
    by (rule draw_char_paints[OF assms]) (use Cons.prems in \<open>simp add: small_box_def\<close>)
  moreover have "paints n (draw_string font stride (x + 8) y chars color)"
    by (rule Cons.IH) (use Cons.prems in \<open>simp add: small_box_def\<close>)
  ultimately have "paints n (\<lambda>b. draw_char font stride x y c color b \<bind> draw_string font stride (x + 8) y chars color)"
    by (rule paints_bind)
  then show ?case by (simp add: x8 paints_def)
qed (simp add: paints_def)

lemma draw_filled_circle_paints:
  assumes "small_box stride cx cy (2 * r + 1) (2 * r + 1)" "r \<le> 2 ^ 20"
  shows "paints n (draw_filled_circle stride cx cy r color)"
proof -
  have m: "cx + (2 * r + 1) \<le> 2 ^ 30" "cy + (2 * r + 1) \<le> 2 ^ 30" "stride \<le> 2 ^ 30"
    using assms by (simp_all add: small_box_def)
  have r: "umul r r = Some (r * r)" "umul r 2 = Some (r * 2)"
    using mult_le_mono[OF assms(2) assms(2)] assms(2) by (simp_all add: checked usize_bound_def)
  have "paints n (signed_pixels stride cx cy r (r * 2 + 1) (r * 2 + 1) (\<lambda>dx dy px py i buffer.
         if length buffer \<le> i then Some buffer
         else do {
           dist_x \<leftarrow> isize_ok (as_isize r - as_isize dx);
           dist_y \<leftarrow> isize_ok (as_isize r - as_isize dy);
           x_sq \<leftarrow> isize_ok (dist_x * dist_x);
           y_sq \<leftarrow> isize_ok (dist_y * dist_y);
           dist_sq \<leftarrow> isize_ok (x_sq + y_sq);
           if dist_sq \<le> as_isize (r * r) then upd buffer i color else Some buffer
         }))"
  proof (rule signed_pixels_paints)
    fix dx dy i and px py :: int
    assume d: "dx < r * 2 + 1" "dy < r * 2 + 1"
    let ?a = "int r - int dx" and ?b = "int r - int dy"
    have ab: "\<bar>?a\<bar> \<le> 2 ^ 20" "\<bar>?b\<bar> \<le> 2 ^ 20" using d assms(2) by simp_all
    have dist: "isize_ok (as_isize r - as_isize dx) = Some ?a" "isize_ok (as_isize r - as_isize dy) = Some ?b"
      using ab d assms(2) by (simp_all add: as_isize_small isize_small)
    show "paints n (\<lambda>buffer. if length buffer \<le> i then Some buffer
         else do {
           dist_x \<leftarrow> isize_ok (as_isize r - as_isize dx);
           dist_y \<leftarrow> isize_ok (as_isize r - as_isize dy);
           x_sq \<leftarrow> isize_ok (dist_x * dist_x);
           y_sq \<leftarrow> isize_ok (dist_y * dist_y);
           dist_sq \<leftarrow> isize_ok (x_sq + y_sq);
           if dist_sq \<le> as_isize (r * r) then upd buffer i color else Some buffer
         })"
      unfolding dist isize_squares[OF ab] bind.simps by (intro paints_if_length paints_if paints_Some upd_paints)
  qed (use m assms(2) in auto)
  then show ?thesis unfolding draw_filled_circle_def r bind.simps .
qed

subsection \<open>The cursor\<close>

lemma for_each_cong:
  "(\<And>x s. x \<in> set xs \<Longrightarrow> f x s = g x s) \<Longrightarrow> for_each xs f s = for_each xs g s"
proof (induction xs arbitrary: s)
  case (Cons x xs)
  then show ?case by (cases "g x s") simp_all
qed simp

lemma for_each_append: "for_each (xs @ ys) f s = for_each xs f s \<bind> for_each ys f"
proof (induction xs arbitrary: s)
  case (Cons x xs)
  then show ?case by (cases "f x s") simp_all
qed simp

lemma for_each_map: "for_each (map h xs) f s = for_each xs (\<lambda>x. f (h x)) s"
proof (induction xs arbitrary: s)
  case (Cons x xs)
  then show ?case by (cases "f (h x) s") simp_all
qed simp

lemma for_each_nested:
  "for_each xs (\<lambda>x. for_each (g x) (f x)) s =
     for_each (concat (map (\<lambda>x. map (Pair x) (g x)) xs)) (\<lambda>(x, y). f x y) s"
proof (induction xs arbitrary: s)
  case (Cons x xs)
  then show ?case by (cases "for_each (g x) (f x) s") (simp_all add: for_each_append for_each_map)
qed simp

text \<open>A loop whose steps write, or skip, distinct cells of the buffer.\<close>

lemma for_each_writes:
  assumes "\<And>x b. x \<in> set xs \<Longrightarrow> length b = n \<Longrightarrow>
      f x b = Some (case v x of Some c \<Rightarrow> b[k x := c] | None \<Rightarrow> b)"
    and "inj_on k (set xs)" and "length b = n"
  shows "\<exists>b'. for_each xs f b = Some b' \<and> length b' = n \<and>
    (\<forall>x\<in>set xs. k x < n \<longrightarrow> b' ! k x = (case v x of Some c \<Rightarrow> c | None \<Rightarrow> b ! k x)) \<and>
    (\<forall>j<n. j \<notin> k ` set xs \<longrightarrow> b' ! j = b ! j)"
  using assms
proof (induction xs arbitrary: b)
  case (Cons x xs)
  let ?b = "case v x of Some c \<Rightarrow> b[k x := c] | None \<Rightarrow> b"
  have step: "f x b = Some ?b" and n: "length ?b = n"
    using Cons.prems by (auto split: option.splits)
  obtain b' where b': "for_each xs f ?b = Some b'" "length b' = n"
    and hit: "\<forall>y\<in>set xs. k y < n \<longrightarrow> b' ! k y = (case v y of Some c \<Rightarrow> c | None \<Rightarrow> ?b ! k y)"
    and miss: "\<forall>j<n. j \<notin> k ` set xs \<longrightarrow> b' ! j = ?b ! j"
    using Cons.IH[of ?b] Cons.prems n by auto
  have other: "?b ! j = b ! j" if "j \<noteq> k x" for j
    using that by (auto split: option.splits)
  have "b' ! k y = (case v y of Some c \<Rightarrow> c | None \<Rightarrow> b ! k y)" if y: "y \<in> set (x # xs)" "k y < n" for y
  proof (cases "y \<in> set xs")
    case True
    show ?thesis
    proof (cases "y = x")
      case False
      then have "k y \<noteq> k x" using inj_onD[OF Cons.prems(2), of y x] True by auto
      with hit True y(2) other show ?thesis by (auto split: option.splits)
    qed (use hit True y(2) in \<open>auto split: option.splits\<close>)
  next
    case False
    with y have "y = x" by simp
    then have "k y \<notin> k ` set xs" using False Cons.prems(2) by (auto dest: inj_onD)
    with miss y(2) \<open>y = x\<close> Cons.prems(3) show ?thesis by (auto split: option.splits)
  qed
  moreover have "b' ! j = b ! j" if "j < n" "j \<notin> k ` set (x # xs)" for j
    using miss that other by auto
  ultimately show ?case using step b' by auto
qed simp

definition cursor_ink :: "char \<Rightarrow> u32 option" where
  "cursor_ink ch = (if ch = CHR ''X'' then Some 0x000000 else if ch = CHR ''.'' then Some 0xFFFFFF else None)"

definition cursor_cells :: "((nat \<times> string) \<times> nat \<times> char) list" where
  "cursor_cells = concat (map (\<lambda>row. map (Pair row) (enumerate 0 (snd row))) (enumerate 0 cursor_mask))"

lemma length_cursor_mask [simp]: "length cursor_mask = 16"
  by (simp add: cursor_mask_def)

lemma cursor_mask_line: "row < 16 \<Longrightarrow> length (cursor_mask ! row) = 16"
  by (auto simp: cursor_mask_def less_Suc_eq numeral_eq_Suc)

lemma cursor_cells_iff:
  "((row, line), (col, ch)) \<in> set cursor_cells \<longleftrightarrow>
     row < 16 \<and> col < 16 \<and> line = cursor_mask ! row \<and> ch = line ! col"
  using cursor_mask_line by (fastforce simp: cursor_cells_def in_set_enumerate_eq)

lemma cell_inj:
  fixes stride :: nat
  assumes "16 \<le> stride" "c < 16" "c' < 16" and "(y + r) * stride + (x + c) = (y + r') * stride + (x + c')"
  shows "r = r' \<and> c = c'"
proof -
  have "r * stride + c = r' * stride + c'" using assms(4) by (simp add: distrib_right)
  then have "(r * stride + c) div stride = (r' * stride + c') div stride"
    "(r * stride + c) mod stride = (r' * stride + c') mod stride" by simp_all
  with assms(1-3) show ?thesis by simp
qed

text \<open>One cell of the cursor, its sums, and the drawing as one loop over all cells.\<close>

definition cursor_cell :: "nat \<Rightarrow> nat \<Rightarrow> nat \<Rightarrow> nat \<times> string \<Rightarrow> nat \<times> char \<Rightarrow> u32 list \<Rightarrow> u32 list option" where
  "cursor_cell stride mx my = (\<lambda>(row, line) (col, ch) buffer.
     do {
       px \<leftarrow> uadd mx col;
       i \<leftarrow> uadd ((my + row) * stride) px;
       if length buffer \<le> i then Some buffer
       else if ch = CHR ''X'' then upd buffer i 0x000000
       else if ch = CHR ''.'' then upd buffer i 0xFFFFFF
       else Some buffer
     })"

lemma cursor_sums:
  assumes "small_box stride mx my 16 16" and "row < 16" "col < 16"
  shows "uadd my row = Some (my + row)" "umul (my + row) stride = Some ((my + row) * stride)"
    "uadd mx col = Some (mx + col)" "uadd ((my + row) * stride) (mx + col) = Some ((my + row) * stride + (mx + col))"
  using small_pixel[of my 16 mx 16 stride row col] assms by (simp_all add: small_box_def)

lemma draw_mouse_cursor_cells:
  assumes small: "small_box stride mx my 16 16"
  shows "draw_mouse_cursor stride mx my b = for_each cursor_cells (\<lambda>(x, y). cursor_cell stride mx my x y) b"
proof -
  have "draw_mouse_cursor stride mx my b =
      for_each (enumerate 0 cursor_mask) (\<lambda>row. for_each (enumerate 0 (snd row)) (cursor_cell stride mx my row)) b"
    unfolding draw_mouse_cursor_def
  proof (rule for_each_cong)
    fix x s assume x: "x \<in> set (enumerate 0 cursor_mask)"
    obtain row line where xs: "x = (row, line)" by (cases x)
    with x have "row < 16" by (simp add: in_set_enumerate_eq)
    with xs cursor_sums[OF small, of row 0] show "(case x of (row, line) \<Rightarrow> \<lambda>buffer. do {
       py \<leftarrow> uadd my row;
       row_offset \<leftarrow> umul py stride;
       for_each (enumerate 0 line) (\<lambda>(col, ch) buffer.
         do {
           px \<leftarrow> uadd mx col;
           i \<leftarrow> uadd row_offset px;
           if length buffer \<le> i then Some buffer
           else if ch = CHR ''X'' then upd buffer i 0x000000
           else if ch = CHR ''.'' then upd buffer i 0xFFFFFF
           else Some buffer
         }) buffer }) s = for_each (enumerate 0 (snd x)) (cursor_cell stride mx my x) s"
      by (simp add: cursor_cell_def)
  qed
  also have "\<dots> = for_each cursor_cells (\<lambda>(x, y). cursor_cell stride mx my x y) b"
    unfolding cursor_cells_def by (rule for_each_nested)
  finally show ?thesis .
qed

lemma draw_mouse_cursor_spec:
  assumes small: "small_box stride mx my 16 16" and stride: "16 \<le> stride" and n: "length b = n"
  shows "\<exists>b'. draw_mouse_cursor stride mx my b = Some b' \<and> length b' = n \<and>
    (\<forall>row<16. \<forall>col<16. (my + row) * stride + (mx + col) < n \<longrightarrow>
       b' ! ((my + row) * stride + (mx + col)) =
         (case cursor_ink (cursor_mask ! row ! col) of
            Some c \<Rightarrow> c | None \<Rightarrow> b ! ((my + row) * stride + (mx + col))))"
proof -
  let ?k = "\<lambda>((row, line :: string), (col, ch :: char)). (my + row) * stride + (mx + col)"
  let ?v = "\<lambda>((row :: nat, line :: string), (col :: nat, ch)). cursor_ink ch"
  have "\<exists>b'. for_each cursor_cells (\<lambda>(x, y). cursor_cell stride mx my x y) b = Some b' \<and> length b' = n \<and>
    (\<forall>x\<in>set cursor_cells. ?k x < n \<longrightarrow> b' ! ?k x = (case ?v x of Some c \<Rightarrow> c | None \<Rightarrow> b ! ?k x)) \<and>
    (\<forall>j<n. j \<notin> ?k ` set cursor_cells \<longrightarrow> b' ! j = b ! j)"
  proof (rule for_each_writes)
    fix x :: "(nat \<times> string) \<times> nat \<times> char" and b1 :: "u32 list"
    assume x: "x \<in> set cursor_cells" and b1: "length b1 = n"
    obtain row line col ch where xs: "x = ((row, line), (col, ch))" by (metis prod.exhaust)
    with x have "row < 16" "col < 16" by (simp_all add: cursor_cells_iff)
    with xs cursor_sums[OF small, of row col] show "(\<lambda>(x, y). cursor_cell stride mx my x y) x b1 =
        Some (case ?v x of Some c \<Rightarrow> b1[?k x := c] | None \<Rightarrow> b1)"
      by (simp add: cursor_cell_def cursor_ink_def checked list_update_beyond)
  next
    show "inj_on ?k (set cursor_cells)"
    proof (rule inj_onI)
      fix x y assume xy: "x \<in> set cursor_cells" "y \<in> set cursor_cells" "?k x = ?k y"
      obtain r l c h r' l' c' h' where e: "x = ((r, l), (c, h))" "y = ((r', l'), (c', h'))"
        by (metis prod.exhaust)
      with xy cell_inj[OF stride, of c c' my r mx r'] show "x = y" by (auto simp: cursor_cells_iff)
    qed
  qed (rule n)
  then obtain b' where b': "for_each cursor_cells (\<lambda>(x, y). cursor_cell stride mx my x y) b = Some b'" "length b' = n"
    and hit: "\<forall>x\<in>set cursor_cells. ?k x < n \<longrightarrow> b' ! ?k x = (case ?v x of Some c \<Rightarrow> c | None \<Rightarrow> b ! ?k x)"
    by blast
  have "b' ! ((my + row) * stride + (mx + col)) = (case cursor_ink (cursor_mask ! row ! col) of
      Some c \<Rightarrow> c | None \<Rightarrow> b ! ((my + row) * stride + (mx + col)))"
    if "row < 16" "col < 16" "(my + row) * stride + (mx + col) < n" for row col
    using bspec[OF hit, of "((row, cursor_mask ! row), (col, cursor_mask ! row ! col))"] that
    by (cases "cursor_ink (cursor_mask ! row ! col)") (simp_all add: cursor_cells_iff)
  with b' draw_mouse_cursor_cells[OF small] show ?thesis by auto
qed

subsection \<open>The shadow\<close>

lemma blend_pixel_elsewhere:
  "blend_pixel i color alpha b = Some b' \<Longrightarrow> j \<noteq> i \<Longrightarrow> b' ! j = b ! j"
  by (auto simp: blend_pixel_def checked Let_def bind_eq_Some_conv split: if_splits)

text \<open>A pixel in the columns or in the rows of a window.\<close>

definition beside :: "nat \<Rightarrow> nat \<Rightarrow> nat \<Rightarrow> nat \<Rightarrow> nat \<Rightarrow> nat \<Rightarrow> bool" where
  "beside wx wy ww wh px py \<longleftrightarrow> wx \<le> px \<and> px < wx + ww \<or> wy \<le> py \<and> py < wy + wh"

lemma edge_dist_inside:
  assumes "lo + len \<le> 2 ^ 30" "s \<le> 2 ^ 20" "int lo \<le> p" "p < int (lo + len)"
  shows "edge_dist s lo len p = Some (int s)"
  using assms by (simp add: edge_dist_def as_isize_small checked usize_bound_def)

lemma edge_dist_near:
  assumes "lo + len \<le> 2 ^ 30" "s \<le> 2 ^ 20" "int lo - int s \<le> p" "p < int (lo + len + s)"
  shows "\<exists>d. edge_dist s lo len p = Some d \<and> d \<le> int s"
  using assms by (auto simp: edge_dist_def as_isize_small isize_small checked usize_bound_def)

lemma shadow_cell_beside:
  assumes small: "small_box stride wx wy ww wh" "s \<le> 2 ^ 20" "wx + ww + s \<le> stride"
    and p: "0 \<le> px" "0 \<le> py"
    and range: "int wx - int s \<le> px" "px < int (wx + ww + s)" "int wy - int s \<le> py" "py < int (wy + wh + s)"
  shows "keeps (\<lambda>b. length b = n \<and> (\<forall>j<n. beside wx wy ww wh (j mod stride) (j div stride) \<longrightarrow> b ! j = b0 ! j))
    (\<lambda>buffer. if length buffer \<le> nat py * stride + nat px then Some buffer
       else do {
         under \<leftarrow> under_window wx wy ww wh px py;
         if under then Some buffer
         else do {
           dist_x \<leftarrow> edge_dist s wx ww px;
           dist_y \<leftarrow> edge_dist s wy wh py;
           let edge = max dist_x dist_y;
           if f32 (of_int edge) < f32 (of_nat s)
           then blend_pixel (nat py * stride + nat px) 0x000000 (shadow_alpha edge s) buffer
           else Some buffer
         }
       })" (is "keeps ?P ?cell")
proof -
  have box: "wx + ww \<le> 2 ^ 30" "wy + wh \<le> 2 ^ 30" using small by (auto simp: small_box_def)
  have sums: "uadd wx ww = Some (wx + ww)" "uadd wy wh = Some (wy + wh)"
    using box by (simp_all add: checked usize_bound_def)
  let ?i = "nat py * stride + nat px"
  obtain a b where e: "edge_dist s wx ww px = Some a" "a \<le> int s" "edge_dist s wy wh py = Some b" "b \<le> int s"
    using edge_dist_near[OF box(1) small(2) range(1,2)] edge_dist_near[OF box(2) small(2) range(3,4)] by auto
  obtain u where u: "under_window wx wy ww wh px py = Some u"
    using that by (cases "under_window wx wy ww wh px py") (auto simp: under_window_def sums split: if_splits)
  have px: "nat px < stride" using range(2) small(3) p(1) by simp
  then have i: "?i mod stride = nat px" "?i div stride = nat py" by simp_all
  have edge: "max a b = int s" if "beside wx wy ww wh (nat px) (nat py)"
  proof -
    have "a = int s \<or> b = int s"
      using that p e edge_dist_inside[OF box(1) small(2), of px] edge_dist_inside[OF box(2) small(2), of py]
      by (auto simp: beside_def nat_less_iff le_nat_iff)
    with e show ?thesis by auto
  qed
  show "keeps ?P ?cell"
  proof (cases "beside wx wy ww wh (nat px) (nat py)")
    case True
    from edge[OF True] show ?thesis unfolding u e(1,3) bind.simps Let_def by (simp add: keeps_def)
  next
    case False
    have "\<exists>b'. blend_pixel ?i 0 alpha b = Some b' \<and> ?P b'" if "?P b" for alpha b
    proof -
      obtain b' where b': "blend_pixel ?i 0 alpha b = Some b'" "length b' = n"
        using blend_pixel_paints[of n ?i 0 alpha] \<open>?P b\<close> by (auto simp: paints_def)
      have "b' ! j = b ! j" if "beside wx wy ww wh (j mod stride) (j div stride)" for j
        using blend_pixel_elsewhere[OF b'(1), of j] that False by (metis i)
      with b' \<open>?P b\<close> show ?thesis by auto
    qed
    then show ?thesis unfolding u e(1,3) bind.simps Let_def by (simp add: keeps_def)
  qed
qed

lemma draw_shadow_beside:
  assumes small: "small_box stride wx wy ww wh" "s \<le> 2 ^ 20" "wx + ww + s \<le> stride"
  shows "keeps (\<lambda>b. length b = n \<and> (\<forall>j<n. beside wx wy ww wh (j mod stride) (j div stride) \<longrightarrow> b ! j = b0 ! j))
    (draw_shadow stride wx wy ww wh s)" (is "keeps ?P _")
proof -
  have box: "wx + ww \<le> 2 ^ 30" "wy + wh \<le> 2 ^ 30" "stride \<le> 2 ^ 30" using small by (auto simp: small_box_def)
  have both: "umul s 2 = Some (s * 2)" "uadd wh (s * 2) = Some (wh + s * 2)" "uadd ww (s * 2) = Some (ww + s * 2)"
    using box small(2) by (simp_all add: checked usize_bound_def)
  have "keeps ?P (signed_pixels stride wx wy s (ww + s * 2) (wh + s * 2) (\<lambda>dx dy px py i buffer.
         if length buffer \<le> i then Some buffer
         else do {
           under \<leftarrow> under_window wx wy ww wh px py;
           if under then Some buffer
           else do {
             dist_x \<leftarrow> edge_dist s wx ww px;
             dist_y \<leftarrow> edge_dist s wy wh py;
             let edge = max dist_x dist_y;
             if f32 (of_int edge) < f32 (of_nat s)
             then blend_pixel i 0x000000 (shadow_alpha edge s) buffer
             else Some buffer
           }
         }))"
  proof (rule signed_pixels_keeps)
    fix dx dy and px py :: int
    assume d: "dx < ww + s * 2" "dy < wh + s * 2" and p: "px = int wx - int s + int dx"
      "py = int wy - int s + int dy" "0 \<le> px" "0 \<le> py"
    have range: "int wx - int s \<le> px" "px < int (wx + ww + s)" "int wy - int s \<le> py" "py < int (wy + wh + s)"
      using p d by simp_all
    show "keeps ?P (\<lambda>buffer. if length buffer \<le> (nat py * stride + nat px) then Some buffer
       else do {
         under \<leftarrow> under_window wx wy ww wh px py;
         if under then Some buffer
         else do {
           dist_x \<leftarrow> edge_dist s wx ww px;
           dist_y \<leftarrow> edge_dist s wy wh py;
           let edge = max dist_x dist_y;
           if f32 (of_int edge) < f32 (of_nat s)
           then blend_pixel (nat py * stride + nat px) 0x000000 (shadow_alpha edge s) buffer
           else Some buffer
         }
       })"
      by (rule shadow_cell_beside[OF small p(3,4) range])
  qed (use box small(2) in auto)
  then show ?thesis unfolding draw_shadow_def both bind.simps .
qed

subsection \<open>Properties\<close>



end
