(* ===== verification/Layout.thy ===== *)
theory Layout
  imports Prelude
begin

text \<open>
  \<open>kernel/src/gui/layout.rs\<close>: the tiling window layout. The window list and its geometry, with
  every subtraction that panics when the screen is too small or the windows are too many. The
  lemmas give the geometry in closed form; the properties say when the computation panics, and
  that otherwise the windows tile the work area: inside it, ten pixels apart from each other and
  above the dock.
\<close>

subsection \<open>State and operations\<close>

record window_info =
  win_id :: u64
  win_x :: nat
  win_y :: nat
  win_w :: nat
  win_h :: nat

record layout_manager =
  screen_w :: nat
  screen_h :: nat
  dock_h :: nat
  windows :: "window_info list"

definition layout_new :: "nat \<Rightarrow> nat \<Rightarrow> layout_manager" where
  "layout_new sw sh = \<lparr>screen_w = sw, screen_h = sh, dock_h = 60, windows = []\<rparr>"

definition set_geometry ::
  "nat \<Rightarrow> nat \<Rightarrow> nat \<Rightarrow> nat \<Rightarrow> nat \<Rightarrow> window_info list \<Rightarrow> window_info list option" where
  "set_geometry i x y w h ws =
     do {
       win \<leftarrow> idx ws i;
       upd ws i (win\<lparr>win_x := x, win_y := y, win_w := w, win_h := h\<rparr>)
     }"

definition gaps :: nat where
  "gaps = 10"

text \<open>The branches of \<open>recalculate\<close> for one window and for several.\<close>

definition recalculate_one :: "nat \<Rightarrow> layout_manager \<Rightarrow> layout_manager option" where
  "recalculate_one usable_h m =
     do {
       w \<leftarrow> usub (screen_w m) (gaps * 2);
       h \<leftarrow> usub usable_h (gaps * 2);
       ws \<leftarrow> set_geometry 0 gaps gaps w h (windows m);
       Some (m\<lparr>windows := ws\<rparr>)
     }"

definition recalculate_stack :: "nat \<Rightarrow> layout_manager \<Rightarrow> layout_manager option" where
  "recalculate_stack usable_h m =
     do {
       let n = length (windows m);
       a \<leftarrow> usub (screen_w m div 2) gaps;
       master_w \<leftarrow> usub a (gaps div 2);
       master_h \<leftarrow> usub usable_h (gaps * 2);
       ws \<leftarrow> set_geometry 0 gaps gaps master_w master_h (windows m);
       stack_x \<leftarrow> uadd (screen_w m div 2) (gaps div 2);
       b \<leftarrow> usub (screen_w m div 2) gaps;
       stack_w \<leftarrow> usub b (gaps div 2);
       stack_count \<leftarrow> usub n 1;
       inner \<leftarrow> usub stack_count 1;
       total_gaps_height \<leftarrow> umul inner gaps;
       c \<leftarrow> usub usable_h (gaps * 2);
       total_usable_stack_h \<leftarrow> usub c total_gaps_height;
       cell_h \<leftarrow> udiv total_usable_stack_h stack_count;
       ws \<leftarrow> for_from 1 (n - 1) (\<lambda>i ws.
         do {
           above \<leftarrow> usub i 1;
           step \<leftarrow> uadd cell_h gaps;
           off \<leftarrow> umul above step;
           y \<leftarrow> uadd gaps off;
           set_geometry i stack_x y stack_w cell_h ws
         }) ws;
       Some (m\<lparr>windows := ws\<rparr>)
     }"

definition recalculate :: "layout_manager \<Rightarrow> layout_manager option" where
  "recalculate m =
     (let n = length (windows m) in
      if n = 0 then Some m
      else do {
        usable_h \<leftarrow> usub (screen_h m) (dock_h m);
        if n = 1 then recalculate_one usable_h m else recalculate_stack usable_h m
      })"

definition add_window :: "u64 \<Rightarrow> layout_manager \<Rightarrow> layout_manager option" where
  "add_window wid m =
     (if \<not> list_ex (\<lambda>w. win_id w = wid) (windows m)
      then recalculate (m\<lparr>windows := windows m @
        [\<lparr>win_id = wid, win_x = 0, win_y = 0, win_w = 0, win_h = 0\<rparr>]\<rparr>)
      else Some m)"

text \<open>\<open>position\<close> and \<open>remove\<close>: the first window with the id goes, the later ones move up.\<close>

fun remove_id :: "u64 \<Rightarrow> window_info list \<Rightarrow> window_info list" where
  "remove_id wid [] = []"
| "remove_id wid (w # ws) = (if win_id w = wid then ws else w # remove_id wid ws)"

definition remove_window :: "u64 \<Rightarrow> layout_manager \<Rightarrow> layout_manager option" where
  "remove_window wid m =
     (if list_ex (\<lambda>w. win_id w = wid) (windows m)
      then recalculate (m\<lparr>windows := remove_id wid (windows m)\<rparr>)
      else Some m)"

definition get_dock_rect :: "layout_manager \<Rightarrow> (nat \<times> nat \<times> nat \<times> nat) option" where
  "get_dock_rect m =
     do {
       room \<leftarrow> usub (screen_w m) 40;
       let dw = min 450 room;
       rest \<leftarrow> usub (screen_w m) dw;
       let dx = rest div 2;
       a \<leftarrow> usub (screen_h m) (dock_h m);
       dy \<leftarrow> uadd a 10;
       dh \<leftarrow> usub (dock_h m) 20;
       Some (dx, dy, dw, dh)
     }"

subsection \<open>The geometry in closed form\<close>

definition cell_height :: "nat \<Rightarrow> nat \<Rightarrow> nat" where
  "cell_height usable_h n = (usable_h - 20 - (n - 2) * 10) div (n - 1)"

definition placed :: "nat \<Rightarrow> nat \<Rightarrow> nat \<Rightarrow> nat \<Rightarrow> window_info \<Rightarrow> window_info" where
  "placed sw usable_h n i w =
     (if n = 1 then w\<lparr>win_x := 10, win_y := 10, win_w := sw - 20, win_h := usable_h - 20\<rparr>
      else if i = 0 then
        w\<lparr>win_x := 10, win_y := 10, win_w := sw div 2 - 15, win_h := usable_h - 20\<rparr>
      else w\<lparr>win_x := sw div 2 + 5, win_y := 10 + (i - 1) * (cell_height usable_h n + 10),
             win_w := sw div 2 - 15, win_h := cell_height usable_h n\<rparr>)"

text \<open>When the screen has room for \<open>n\<close> windows.\<close>

definition room_for :: "nat \<Rightarrow> layout_manager \<Rightarrow> bool" where
  "room_for n m \<longleftrightarrow> n = 0 \<or>
     dock_h m \<le> screen_h m \<and> 20 \<le> screen_h m - dock_h m \<and>
     (if n = 1 then 20 \<le> screen_w m
      else 15 \<le> screen_w m div 2 \<and> (n - 2) * 10 \<le> screen_h m - dock_h m - 20)"

text \<open>Screens within the address space, so that no sum overflows.\<close>

definition screen_ok :: "layout_manager \<Rightarrow> bool" where
  "screen_ok m \<longleftrightarrow> screen_w m + 64 < usize_bound \<and> screen_h m + 64 < usize_bound \<and>
     length (windows m) * 10 < usize_bound"

lemma stack_bottom:
  fixes i n u :: nat
  assumes "1 \<le> i" and "i < n" and "(n - 2) * 10 \<le> u"
  shows "(i - 1) * ((u - (n - 2) * 10) div (n - 1) + 10) + (u - (n - 2) * 10) div (n - 1) \<le> u"
proof -
  let ?c = "(u - (n - 2) * 10) div (n - 1)"
  have "(i - 1) * (?c + 10) + ?c = i * ?c + (i - 1) * 10"
    using assms(1) by (cases i) (simp_all add: algebra_simps)
  also have "\<dots> \<le> (n - 1) * ?c + (n - 2) * 10"
    using assms(2) by (intro add_mono mult_right_mono) auto
  also have "\<dots> \<le> (u - (n - 2) * 10) + (n - 2) * 10" by (simp add: times_div_less_eq_dividend)
  also have "\<dots> = u" using assms(3) by simp
  finally show ?thesis .
qed

text \<open>The loop over the stack, once the master window is placed.\<close>

lemma stack_loop:
  fixes ws :: "window_info list"
  assumes n: "n = length ws" "2 \<le> n" and ok: "u + 64 < usize_bound" and room: "(n - 2) * 10 \<le> u - 20"
    and cell: "cell = cell_height u n"
  shows "for_from 1 (n - 1) (\<lambda>i ws.
         do {
           above \<leftarrow> usub i 1;
           step \<leftarrow> uadd cell gaps;
           off \<leftarrow> umul above step;
           y \<leftarrow> uadd gaps off;
           set_geometry i (sw div 2 + 5) y (sw div 2 - 15) cell ws
         }) (ws[0 := placed sw u n 0 (ws ! 0)]) =
    Some (map (\<lambda>i. placed sw u n i (ws ! i)) [0..<n])" (is "for_from 1 _ ?f ?ws0 = Some ?r")
proof -
  let ?P = "\<lambda>j xs. length xs = n \<and> (\<forall>i<n. xs ! i = (if i < j then placed sw u n i (ws ! i) else ws ! i))"
  have "\<exists>s'. for_from 1 (n - 1) ?f ?ws0 = Some s' \<and> ?P (1 + (n - 1)) s'"
  proof (rule for_from_inv[where P = ?P])
    show "?P 1 ?ws0" using n by (auto simp: nth_list_update)
  next
    fix j xs assume j: "1 \<le> j" "j < 1 + (n - 1)" and P: "?P j xs"
    have "(j - 1) * (cell + 10) + cell \<le> u - 20"
      using stack_bottom[of j n "u - 20"] j room n(2) by (simp add: cell cell_height_def)
    then have b: "(j - 1) * (cell + 10) + 10 < usize_bound" "cell + 10 < usize_bound"
      "(j - 1) * (cell + 10) < usize_bound"
      using ok by linarith+
    have "?f j xs = Some (xs[j := placed sw u n j (ws ! j)])"
      using j P b n(2) by (simp add: checked gaps_def set_geometry_def placed_def cell add.commute)
    then show "\<exists>s'. ?f j xs = Some s' \<and> ?P (Suc j) s'"
      using P j by (auto simp: nth_list_update less_Suc_eq)
  qed
  then obtain s' where s': "for_from 1 (n - 1) ?f ?ws0 = Some s'" "?P (1 + (n - 1)) s'" by blast
  then have "s' = ?r" using n(2) by (intro nth_equalityI) auto
  with s'(1) show ?thesis by simp
qed

lemma recalculate_stack_spec:
  assumes n: "length (windows m) = k + 2" and ok: "screen_ok m" and u: "u + 64 < usize_bound"
  shows "recalculate_stack u m =
    (if 15 \<le> screen_w m div 2 \<and> 20 \<le> u \<and> k * 10 \<le> u - 20
     then Some (m\<lparr>windows := map (\<lambda>i. placed (screen_w m) u (k + 2) i (windows m ! i)) [0..<k + 2]\<rparr>)
     else None)"
proof -
  let ?sw = "screen_w m" and ?ws = "windows m"
  have c: "umul k gaps = Some (k * 10)" "uadd (?sw div 2) (gaps div 2) = Some (?sw div 2 + 5)"
    "usub (k + 2) 1 = Some (k + 1)" "usub (k + 1) 1 = Some k"
    using ok n by (auto simp: screen_ok_def gaps_def umul_def uadd_def usub_def)
  have a: "(do { a \<leftarrow> usub (?sw div 2) gaps; usub a (gaps div 2) \<bind> f }) =
      (if 15 \<le> ?sw div 2 then f (?sw div 2 - 15) else None)" for f :: "nat \<Rightarrow> 'b option"
    by (auto simp: usub_def gaps_def)
  show ?thesis
  proof (cases "15 \<le> ?sw div 2 \<and> 20 \<le> u \<and> k * 10 \<le> u - 20")
    case False
    then show ?thesis
      unfolding recalculate_stack_def Let_def a n
      by (auto simp: c[unfolded gaps_def] usub_def gaps_def split: bind_splits)
  next
    case True
    have room: "(k + 2 - 2) * 10 \<le> u - 20" using True by simp
    note sl = stack_loop[OF n[symmetric] _ u room refl, of ?sw]
    have g: "set_geometry 0 gaps gaps (?sw div 2 - 15) (u - 20) ?ws =
        Some (?ws[0 := placed ?sw u (k + 2) 0 (?ws ! 0)])"
      using n by (simp add: set_geometry_def checked placed_def gaps_def)
    have ce: "udiv (u - 20 - k * 10) (k + 1) = Some (cell_height u (k + 2))"
      by (simp add: udiv_def cell_height_def)
    have u20: "usub u (gaps * 2) = Some (u - 20)" "usub (u - 20) (k * 10) = Some (u - 20 - k * 10)"
      using True by (auto simp: usub_def gaps_def)
    show ?thesis
      unfolding recalculate_stack_def Let_def a n
      by (simp only: True c g ce u20 sl bind.bind_lunit if_True simp_thms)
  qed
qed

lemma recalculate_spec:
  assumes ok: "screen_ok m" and n: "n = length (windows m)"
  shows "recalculate m =
    (if room_for n m
     then Some (m\<lparr>windows := map (\<lambda>i. placed (screen_w m) (screen_h m - dock_h m) n i (windows m ! i))
       [0..<n]\<rparr>)
     else None)"
proof -
  let ?u = "screen_h m - dock_h m" and ?sw = "screen_w m"
  have "n = 0 \<or> n = 1 \<or> n = (n - 2) + 2" by linarith
  then consider "n = 0" | "n = 1" | k where "n = k + 2" by blast
  then show ?thesis
  proof cases
    case 1
    with n show ?thesis by (simp add: recalculate_def room_for_def)
  next
    case 2
    then obtain w where w: "windows m = [w]" using n by (cases "windows m") auto
    with 2 show ?thesis
      by (simp add: recalculate_def room_for_def recalculate_one_def set_geometry_def gaps_def
          placed_def idx_def upd_def usub_def)
  next
    case (3 k)
    have "?u + 64 < usize_bound" using ok unfolding screen_ok_def by linarith
    note st = recalculate_stack_spec[OF _ ok this, of k]
    have l: "length (windows m) = k + 2" using n 3 by simp
    show ?thesis
    proof (cases "dock_h m \<le> screen_h m")
      case True
      then have "recalculate m = recalculate_stack ?u m"
        using l by (simp add: recalculate_def usub_def)
      moreover have "room_for n m \<longleftrightarrow> 15 \<le> ?sw div 2 \<and> 20 \<le> ?u \<and> k * 10 \<le> ?u - 20"
        using True 3 by (auto simp: room_for_def)
      ultimately show ?thesis using st[OF l] 3 by simp
    next
      case False
      with l 3 show ?thesis by (simp add: recalculate_def usub_def room_for_def)
    qed
  qed
qed

subsection \<open>Windows apart\<close>

text \<open>Two windows at least \<open>g\<close> pixels apart, and a window inside the work area.\<close>

definition windows_apart :: "nat \<Rightarrow> window_info \<Rightarrow> window_info \<Rightarrow> bool" where
  "windows_apart g v w \<longleftrightarrow>
     win_x v + win_w v + g \<le> win_x w \<or> win_x w + win_w w + g \<le> win_x v \<or>
     win_y v + win_h v + g \<le> win_y w \<or> win_y w + win_h w + g \<le> win_y v"

definition in_work_area :: "nat \<Rightarrow> nat \<Rightarrow> window_info \<Rightarrow> bool" where
  "in_work_area sw bottom w \<longleftrightarrow>
     10 \<le> win_x w \<and> win_x w + win_w w + 10 \<le> sw \<and> 10 \<le> win_y w \<and> win_y w + win_h w + 10 \<le> bottom"

lemma placed_id [simp]: "win_id (placed sw u n i w) = win_id w"
  by (simp add: placed_def)

lemma placed_inside:
  assumes "i < n" and "20 \<le> u"
    and "if n = 1 then 20 \<le> sw else 15 \<le> sw div 2 \<and> (n - 2) * 10 \<le> u - 20"
  shows "in_work_area sw u (placed sw u n i w)"
proof (cases "n = 1 \<or> i = 0")
  case True
  with assms show ?thesis by (auto simp: in_work_area_def placed_def split: if_splits)
next
  case False
  with assms stack_bottom[of i n "u - 20"]
  have "(i - 1) * (cell_height u n + 10) + cell_height u n \<le> u - 20"
    by (simp add: cell_height_def)
  with assms False show ?thesis by (auto simp: in_work_area_def placed_def)
qed

lemma placed_apart:
  assumes "i < j" and "j < n" and "15 \<le> sw div 2"
  shows "windows_apart 10 (placed sw u n i v) (placed sw u n j w)"
proof (cases "i = 0")
  case True
  with assms show ?thesis by (auto simp: windows_apart_def placed_def)
next
  case False
  let ?c = "cell_height u n"
  have "(i - 1) * (?c + 10) + (?c + 10) = i * (?c + 10)"
    using False by (cases i) simp_all
  also have "\<dots> \<le> (j - 1) * (?c + 10)" using assms(1) by (intro mult_right_mono) auto
  finally show ?thesis using False assms(1,2) by (simp add: windows_apart_def placed_def)
qed

lemma remove_id_ids: "map win_id (remove_id wid ws) = remove1 wid (map win_id ws)"
  by (induction ws) auto

lemma length_remove_id: "length (remove_id wid ws) \<le> length ws"
  by (induction ws) auto

lemma list_ex_ids: "list_ex (\<lambda>w. win_id w = wid) ws \<longleftrightarrow> wid \<in> set (map win_id ws)"
  by (induction ws) auto

lemma recalculate_room:
  "screen_ok m \<Longrightarrow> room_for (length (windows m)) m \<Longrightarrow> recalculate m \<noteq> None"
  by (simp add: recalculate_spec)

text \<open>\<open>recalculate\<close> changes geometry only.\<close>

lemma recalculate_ids:
  "screen_ok m \<Longrightarrow> recalculate m = Some m' \<Longrightarrow>
     map win_id (windows m') = map win_id (windows m) \<and> screen_w m' = screen_w m \<and>
     screen_h m' = screen_h m \<and> dock_h m' = dock_h m"
  by (auto simp: recalculate_spec split: if_splits intro!: nth_equalityI)

text \<open>On a screen of some width no window is narrower than the corners of its frame.\<close>

lemma recalculate_area:
  assumes "screen_ok m" "recalculate m = Some m'" "46 \<le> screen_w m" "w \<in> set (windows m')"
  shows "in_work_area (screen_w m) (screen_h m - dock_h m) w \<and> 8 \<le> win_w w"
proof -
  let ?p = "\<lambda>i. placed (screen_w m) (screen_h m - dock_h m) (length (windows m)) i (windows m ! i)"
  obtain i where i: "i < length (windows m)" "w = ?p i" and room: "room_for (length (windows m)) m"
    using assms recalculate_spec[OF assms(1) refl] by (auto split: if_splits)
  have "in_work_area (screen_w m) (screen_h m - dock_h m) (?p i)"
    using i(1) room by (intro placed_inside) (auto simp: room_for_def split: if_splits)
  moreover have "8 \<le> win_w (?p i)" using assms(3) by (auto simp: placed_def)
  ultimately show ?thesis using i(2) by simp
qed

subsection \<open>Properties\<close>

text \<open>
  C32: Whenever \<open>recalculate\<close> returns, the windows tile the work area: each lies inside it with
  a margin of ten pixels, so above the dock's strip, and any two are at least ten pixels apart;
  ids and their order are unchanged. It panics exactly when the screen has no room for the
  number of windows.
\<close>

theorem recalculate_tiles:
  assumes "screen_ok m"
  shows "(recalculate m = None \<longleftrightarrow> \<not> room_for (length (windows m)) m) \<and>
    (\<forall>m'. recalculate m = Some m' \<longrightarrow>
       map win_id (windows m') = map win_id (windows m) \<and>
       (\<forall>w\<in>set (windows m'). in_work_area (screen_w m) (screen_h m - dock_h m) w) \<and>
       (\<forall>i j. i < j \<longrightarrow> j < length (windows m') \<longrightarrow>
          windows_apart 10 (windows m' ! i) (windows m' ! j)))"
proof -
  let ?n = "length (windows m)"
  note spec = recalculate_spec[OF assms refl]
  have "in_work_area (screen_w m) (screen_h m - dock_h m)
      (placed (screen_w m) (screen_h m - dock_h m) ?n i (windows m ! i))"
    if "room_for ?n m" "i < ?n" for i
    by (rule placed_inside[OF that(2)]) (use that in \<open>auto simp: room_for_def split: if_splits\<close>)
  moreover have "windows_apart 10 (placed (screen_w m) (screen_h m - dock_h m) ?n i (windows m ! i))
      (placed (screen_w m) (screen_h m - dock_h m) ?n j (windows m ! j))"
    if "room_for ?n m" "i < j" "j < ?n" for i j
    by (rule placed_apart[OF that(2,3)]) (use that in \<open>auto simp: room_for_def split: if_splits\<close>)
  ultimately have tiles: "room_for ?n m \<Longrightarrow> recalculate m = Some m' \<Longrightarrow>
      (\<forall>w\<in>set (windows m'). in_work_area (screen_w m) (screen_h m - dock_h m) w) \<and>
      (\<forall>i j. i < j \<longrightarrow> j < length (windows m') \<longrightarrow> windows_apart 10 (windows m' ! i) (windows m' ! j))"
    for m'
    unfolding spec by fastforce
  show ?thesis
  proof (cases "room_for ?n m")
    case True
    then have "recalculate m \<noteq> None" unfolding spec by simp
    with True tiles recalculate_ids[OF assms] show ?thesis by blast
  next
    case False
    then have "recalculate m = None" unfolding spec by simp
    with False show ?thesis by simp
  qed
qed

definition demo_window :: "u64 \<Rightarrow> window_info" where
  "demo_window wid = \<lparr>win_id = wid, win_x = 0, win_y = 0, win_w = 0, win_h = 0\<rparr>"

definition demo_layout_manager :: layout_manager where
  "demo_layout_manager = (layout_new 1280 720)\<lparr>windows := map demo_window [7, 8, 9]\<rparr>"

lemma demo_screen_ok: "screen_ok demo_layout_manager"
  by (simp add: demo_layout_manager_def layout_new_def screen_ok_def usize_bound_def)

theorem recalculate_tiles_witness:
  "\<exists>m'. recalculate demo_layout_manager = Some m' \<and> map win_id (windows m') = [7, 8, 9] \<and>
     windows_apart 10 (windows m' ! 1) (windows m' ! 2)"
proof -
  note tiles = recalculate_tiles[OF demo_screen_ok]
  have "room_for (length (windows demo_layout_manager)) demo_layout_manager"
    by (simp add: demo_layout_manager_def layout_new_def room_for_def)
  with tiles obtain m' where m': "recalculate demo_layout_manager = Some m'" by blast
  with tiles have "map win_id (windows m') = [7, 8, 9]"
    by (simp add: demo_layout_manager_def demo_window_def)
  moreover from this have "length (windows m') = 3" by (metis length_map length_Cons list.size(3) numeral_3_eq_3)
  ultimately show ?thesis using tiles m' by (metis lessI numeral_2_eq_2 numeral_3_eq_3 One_nat_def)
qed

text \<open>
  \<open>add_window\<close> and \<open>remove_window\<close> maintain a list of distinct ids: adding an id already
  there changes nothing, adding a new one appends it, removing one deletes it and keeps the
  order of the others, and removing an unknown one changes nothing.
\<close>

theorem window_ids_maintained:
  assumes "screen_ok m" and "(length (windows m) + 1) * 10 < usize_bound"
    and "distinct (map win_id (windows m))"
  shows "(\<forall>m'. add_window wid m = Some m' \<longrightarrow> distinct (map win_id (windows m')) \<and>
       map win_id (windows m') = (if wid \<in> set (map win_id (windows m)) then map win_id (windows m)
         else map win_id (windows m) @ [wid])) \<and>
    (\<forall>m'. remove_window wid m = Some m' \<longrightarrow> distinct (map win_id (windows m')) \<and>
       map win_id (windows m') = filter (\<lambda>i. i \<noteq> wid) (map win_id (windows m)))"
proof -
  let ?m1 = "m\<lparr>windows := windows m @ [\<lparr>win_id = wid, win_x = 0, win_y = 0, win_w = 0, win_h = 0\<rparr>]\<rparr>"
  let ?m2 = "m\<lparr>windows := remove_id wid (windows m)\<rparr>"
  have ok: "screen_ok ?m1" "screen_ok ?m2"
    using assms(1,2) length_remove_id[of wid "windows m"] by (auto simp: screen_ok_def)
  have f: "remove1 wid (map win_id (windows m)) = filter (\<lambda>i. i \<noteq> wid) (map win_id (windows m))"
    using distinct_remove1_removeAll[OF assms(3)] by (simp add: removeAll_filter_not_eq eq_commute)
  have g: "wid \<notin> set (map win_id (windows m)) \<Longrightarrow>
      filter (\<lambda>i. i \<noteq> wid) (map win_id (windows m)) = map win_id (windows m)"
    by (rule filter_True) auto
  have add: "distinct (map win_id (windows m')) \<and>
      map win_id (windows m') = (if wid \<in> set (map win_id (windows m)) then map win_id (windows m)
        else map win_id (windows m) @ [wid])" if "add_window wid m = Some m'" for m'
  proof (cases "wid \<in> set (map win_id (windows m))")
    case True
    with that have "m' = m" by (simp add: add_window_def list_ex_ids)
    with True assms(3) show ?thesis by simp
  next
    case False
    with that have "recalculate ?m1 = Some m'" by (simp add: add_window_def list_ex_ids)
    from recalculate_ids[OF ok(1) this] False assms(3) show ?thesis by simp
  qed
  have remove: "distinct (map win_id (windows m')) \<and>
      map win_id (windows m') = filter (\<lambda>i. i \<noteq> wid) (map win_id (windows m))"
    if "remove_window wid m = Some m'" for m'
  proof (cases "wid \<in> set (map win_id (windows m))")
    case True
    with that have "recalculate ?m2 = Some m'" by (simp add: remove_window_def list_ex_ids)
    from recalculate_ids[OF ok(2) this] have "map win_id (windows m') =
        filter (\<lambda>i. i \<noteq> wid) (map win_id (windows m))"
      by (simp add: remove_id_ids f)
    with distinct_filter[OF assms(3)] show ?thesis by simp
  next
    case False
    with that have "m' = m" by (simp add: remove_window_def list_ex_ids)
    with g[OF False] assms(3) show ?thesis by simp
  qed
  from add remove show ?thesis by blast
qed

theorem window_ids_maintained_witness:
  "map_option (\<lambda>m. map win_id (windows m)) (add_window 5 demo_layout_manager) = Some [7, 8, 9, 5]"
proof -
  let ?m = "demo_layout_manager\<lparr>windows := map demo_window [7, 8, 9, 5]\<rparr>"
  have ids: "map win_id (windows demo_layout_manager) = [7, 8, 9]"
    by (simp add: demo_layout_manager_def demo_window_def)
  have "add_window 5 demo_layout_manager = recalculate ?m"
    by (simp add: add_window_def demo_layout_manager_def demo_window_def)
  also have "\<dots> \<noteq> None"
  proof -
    have "screen_ok ?m"
      by (simp add: demo_layout_manager_def layout_new_def screen_ok_def usize_bound_def)
    moreover have "length (windows ?m) = 4" by simp
    moreover have "room_for 4 ?m"
      by (simp add: demo_layout_manager_def layout_new_def room_for_def)
    ultimately show ?thesis by (metis recalculate_room)
  qed
  finally obtain m' where m': "add_window 5 demo_layout_manager = Some m'" by blast
  have "map win_id (windows m') = [7, 8, 9, 5]"
    using window_ids_maintained[OF demo_screen_ok, of 5] m' unfolding ids
    by (simp add: demo_layout_manager_def usize_bound_def)
  with m' show ?thesis by simp
qed

end
