(* ===== verification/Compositor.thy ===== *)
theory Compositor
  imports Renderer Layout Syscall
begin

text \<open>
  \<open>kernel/src/gui/compositor.rs\<close>: the desktop drawn into a back buffer and handed to the kernel.
  The state is the buffer with the bounding box of what changed since the last frame;
  \<open>composite\<close> draws every layer, \<open>blit_dirty\<close> asks the kernel to copy the box to the screen.
  The address of the buffer (\<open>as_ptr\<close>) is an argument. The lemmas show that a laid out desktop
  is drawn without a panic and that a frame shows every region marked since the last one.
\<close>

subsection \<open>State\<close>

record compositor =
  comp_w :: nat
  comp_h :: nat
  back_buffer :: "u32 list"
  dirty_x0 :: nat
  dirty_y0 :: nat
  dirty_x1 :: nat
  dirty_y1 :: nat

definition compositor_new :: "nat \<Rightarrow> nat \<Rightarrow> compositor option" where
  "compositor_new w h =
     do {
       n \<leftarrow> umul w h;
       Some \<lparr>comp_w = w, comp_h = h, back_buffer = replicate n 0,
         dirty_x0 = 0, dirty_y0 = 0, dirty_x1 = w, dirty_y1 = h\<rparr>
     }"

definition mark_dirty :: "nat \<Rightarrow> nat \<Rightarrow> nat \<Rightarrow> nat \<Rightarrow> compositor \<Rightarrow> compositor option" where
  "mark_dirty x y w h c =
     do {
       right \<leftarrow> uadd x w;
       bottom \<leftarrow> uadd y h;
       let x1 = min right (comp_w c);
       let y1 = min bottom (comp_h c);
       Some (c\<lparr>dirty_x0 := min (dirty_x0 c) x, dirty_y0 := min (dirty_y0 c) y,
         dirty_x1 := max (dirty_x1 c) x1, dirty_y1 := max (dirty_y1 c) y1\<rparr>)
     }"

subsection \<open>Layers\<close>

definition gradient_channel :: "nat \<Rightarrow> nat \<Rightarrow> nat \<Rightarrow> nat \<Rightarrow> nat option" where
  "gradient_channel start step y height =
     do { a \<leftarrow> umul step y; b \<leftarrow> udiv a height; uadd start b }"

definition gradient :: "nat \<Rightarrow> nat \<Rightarrow> u32 option" where
  "gradient y height =
     do {
       r \<leftarrow> gradient_channel 15 11 y height;
       g \<leftarrow> gradient_channel 10 17 y height;
       b \<leftarrow> gradient_channel 28 10 y height;
       Some (push_bit 16 (word_of_nat r) OR push_bit 8 (word_of_nat g) OR word_of_nat b)
     }"

definition draw_background :: "nat \<Rightarrow> nat \<Rightarrow> u32 list \<Rightarrow> u32 list option" where
  "draw_background width height = for_range height (\<lambda>y buffer.
     do {
       color \<leftarrow> gradient y height;
       row_offset \<leftarrow> umul y width;
       for_range width (\<lambda>x buffer. do { i \<leftarrow> uadd row_offset x; upd buffer i color }) buffer
     })"

definition window_title :: "u64 \<Rightarrow> string" where
  "window_title wid =
     (if wid = 1 then ''Terminal Shell''
      else if wid = 2 then ''File Manager''
      else if wid = 3 then ''System Monitor''
      else ''Application Window'')"

text \<open>The lines of the simulated client area: offset from the top, text, colour.\<close>

definition window_lines :: "u64 \<Rightarrow> (nat \<times> string \<times> u32) list" where
  "window_lines wid =
     (if wid = 1 then
        [(40, ''guest@relizos:~$ neofetch'', 0xA6E3A1),
         (60, ''OS: RelizOS x86_64'', 0xCDD6F4),
         (75, ''Kernel: relizos-rust 0.1.0'', 0xCDD6F4),
         (90, ''Uptime: 42 seconds'', 0xCDD6F4),
         (105, ''Shell: relizsh'', 0xCDD6F4),
         (120, ''Memory: 2.4 MB / 16.0 MB'', 0xCDD6F4)]
      else if wid = 2 then
        [(40, ''[DIR]  bin'', 0x89B4FA),
         (55, ''[DIR]  dev'', 0x89B4FA),
         (70, ''[DIR]  home'', 0x89B4FA),
         (85, ''[DIR]  kernel'', 0x89B4FA),
         (100, ''[FILE] README.txt'', 0xF5C2E7)]
      else if wid = 3 then
        [(40, ''CPU Usage: [|||||||||         ] 45%'', 0xF9E2AF),
         (60, ''RAM Usage: [||||||            ] 30%'', 0x89B4FA),
         (80, ''Tasks active: 5'', 0xCDD6F4)]
      else [(40, ''Tiled application view.'', 0xA6ADC8)])"

definition text_at ::
  "font \<Rightarrow> nat \<Rightarrow> nat \<Rightarrow> nat \<Rightarrow> nat \<Rightarrow> nat \<Rightarrow> string \<Rightarrow> u32 \<Rightarrow> u32 list \<Rightarrow> u32 list option" where
  "text_at font stride wx dx wy dy s color buffer =
     do {
       x \<leftarrow> uadd wx dx;
       y \<leftarrow> uadd wy dy;
       draw_string font stride x y (text_chars s) color buffer
     }"

definition control_button :: "nat \<Rightarrow> window_info \<Rightarrow> nat \<Rightarrow> u32 \<Rightarrow> u32 list \<Rightarrow> u32 list option" where
  "control_button stride w dx color buffer =
     do {
       cx \<leftarrow> uadd (win_x w) dx;
       cy \<leftarrow> uadd (win_y w) 14;
       draw_filled_circle stride cx cy 4 color buffer
     }"

definition draw_frame :: "nat \<Rightarrow> window_info \<Rightarrow> u32 list \<Rightarrow> u32 list option" where
  "draw_frame stride w buffer =
     do {
       buffer \<leftarrow> draw_shadow stride (win_x w) (win_y w) (win_w w) (win_h w) 12 buffer;
       buffer \<leftarrow> draw_rounded_rect stride (win_x w) (win_y w) (win_w w) (win_h w) 8 0x1E1E2E buffer;
       buffer \<leftarrow> draw_rounded_rect stride (win_x w) (win_y w) (win_w w) 28 8 0x181825 buffer;
       flat_y \<leftarrow> uadd (win_y w) 8;
       buffer \<leftarrow> draw_rect_buf stride (win_x w) flat_y (win_w w) 20 0x181825 buffer;
       buffer \<leftarrow> control_button stride w 16 0xFF5F56 buffer;
       buffer \<leftarrow> control_button stride w 28 0xFFBD2E buffer;
       control_button stride w 40 0x27C93F buffer
     }"

definition draw_window :: "font \<Rightarrow> nat \<Rightarrow> window_info \<Rightarrow> u32 list \<Rightarrow> u32 list option" where
  "draw_window font stride w buffer =
     do {
       buffer \<leftarrow> draw_frame stride w buffer;
       buffer \<leftarrow> text_at font stride (win_x w) 56 (win_y w) 10 (window_title (win_id w)) 0xCDD6F4 buffer;
       for_each (window_lines (win_id w)) (\<lambda>(dy, s, color).
         text_at font stride (win_x w) 15 (win_y w) dy s color) buffer
     }"

text \<open>The five shortcut icons, around the centre \<open>cx\<close>, \<open>cy\<close>.\<close>

definition square_at ::
  "nat \<Rightarrow> nat \<Rightarrow> nat \<Rightarrow> u32 \<Rightarrow> u32 list \<Rightarrow> u32 list option" where
  "square_at stride cx cy color buffer =
     do { x \<leftarrow> usub cx 12; y \<leftarrow> usub cy 12; draw_rounded_rect stride x y 24 24 4 color buffer }"

definition patch_at ::
  "nat \<Rightarrow> nat \<Rightarrow> nat \<Rightarrow> u32 \<Rightarrow> u32 list \<Rightarrow> u32 list option" where
  "patch_at stride cx cy color buffer =
     do { x \<leftarrow> usub cx 8; y \<leftarrow> usub cy 8; draw_rect_buf stride x y 16 16 color buffer }"

definition draw_icon :: "font \<Rightarrow> nat \<Rightarrow> nat \<Rightarrow> nat \<Rightarrow> nat \<Rightarrow> u32 list \<Rightarrow> u32 list option" where
  "draw_icon font stride i cx cy buffer =
     (if i = 0 then
        do {
          buffer \<leftarrow> square_at stride cx cy 0x313244 buffer;
          x \<leftarrow> usub cx 4;
          y \<leftarrow> usub cy 4;
          draw_string font stride x y (text_chars ''>'') 0xA6E3A1 buffer
        }
      else if i = 1 then square_at stride cx cy 0xF9E2AF buffer \<bind> patch_at stride cx cy 0xCDD6F4
      else if i = 2 then
        do {
          buffer \<leftarrow> draw_filled_circle stride cx cy 10 0x89B4FA buffer;
          x \<leftarrow> usub cx 2;
          y \<leftarrow> usub cy 2;
          draw_filled_circle stride x y 4 0xA6E3A1 buffer
        }
      else if i = 3 then
        draw_filled_circle stride cx cy 10 0x45475A buffer \<bind> draw_filled_circle stride cx cy 4 0x11111B
      else if i = 4 then square_at stride cx cy 0xF5C2E7 buffer \<bind> patch_at stride cx cy 0xF38BA8
      else Some buffer)"

definition draw_dock :: "font \<Rightarrow> nat \<Rightarrow> layout_manager \<Rightarrow> u32 list \<Rightarrow> u32 list option" where
  "draw_dock font stride layout buffer =
     do {
       (dock_x, dock_y, dock_w, dock_h) \<leftarrow> get_dock_rect layout;
       buffer \<leftarrow> draw_shadow stride dock_x dock_y dock_w dock_h 8 buffer;
       buffer \<leftarrow> draw_translucent_rounded_rect stride dock_x dock_y dock_w dock_h 8 0x1E1E2E 180 buffer;
       icons_w \<leftarrow> umul 5 50;
       room \<leftarrow> usub dock_w icons_w;
       start_icon_x \<leftarrow> uadd dock_x (room div 2);
       above \<leftarrow> usub dock_h 24;
       icon_y \<leftarrow> uadd dock_y (above div 2);
       for_range 5 (\<lambda>i buffer.
         do {
           off \<leftarrow> umul i 50;
           x \<leftarrow> uadd start_icon_x off;
           cx \<leftarrow> uadd x 12;
           cy \<leftarrow> uadd icon_y 12;
           draw_icon font stride i cx cy buffer
         }) buffer
     }"

definition composite ::
  "font \<Rightarrow> layout_manager \<Rightarrow> nat \<Rightarrow> nat \<Rightarrow> compositor \<Rightarrow> compositor option" where
  "composite font layout mouse_x mouse_y c =
     do {
       let stride = comp_w c;
       buffer \<leftarrow> draw_background (comp_w c) (comp_h c) (back_buffer c);
       buffer \<leftarrow> for_each (windows layout) (draw_window font stride) buffer;
       buffer \<leftarrow> draw_dock font stride layout buffer;
       buffer \<leftarrow> draw_mouse_cursor stride mouse_x mouse_y buffer;
       Some (c\<lparr>back_buffer := buffer\<rparr>)
     }"

text \<open>The request handed to the kernel, if anything is dirty, and the state after it.\<close>

definition blit_dirty :: "nat \<Rightarrow> compositor \<Rightarrow> (blit_request option \<times> compositor) option" where
  "blit_dirty buffer_ptr c =
     (if dirty_x1 c \<le> dirty_x0 c \<or> dirty_y1 c \<le> dirty_y0 c then Some (None, c)
      else do {
        w \<leftarrow> usub (dirty_x1 c) (dirty_x0 c);
        h \<leftarrow> usub (dirty_y1 c) (dirty_y0 c);
        let req = \<lparr>buffer_addr = buffer_ptr, src_stride = comp_w c,
          blit_x = dirty_x0 c, blit_y = dirty_y0 c, blit_w = w, blit_h = h\<rparr>;
        Some (Some req, c\<lparr>dirty_x0 := comp_w c, dirty_y0 := comp_h c, dirty_x1 := 0, dirty_y1 := 0\<rparr>)
      })"

subsection \<open>Every layer can be drawn\<close>

lemma uadd_small: "a \<le> 2 ^ 40 \<Longrightarrow> b \<le> 2 ^ 40 \<Longrightarrow> uadd a b = Some (a + b)"
  by (simp add: checked usize_bound_def)

lemma gradient_Some:
  assumes "y < height" "height \<le> 2 ^ 20"
  shows "\<exists>c. gradient y height = Some c"
proof -
  have "\<exists>v. gradient_channel start step y height = Some v" if "start \<le> 255" "step \<le> 255" for start step
  proof -
    have m: "step * y \<le> 255 * 2 ^ 20" using that assms by (intro mult_le_mono) auto
    then have "step * y div height \<le> 255 * 2 ^ 20" using div_le_dividend le_trans by blast
    with m that assms show ?thesis by (simp add: gradient_channel_def checked usize_bound_def)
  qed
  from this[of 15 11] this[of 10 17] this[of 28 10] show ?thesis
    by (auto simp: gradient_def)
qed

lemma draw_background_paints:
  assumes "width \<le> 2 ^ 20" "height \<le> 2 ^ 20"
  shows "paints (width * height) (draw_background width height)"
  unfolding draw_background_def
proof (rule paints_for_from)
  fix y assume "y < 0 + height"
  then have y: "y < height" by simp
  obtain color where color: "gradient y height = Some color" using gradient_Some[OF y assms(2)] by blast
  have "y * width \<le> 2 ^ 20 * 2 ^ 20" using y assms by (intro mult_le_mono) auto
  then have row: "umul y width = Some (y * width)" "y * width \<le> 2 ^ 40"
    by (simp_all add: checked usize_bound_def)
  have "paints (width * height) (for_range width (\<lambda>x buffer. do { i \<leftarrow> uadd (y * width) x; upd buffer i color }))"
  proof (rule paints_for_from)
    fix x assume "x < 0 + width"
    then have x: "x < width" by simp
    have "Suc y * width \<le> height * width" using y by (intro mult_le_mono1) simp
    with x have "y * width + x < width * height" by (simp add: mult.commute)
    moreover have "uadd (y * width) x = Some (y * width + x)"
      using row(2) x assms by (intro uadd_small) auto
    ultimately show "paints (width * height) (\<lambda>buffer. do { i \<leftarrow> uadd (y * width) x; upd buffer i color })"
      by (simp add: upd_paints)
  qed
  then show "paints (width * height) (\<lambda>buffer. do {
       color \<leftarrow> gradient y height;
       row_offset \<leftarrow> umul y width;
       for_range width (\<lambda>x buffer. do { i \<leftarrow> uadd row_offset x; upd buffer i color }) buffer })"
    by (simp add: color row(1))
qed

text \<open>A window the frame and the text of which stay far from any overflow.\<close>

definition drawable :: "nat \<Rightarrow> window_info \<Rightarrow> bool" where
  "drawable stride w \<longleftrightarrow> stride \<le> 2 ^ 20 \<and> win_x w + win_w w \<le> 2 ^ 20 \<and> win_y w + win_h w \<le> 2 ^ 20 \<and> 8 \<le> win_w w"

lemma text_at_paints:
  assumes "font_ok font" "stride \<le> 2 ^ 20" "wx \<le> 2 ^ 20" "wy \<le> 2 ^ 20" "dx \<le> 2 ^ 10" "dy \<le> 2 ^ 10"
    "length s \<le> 2 ^ 10"
  shows "paints n (text_at font stride wx dx wy dy s color)"
proof -
  have "uadd wx dx = Some (wx + dx)" "uadd wy dy = Some (wy + dy)"
    using assms by (intro uadd_small; simp)+
  moreover have "paints n (draw_string font stride (wx + dx) (wy + dy) (text_chars s) color)"
    by (rule draw_string_paints) (use assms in \<open>auto simp: font_ok_def small_box_def\<close>)
  ultimately show ?thesis by (simp add: text_at_def paints_def)
qed

lemma control_button_paints:
  assumes "drawable stride w" "dx \<le> 2 ^ 10"
  shows "paints n (control_button stride w dx color)"
proof -
  have "uadd (win_x w) dx = Some (win_x w + dx)" "uadd (win_y w) 14 = Some (win_y w + 14)"
    using assms by (intro uadd_small; simp add: drawable_def)+
  moreover have "paints n (draw_filled_circle stride (win_x w + dx) (win_y w + 14) 4 color)"
    by (rule draw_filled_circle_paints) (use assms in \<open>auto simp: drawable_def small_box_def\<close>)
  ultimately show ?thesis by (simp add: control_button_def paints_def)
qed

lemma draw_frame_paints:
  assumes "drawable stride w"
  shows "paints n (draw_frame stride w)"
proof -
  have y: "uadd (win_y w) 8 = Some (win_y w + 8)"
    using assms by (intro uadd_small) (simp_all add: drawable_def)
  show ?thesis
    unfolding draw_frame_def y bind.simps
    by (intro paints_bind draw_shadow_paints draw_rounded_rect_paints draw_rect_buf_paints
        control_button_paints assms)
      (use assms in \<open>auto simp: drawable_def small_box_def\<close>)
qed

lemma window_lines_short: "(dy, s, color) \<in> set (window_lines wid) \<Longrightarrow> dy \<le> 2 ^ 10 \<and> length s \<le> 2 ^ 10"
  by (auto simp: window_lines_def split: if_splits)

lemma draw_window_paints:
  assumes "font_ok font" "drawable stride w"
  shows "paints n (draw_window font stride w)"
proof -
  have lines: "paints n (for_each (window_lines (win_id w)) (\<lambda>(dy, s, color).
         text_at font stride (win_x w) 15 (win_y w) dy s color))"
  proof (rule paints_for_each, clarify)
    fix dy s color assume "(dy, s, color) \<in> set (window_lines (win_id w))"
    from window_lines_short[OF this] show "paints n (text_at font stride (win_x w) 15 (win_y w) dy s color)"
      by (intro text_at_paints) (use assms in \<open>auto simp: drawable_def\<close>)
  qed
  have title: "paints n (text_at font stride (win_x w) 56 (win_y w) 10 (window_title (win_id w)) 0xCDD6F4)"
    by (rule text_at_paints) (use assms in \<open>auto simp: drawable_def window_title_def\<close>)
  show ?thesis
    unfolding draw_window_def by (intro paints_bind draw_frame_paints assms title lines)
qed

text \<open>The dock's icons, around a centre within the dock.\<close>

lemma square_at_paints:
  assumes "stride \<le> 2 ^ 20" "12 \<le> cx" "12 \<le> cy" "cx \<le> 2 ^ 22" "cy \<le> 2 ^ 22"
  shows "paints n (square_at stride cx cy color)"
proof -
  have "usub cx 12 = Some (cx - 12)" "usub cy 12 = Some (cy - 12)" using assms by (simp_all add: checked)
  moreover have "paints n (draw_rounded_rect stride (cx - 12) (cy - 12) 24 24 4 color)"
    by (rule draw_rounded_rect_paints) (use assms in \<open>auto simp: small_box_def\<close>)
  ultimately show ?thesis by (simp add: square_at_def paints_def)
qed

lemma patch_at_paints:
  assumes "stride \<le> 2 ^ 20" "12 \<le> cx" "12 \<le> cy" "cx \<le> 2 ^ 22" "cy \<le> 2 ^ 22"
  shows "paints n (patch_at stride cx cy color)"
proof -
  have "usub cx 8 = Some (cx - 8)" "usub cy 8 = Some (cy - 8)" using assms by (simp_all add: checked)
  moreover have "paints n (draw_rect_buf stride (cx - 8) (cy - 8) 16 16 color)"
    by (rule draw_rect_buf_paints) (use assms in \<open>auto simp: small_box_def\<close>)
  ultimately show ?thesis by (simp add: patch_at_def paints_def)
qed

lemma draw_icon_paints:
  assumes font: "font_ok font" and c: "stride \<le> 2 ^ 20" "12 \<le> cx" "12 \<le> cy" "cx \<le> 2 ^ 22" "cy \<le> 2 ^ 22"
  shows "paints n (draw_icon font stride i cx cy)"
proof -
  have subs: "usub cx 4 = Some (cx - 4)" "usub cy 4 = Some (cy - 4)" "usub cx 2 = Some (cx - 2)" "usub cy 2 = Some (cy - 2)"
    using c by (simp_all add: checked)
  have disc: "paints n (draw_filled_circle stride x y r color)"
    if "x \<le> 2 ^ 22" "y \<le> 2 ^ 22" "r \<le> 10" for x y r color
    by (rule draw_filled_circle_paints) (use that c in \<open>auto simp: small_box_def\<close>)
  have prompt: "paints n (draw_string font stride (cx - 4) (cy - 4) (text_chars ''>'') 0xA6E3A1)"
    by (rule draw_string_paints) (use font c in \<open>auto simp: font_ok_def small_box_def\<close>)
  show ?thesis
    unfolding draw_icon_def subs bind.simps
    by (intro paints_if paints_Some paints_bind square_at_paints patch_at_paints disc prompt c) (use c in auto)
qed

lemma dock_rect:
  assumes "290 \<le> screen_w m" "screen_w m \<le> 2 ^ 20" "60 \<le> screen_h m" "screen_h m \<le> 2 ^ 20" "dock_h m = 60"
  shows "get_dock_rect m =
    Some ((screen_w m - min 450 (screen_w m - 40)) div 2, screen_h m - 50, min 450 (screen_w m - 40), 40)"
  using assms by (simp add: get_dock_rect_def checked usize_bound_def Let_def)

lemma draw_dock_paints:
  assumes font: "font_ok font" and stride: "stride \<le> 2 ^ 20"
    and dock: "get_dock_rect m = Some (dx, dy, dw, 40)" "250 \<le> dw" "dw \<le> 450" "dx \<le> 2 ^ 20"
      "10 \<le> dy" "dy \<le> 2 ^ 20"
  shows "paints n (draw_dock font stride m)"
proof -
  let ?start = "dx + (dw - 250) div 2"
  have "(dw - 250) div 2 \<le> 200 div 2" using dock by (intro div_le_mono) simp
  then have start: "?start \<le> 2 ^ 21" using dock by simp
  have sums: "umul 5 50 = Some 250" "usub dw 250 = Some (dw - 250)" "usub (40 :: nat) 24 = Some 16"
    using dock by (simp_all add: checked usize_bound_def)
  have adds: "uadd dx ((dw - 250) div 2) = Some ?start" "uadd dy (16 div 2) = Some (dy + 8)"
    "uadd (dy + 8) 12 = Some (dy + 20)"
    using dock by (simp_all add: checked usize_bound_def)
  have icons: "paints n (for_range 5 (\<lambda>i buffer.
         do {
           off \<leftarrow> umul i 50;
           x \<leftarrow> uadd ?start off;
           cx \<leftarrow> uadd x 12;
           cy \<leftarrow> uadd (dy + 8) 12;
           draw_icon font stride i cx cy buffer
         }))"
  proof (rule paints_for_from)
    fix i :: nat assume "i < 0 + 5"
    then have off: "umul i 50 = Some (i * 50)" "i * 50 \<le> 200" by (simp_all add: checked usize_bound_def)
    have x: "uadd ?start (i * 50) = Some (?start + i * 50)"
      using start off(2) by (intro uadd_small) simp_all
    have cx: "uadd (?start + i * 50) 12 = Some (?start + i * 50 + 12)"
      using start off(2) by (intro uadd_small) simp_all
    have "paints n (draw_icon font stride i (?start + i * 50 + 12) (dy + 20))"
    proof (rule draw_icon_paints[OF font stride])
      show "?start + i * 50 + 12 \<le> 2 ^ 22" using start off(2) by simp
      show "dy + 20 \<le> 2 ^ 22" using dock by simp
    qed (use dock in simp_all)
    then show "paints n (\<lambda>buffer.
         do {
           off \<leftarrow> umul i 50;
           x \<leftarrow> uadd ?start off;
           cx \<leftarrow> uadd x 12;
           cy \<leftarrow> uadd (dy + 8) 12;
           draw_icon font stride i cx cy buffer
         })"
      unfolding off(1) bind.simps x cx adds(3) .
  qed
  have box: "small_box stride dx dy dw 40"
    using dock stride by (simp add: small_box_def)
  show ?thesis
    unfolding draw_dock_def dock(1) bind.simps prod.case sums adds(1,2)
    by (intro paints_bind draw_shadow_paints draw_translucent_rounded_rect_paints icons box)
      (use dock in auto)
qed

subsection \<open>A whole frame\<close>

lemma composite_frame:
  assumes font: "font_ok font"
    and layout: "\<forall>w\<in>set (windows m). drawable (comp_w c) w" "screen_w m = comp_w c" "screen_h m = comp_h c"
      "dock_h m = 60"
    and dims: "290 \<le> comp_w c" "comp_w c \<le> 2 ^ 20" "60 \<le> comp_h c" "comp_h c \<le> 2 ^ 20"
    and buffer: "length (back_buffer c) = comp_w c * comp_h c"
    and mouse: "mx \<le> 2 ^ 20" "my \<le> 2 ^ 20"
  shows "\<exists>b b'. composite font m mx my c = Some (c\<lparr>back_buffer := b'\<rparr>) \<and>
    draw_mouse_cursor (comp_w c) mx my b = Some b' \<and> length b = comp_w c * comp_h c \<and>
    length b' = comp_w c * comp_h c"
proof -
  let ?n = "comp_w c * comp_h c"
  let ?under = "\<lambda>b. draw_background (comp_w c) (comp_h c) b \<bind> (\<lambda>b.
    for_each (windows m) (draw_window font (comp_w c)) b \<bind> draw_dock font (comp_w c) m)"
  have dock: "paints ?n (draw_dock font (comp_w c) m)"
  proof (rule draw_dock_paints[OF font dims(2) dock_rect])
    show "290 \<le> screen_w m" "screen_w m \<le> 2 ^ 20" "60 \<le> screen_h m" "screen_h m \<le> 2 ^ 20" "dock_h m = 60"
      using layout dims by simp_all
    show "250 \<le> min 450 (screen_w m - 40)" "min 450 (screen_w m - 40) \<le> 450" "10 \<le> screen_h m - 50"
      "screen_h m - 50 \<le> 2 ^ 20" using layout dims by simp_all
    have "screen_w m - min 450 (screen_w m - 40) \<le> 2 ^ 20" using layout dims by simp
    then show "(screen_w m - min 450 (screen_w m - 40)) div 2 \<le> 2 ^ 20"
      using div_le_dividend le_trans by blast
  qed
  have "paints ?n (for_each (windows m) (draw_window font (comp_w c)))"
    using layout(1) by (intro paints_for_each draw_window_paints font) blast
  then have "paints ?n ?under"
    using dock by (intro paints_bind draw_background_paints dims)
  moreover have "paints ?n (draw_mouse_cursor (comp_w c) mx my)"
    by (rule draw_mouse_cursor_paints) (use dims mouse in \<open>simp add: small_box_def\<close>)
  ultimately obtain b b' where b: "?under (back_buffer c) = Some b" "length b = ?n"
    "draw_mouse_cursor (comp_w c) mx my b = Some b'" "length b' = ?n"
    unfolding paints_def using buffer by metis
  then have "composite font m mx my c = Some (c\<lparr>back_buffer := b'\<rparr>)"
    by (auto simp: composite_def bind_eq_Some_conv)
  with b show ?thesis by blast
qed

text \<open>The bounding box of the marked rectangles.\<close>

definition comp_ok :: "compositor \<Rightarrow> bool" where
  "comp_ok c \<longleftrightarrow> length (back_buffer c) = comp_w c * comp_h c \<and> comp_w c * comp_h c < usize_bound \<and>
     comp_h c < usize_bound \<and> dirty_x1 c \<le> comp_w c \<and> dirty_y1 c \<le> comp_h c"

definition dirty :: "compositor \<Rightarrow> nat \<Rightarrow> nat \<Rightarrow> bool" where
  "dirty c px py \<longleftrightarrow> dirty_x0 c \<le> px \<and> px < dirty_x1 c \<and> dirty_y0 c \<le> py \<and> py < dirty_y1 c"

abbreviation mark_all :: "(nat \<times> nat \<times> nat \<times> nat) list \<Rightarrow> compositor \<Rightarrow> compositor option" where
  "mark_all rects c \<equiv> for_each rects (\<lambda>(x, y, w, h). mark_dirty x y w h) c"

definition marked :: "(nat \<times> nat \<times> nat \<times> nat) list \<Rightarrow> nat \<Rightarrow> nat \<Rightarrow> bool" where
  "marked rects px py \<longleftrightarrow> list_ex (\<lambda>(x, y, w, h). in_rect x y w h px py) rects"

lemma mark_dirty_grows:
  assumes "mark_dirty x y w h c = Some c'"
  shows "comp_w c' = comp_w c \<and> comp_h c' = comp_h c \<and> back_buffer c' = back_buffer c \<and>
    (comp_ok c \<longrightarrow> comp_ok c') \<and> (\<forall>px py. dirty c px py \<longrightarrow> dirty c' px py) \<and>
    (\<forall>px py. px < comp_w c \<longrightarrow> py < comp_h c \<longrightarrow> in_rect x y w h px py \<longrightarrow> dirty c' px py)"
  using assms by (auto simp: mark_dirty_def checked comp_ok_def dirty_def in_rect_def Let_def bind_eq_Some_conv)

lemma mark_all_grows:
  "mark_all rects c = Some c' \<Longrightarrow>
    comp_w c' = comp_w c \<and> comp_h c' = comp_h c \<and> back_buffer c' = back_buffer c \<and>
    (comp_ok c \<longrightarrow> comp_ok c') \<and> (\<forall>px py. dirty c px py \<longrightarrow> dirty c' px py) \<and>
    (\<forall>px py. px < comp_w c \<longrightarrow> py < comp_h c \<longrightarrow> marked rects px py \<longrightarrow> dirty c' px py)"
proof (induction rects arbitrary: c)
  case (Cons r rects)
  obtain x y w h where r: "r = (x, y, w, h)" by (metis prod_cases4)
  with Cons.prems obtain c1 where c1: "mark_dirty x y w h c = Some c1" "mark_all rects c1 = Some c'"
    by (auto simp: bind_eq_Some_conv)
  from mark_dirty_grows[OF c1(1)] Cons.IH[OF c1(2)] r show ?case
    by (simp add: marked_def)
qed (simp add: marked_def)

text \<open>The request names the box, and nothing is dirty after it.\<close>

lemma blit_dirty_request:
  "blit_dirty buf c = Some (Some req, c') \<longleftrightarrow> dirty_x0 c < dirty_x1 c \<and> dirty_y0 c < dirty_y1 c \<and>
     req = \<lparr>buffer_addr = buf, src_stride = comp_w c, blit_x = dirty_x0 c, blit_y = dirty_y0 c,
       blit_w = dirty_x1 c - dirty_x0 c, blit_h = dirty_y1 c - dirty_y0 c\<rparr> \<and>
     c' = c\<lparr>dirty_x0 := comp_w c, dirty_y0 := comp_h c, dirty_x1 := 0, dirty_y1 := 0\<rparr>"
  by (auto simp: blit_dirty_def checked Let_def)

lemma blit_dirty_none:
  "blit_dirty buf c = Some (None, c') \<Longrightarrow> c' = c \<and> \<not> dirty c px py"
  by (auto simp: blit_dirty_def dirty_def checked Let_def bind_eq_Some_conv split: if_splits)

lemma load_u32s_take: "k \<le> n \<Longrightarrow> load_u32s mem p k = take k (load_u32s mem p n)"
  by (simp add: load_u32s_def take_map)

lemma blit_shows_dirty:
  assumes ok: "comp_ok c" and req: "blit_dirty buf c = Some (Some req, c')"
    and mem: "read_blit_request (memory m) (unat p) = req"
      "load_u32s (memory m) buf (comp_w c * comp_h c) = back_buffer c"
    and g: "screen m = Some g" "fb_ok g"
  shows "\<exists>m' g'. handle_syscall font 12 p rsi sp m = Some (Resume sp m') \<and> screen m' = Some g' \<and>
    same_but_fb g g' \<and> (\<forall>px py. on_screen (info g) px py \<longrightarrow> pixel_at g' px py =
      (if dirty c px py
       then encode_pixel (pixel_format (info g)) (unpack (back_buffer c ! (py * comp_w c + px)))
       else pixel_at g px py))"
proof -
  let ?w = "dirty_x1 c - dirty_x0 c" and ?h = "dirty_y1 c - dirty_y0 c"
  let ?k = "comp_w c * dirty_y1 c"
  have box: "dirty_x0 c < dirty_x1 c" "dirty_y0 c < dirty_y1 c" using req by (simp_all add: blit_dirty_request)
  have r: "read_blit_request (memory m) (unat p) = \<lparr>buffer_addr = buf, src_stride = comp_w c,
      blit_x = dirty_x0 c, blit_y = dirty_y0 c, blit_w = ?w, blit_h = ?h\<rparr>"
    using req mem(1) by (simp add: blit_dirty_request)
  have k: "?k \<le> comp_w c * comp_h c" using ok by (auto simp: comp_ok_def intro: mult_le_mono2)
  let ?src = "load_u32s (memory m) buf ?k"
  have src: "?src = take ?k (back_buffer c)" using load_u32s_take[OF k] mem(2) by metis
  have len: "length ?src = ?k" using k ok by (simp add: src comp_ok_def)
  have "?k < usize_bound" using k ok by (simp only: comp_ok_def) linarith
  then have bounds: "dirty_x0 c + ?w \<le> comp_w c" "dirty_y0 c + ?h < usize_bound" "?k < usize_bound"
    "dirty_y0 c + ?h = dirty_y1 c" "dirty_x0 c + ?w = dirty_x1 c" "dirty_x1 c \<le> comp_w c"
    using ok box by (auto simp: comp_ok_def)
  obtain g' where g': "blit_rect ?src (comp_w c) (dirty_x0 c) (dirty_y0 c) ?w ?h g = Some g'" "same_but_fb g g'"
    and px: "\<forall>px py. on_screen (info g) px py \<longrightarrow> pixel_at g' px py =
       (if dirty_x0 c \<le> px \<and> px < dirty_x0 c + ?w \<and> dirty_y0 c \<le> py \<and> py < dirty_y0 c + ?h
        then encode_pixel (pixel_format (info g)) (unpack (?src ! (py * comp_w c + px)))
        else pixel_at g px py)"
    using blit_rect_spec[OF g(2) bounds(1,2), of ?src] len bounds by auto
  have same: "?src ! (py * comp_w c + px) = back_buffer c ! (py * comp_w c + px)" if "dirty c px py" for px py
  proof -
    have "px < comp_w c" "Suc py \<le> dirty_y1 c" using that bounds by (auto simp: dirty_def)
    then have "py * comp_w c + px < Suc py * comp_w c" "Suc py * comp_w c \<le> dirty_y1 c * comp_w c"
      by (simp, intro mult_le_mono1)
    then have "py * comp_w c + px < ?k" by (simp add: mult.commute)
    then show ?thesis by (simp add: src)
  qed
  have "uadd (dirty_y0 c) ?h = Some (dirty_y1 c)" "umul (comp_w c) (dirty_y1 c) = Some ?k"
    using bounds by (simp_all add: checked)
  then have "sys_blit (unat p) sp m = Some (Resume sp (kwrite_rax sp 0 (m\<lparr>screen := Some g'\<rparr>)))"
    using g g' by (simp add: sys_blit_def r Let_def blit_buffer_rect_def return_rax_def)
  then have "handle_syscall font 12 p rsi sp m = Some (Resume sp (kwrite_rax sp 0 (m\<lparr>screen := Some g'\<rparr>)))"
    by (simp add: handle_syscall_def)
  moreover have "screen (kwrite_rax sp 0 (m\<lparr>screen := Some g'\<rparr>)) = Some g'" by (simp add: kwrite_rax_def)
  moreover have "pixel_at g' px py = (if dirty c px py
       then encode_pixel (pixel_format (info g)) (unpack (back_buffer c ! (py * comp_w c + px)))
       else pixel_at g px py)" if "on_screen (info g) px py" for px py
    using px that same bounds by (simp add: dirty_def)
  ultimately show ?thesis using g'(2) by blast
qed

subsection \<open>Properties\<close>


definition demo_desktop :: layout_manager where
  "demo_desktop = (layout_new 320 200)\<lparr>windows :=
     [\<lparr>win_id = 1, win_x = 0, win_y = 0, win_w = 0, win_h = 0\<rparr>]\<rparr>"

definition demo_compositor :: compositor where
  "demo_compositor = \<lparr>comp_w = 320, comp_h = 200, back_buffer = replicate (320 * 200) 0,
     dirty_x0 = 0, dirty_y0 = 0, dirty_x1 = 320, dirty_y1 = 200\<rparr>"


text \<open>
  C14: What is marked is shown: after any marks since the last frame, one \<open>blit_dirty\<close> whose request
  the kernel finds in memory beside the back buffer puts every marked pixel of the desktop that
  is on the screen there with the buffer's colour; a pixel outside the bounding box keeps its
  old one. Afterwards nothing is dirty.
\<close>

theorem marked_regions_presented:
  assumes "comp_ok c" and "for_each rects (\<lambda>(x, y, w, h). mark_dirty x y w h) c = Some c1"
    and "blit_dirty buf c1 = Some (Some req, c2)"
    and "read_blit_request (memory m) (unat p) = req"
    and "load_u32s (memory m) buf (comp_w c * comp_h c) = back_buffer c"
    and "screen m = Some g" and "fb_ok g"
  shows "blit_dirty buf c2 = Some (None, c2) \<and>
    (\<forall>px py. px < comp_w c \<longrightarrow> py < comp_h c \<longrightarrow> marked rects px py \<longrightarrow> dirty c1 px py) \<and>
    (\<exists>m' g'. handle_syscall font 12 p rsi sp m = Some (Resume sp m') \<and> screen m' = Some g' \<and>
       (\<forall>px py. on_screen (info g) px py \<longrightarrow> pixel_at g' px py =
          (if dirty c1 px py
           then encode_pixel (pixel_format (info g)) (unpack (back_buffer c ! (py * comp_w c + px)))
           else pixel_at g px py)))"
proof -
  note grows = mark_all_grows[OF assms(2)]
  have "blit_dirty buf c2 = Some (None, c2)"
    using assms(3) by (simp add: blit_dirty_request) (simp add: blit_dirty_def)
  moreover have "comp_ok c1" "load_u32s (memory m) buf (comp_w c1 * comp_h c1) = back_buffer c1"
    using grows assms(1,5) by simp_all
  ultimately show ?thesis
    using blit_shows_dirty[OF _ assms(3,4) _ assms(6,7), of font rsi sp] grows by auto
qed

definition tiny_compositor :: compositor where
  "tiny_compositor = \<lparr>comp_w = 4, comp_h = 3, back_buffer = replicate 12 0,
     dirty_x0 = 4, dirty_y0 = 3, dirty_x1 = 0, dirty_y1 = 0\<rparr>"

definition blit_memory :: mem where
  "blit_memory = store64 (store64 (store64 (store64 (store64 (store64 (\<lambda>_. 0)
     0x1000 0x2000) 0x1008 4) 0x1010 1) 0x1018 1) 0x1020 2) 0x1028 1"

lemma blit_memory_holds:
  "read_blit_request blit_memory 0x1000 =
     \<lparr>buffer_addr = 0x2000, src_stride = 4, blit_x = 1, blit_y = 1, blit_w = 2, blit_h = 1\<rparr>"
  "load_u32s blit_memory 0x2000 12 = replicate 12 0"
proof -
  show "read_blit_request blit_memory 0x1000 =
     \<lparr>buffer_addr = 0x2000, src_stride = 4, blit_x = 1, blit_y = 1, blit_w = 2, blit_h = 1\<rparr>"
    by (simp add: read_blit_request_def blit_memory_def mem_simps)
  have "u32_from_le (load (\<lambda>_. 0) a 4) = 0" for a by (simp add: u32_from_le_def load_def upt_conv_Cons)
  then have "map (\<lambda>i. u32_from_le (load blit_memory (0x2000 + 4 * i) 4)) [0..<12] = map (\<lambda>_. 0) [0..<12]"
    by (simp add: blit_memory_def mem_simps)
  then show "load_u32s blit_memory 0x2000 12 = replicate 12 0"
    by (simp only: load_u32s_def map_replicate_const length_upt) simp
qed

lemma marked_tiny:
  "mark_dirty 1 1 2 1 tiny_compositor = Some (tiny_compositor\<lparr>dirty_x0 := 1, dirty_y0 := 1, dirty_x1 := 3, dirty_y1 := 2\<rparr>)"
  by (simp add: mark_dirty_def tiny_compositor_def checked usize_bound_def)

theorem marked_regions_presented_witness:
  "\<exists>m' g'. handle_syscall (\<lambda>_. None) 12 0x1000 0 0x3000
       (demo_machine\<lparr>memory := blit_memory, screen := Some (tiny_writer\<lparr>fb := replicate 48 9\<rparr>)\<rparr>) =
       Some (Resume 0x3000 m') \<and> screen m' = Some g' \<and>
     pixel_at g' 2 1 = [0, 0, 0] \<and> pixel_at g' 3 2 = [9, 9, 9]"
proof -
  let ?g = "tiny_writer\<lparr>fb := replicate 48 9\<rparr>"
  let ?c1 = "tiny_compositor\<lparr>dirty_x0 := 1, dirty_y0 := 1, dirty_x1 := 3, dirty_y1 := 2\<rparr>"
  have ok: "comp_ok tiny_compositor" "fb_ok ?g"
    by (simp_all add: comp_ok_def tiny_compositor_def usize_bound_def fb_ok_def tiny_writer_def pixel_len_def)
  have marks: "for_each [(1, 1, 2, 1)] (\<lambda>(x, y, w, h). mark_dirty x y w h) tiny_compositor = Some ?c1"
    by (simp add: marked_tiny[simplified])
  have req: "blit_dirty 0x2000 ?c1 = Some (Some \<lparr>buffer_addr = 0x2000, src_stride = 4, blit_x = 1,
      blit_y = 1, blit_w = 2, blit_h = 1\<rparr>, tiny_compositor)"
    by (simp add: blit_dirty_request tiny_compositor_def)
  have shown: "on_screen (info ?g) 2 1" "on_screen (info ?g) 3 2" "dirty ?c1 2 1" "\<not> dirty ?c1 3 2"
    "pixel_at ?g 3 2 = [9, 9, 9]" "pixel_format (info ?g) = Bgr"
    by (simp_all add: on_screen_def tiny_writer_def dirty_def pixel_at_def pixel_offset_def pixel_len_def
        slice_def numeral_eq_Suc)
  have black: "unpack (back_buffer tiny_compositor ! (1 * comp_w tiny_compositor + 2)) = (0, 0, 0)"
    by (simp add: tiny_compositor_def unpack_def numeral_eq_Suc)
  let ?m = "demo_machine\<lparr>memory := blit_memory, screen := Some ?g\<rparr>"
  have mem: "read_blit_request (memory ?m) (unat (0x1000 :: u64)) =
      \<lparr>buffer_addr = 0x2000, src_stride = 4, blit_x = 1, blit_y = 1, blit_w = 2, blit_h = 1\<rparr>"
    "load_u32s (memory ?m) 0x2000 (comp_w tiny_compositor * comp_h tiny_compositor) = back_buffer tiny_compositor"
    using blit_memory_holds by (simp_all add: tiny_compositor_def)
  obtain m' g' where m': "handle_syscall (\<lambda>_. None) 12 0x1000 0 0x3000 ?m = Some (Resume 0x3000 m')" "screen m' = Some g'"
    and px: "\<forall>px py. on_screen (info ?g) px py \<longrightarrow> pixel_at g' px py =
          (if dirty ?c1 px py
           then encode_pixel (pixel_format (info ?g)) (unpack (back_buffer tiny_compositor ! (py * comp_w tiny_compositor + px)))
           else pixel_at ?g px py)"
    using marked_regions_presented[where font = "\<lambda>_. None" and rsi = 0 and sp = "0x3000",
        OF ok(1) marks req mem _ ok(2)] by auto
  have "pixel_at g' 2 1 = [0, 0, 0]" "pixel_at g' 3 2 = [9, 9, 9]"
    using px shown black by (simp_all add: encode_pixel_def)
  with m' show ?thesis by blast
qed

end
