(* ===== verification/Gui.thy ===== *)
theory Gui
  imports Compositor
begin

text \<open>
  \<open>kernel/src/gui/mod.rs\<close>: the GUI server, its reaction to each message and the frame it draws
  in each round of its loop. The server calls operations of the layout manager that
  \<open>layout.rs\<close> does not define (the active window, toggling, windows with titles and owners);
  they are a parameter of the model, the record \<open>layout_ops\<close>, while \<open>new\<close>, \<open>add_window\<close> of one
  argument and \<open>remove_window\<close> are those of \<open>Layout\<close>. System calls are the record \<open>gui_os\<close>. The
  lemmas show that the mouse stays on the screen and that a round puts the whole desktop there.
\<close>

subsection \<open>Parameters\<close>

record window_view =
  view_x :: nat
  view_y :: nat
  view_width :: nat
  view_height :: nat
  minimized :: bool

record layout_ops =
  cycle_active_window :: "layout_manager \<Rightarrow> layout_manager option"
  active_owner :: "layout_manager \<Rightarrow> nat option"
  window_count :: "layout_manager \<Rightarrow> nat"
  get_window :: "nat \<Rightarrow> layout_manager \<Rightarrow> window_view option"
  toggle_window :: "nat \<Rightarrow> layout_manager \<Rightarrow> layout_manager option"
  set_active :: "nat \<Rightarrow> layout_manager \<Rightarrow> layout_manager option"
  add_titled_window :: "bytes \<Rightarrow> nat \<Rightarrow> nat \<Rightarrow> nat \<Rightarrow> nat \<Rightarrow> nat \<Rightarrow> layout_manager \<Rightarrow> (u64 \<times> layout_manager) option"

text \<open>
  \<open>try_recv\<close> is \<open>None\<close> in its first component when no message is pending. A blit hands over the
  request with the buffer its pointer names.
\<close>

record 'w gui_os =
  gos_mem :: "'w \<Rightarrow> mem"
  gos_try_recv :: "'w \<Rightarrow> (message option \<times> 'w) option"
  gos_send :: "nat \<Rightarrow> message \<Rightarrow> 'w \<Rightarrow> 'w option"
  gos_demo :: "'w \<Rightarrow> 'w option"
  gos_blit :: "blit_request \<Rightarrow> u32 list \<Rightarrow> 'w \<Rightarrow> 'w option"
  gos_yield :: "'w \<Rightarrow> 'w option"

subsection \<open>State\<close>

record gui =
  gui_width :: nat
  gui_height :: nat
  desktop :: compositor
  layout :: layout_manager
  mouse_x :: nat
  mouse_y :: nat

text \<open>The resolution: what system call 8 reports, or the default.\<close>

definition gui_resolution :: "(nat \<times> nat) option \<Rightarrow> nat \<times> nat" where
  "gui_resolution reported = (case reported of Some r \<Rightarrow> r | None \<Rightarrow> (1024, 768))"

definition gui_start :: "nat \<Rightarrow> nat \<Rightarrow> gui option" where
  "gui_start width height =
     do {
       c \<leftarrow> compositor_new width height;
       l \<leftarrow> add_window 1 (layout_new width height);
       l \<leftarrow> add_window 2 l;
       l \<leftarrow> add_window 3 l;
       c \<leftarrow> mark_dirty 0 0 width height c;
       Some \<lparr>gui_width = width, gui_height = height, desktop = c, layout = l,
         mouse_x = width div 2, mouse_y = height div 2\<rparr>
     }"

definition mark_all_dirty :: "gui \<Rightarrow> gui option" where
  "mark_all_dirty s =
     map_option (\<lambda>c. s\<lparr>desktop := c\<rparr>) (mark_dirty 0 0 (gui_width s) (gui_height s) (desktop s))"

subsection \<open>Messages\<close>

text \<open>A key: Tab changes the active window, any other goes to its owner.\<close>

definition gui_message :: "u64 \<Rightarrow> u64 \<Rightarrow> message" where
  "gui_message t a = \<lparr>sender = 5, msg_type = t, arg1 = a, arg2 = 0, arg3 = 0, arg4 = 0\<rparr>"

definition gui_key :: "layout_ops \<Rightarrow> 'w gui_os \<Rightarrow> u8 \<Rightarrow> gui \<times> 'w \<Rightarrow> (gui \<times> 'w) option" where
  "gui_key ops os c = (\<lambda>(s, w).
     if c = 0x09 then
       do {
         l \<leftarrow> cycle_active_window ops (layout s);
         s \<leftarrow> mark_all_dirty (s\<lparr>layout := l\<rparr>);
         Some (s, w)
       }
     else (case active_owner ops (layout s) of
             None \<Rightarrow> Some (s, w)
           | Some owner_task \<Rightarrow>
               do { w \<leftarrow> gos_send os owner_task (gui_message 20 (ucast c)) w; Some (s, w) }))"

text \<open>\<open>clamp(0, size - 1)\<close>, which asserts that the bounds are in order.\<close>

definition clamp_to :: "nat \<Rightarrow> int \<Rightarrow> nat option" where
  "clamp_to len n =
     do {
       hi \<leftarrow> isize_ok (as_isize len - 1);
       if hi < 0 then None else Some (nat (max 0 (min n hi)))
     }"

definition move_mouse :: "int \<Rightarrow> int \<Rightarrow> gui \<Rightarrow> gui option" where
  "move_mouse dx dy s =
     do {
       new_x \<leftarrow> isize_ok (as_isize (mouse_x s) + dx);
       new_y \<leftarrow> isize_ok (as_isize (mouse_y s) - dy);
       x \<leftarrow> clamp_to (gui_width s) new_x;
       y \<leftarrow> clamp_to (gui_height s) new_y;
       c \<leftarrow> mark_dirty (mouse_x s) (mouse_y s) 20 20 (desktop s);
       c \<leftarrow> mark_dirty x y 20 20 c;
       Some (s\<lparr>mouse_x := x, mouse_y := y, desktop := c\<rparr>)
     }"

definition click_dock :: "'w gui_os \<Rightarrow> gui \<times> 'w \<Rightarrow> (gui \<times> 'w) option" where
  "click_dock os = (\<lambda>(s, w).
     do {
       icons_start_x \<leftarrow> usub (gui_width s div 2) 64;
       nyan_x \<leftarrow> uadd icons_start_x 64;
       nyan_end \<leftarrow> (if nyan_x \<le> mouse_x s then uadd nyan_x 40 else Some 0);
       if nyan_x \<le> mouse_x s \<and> mouse_x s < nyan_end then
         do { w \<leftarrow> gos_demo os w; s \<leftarrow> mark_all_dirty s; Some (s, w) }
       else Some (s, w)
     })"

text \<open>\<open>lo <= p && p < lo + len\<close>; the sum is computed only when the first test holds.\<close>

definition within_span :: "nat \<Rightarrow> nat \<Rightarrow> nat \<Rightarrow> bool option" where
  "within_span lo len p =
     (if p < lo then Some False else do { hi \<leftarrow> uadd lo len; Some (p < hi) })"

definition within_box :: "nat \<Rightarrow> nat \<Rightarrow> nat \<Rightarrow> nat \<Rightarrow> nat \<Rightarrow> nat \<Rightarrow> bool option" where
  "within_box x y w h px py =
     do { a \<leftarrow> within_span x w px; if a then within_span y h py else Some False }"

text \<open>The search for the window under the mouse: the first that reacts ends it.\<close>

fun click_windows :: "layout_ops \<Rightarrow> nat list \<Rightarrow> gui \<Rightarrow> gui option" where
  "click_windows ops [] s = Some s"
| "click_windows ops (i # is) s =
     (case get_window ops i (layout s) of
        None \<Rightarrow> click_windows ops is s
      | Some win \<Rightarrow>
          do {
            title \<leftarrow> within_box (view_x win) (view_y win) (view_width win) 30 (mouse_x s) (mouse_y s);
            if title then
              do {
                right \<leftarrow> uadd (view_x win) (view_width win);
                close_x \<leftarrow> usub right 25;
                l \<leftarrow> (if close_x \<le> mouse_x s then toggle_window ops i (layout s)
                     else set_active ops i (layout s));
                mark_all_dirty (s\<lparr>layout := l\<rparr>)
              }
            else do {
              body \<leftarrow> (if minimized win then Some False
                      else within_box (view_x win) (view_y win) (view_width win) (view_height win)
                             (mouse_x s) (mouse_y s));
              if body then do { l \<leftarrow> set_active ops i (layout s); mark_all_dirty (s\<lparr>layout := l\<rparr>) }
              else click_windows ops is s
            }
          })"

definition gui_mouse ::
  "layout_ops \<Rightarrow> 'w gui_os \<Rightarrow> message \<Rightarrow> gui \<times> 'w \<Rightarrow> (gui \<times> 'w) option" where
  "gui_mouse ops os msg = (\<lambda>(s, w).
     do {
       s \<leftarrow> move_mouse (sint (arg1 msg)) (sint (arg2 msg)) s;
       if arg3 msg = 0 then Some (s, w)
       else if gui_height s - 48 \<le> mouse_y s then click_dock os (s, w)
       else do { s \<leftarrow> click_windows ops [0..<window_count ops (layout s)] s; Some (s, w) }
     })"

definition gui_create_window ::
  "layout_ops \<Rightarrow> 'w gui_os \<Rightarrow> message \<Rightarrow> gui \<times> 'w \<Rightarrow> (gui \<times> 'w) option" where
  "gui_create_window ops os msg = (\<lambda>(s, w).
     do {
       let title_slice = load (gos_mem os w) (unat (arg1 msg)) (min (unat (arg2 msg)) 32);
       (window_id, l) \<leftarrow> add_titled_window ops title_slice (unat (arg3 msg)) (unat (arg4 msg))
         (sender msg) (gui_width s) (gui_height s) (layout s);
       s \<leftarrow> mark_all_dirty (s\<lparr>layout := l\<rparr>);
       w \<leftarrow> gos_send os (sender msg) (gui_message 40 window_id) w;
       Some (s, w)
     })"

definition gui_close_window :: "message \<Rightarrow> gui \<Rightarrow> gui option" where
  "gui_close_window msg s =
     do { l \<leftarrow> remove_window (arg1 msg) (layout s); mark_all_dirty (s\<lparr>layout := l\<rparr>) }"

definition gui_handle ::
  "layout_ops \<Rightarrow> 'w gui_os \<Rightarrow> message \<Rightarrow> gui \<times> 'w \<Rightarrow> (gui \<times> 'w) option" where
  "gui_handle ops os msg = (\<lambda>(s, w).
     if msg_type msg = 20 then gui_key ops os (ucast (arg1 msg)) (s, w)
     else if msg_type msg = 30 then gui_mouse ops os msg (s, w)
     else if msg_type msg = 40 then gui_create_window ops os msg (s, w)
     else if msg_type msg = 41 then map_option (\<lambda>s. (s, w)) (gui_close_window msg s)
     else Some (s, w))"

subsection \<open>The loop\<close>

text \<open>The drain of pending messages; it goes on as long as there are any, so it takes fuel.\<close>

fun gui_drain :: "nat \<Rightarrow> layout_ops \<Rightarrow> 'w gui_os \<Rightarrow> gui \<times> 'w \<Rightarrow> (gui \<times> 'w) option" where
  "gui_drain 0 ops os sw = None"
| "gui_drain (Suc fuel) ops os (s, w) =
     do {
       (msg, w) \<leftarrow> gos_try_recv os w;
       case msg of
         None \<Rightarrow> Some (s, w)
       | Some msg \<Rightarrow> gui_handle ops os msg (s, w) \<bind> gui_drain fuel ops os
     }"

text \<open>Steps 2 to 4: everything is marked, drawn, and handed over.\<close>

definition gui_render :: "font \<Rightarrow> nat \<Rightarrow> gui \<Rightarrow> (blit_request option \<times> gui) option" where
  "gui_render font buffer_ptr s =
     do {
       s \<leftarrow> mark_all_dirty s;
       c \<leftarrow> composite font (layout s) (mouse_x s) (mouse_y s) (desktop s);
       (req, c) \<leftarrow> blit_dirty buffer_ptr c;
       Some (req, s\<lparr>desktop := c\<rparr>)
     }"

definition gui_round ::
  "nat \<Rightarrow> font \<Rightarrow> layout_ops \<Rightarrow> 'w gui_os \<Rightarrow> nat \<Rightarrow> gui \<times> 'w \<Rightarrow> (gui \<times> 'w) option" where
  "gui_round fuel font ops os buffer_ptr sw =
     do {
       (s, w) \<leftarrow> gui_drain fuel ops os sw;
       (req, s) \<leftarrow> gui_render font buffer_ptr s;
       w \<leftarrow> (case req of None \<Rightarrow> Some w | Some r \<Rightarrow> gos_blit os r (back_buffer (desktop s)) w);
       w \<leftarrow> gos_yield os w;
       Some (s, w)
     }"

subsection \<open>The mouse stays on the screen\<close>

definition mouse_ok :: "gui \<Rightarrow> bool" where
  "mouse_ok s \<longleftrightarrow> mouse_x s < gui_width s \<and> mouse_y s < gui_height s \<and>
     comp_w (desktop s) = gui_width s \<and> comp_h (desktop s) = gui_height s"

definition same_size :: "gui \<Rightarrow> gui \<Rightarrow> bool" where
  "same_size s s' \<longleftrightarrow> gui_width s' = gui_width s \<and> gui_height s' = gui_height s"

lemma mark_all_dirty_mouse:
  "mark_all_dirty (s\<lparr>layout := l\<rparr>) = Some s' \<Longrightarrow> mouse_ok s \<Longrightarrow> mouse_ok s' \<and> same_size s s'"
  "mark_all_dirty s = Some s' \<Longrightarrow> mouse_ok s \<Longrightarrow> mouse_ok s' \<and> same_size s s'"
  using mark_dirty_grows by (auto simp: mark_all_dirty_def mouse_ok_def same_size_def)

lemma clamp_to_less: "clamp_to len n = Some k \<Longrightarrow> k < len"
  by (auto simp: clamp_to_def isize_ok_def as_isize_def bind_eq_Some_conv split: if_splits)

lemma move_mouse_ok: "move_mouse dx dy s = Some s' \<Longrightarrow> mouse_ok s \<Longrightarrow> mouse_ok s' \<and> same_size s s'"
  using mark_dirty_grows clamp_to_less
  by (fastforce simp: move_mouse_def mouse_ok_def same_size_def bind_eq_Some_conv)

lemma click_windows_ok: "click_windows ops is s = Some s' \<Longrightarrow> mouse_ok s \<Longrightarrow> mouse_ok s' \<and> same_size s s'"
proof (induction ops "is" s rule: click_windows.induct)
  case (1 ops s)
  then show ?case by (simp add: same_size_def)
next
  case (2 ops i "is" s)
  show ?case
  proof (cases "get_window ops i (layout s)")
    case None
    with 2 show ?thesis by simp
  next
    case (Some win)
    with 2 mark_all_dirty_mouse(1)[where s = s] show ?thesis
      by (auto simp: bind_eq_Some_conv split: if_splits)
  qed
qed

lemma gui_handle_mouse:
  assumes "gui_handle ops os msg (s, w) = Some (s', w')" and "mouse_ok s"
  shows "mouse_ok s' \<and> same_size s s'"
proof -
  have key: "mouse_ok s' \<and> same_size s s'" if "gui_key ops os c (s, w) = Some (s', w')" for c
    using that assms(2) mark_all_dirty_mouse(1)[where s = s]
    by (auto simp: gui_key_def same_size_def bind_eq_Some_conv split: if_splits option.splits)
  have mouse: "mouse_ok s' \<and> same_size s s'" if g: "gui_mouse ops os msg (s, w) = Some (s', w')"
  proof -
    obtain s1 where s1: "move_mouse (sint (arg1 msg)) (sint (arg2 msg)) s = Some s1"
      using g by (auto simp: gui_mouse_def bind_eq_Some_conv)
    note m = move_mouse_ok[OF s1 assms(2)]
    have "mouse_ok s' \<and> same_size s1 s'"
      using g s1 m mark_all_dirty_mouse(2)[of s1] click_windows_ok[of ops _ s1 s']
      by (auto simp: gui_mouse_def click_dock_def same_size_def bind_eq_Some_conv split: if_splits)
    with m show ?thesis by (simp add: same_size_def)
  qed
  have create: "mouse_ok s' \<and> same_size s s'" if "gui_create_window ops os msg (s, w) = Some (s', w')"
    using that assms(2) mark_all_dirty_mouse(1)[where s = s]
    by (auto simp: gui_create_window_def bind_eq_Some_conv)
  have close: "mouse_ok s' \<and> same_size s s'" if "gui_close_window msg s = Some s'"
    using that assms(2) mark_all_dirty_mouse(1)[where s = s] by (auto simp: gui_close_window_def bind_eq_Some_conv)
  show ?thesis
    using assms key mouse create close
    by (auto simp: gui_handle_def same_size_def split: if_splits)
qed

lemma gui_drain_mouse:
  "gui_drain fuel ops os (s, w) = Some (s', w') \<Longrightarrow> mouse_ok s \<Longrightarrow> mouse_ok s' \<and> same_size s s'"
proof (induction fuel arbitrary: s w)
  case (Suc fuel)
  obtain msg w1 where recv: "gos_try_recv os w = Some (msg, w1)"
    using Suc.prems(1) by (auto simp: bind_eq_Some_conv)
  show ?case
  proof (cases msg)
    case None
    with recv Suc.prems show ?thesis by (simp add: same_size_def)
  next
    case (Some m)
    with recv Suc.prems(1) obtain s1 w2 where h: "gui_handle ops os m (s, w1) = Some (s1, w2)"
      "gui_drain fuel ops os (s1, w2) = Some (s', w')"
      by (auto simp: bind_eq_Some_conv)
    from gui_handle_mouse[OF h(1) Suc.prems(2)] Suc.IH[OF h(2)] show ?thesis
      by (simp add: same_size_def)
  qed
qed simp

lemma gui_render_mouse: "gui_render font p s = Some (req, s') \<Longrightarrow> mouse_ok s \<Longrightarrow> mouse_ok s' \<and> same_size s s'"
  using mark_all_dirty_mouse(2)[of s]
  by (auto simp: gui_render_def composite_def blit_dirty_def mouse_ok_def same_size_def Let_def bind_eq_Some_conv
      split: if_splits)

text \<open>The states of the server at the end of a round, from its start on.\<close>

inductive gui_reachable :: "font \<Rightarrow> layout_ops \<Rightarrow> 'w gui_os \<Rightarrow> nat \<Rightarrow> nat \<Rightarrow> nat \<Rightarrow> gui \<Rightarrow> bool"
  for font ops os p width height where
  gui_starts: "gui_start width height = Some s \<Longrightarrow> gui_reachable font ops os p width height s"
| gui_rounds: "gui_reachable font ops os p width height s \<Longrightarrow>
    gui_round fuel font ops os p (s, w) = Some (s', w') \<Longrightarrow> gui_reachable font ops os p width height s'"

lemma gui_start_mouse: "gui_start width height = Some s \<Longrightarrow> 0 < width \<Longrightarrow> 0 < height \<Longrightarrow>
    mouse_ok s \<and> gui_width s = width \<and> gui_height s = height"
  using mark_dirty_grows by (fastforce simp: gui_start_def mouse_ok_def compositor_new_def bind_eq_Some_conv)

lemma gui_reachable_mouse:
  assumes "gui_reachable font ops os p width height s" and "0 < width" and "0 < height"
  shows "mouse_ok s \<and> gui_width s = width \<and> gui_height s = height"
  using assms(1)
proof induction
  case (gui_starts s)
  with gui_start_mouse assms(2,3) show ?case by blast
next
  case (gui_rounds s fuel w s' w')
  obtain s1 w1 req s2 where "gui_drain fuel ops os (s, w) = Some (s1, w1)" "gui_render font p s1 = Some (req, s2)" "s' = s2"
    using gui_rounds(2) by (auto simp: gui_round_def bind_eq_Some_conv)
  with gui_drain_mouse gui_render_mouse gui_rounds(3) show ?case by (metis same_size_def)
qed

lemma clamp_to_eq:
  assumes "0 < len" "len \<le> 2 ^ 31"
  shows "clamp_to len n = Some (nat (max 0 (min n (int len - 1))))"
  using assms by (simp add: clamp_to_def as_isize_small isize_small)

lemma move_mouse_spec:
  assumes ok: "mouse_ok s" and dims: "gui_width s \<le> 2 ^ 31" "gui_height s \<le> 2 ^ 31"
    and d: "\<bar>dx\<bar> \<le> 2 ^ 32" "\<bar>dy\<bar> \<le> 2 ^ 32"
  shows "\<exists>s'. move_mouse dx dy s = Some s' \<and>
    int (mouse_x s') = max 0 (min (int (mouse_x s) + dx) (int (gui_width s) - 1)) \<and>
    int (mouse_y s') = max 0 (min (int (mouse_y s) - dy) (int (gui_height s) - 1)) \<and>
    (\<forall>px py. px < gui_width s \<longrightarrow> py < gui_height s \<longrightarrow>
       in_rect (mouse_x s) (mouse_y s) 20 20 px py \<or> in_rect (mouse_x s') (mouse_y s') 20 20 px py \<longrightarrow>
       dirty (desktop s') px py)"
proof -
  let ?x = "nat (max 0 (min (int (mouse_x s) + dx) (int (gui_width s) - 1)))"
  let ?y = "nat (max 0 (min (int (mouse_y s) - dy) (int (gui_height s) - 1)))"
  have m: "mouse_x s < 2 ^ 31" "mouse_y s < 2 ^ 31" "0 < gui_width s" "0 < gui_height s"
    using ok dims by (simp_all add: mouse_ok_def)
  have new: "isize_ok (as_isize (mouse_x s) + dx) = Some (int (mouse_x s) + dx)"
    "isize_ok (as_isize (mouse_y s) - dy) = Some (int (mouse_y s) - dy)"
    using m d by (simp_all add: as_isize_small isize_small)
  have xy: "?x < 2 ^ 31" "?y < 2 ^ 31" using m dims by simp_all
  have marks: "\<exists>c'. mark_dirty x y 20 20 c = Some c'" if "x < 2 ^ 31" "y < 2 ^ 31" for x y c
    using that by (simp add: mark_dirty_def checked usize_bound_def Let_def)
  obtain c1 where c1: "mark_dirty (mouse_x s) (mouse_y s) 20 20 (desktop s) = Some c1"
    using marks m by blast
  obtain c2 where c2: "mark_dirty ?x ?y 20 20 c1 = Some c2" using marks xy by blast
  have "move_mouse dx dy s = Some (s\<lparr>mouse_x := ?x, mouse_y := ?y, desktop := c2\<rparr>)"
    using c1 c2 by (simp add: move_mouse_def new clamp_to_eq[OF m(3) dims(1)] clamp_to_eq[OF m(4) dims(2)])
  moreover have "dirty c2 px py" if "px < gui_width s" "py < gui_height s"
      "in_rect (mouse_x s) (mouse_y s) 20 20 px py \<or> in_rect ?x ?y 20 20 px py" for px py
    using mark_dirty_grows[OF c1] mark_dirty_grows[OF c2] that ok by (auto simp: mouse_ok_def)
  ultimately show ?thesis using m(3,4) by auto
qed

text \<open>
  The dock of the compositor and the one the server tests clicks against differ: the pixels of
  the demo's icon, the fifth, lie right of all columns a click on which starts the demo.
\<close>

lemma nyan_icon_missed:
  assumes "290 \<le> width" and "width \<le> 2 ^ 20"
    and "get_dock_rect m = Some (dx, dy, dw, dh)" and "screen_w m = width"
  shows "width div 2 + 40 \<le> dx + (dw - 250) div 2 + 4 * 50"
proof -
  have "dw = min 450 (width - 40)" "dx = (width - dw) div 2"
    using assms(3,4) by (auto simp: get_dock_rect_def checked Let_def bind_eq_Some_conv)
  then show ?thesis using assms(1) by linarith
qed

subsection \<open>A round shows the desktop\<close>

definition gui_ok :: "gui \<Rightarrow> bool" where
  "gui_ok s \<longleftrightarrow> mouse_ok s \<and> comp_ok (desktop s)"

text \<open>The layout is one that \<open>recalculate\<close> has placed on the server's screen.\<close>

definition laid_out :: "gui \<Rightarrow> bool" where
  "laid_out s \<longleftrightarrow> (\<exists>m. screen_ok m \<and> recalculate m = Some (layout s)) \<and> dock_h (layout s) = 60 \<and>
     screen_w (layout s) = gui_width s \<and> screen_h (layout s) = gui_height s"

definition desktop_size :: "nat \<Rightarrow> nat \<Rightarrow> bool" where
  "desktop_size width height \<longleftrightarrow> 290 \<le> width \<and> width \<le> 2 ^ 20 \<and> 60 \<le> height \<and> height \<le> 2 ^ 20"

lemma mark_whole:
  assumes "comp_ok c" "comp_w c \<le> 2 ^ 20" "comp_h c \<le> 2 ^ 20"
  shows "\<exists>c'. mark_dirty 0 0 (comp_w c) (comp_h c) c = Some c' \<and> comp_ok c' \<and> comp_w c' = comp_w c \<and>
    comp_h c' = comp_h c \<and> back_buffer c' = back_buffer c \<and>
    (\<forall>px py. dirty c' px py \<longleftrightarrow> px < comp_w c \<and> py < comp_h c)"
  using assms by (auto simp: mark_dirty_def checked usize_bound_def comp_ok_def dirty_def Let_def)

lemma laid_out_drawable:
  assumes "laid_out s" "desktop_size (gui_width s) (gui_height s)" "w \<in> set (windows (layout s))"
  shows "drawable (gui_width s) w"
proof -
  obtain m where m: "screen_ok m" "recalculate m = Some (layout s)" using assms(1) by (auto simp: laid_out_def)
  have dims: "screen_w m = gui_width s" "screen_h m = gui_height s" "dock_h m = 60"
    using recalculate_ids[OF m] assms(1) by (auto simp: laid_out_def)
  show ?thesis
    using recalculate_area[OF m _ assms(3)] dims assms(2)
    by (auto simp: drawable_def in_work_area_def desktop_size_def)
qed

lemma gui_render_spec:
  assumes ok: "gui_ok s" "laid_out s" "font_ok font" and dims: "desktop_size (gui_width s) (gui_height s)"
  shows "\<exists>req s' c b b'. gui_render font p s = Some (Some req, s') \<and> comp_ok c \<and>
    comp_w c = gui_width s \<and> comp_h c = gui_height s \<and> (\<forall>px py. dirty c px py \<longleftrightarrow> px < gui_width s \<and> py < gui_height s) \<and>
    blit_dirty p (c\<lparr>back_buffer := b'\<rparr>) = Some (Some req, desktop s') \<and> length b' = length (back_buffer c) \<and>
    draw_mouse_cursor (gui_width s) (mouse_x s) (mouse_y s) b = Some b' \<and> length b = gui_width s * gui_height s \<and>
    s' = s\<lparr>desktop := desktop s'\<rparr>"
proof -
  have sizes: "comp_w (desktop s) = gui_width s" "comp_h (desktop s) = gui_height s" "comp_ok (desktop s)"
    "mouse_x s < gui_width s" "mouse_y s < gui_height s" using ok(1) by (simp_all add: gui_ok_def mouse_ok_def)
  have d: "290 \<le> gui_width s" "gui_width s \<le> 2 ^ 20" "60 \<le> gui_height s" "gui_height s \<le> 2 ^ 20"
    using dims by (simp_all add: desktop_size_def)
  obtain c where c: "mark_dirty 0 0 (gui_width s) (gui_height s) (desktop s) = Some c" "comp_ok c"
    "comp_w c = gui_width s" "comp_h c = gui_height s"
    and whole: "\<forall>px py. dirty c px py \<longleftrightarrow> px < gui_width s \<and> py < gui_height s"
    using mark_whole[OF sizes(3)] d sizes by auto
  have len: "length (back_buffer c) = gui_width s * gui_height s" using c(2-4) by (simp add: comp_ok_def)
  have lay: "screen_w (layout s) = gui_width s" "screen_h (layout s) = gui_height s" "dock_h (layout s) = 60"
    using ok(2) by (simp_all add: laid_out_def)
  obtain b b' where b: "composite font (layout s) (mouse_x s) (mouse_y s) c = Some (c\<lparr>back_buffer := b'\<rparr>)"
    "draw_mouse_cursor (gui_width s) (mouse_x s) (mouse_y s) b = Some b'" "length b = gui_width s * gui_height s"
    "length b' = gui_width s * gui_height s"
    using composite_frame[OF ok(3), of "layout s" c "mouse_x s" "mouse_y s"] laid_out_drawable[OF ok(2) dims]
      lay c(3,4) d sizes(4,5) len by auto
  have "dirty c 0 0" using whole sizes(4,5) by simp
  then have "dirty_x0 c < dirty_x1 c" "dirty_y0 c < dirty_y1 c" by (simp_all add: dirty_def)
  then obtain req c2 where req: "blit_dirty p (c\<lparr>back_buffer := b'\<rparr>) = Some (Some req, c2)"
    by (auto simp: blit_dirty_def checked Let_def)
  have "gui_render font p s = Some (Some req, s\<lparr>desktop := c2\<rparr>)"
    using c(1) b(1) req by (simp add: gui_render_def mark_all_dirty_def)
  then show ?thesis
    using c whole b req len by (intro exI[of _ req] exI[of _ "s\<lparr>desktop := c2\<rparr>"] exI[of _ c] exI[of _ b] exI[of _ b']) simp
qed

text \<open>The server starts in such a state.\<close>

lemma add_window_placed:
  assumes "screen_w m < 2 ^ 32" "screen_h m < 2 ^ 32" "length (windows m) < 2 ^ 32"
    and "room_for (length (windows m) + 1) m" and "wid \<notin> win_id ` set (windows m)"
  shows "\<exists>l. add_window wid m = Some l \<and> (\<exists>m0. screen_ok m0 \<and> recalculate m0 = Some l) \<and>
    map win_id (windows l) = map win_id (windows m) @ [wid] \<and> screen_w l = screen_w m \<and>
    screen_h l = screen_h m \<and> dock_h l = dock_h m"
proof -
  let ?m = "m\<lparr>windows := windows m @ [\<lparr>win_id = wid, win_x = 0, win_y = 0, win_w = 0, win_h = 0\<rparr>]\<rparr>"
  have ok: "screen_ok ?m" using assms(1-3) by (simp add: screen_ok_def usize_bound_def)
  have "room_for n ?m = room_for n m" for n by (simp add: room_for_def)
  then have room: "room_for (length (windows ?m)) ?m" using assms(4) by simp
  obtain l where l: "recalculate ?m = Some l" using recalculate_room[OF ok room] by blast
  have "\<not> list_ex (\<lambda>w. win_id w = wid) (windows m)" using assms(5) by (auto simp: list_ex_iff)
  then have "add_window wid m = Some l" using l by (simp add: add_window_def)
  with ok l recalculate_ids[OF ok l] show ?thesis by auto
qed

lemma gui_start_ok:
  assumes dims: "desktop_size width height" and "90 \<le> height"
  shows "\<exists>s. gui_start width height = Some s \<and> gui_ok s \<and> laid_out s \<and> gui_width s = width \<and>
    gui_height s = height \<and> map win_id (windows (layout s)) = [1, 2, 3]"
proof -
  have d: "290 \<le> width" "width \<le> 2 ^ 20" "60 \<le> height" "height \<le> 2 ^ 20" using dims by (simp_all add: desktop_size_def)
  have area: "width * height \<le> 2 ^ 20 * 2 ^ 20" using d by (intro mult_le_mono)
  have h: "20 \<le> height - 60" "10 \<le> height - 60 - 20" "15 \<le> width div 2" using d assms(2) by simp_all
  let ?m = "layout_new width height"
  have "room_for (length (windows ?m) + 1) ?m" using d h by (simp add: layout_new_def room_for_def)
  then obtain l1 where l1: "add_window 1 ?m = Some l1" "map win_id (windows l1) = [1]" "screen_w l1 = width"
      "screen_h l1 = height" "dock_h l1 = 60"
    using add_window_placed[of ?m 1] d by (auto simp: layout_new_def)
  have n1: "length (windows l1) = 1" "win_id ` set (windows l1) = {1}"
    using arg_cong[OF l1(2), of length] arg_cong[OF l1(2), of set] by simp_all
  have "room_for (length (windows l1) + 1) l1" using d h l1 n1 by (simp add: room_for_def)
  then obtain l2 where l2: "add_window 2 l1 = Some l2" "map win_id (windows l2) = [1, 2]" "screen_w l2 = width"
      "screen_h l2 = height" "dock_h l2 = 60"
    using add_window_placed[of l1 2] d l1 n1 by auto
  have n2: "length (windows l2) = 2" "win_id ` set (windows l2) = {1, 2}"
    using arg_cong[OF l2(2), of length] arg_cong[OF l2(2), of set] by simp_all
  have "room_for (length (windows l2) + 1) l2" using d h l2 n2 by (simp add: room_for_def)
  then obtain l3 m0 where l3: "add_window 3 l2 = Some l3" "map win_id (windows l3) = [1, 2, 3]" "screen_w l3 = width"
      "screen_h l3 = height" "dock_h l3 = 60" "screen_ok m0" "recalculate m0 = Some l3"
    using add_window_placed[of l2 3] d l2 n2 by auto
  have c: "umul width height = Some (width * height)" using area by (simp add: checked usize_bound_def)
  let ?c = "\<lparr>comp_w = width, comp_h = height, back_buffer = replicate (width * height) 0,
         dirty_x0 = 0, dirty_y0 = 0, dirty_x1 = width, dirty_y1 = height\<rparr>"
  have "comp_ok ?c" using area d by (simp add: comp_ok_def usize_bound_def)
  then obtain c' where c': "mark_dirty 0 0 width height ?c = Some c'" "comp_ok c'" "comp_w c' = width" "comp_h c' = height"
    using mark_whole[of ?c] d by auto
  have "gui_start width height = Some \<lparr>gui_width = width, gui_height = height, desktop = c', layout = l3,
         mouse_x = width div 2, mouse_y = height div 2\<rparr>"
    using l1(1) l2(1) l3(1) c'(1) by (simp add: gui_start_def compositor_new_def c)
  then show ?thesis
    using c' l3 d by (auto simp: gui_ok_def mouse_ok_def laid_out_def)
qed

text \<open>A memory in which a buffer and, apart from it, a request are found.\<close>

lemma load_u32s_store:
  assumes "i < length b"
  shows "u32_from_le (load (store m p (concat (map u32_to_le b))) (p + 4 * i) 4) = b ! i"
  using assms
proof (induction b arbitrary: m p i)
  case (Cons w b)
  let ?rest = "concat (map u32_to_le b)"
  have split: "store m p (concat (map u32_to_le (w # b))) = store (store m (p + 4) ?rest) p (u32_to_le w)"
    by (rule ext) (auto simp: store_def nth_append byte_simps)
  show ?case
  proof (cases i)
    case 0
    have "load (store m p (concat (map u32_to_le (w # b)))) p 4 = u32_to_le w"
      unfolding split using load_store_same[of "store m (p + 4) ?rest" p "u32_to_le w"] by simp
    with 0 show ?thesis by simp
  next
    case (Suc j)
    have "load (store m p (concat (map u32_to_le (w # b)))) (p + 4 * i) 4 =
        load (store m (p + 4) ?rest) (p + 4 + 4 * j) 4"
      unfolding split using Suc by (subst load_store_other) (simp_all add: algebra_simps)
    then show ?thesis using Cons.IH[of j m "p + 4"] Cons.prems Suc by simp
  qed
qed simp

definition request_words :: "blit_request \<Rightarrow> u64 list" where
  "request_words r = map word_of_nat [buffer_addr r, src_stride r, blit_x r, blit_y r, blit_w r, blit_h r]"

lemma memory_with_request:
  assumes small: "buffer_addr r < usize_bound" "src_stride r < usize_bound" "blit_x r < usize_bound"
      "blit_y r < usize_bound" "blit_w r < usize_bound" "blit_h r < usize_bound"
    and apart: "q + 48 \<le> p \<or> p + 4 * length b \<le> q"
  shows "\<exists>mem. read_blit_request mem q = r \<and> load_u32s mem p (length b) = b"
proof -
  let ?b = "concat (map u32_to_le b)" and ?w = "request_words r"
  let ?m = "store (store (\<lambda>_. 0) q (words_to_le ?w)) p ?b"
  have len: "length ?b = 4 * length b" by (induction b) (simp_all add: byte_simps)
  have "load64 ?m (q + 8 * i) = ?w ! i" if "i < 6" for i
  proof -
    have "load64 ?m (q + 8 * i) = load64 (store (\<lambda>_. 0) q (words_to_le ?w)) (q + 8 * i)"
      using apart that len by (intro load64_store_other) auto
    then show ?thesis using that load64_words[of i ?w "\<lambda>_. 0" q] by (simp add: request_words_def)
  qed
  from this[of 0] this[of 1] this[of 2] this[of 3] this[of 4] this[of 5]
  have "read_blit_request ?m q = r"
    using small by (simp add: read_blit_request_def request_words_def unat_of_nat usize_bound_def)
  moreover have "load_u32s ?m p (length b) = b"
    by (rule nth_equalityI) (simp_all add: load_u32s_def load_u32s_store)
  ultimately show ?thesis by blast
qed

subsection \<open>Properties\<close>

text \<open>
  C22: However the server is used, whatever the layout operations it lacks and its clients do, at
  the end of every round the mouse is on the screen. From there a movement puts it where the
  packet says, clamped to the screen (up is a smaller row), and marks the places of the old and
  of the new cursor dirty.
\<close>

theorem mouse_stays_on_screen:
  assumes "gui_reachable font ops os p width height s"
    and "0 < width" and "width \<le> 2 ^ 31" and "0 < height" and "height \<le> 2 ^ 31"
    and "\<bar>dx\<bar> \<le> 2 ^ 32" and "\<bar>dy\<bar> \<le> 2 ^ 32"
  shows "mouse_x s < width \<and> mouse_y s < height \<and>
    (\<exists>s'. move_mouse dx dy s = Some s' \<and>
       int (mouse_x s') = max 0 (min (int (mouse_x s) + dx) (int width - 1)) \<and>
       int (mouse_y s') = max 0 (min (int (mouse_y s) - dy) (int height - 1)) \<and>
       (\<forall>px py. px < width \<longrightarrow> py < height \<longrightarrow>
          in_rect (mouse_x s) (mouse_y s) 20 20 px py \<or> in_rect (mouse_x s') (mouse_y s') 20 20 px py \<longrightarrow>
          dirty (desktop s') px py))"
proof -
  have s: "mouse_ok s" "gui_width s = width" "gui_height s = height"
    using gui_reachable_mouse[OF assms(1,2,4)] by simp_all
  from move_mouse_spec[OF s(1), of dx dy] s assms(3,5-7) show ?thesis
    by (simp add: mouse_ok_def)
qed

text \<open>What a round leaves, and what the kernel shows of it.\<close>

lemma rendered_ok:
  assumes "gui_ok s" and "comp_ok c" "comp_w c = gui_width s" "comp_h c = gui_height s"
    and "length b' = length (back_buffer c)"
    and req: "blit_dirty p (c\<lparr>back_buffer := b'\<rparr>) = Some (Some req, desktop s')" and s': "s' = s\<lparr>desktop := desktop s'\<rparr>"
  shows "gui_ok s'" and "back_buffer (desktop s') = b'"
proof -
  have d: "desktop s' = c\<lparr>back_buffer := b', dirty_x0 := comp_w c, dirty_y0 := comp_h c, dirty_x1 := 0, dirty_y1 := 0\<rparr>"
    using req by (simp add: blit_dirty_request)
  then show "back_buffer (desktop s') = b'" by simp
  have "comp_ok (desktop s')" "comp_w (desktop s') = gui_width s" "comp_h (desktop s') = gui_height s"
    using d assms(2-5) by (simp_all add: comp_ok_def)
  moreover have "mouse_x s' = mouse_x s" "mouse_y s' = mouse_y s" "gui_width s' = gui_width s" "gui_height s' = gui_height s"
    by (subst s', simp)+
  ultimately show "gui_ok s'" using assms(1) by (simp add: gui_ok_def mouse_ok_def)
qed

lemma cursor_on_top:
  assumes "gui_ok s" and "desktop_size (gui_width s) (gui_height s)"
    and cur: "draw_mouse_cursor (gui_width s) (mouse_x s) (mouse_y s) b = Some b'" "length b = gui_width s * gui_height s"
    and at: "row < 16" "col < 16" "mouse_x s + col < gui_width s" "mouse_y s + row < gui_height s"
    and ink: "cursor_ink (cursor_mask ! row ! col) = Some ink"
  shows "b' ! ((mouse_y s + row) * gui_width s + (mouse_x s + col)) = ink"
proof -
  have small: "small_box (gui_width s) (mouse_x s) (mouse_y s) 16 16" "16 \<le> gui_width s"
    using assms(1,2) by (simp_all add: small_box_def desktop_size_def gui_ok_def mouse_ok_def)
  have "Suc (mouse_y s + row) * gui_width s \<le> gui_height s * gui_width s"
    using at(4) by (intro mult_le_mono1) simp
  then have "(mouse_y s + row) * gui_width s + (mouse_x s + col) < gui_width s * gui_height s"
    using at(3) by (simp add: mult.commute)
  with draw_mouse_cursor_spec[OF small cur(2)] cur(1) at(1,2) ink show ?thesis by fastforce
qed

lemma whole_frame_shown:
  assumes ok: "comp_ok c" and whole: "\<forall>px py. dirty c px py \<longleftrightarrow> px < comp_w c \<and> py < comp_h c"
    and req: "blit_dirty p c = Some (Some req, c')"
    and m: "read_blit_request (memory m) (unat q) = req" "load_u32s (memory m) p (comp_w c * comp_h c) = back_buffer c"
      "screen m = Some g" "fb_ok g"
  shows "\<exists>m' g'. handle_syscall font 12 q rsi sp m = Some (Resume sp m') \<and> screen m' = Some g' \<and>
    (\<forall>px py. on_screen (info g) px py \<and> px < comp_w c \<and> py < comp_h c \<longrightarrow>
       pixel_at g' px py = encode_pixel (pixel_format (info g)) (unpack (back_buffer c ! (py * comp_w c + px))))"
  using blit_shows_dirty[OF ok req m, of font rsi sp] whole by fastforce

text \<open>
  C13: A round of the server's loop puts the whole desktop on the screen. On a laid out desktop of
  a sensible size the round draws without a panic and its request covers every pixel; when the
  kernel finds the request and the buffer in memory, call 12 returns with every pixel of the
  desktop that is on the screen in the buffer's colour, and the cursor's own pixels, on top of
  everything, black and white around the mouse.
\<close>

theorem gui_shows_desktop:
  assumes "gui_ok s" and "laid_out s" and "font_ok font" and "desktop_size (gui_width s) (gui_height s)"
  shows "\<exists>req s'. gui_render font p s = Some (Some req, s') \<and> gui_ok s' \<and>
    (\<forall>m g font' q rsi sp. read_blit_request (memory m) (unat q) = req \<and>
       load_u32s (memory m) p (gui_width s * gui_height s) = back_buffer (desktop s') \<and>
       screen m = Some g \<and> fb_ok g \<longrightarrow>
       (\<exists>m' g'. handle_syscall font' 12 q rsi sp m = Some (Resume sp m') \<and> screen m' = Some g' \<and>
          (\<forall>px py. on_screen (info g) px py \<and> px < gui_width s \<and> py < gui_height s \<longrightarrow>
             pixel_at g' px py = encode_pixel (pixel_format (info g))
               (unpack (back_buffer (desktop s') ! (py * gui_width s + px)))) \<and>
          (\<forall>row<16. \<forall>col<16. \<forall>ink. mouse_x s + col < gui_width s \<and> mouse_y s + row < gui_height s \<and>
             on_screen (info g) (mouse_x s + col) (mouse_y s + row) \<and>
             cursor_ink (cursor_mask ! row ! col) = Some ink \<longrightarrow>
             pixel_at g' (mouse_x s + col) (mouse_y s + row) =
               encode_pixel (pixel_format (info g)) (unpack ink))))"
proof -
  let ?W = "gui_width s" and ?H = "gui_height s"
  obtain req s' c b b' where r: "gui_render font p s = Some (Some req, s')" and c: "comp_ok c" "comp_w c = ?W" "comp_h c = ?H"
    and whole: "\<forall>px py. dirty c px py \<longleftrightarrow> px < ?W \<and> py < ?H"
    and req: "blit_dirty p (c\<lparr>back_buffer := b'\<rparr>) = Some (Some req, desktop s')" "length b' = length (back_buffer c)"
    and cur: "draw_mouse_cursor ?W (mouse_x s) (mouse_y s) b = Some b'" "length b = ?W * ?H"
    and s': "s' = s\<lparr>desktop := desktop s'\<rparr>"
    using gui_render_spec[OF assms, of p] by (elim exE conjE) (rule that, assumption+)
  note left = rendered_ok[OF assms(1) c req(2,1) s']
  let ?c = "c\<lparr>back_buffer := b'\<rparr>"
  have ok: "comp_ok ?c" and d: "\<forall>px py. dirty ?c px py \<longleftrightarrow> px < comp_w ?c \<and> py < comp_h ?c"
    using c req(2) whole by (simp_all add: comp_ok_def dirty_def)
  have shown: "\<exists>m' g'. handle_syscall font' 12 q rsi sp m = Some (Resume sp m') \<and> screen m' = Some g' \<and>
      (\<forall>px py. on_screen (info g) px py \<and> px < ?W \<and> py < ?H \<longrightarrow>
         pixel_at g' px py = encode_pixel (pixel_format (info g)) (unpack (b' ! (py * ?W + px)))) \<and>
      (\<forall>row<16. \<forall>col<16. \<forall>ink. mouse_x s + col < ?W \<and> mouse_y s + row < ?H \<and>
         on_screen (info g) (mouse_x s + col) (mouse_y s + row) \<and>
         cursor_ink (cursor_mask ! row ! col) = Some ink \<longrightarrow>
         pixel_at g' (mouse_x s + col) (mouse_y s + row) = encode_pixel (pixel_format (info g)) (unpack ink))"
    if m: "read_blit_request (memory m) (unat q) = req" "load_u32s (memory m) p (?W * ?H) = b'"
      "screen m = Some g" "fb_ok g" for m g font' q rsi sp
  proof -
    obtain m' g' where m': "handle_syscall font' 12 q rsi sp m = Some (Resume sp m')" "screen m' = Some g'"
      and px: "\<forall>px py. on_screen (info g) px py \<and> px < ?W \<and> py < ?H \<longrightarrow>
        pixel_at g' px py = encode_pixel (pixel_format (info g)) (unpack (b' ! (py * ?W + px)))"
      using whole_frame_shown[OF ok d req(1) m(1) _ m(3,4), of font' rsi sp] m(2) c(2,3) by auto
    with cursor_on_top[OF assms(1,4) cur] show ?thesis by fastforce
  qed
  show ?thesis
    by (rule exI[of _ req], rule exI[of _ s'], unfold left(2), intro conjI allI impI r left(1))
      (elim conjE, rule shown, assumption+)
qed

definition idle_layout :: layout_ops where
  "idle_layout = \<lparr>cycle_active_window = Some, active_owner = (\<lambda>_. None), window_count = (\<lambda>_. 0),
     get_window = (\<lambda>_ _. None), toggle_window = (\<lambda>_. Some), set_active = (\<lambda>_. Some),
     add_titled_window = (\<lambda>_ _ _ _ _ _ l. Some (0, l))\<rparr>"

definition quiet_os :: "unit gui_os" where
  "quiet_os = \<lparr>gos_mem = (\<lambda>_ _. 0), gos_try_recv = (\<lambda>_. Some (None, ())), gos_send = (\<lambda>_ _. Some),
     gos_demo = Some, gos_blit = (\<lambda>_ _. Some), gos_yield = Some\<rparr>"

theorem mouse_stays_on_screen_witness:
  "\<exists>s s'. gui_start 320 200 = Some s \<and> move_mouse (- 1000) 7 s = Some s' \<and> mouse_x s' = 0"
proof -
  obtain s where s: "gui_start 320 200 = Some s" using gui_start_ok[of 320 200] by (auto simp: desktop_size_def)
  have r: "gui_reachable (\<lambda>_. None) idle_layout quiet_os 0 320 200 s" by (rule gui_starts[OF s])
  have b: "(0 :: nat) < 320" "(320 :: nat) \<le> 2 ^ 31" "(0 :: nat) < 200" "(200 :: nat) \<le> 2 ^ 31"
    "\<bar>- 1000 :: int\<bar> \<le> 2 ^ 32" "\<bar>7 :: int\<bar> \<le> 2 ^ 32" by simp_all
  from mouse_stays_on_screen[OF r b] obtain s' where "mouse_x s < 320" "move_mouse (- 1000) 7 s = Some s'"
    "int (mouse_x s') = max 0 (min (int (mouse_x s) + - 1000) (int 320 - 1))" by blast
  with s show ?thesis by auto
qed

theorem gui_shows_desktop_witness:
  "\<exists>s req s' m m' g'. gui_start 320 200 = Some s \<and> gui_render (\<lambda>_. None) 0x100000 s = Some (Some req, s') \<and>
     read_blit_request (memory m) 0x1000 = req \<and>
     handle_syscall (\<lambda>_. None) 12 0x1000 0 0x3000 m = Some (Resume 0x3000 m') \<and> screen m' = Some g' \<and>
     pixel_at g' 2 1 = encode_pixel Bgr (unpack (back_buffer (desktop s') ! 322))"
proof -
  have f: "font_ok (\<lambda>_. None)" by (simp add: font_ok_def)
  obtain s where s: "gui_start 320 200 = Some s" "gui_ok s" "laid_out s" "gui_width s = 320" "gui_height s = 200"
    using gui_start_ok[of 320 200] by (auto simp: desktop_size_def)
  have size: "desktop_size (gui_width s) (gui_height s)" using s by (simp add: desktop_size_def)
  let ?p = "0x100000 :: nat"
  from gui_shows_desktop[OF s(2,3) f size, of ?p] obtain req s' where r: "gui_render (\<lambda>_. None) ?p s = Some (Some req, s')"
    and shown: "\<And>m g font' q rsi sp. read_blit_request (memory m) (unat q) = req \<and>
       load_u32s (memory m) ?p (gui_width s * gui_height s) = back_buffer (desktop s') \<and>
       screen m = Some g \<and> fb_ok g \<Longrightarrow>
       \<exists>m' g'. handle_syscall font' 12 q rsi sp m = Some (Resume sp m') \<and> screen m' = Some g' \<and>
          (\<forall>px py. on_screen (info g) px py \<and> px < gui_width s \<and> py < gui_height s \<longrightarrow>
             pixel_at g' px py = encode_pixel (pixel_format (info g))
               (unpack (back_buffer (desktop s') ! (py * gui_width s + px))))"
    by fast
  from gui_render_spec[OF s(2,3) f size, of ?p] obtain c b' where c: "comp_ok c" "comp_w c = 320" "comp_h c = 200"
    and req: "blit_dirty ?p (c\<lparr>back_buffer := b'\<rparr>) = Some (Some req, desktop s')" "length b' = length (back_buffer c)"
    using r s by auto
  have buf: "back_buffer (desktop s') = b'" "length b' = 64000"
    using req c by (simp_all add: blit_dirty_request comp_ok_def)
  have "\<exists>mem. read_blit_request mem 0x1000 = req \<and> load_u32s mem ?p (length b') = b'"
    by (rule memory_with_request)
      (use req(1) c in \<open>auto simp: blit_dirty_request comp_ok_def usize_bound_def\<close>)
  then obtain mem where mem: "read_blit_request mem 0x1000 = req" "load_u32s mem ?p 64000 = b'"
    using buf(2) by auto
  let ?m = "demo_machine\<lparr>memory := mem, screen := Some tiny_writer\<rparr>"
  have "read_blit_request (memory ?m) (unat (0x1000 :: u64)) = req" using mem(1) by simp
  moreover have "load_u32s (memory ?m) ?p (gui_width s * gui_height s) = back_buffer (desktop s')"
    using mem(2) s(4,5) buf(1) by simp
  moreover have "screen ?m = Some tiny_writer" by simp
  ultimately obtain m' g' where m': "handle_syscall (\<lambda>_. None) 12 0x1000 0 0x3000 ?m = Some (Resume 0x3000 m')"
    "screen m' = Some g'"
    and px: "\<forall>px py. on_screen (info tiny_writer) px py \<and> px < gui_width s \<and> py < gui_height s \<longrightarrow>
             pixel_at g' px py = encode_pixel (pixel_format (info tiny_writer))
               (unpack (back_buffer (desktop s') ! (py * gui_width s + px)))"
    using shown[of ?m "0x1000" tiny_writer "\<lambda>_. None" 0 "0x3000"] tiny_ok by blast
  have "pixel_at g' 2 1 = encode_pixel Bgr (unpack (back_buffer (desktop s') ! 322))"
    using px[rule_format, of 2 1] tiny_facts s(4,5) by simp
  with s(1) r mem(1) m' show ?thesis
    by (intro exI[of _ s] exI[of _ req] exI[of _ s'] exI[of _ ?m] exI[of _ m'] exI[of _ g']) simp
qed

end
