(* ===== verification/Console.thy ===== *)
theory Console
  imports Gop Decimal
begin

text \<open>
  \<open>println!\<close> and the formats its arguments use (decimal and hexadecimal numbers, padding), on the
  global writer of \<open>Gop\<close>. The lemmas say that lines printed one after the other are one text, and
  that printing never panics while the cursor has room (\<open>console_ok\<close>).
\<close>

subsection \<open>Formats\<close>

definition print_line :: "font \<Rightarrow> nat list \<Rightarrow> writer option \<Rightarrow> writer option option" where
  "print_line font l = print_text font (l @ [0x0A])"

text \<open>A sequence of \<open>println!\<close>s.\<close>

abbreviation say :: "font \<Rightarrow> nat list list \<Rightarrow> writer option \<Rightarrow> writer option option" where
  "say font ls w \<equiv> for_each ls (print_line font) w"

text \<open>\<open>{:#X}\<close>: upper-case hexadecimal with its prefix.\<close>

definition hex_digit :: "nat \<Rightarrow> nat" where
  "hex_digit d = (if d < 10 then 0x30 + d else 0x37 + d)"

fun hex_text :: "nat \<Rightarrow> nat list" where
  "hex_text n = (if n < 16 then [hex_digit n] else hex_text (n div 16) @ [hex_digit (n mod 16)])"

declare hex_text.simps [simp del]

definition hex_prefixed :: "u64 \<Rightarrow> nat list" where
  "hex_prefixed w = text_chars ''0x'' @ hex_text (unat w)"

text \<open>Decimal, \<open>{}\<close>; \<open>Debug\<close> of an \<open>i32\<close>; padding to a width, \<open>{: <n}\<close>.\<close>

definition dec_text :: "nat \<Rightarrow> nat list" where
  "dec_text n = map unat (decimal n)"

definition i32_text :: "u32 \<Rightarrow> nat list" where
  "i32_text w = (if sint w < 0 then 0x2D # dec_text (nat (- sint w)) else dec_text (nat (sint w)))"

definition pad_to :: "nat \<Rightarrow> nat list \<Rightarrow> nat list" where
  "pad_to n l = l @ replicate (n - length l) 0x20"

subsection \<open>Lines are one text\<close>

lemma write_str_append: "write_str font (a @ b) g = write_str font a g \<bind> write_str font b"
proof (induction a arbitrary: g)
  case (Cons c a)
  then show ?case by (cases "write_char font c g") simp_all
qed simp

definition lines_text :: "nat list list \<Rightarrow> nat list" where
  "lines_text ls = concat (map (\<lambda>l. l @ [0x0A]) ls)"

lemma print_lines: "for_each ls (print_line font) (Some g) = map_option Some (write_str font (lines_text ls) g)"
proof (induction ls arbitrary: g)
  case (Cons l ls)
  have "write_str font (lines_text (l # ls)) g = write_str font (l @ [0x0A]) g \<bind> write_str font (lines_text ls)"
    using write_str_append[of font "l @ [0x0A]" "lines_text ls" g] by (simp add: lines_text_def)
  with Cons show ?case
    by (cases "write_str font (l @ [0x0A]) g") (simp_all add: print_line_def print_text_def)
qed (simp add: lines_text_def)

lemma print_lines_none: "for_each ls (print_line font) None = Some None"
  by (induction ls) (simp_all add: print_line_def print_text_def)

lemma length_hex_text: "n < 16 ^ Suc k \<Longrightarrow> length (hex_text n) \<le> Suc k"
proof (induction k arbitrary: n)
  case 0
  then show ?case by (simp add: hex_text.simps[of n])
next
  case (Suc k)
  then have "n div 16 < 16 ^ Suc k" by (simp add: div_less_iff_less_mult)
  from Suc.IH[OF this] show ?case by (simp add: hex_text.simps[of n])
qed

lemma hex_prefixed_short: "length (hex_prefixed w) \<le> 18"
proof -
  have "(2 :: nat) ^ 64 = 16 ^ Suc 15" by simp
  then have "unat w < 16 ^ Suc 15" using unat_lt2p[of w] by simp
  from length_hex_text[OF this] show ?thesis by (simp add: hex_prefixed_def)
qed

lemma length_dec_text: "n < usize_bound \<Longrightarrow> length (dec_text n) \<le> 20"
  by (simp add: dec_text_def decimal_fits_20)

lemma length_hex_usize: "n < usize_bound \<Longrightarrow> length (hex_text n) \<le> 16"
  using length_hex_text[of n 15] by (simp add: usize_bound_def)

lemma length_i32_text: "length (i32_text w) \<le> 21"
proof -
  have "nat (- sint w) < usize_bound" "nat (sint w) < usize_bound"
    using sint_greater_eq[of w] sint_less[of w] by (simp_all add: usize_bound_def)
  from this[THEN length_dec_text] show ?thesis by (simp add: i32_text_def)
qed

lemma length_pad_to: "length (pad_to n l) = max n (length l)"
  by (simp add: pad_to_def max_def)

subsection \<open>Room on the screen\<close>

text \<open>The cursor can still move down by \<open>n\<close>: each character moves it down by at most twelve.\<close>

definition console_ok :: "nat \<Rightarrow> writer option \<Rightarrow> bool" where
  "console_ok n w \<longleftrightarrow> (\<forall>g. w = Some g \<longrightarrow> text_ok g \<and> max (y_pos g) 10 + n + 64 < usize_bound)"

definition text_cost :: "nat list list \<Rightarrow> nat" where
  "text_cost ls = 12 * length (lines_text ls)"

lemma text_cost_simps:
  "text_cost [] = 0" "text_cost (l # ls) = 12 * length l + 12 + text_cost ls"
  "text_cost (ls @ ls') = text_cost ls + text_cost ls'"
  by (simp_all add: text_cost_def lines_text_def)

lemma text_cost_bound: "(\<forall>l\<in>set ls. length l \<le> n) \<Longrightarrow> text_cost ls \<le> length ls * (12 * n + 12)"
proof (induction ls)
  case (Cons l ls)
  then have "length l \<le> n" "text_cost ls \<le> length ls * (12 * n + 12)" by simp_all
  then show ?case by (simp add: text_cost_simps(2))
qed (simp add: text_cost_simps)

lemma print_lines_ok:
  assumes "font_ok font" and "console_ok n w" and "text_cost ls \<le> n"
  shows "\<exists>w'. for_each ls (print_line font) w = Some w' \<and> console_ok (n - text_cost ls) w' \<and>
    get_info w' = get_info w"
proof (cases w)
  case None
  then show ?thesis by (simp add: print_lines_none console_ok_def get_info_def)
next
  case (Some g)
  with assms(2,3) have g: "text_ok g" "max (y_pos g) 10 + 12 * length (lines_text ls) + 64 < usize_bound"
    "max (y_pos g) 10 + n + 64 < usize_bound"
    by (auto simp: console_ok_def text_cost_def)
  from write_str_grows[OF g(1) assms(1) g(2)] obtain g' where
    g': "write_str font (lines_text ls) g = Some g'" "text_ok g'"
    "max (y_pos g') 10 \<le> max (y_pos g) 10 + text_cost ls" "info g' = info g"
    by (auto simp: text_cost_def)
  have "max (y_pos g') 10 + (n - text_cost ls) + 64 < usize_bound"
    using g'(3) g(3) assms(3) by linarith
  with g' show ?thesis using Some by (simp add: print_lines console_ok_def get_info_def)
qed

text \<open>
  In units of \<open>2 ^ 20\<close>, which one message stays below, on a screen of the geometry \<open>i\<close>, if any.
\<close>

definition room :: "frame_buffer_info option \<Rightarrow> nat \<Rightarrow> writer option \<Rightarrow> bool" where
  "room i k w \<longleftrightarrow> console_ok (k * 2 ^ 20) w \<and> get_info w = i"

lemma console_ok_less: "console_ok n w \<Longrightarrow> k \<le> n \<Longrightarrow> console_ok k w"
  by (fastforce simp: console_ok_def)

lemma room_less: "room i k w \<Longrightarrow> j \<le> k \<Longrightarrow> room i j w"
  unfolding room_def using console_ok_less[of "k * 2 ^ 20" w "j * 2 ^ 20"] by simp

lemma say_ok:
  assumes "font_ok font" and "room i k w" and "0 < k" and "text_cost ls \<le> 2 ^ 20"
  shows "\<exists>w'. say font ls w = Some w' \<and> room i (k - 1) w'"
proof -
  obtain j where k: "k = Suc j" using assms(3) by (cases k) auto
  have "text_cost ls \<le> k * 2 ^ 20" using assms(4) k by simp
  with assms(1,2) print_lines_ok obtain w' where w': "say font ls w = Some w'"
    "console_ok (k * 2 ^ 20 - text_cost ls) w'" "get_info w' = get_info w"
    unfolding room_def by blast
  moreover have "(k - 1) * 2 ^ 20 \<le> k * 2 ^ 20 - text_cost ls" using assms(4) k by simp
  ultimately show ?thesis using assms(2) console_ok_less by (fastforce simp: room_def)
qed

lemma say_single: "say font [l] w = print_line font l w"
  by (cases "print_line font l w") simp_all

lemma print_line_ok:
  assumes "font_ok font" and "room i k w" and "0 < k" and "length l \<le> 80000"
  shows "\<exists>w'. print_line font l w = Some w' \<and> room i (k - 1) w'"
proof -
  have "text_cost [l] \<le> 2 ^ 20" using assms(4) by (simp add: text_cost_simps)
  from say_ok[OF assms(1-3) this] show ?thesis unfolding say_single .
qed

text \<open>Three messages with work in between, as boot prints them.\<close>

lemma messages_ok:
  assumes font: "font_ok font" and w: "room i k w" "3 \<le> k"
    and "length l1 \<le> 80000" "text_cost ls \<le> 2 ^ 20" "text_cost ls' \<le> 2 ^ 20"
  shows "\<exists>w1 w2 w3. print_line font l1 w = Some w1 \<and> say font ls w1 = Some w2 \<and>
    say font ls' w2 = Some w3 \<and> room i (k - 3) w3"
proof -
  have k: "0 < k" "0 < k - 1" "0 < k - 1 - 1" "k - 1 - 1 - 1 = k - 3" using w(2) by simp_all
  from print_line_ok[OF font w(1) k(1) assms(4)] obtain w1 where
    w1: "print_line font l1 w = Some w1" "room i (k - 1) w1" by blast
  from say_ok[OF font w1(2) k(2) assms(5)] obtain w2 where
    w2: "say font ls w1 = Some w2" "room i (k - 1 - 1) w2" by blast
  from say_ok[OF font w2(2) k(3) assms(6)] w1 w2 k(4) show ?thesis by metis
qed

end
