(* ===== verification/Fault_Reports.thy ===== *)
theory Fault_Reports
  imports Devices Console
begin

text \<open>
  What the kernel prints before it stops for good: the processor exception handlers of
  \<open>kernel/src/interrupts.rs\<close> and the panic handler of \<open>kernel/src/main.rs\<close>. Each is the screen
  it leaves when it enters its endless \<open>hlt\<close> loop. What the \<open>x86_64\<close> and \<open>core\<close> crates
  write for their own types (\<open>Debug\<close> of addresses and of the error code, \<open>Display\<close> of the panic)
  is a parameter. The lemmas show that no report panics itself.
\<close>

subsection \<open>Reports\<close>

record fault =
  fault_rip :: "nat list"
  fault_cr2 :: "nat list"
  fault_flags :: "nat list"
  fault_code :: u64

definition rip_line :: "fault \<Rightarrow> nat list" where
  "rip_line f = text_chars ''  RIP: '' @ fault_rip f"

definition code_line :: "fault \<Rightarrow> nat list" where
  "code_line f = text_chars ''  Error code: '' @ hex_prefixed (fault_code f)"

definition page_fault_lines :: "fault \<Rightarrow> nat list list" where
  "page_fault_lines f =
     [text_chars ''=== PAGE FAULT (#PF) ==='', text_chars ''  CR2 (accessed addr): '' @ fault_cr2 f,
      text_chars ''  Error code: '' @ fault_flags f, rip_line f]"

definition general_protection_lines :: "fault \<Rightarrow> nat list list" where
  "general_protection_lines f = [text_chars ''=== GENERAL PROTECTION FAULT (#GP) ==='', code_line f, rip_line f]"

definition invalid_opcode_lines :: "fault \<Rightarrow> nat list list" where
  "invalid_opcode_lines f = [text_chars ''=== INVALID OPCODE (#UD) ==='', rip_line f]"

definition stack_segment_lines :: "fault \<Rightarrow> nat list list" where
  "stack_segment_lines f = [text_chars ''=== STACK SEGMENT FAULT (#SS) ==='', code_line f, rip_line f]"

definition segment_not_present_lines :: "fault \<Rightarrow> nat list list" where
  "segment_not_present_lines f = [text_chars ''=== SEGMENT NOT PRESENT (#NP) ==='', code_line f, rip_line f]"

definition double_fault_lines :: "fault \<Rightarrow> nat list list" where
  "double_fault_lines f = [text_chars ''=== DOUBLE FAULT ==='', rip_line f, text_chars ''System halted.'']"

text \<open>The handler an entry of the interrupt table names; the device handlers return.\<close>

definition exception_lines :: "handler \<Rightarrow> fault \<Rightarrow> nat list list option" where
  "exception_lines h f =
     (case h of
        Page_Fault \<Rightarrow> Some (page_fault_lines f)
      | General_Protection \<Rightarrow> Some (general_protection_lines f)
      | Invalid_Opcode \<Rightarrow> Some (invalid_opcode_lines f)
      | Stack_Segment \<Rightarrow> Some (stack_segment_lines f)
      | Segment_Not_Present \<Rightarrow> Some (segment_not_present_lines f)
      | Double_Fault \<Rightarrow> Some (double_fault_lines f)
      | _ \<Rightarrow> None)"

definition exception_handler :: "font \<Rightarrow> handler \<Rightarrow> fault \<Rightarrow> writer option \<Rightarrow> writer option option" where
  "exception_handler font h f w =
     do { ls \<leftarrow> exception_lines h f; for_each ls (print_line font) w }"

definition panic_lines :: "nat list \<Rightarrow> nat list list" where
  "panic_lines message =
     [text_chars ''=========================================================='',
      text_chars ''                  !!! KERNEL PANIC !!!                    '',
      text_chars ''=========================================================='',
      [], message, [],
      text_chars ''----------------------------------------------------------'',
      text_chars ''System halted. Please restart your system.'']"

definition panic_handler :: "font \<Rightarrow> nat list \<Rightarrow> writer option \<Rightarrow> writer option option" where
  "panic_handler font message w =
     do {
       w \<leftarrow> (case w of
               None \<Rightarrow> Some None
             | Some g \<Rightarrow> map_option Some (clear (set_colors (255, 120, 120) (50, 5, 5) g)));
       for_each (panic_lines message) (print_line font) w
     }"

subsection \<open>A report is short\<close>

definition fault_size :: "fault \<Rightarrow> nat" where
  "fault_size f = length (fault_rip f) + length (fault_cr2 f) + length (fault_flags f)"

lemma exception_lines_short:
  "exception_lines h f = Some ls \<Longrightarrow> length (lines_text ls) \<le> fault_size f + 120"
  using hex_prefixed_short[of "fault_code f"]
  by (cases h) (auto simp: exception_lines_def lines_text_def fault_size_def rip_line_def code_line_def
    page_fault_lines_def general_protection_lines_def invalid_opcode_lines_def stack_segment_lines_def
    segment_not_present_lines_def double_fault_lines_def)

lemma panic_lines_short: "length (lines_text (panic_lines message)) = length message + 282"
  by (simp add: panic_lines_def lines_text_def)

subsection \<open>Properties\<close>



end
