(* ===== verification/Allocator.thy ===== *)
theory Allocator
  imports Bytes
begin

text \<open>
  \<open>kernel/src/allocator.rs\<close>: the global heap, a singly linked list of free blocks kept inside
  the free memory itself. A free block at address \<open>a\<close> is a sixteen-byte header (size of the
  rest, address of the next block) followed by that rest; \<open>alloc\<close> is first fit with splitting,
  \<open>dealloc\<close> pushes the block on the front and never merges.

  The invariant \<open>heap_inv\<close> ties the list in memory to the blocks handed out: all regions lie in
  the arena and are pairwise disjoint, and \<open>USED_MEMORY\<close> is the sum of the live sizes.
\<close>

subsection \<open>State and operations\<close>

text \<open>
  \<open>head_next\<close> is \<open>head.next\<close>, zero for null; \<open>head.size\<close> is never read. \<open>used_memory\<close> is
  \<open>USED_MEMORY\<close>.
\<close>

record heap =
  hmem :: mem
  head_next :: nat
  initialized :: bool
  used_memory :: nat

record layout =
  lay_size :: nat
  lay_align :: nat

text \<open>\<open>FreeNode\<close>: \<open>size\<close> at offset 0, \<open>next\<close> at offset 8, sixteen bytes in all.\<close>

definition node_size :: "mem \<Rightarrow> nat \<Rightarrow> nat" where
  "node_size m a = unat (load64 m a)"

definition node_next :: "mem \<Rightarrow> nat \<Rightarrow> nat" where
  "node_next m a = unat (load64 m (a + 8))"

definition write_node :: "mem \<Rightarrow> nat \<Rightarrow> nat \<Rightarrow> nat \<Rightarrow> mem" where
  "write_node m a sz nxt =
     store64 (store64 m a (word_of_nat sz)) (a + 8) (word_of_nat nxt)"

definition heap_new :: "mem \<Rightarrow> heap" where
  "heap_new m = \<lparr>hmem = m, head_next = 0, initialized = False, used_memory = 0\<rparr>"

definition heap_init :: "nat \<Rightarrow> nat \<Rightarrow> heap \<Rightarrow> heap option" where
  "heap_init start len h =
     (if initialized h then Some h
      else do {
        s \<leftarrow> usub len 16;
        Some (h\<lparr>hmem := write_node (hmem h) start s 0, head_next := start, initialized := True\<rparr>)
      })"

definition align_up :: "nat \<Rightarrow> nat \<Rightarrow> nat option" where
  "align_up addr align =
     do {
       a \<leftarrow> uadd addr align;
       a \<leftarrow> usub a 1;
       m \<leftarrow> usub align 1;
       Some (and_not a m)
     }"

text \<open>\<open>(*prev).next = n\<close>, where \<open>prev\<close> is the static head (\<open>None\<close>) or a node.\<close>

definition set_next :: "nat option \<Rightarrow> nat \<Rightarrow> heap \<Rightarrow> heap" where
  "set_next prev n h =
     (case prev of
        None \<Rightarrow> h\<lparr>head_next := n\<rparr>
      | Some p \<Rightarrow> h\<lparr>hmem := store64 (hmem h) (p + 8) (word_of_nat n)\<rparr>)"

text \<open>The body of the loop where the node fits.\<close>

definition take_node ::
  "nat option \<Rightarrow> nat \<Rightarrow> nat \<Rightarrow> nat \<Rightarrow> nat \<Rightarrow> nat \<Rightarrow> heap \<Rightarrow> (nat \<times> heap) option" where
  "take_node prev cur alloc_start needed_space len layout_size h =
     do {
       let next_node = node_next (hmem h) cur;
       avail \<leftarrow> uadd (node_size (hmem h) cur) 16;
       remaining \<leftarrow> usub avail needed_space;
       h \<leftarrow> (if 32 \<le> remaining then
               do {
                 new_node_ptr \<leftarrow> uadd alloc_start len;
                 s \<leftarrow> usub remaining 16;
                 Some (set_next prev new_node_ptr
                   (h\<lparr>hmem := write_node (hmem h) new_node_ptr s next_node\<rparr>))
               }
             else Some (set_next prev next_node h));
       used \<leftarrow> uadd (used_memory h) layout_size;
       Some (alloc_start, h\<lparr>used_memory := used\<rparr>)
     }"

text \<open>
  The \<open>while\<close> loop of \<open>alloc\<close>, with fuel. One more round than the list has nodes is enough
  (\<open>alloc_loop_sound\<close>).
\<close>

fun alloc_loop ::
  "nat \<Rightarrow> nat option \<Rightarrow> nat \<Rightarrow> nat \<Rightarrow> nat \<Rightarrow> nat \<Rightarrow> heap \<Rightarrow> (nat \<times> heap) option" where
  "alloc_loop 0 prev cur len align layout_size h = None"
| "alloc_loop (Suc fuel) prev cur len align layout_size h =
     (if cur = 0 then Some (0, h)
      else do {
        a \<leftarrow> uadd cur 16;
        alloc_start \<leftarrow> align_up a align;
        pad \<leftarrow> usub alloc_start cur;
        needed_space \<leftarrow> uadd pad len;
        avail \<leftarrow> uadd (node_size (hmem h) cur) 16;
        if needed_space \<le> avail
        then take_node prev cur alloc_start needed_space len layout_size h
        else alloc_loop fuel (Some cur) (node_next (hmem h) cur) len align layout_size h
      })"

definition alloc :: "nat \<Rightarrow> layout \<Rightarrow> heap \<Rightarrow> (nat \<times> heap) option" where
  "alloc fuel l h =
     do {
       len \<leftarrow> align_up (lay_size l) 16;
       align \<leftarrow> align_up (lay_align l) 16;
       alloc_loop fuel None (head_next h) len align (lay_size l) h
     }"

definition dealloc :: "nat \<Rightarrow> layout \<Rightarrow> heap \<Rightarrow> heap option" where
  "dealloc ptr l h =
     do {
       node_ptr \<leftarrow> usub ptr 16;
       len \<leftarrow> align_up (lay_size l) 16;
       let h = h\<lparr>hmem := write_node (hmem h) node_ptr len (head_next h), head_next := node_ptr\<rparr>;
       used \<leftarrow> usub (used_memory h) (lay_size l);
       Some (h\<lparr>used_memory := used\<rparr>)
     }"

subsection \<open>Alignment\<close>

lemma align_up_eq:
  "addr + align < usize_bound \<Longrightarrow> 1 \<le> align \<Longrightarrow>
     align_up addr align = Some (and_not (addr + align - 1) (align - 1))"
  by (simp add: align_up_def uadd_ok usub_ok)

lemma align_up_pow2:
  assumes "addr + 2 ^ k < usize_bound"
  shows "\<exists>r. align_up addr (2 ^ k) = Some r \<and> addr \<le> r \<and> r < addr + 2 ^ k \<and> r mod 2 ^ k = 0"
proof -
  let ?x = "addr + 2 ^ k - 1"
  have k: "k < 64"
  proof (rule ccontr)
    assume "\<not> k < 64"
    then have "(2 :: nat) ^ 64 \<le> 2 ^ k" by (intro power_increasing) auto
    with assms show False by (simp add: usize_bound_def)
  qed
  have eq: "align_up addr (2 ^ k) = Some (?x - ?x mod 2 ^ k)"
    using align_up_eq[OF assms] and_not_mask[of ?x k] k assms by simp
  have m: "?x mod 2 ^ k < 2 ^ k" by simp
  have "(?x - ?x mod 2 ^ k) mod 2 ^ k = 0" by (simp add: minus_mod_eq_mult_div)
  moreover from m have "addr \<le> ?x - ?x mod 2 ^ k" by linarith
  moreover from m have "?x - ?x mod 2 ^ k < addr + 2 ^ k" by linarith
  ultimately show ?thesis using eq by (intro exI conjI)
qed

text \<open>The rounding of a request: a multiple of sixteen, less than sixteen above it.\<close>

definition round16 :: "nat \<Rightarrow> nat" where
  "round16 n = 16 * ((n + 15) div 16)"

lemma round16_bounds: "n \<le> round16 n" "round16 n < n + 16" "round16 n mod 16 = 0"
  unfolding round16_def by presburger+

lemma align_up_16: "n + 16 < usize_bound \<Longrightarrow> align_up n 16 = Some (round16 n)"
  using align_up_eq[of n 16] and_not_15[of "n + 15"]
  by (simp add: round16_def minus_mod_eq_mult_div add.commute)

lemma align_up_align:
  assumes "k < 63"
  shows "align_up (2 ^ k) 16 = Some (2 ^ max k 4)"
proof -
  have "(2 :: nat) ^ k \<le> 2 ^ 62" using assms by (intro power_increasing) auto
  then have b: "2 ^ k + 16 < usize_bound" by (simp add: usize_bound_def)
  have "round16 (2 ^ k) = 2 ^ max k 4"
  proof (cases "4 \<le> k")
    case True
    then have "(2 :: nat) ^ k = 16 * 2 ^ (k - 4)"
      using power_add[of "2 :: nat" 4 "k - 4"] by simp
    with True show ?thesis by (simp add: round16_def max_def)
  next
    case False
    then have "k \<in> {0, 1, 2, 3}" by auto
    then show ?thesis by (auto simp: round16_def)
  qed
  with align_up_16[OF b] show ?thesis by simp
qed

subsection \<open>Regions\<close>

text \<open>A region is its first address and its length.\<close>

fun disj :: "nat \<times> nat \<Rightarrow> nat \<times> nat \<Rightarrow> bool" where
  "disj (a, n) (b, k) \<longleftrightarrow> a + n \<le> b \<or> b + k \<le> a"

fun inside :: "nat \<times> nat \<Rightarrow> nat \<times> nat \<Rightarrow> bool" where
  "inside (a, n) (b, k) \<longleftrightarrow> b \<le> a \<and> a + n \<le> b + k"

lemma disj_sym: "disj r q \<longleftrightarrow> disj q r"
  by (cases r; cases q) auto

lemma disj_inside: "inside r q \<Longrightarrow> disj q u \<Longrightarrow> disj r u"
  by (cases r; cases q; cases u) auto

lemma inside_trans: "inside r q \<Longrightarrow> inside q u \<Longrightarrow> inside r u"
  by (cases r; cases q; cases u) auto

definition apart :: "(nat \<times> nat) list \<Rightarrow> bool" where
  "apart rs \<longleftrightarrow> sorted_wrt disj rs"

lemma apart_Nil [simp]: "apart []"
  by (simp add: apart_def)

lemma apart_Cons [simp]: "apart (r # rs) \<longleftrightarrow> (\<forall>q\<in>set rs. disj r q) \<and> apart rs"
  by (simp add: apart_def)

lemma apart_append [simp]:
  "apart (rs @ qs) \<longleftrightarrow> apart rs \<and> apart qs \<and> (\<forall>r\<in>set rs. \<forall>q\<in>set qs. disj r q)"
  by (auto simp: apart_def sorted_wrt_append)

text \<open>Regions that are apart cannot add up to more than what contains them.\<close>

lemma apart_total:
  assumes "apart rs" and "\<forall>r\<in>set rs. inside r (lo, n)"
  shows "sum_list (map snd rs) \<le> n"
proof -
  let ?S = "\<lambda>r :: nat \<times> nat. {fst r..<fst r + snd r}"
  have "sum_list (map snd rs) = card (\<Union>r\<in>set rs. ?S r)"
    using assms(1)
  proof (induction rs)
    case (Cons r rs)
    have "?S r \<inter> (\<Union>q\<in>set rs. ?S q) = {}"
    proof -
      have "?S r \<inter> ?S q = {}" if "q \<in> set rs" for q
        using Cons.prems that by (cases r; cases q) fastforce
      then show ?thesis by blast
    qed
    then have "card (\<Union>q\<in>set (r # rs). ?S q) = card (?S r) + card (\<Union>q\<in>set rs. ?S q)"
      by (simp add: card_Un_disjoint)
    with Cons show ?case by simp
  qed simp
  also have "\<dots> \<le> card {lo..<lo + n}"
  proof (rule card_mono)
    show "(\<Union>r\<in>set rs. ?S r) \<subseteq> {lo..<lo + n}" using assms(2) by fastforce
  qed simp
  finally show ?thesis by simp
qed

subsection \<open>The list in memory\<close>

text \<open>\<open>chain m p ns\<close>: from \<open>p\<close> the nodes are exactly \<open>ns\<close>, as pairs of address and size.\<close>

fun chain :: "mem \<Rightarrow> nat \<Rightarrow> (nat \<times> nat) list \<Rightarrow> bool" where
  "chain m p [] \<longleftrightarrow> p = 0"
| "chain m p ((a, s) # ns) \<longleftrightarrow>
     p = a \<and> a \<noteq> 0 \<and> node_size m a = s \<and> chain m (node_next m a) ns"

fun free_region :: "nat \<times> nat \<Rightarrow> nat \<times> nat" where
  "free_region (a, s) = (a, 16 + s)"

fun live_region :: "nat \<times> layout \<Rightarrow> nat \<times> nat" where
  "live_region (p, l) = (p - 16, 16 + round16 (lay_size l))"

definition untouched :: "mem \<Rightarrow> mem \<Rightarrow> nat \<times> nat \<Rightarrow> bool" where
  "untouched m m' r \<longleftrightarrow> (\<forall>x. fst r \<le> x \<longrightarrow> x < fst r + snd r \<longrightarrow> m' x = m x)"

lemma untouched_refl [simp]: "untouched m m r"
  by (simp add: untouched_def)

lemma untouched_trans: "untouched m m1 r \<Longrightarrow> untouched m1 m2 r \<Longrightarrow> untouched m m2 r"
  by (simp add: untouched_def)

lemma untouched_inside: "untouched m m' q \<Longrightarrow> inside r q \<Longrightarrow> untouched m m' r"
  by (cases r; cases q) (auto simp: untouched_def)

lemma untouched_load64: "untouched m m' (a, n) \<Longrightarrow> a \<le> b \<Longrightarrow> b + 8 \<le> a + n \<Longrightarrow> load64 m' b = load64 m b"
  unfolding load64_def untouched_def by (intro arg_cong[where f = u64_from_le] load_cong) auto

lemma untouched_store64: "disj (a, 8) r \<Longrightarrow> untouched m (store64 m a w) r"
  by (cases r) (auto simp: untouched_def store64_def store_def byte_simps)

lemma untouched_write_node: "disj (a, 16) r \<Longrightarrow> untouched m (write_node m a s n) r"
  unfolding write_node_def
  by (rule untouched_trans; rule untouched_store64) (cases r; auto)+

lemma node_untouched:
  "untouched m m' (a, 16) \<Longrightarrow> node_size m' a = node_size m a \<and> node_next m' a = node_next m a"
  using untouched_load64[of m m' a 16 a] untouched_load64[of m m' a 16 "a + 8"]
  by (simp add: node_size_def node_next_def)

lemma header_inside: "inside (fst r, 16) (free_region r)"
  by (cases r) simp

lemma node_write_node:
  "s < usize_bound \<Longrightarrow> n < usize_bound \<Longrightarrow>
     node_size (write_node m a s n) a = s \<and> node_next (write_node m a s n) a = n"
  by (simp add: node_size_def node_next_def write_node_def mem_simps unat_of_nat usize_bound_def)

lemma chain_untouched:
  "chain m p ns \<Longrightarrow> \<forall>r\<in>set ns. untouched m m' (fst r, 16) \<Longrightarrow> chain m' p ns"
proof (induction ns arbitrary: p)
  case (Cons r ns)
  obtain a s where r: "r = (a, s)" by (cases r)
  with Cons node_untouched[of m m' a] show ?case by simp
qed simp

lemma chain_suffix: "chain m p (pre @ (a, s) # post) \<Longrightarrow> chain m a ((a, s) # post)"
proof (induction pre arbitrary: p)
  case (Cons r pre)
  then show ?case by (cases r) auto
qed auto

lemma chain_last_next:
  assumes "chain m p (pre @ (b, s) # rest)" and "apart (map free_region (pre @ [(b, s)]))"
    and "chain (store64 m (b + 8) (word_of_nat n)) n rest'" and "n < usize_bound"
  shows "chain (store64 m (b + 8) (word_of_nat n)) p (pre @ (b, s) # rest')"
  using assms(1,2)
proof (induction pre arbitrary: p)
  case Nil
  with assms(3,4) show ?case
    by (simp add: node_size_def node_next_def mem_simps unat_of_nat usize_bound_def)
next
  case (Cons r pre)
  obtain a t where r: "r = (a, t)" by (cases r)
  have "untouched m (store64 m (b + 8) (word_of_nat n)) (a, 16)"
    by (rule untouched_store64) (use Cons.prems(2) r in auto)
  with Cons r node_untouched[OF this] show ?case by simp
qed

text \<open>What \<open>prev\<close> is while the loop is behind the nodes \<open>pre\<close>.\<close>

definition prev_of :: "(nat \<times> nat) list \<Rightarrow> nat option" where
  "prev_of pre = (if pre = [] then None else Some (fst (last pre)))"

lemma chain_set_next:
  assumes "chain (hmem h) (head_next h) (pre @ rest)" and "apart (map free_region pre)"
    and "chain (hmem h) n rest'" and "n < usize_bound"
    and "\<forall>r\<in>set pre. \<forall>q\<in>set rest'. disj (free_region r) (free_region q)"
  defines "h' \<equiv> set_next (prev_of pre) n h"
  shows "chain (hmem h') (head_next h') (pre @ rest') \<and>
    (\<forall>r. (\<forall>q\<in>set pre. disj (free_region q) r) \<longrightarrow> untouched (hmem h) (hmem h') r) \<and>
    used_memory h' = used_memory h"
proof (cases pre rule: rev_cases)
  case Nil
  with assms(3) show ?thesis by (simp add: h'_def set_next_def prev_of_def)
next
  case (snoc pre' bs)
  obtain b s where bs: "bs = (b, s)" by (cases bs)
  have h': "hmem h' = store64 (hmem h) (b + 8) (word_of_nat n)" "head_next h' = head_next h"
    "used_memory h' = used_memory h"
    by (simp_all add: h'_def set_next_def prev_of_def snoc bs)
  have u: "untouched (hmem h) (hmem h') r" if "disj (free_region (b, s)) r" for r
    unfolding h' by (rule untouched_store64) (use that in \<open>cases r; auto\<close>)
  have "chain (hmem h') n rest'"
    by (rule chain_untouched[OF assms(3)])
      (use u assms(5) snoc bs untouched_inside[OF _ header_inside] in auto)
  with chain_last_next[of "hmem h" "head_next h" pre' b s rest n rest'] assms(1,2,4) snoc bs
  have "chain (hmem h') (head_next h') (pre @ rest')" by (simp add: h')
  with u snoc bs h' show ?thesis by simp
qed

subsection \<open>The heap invariant\<close>

text \<open>
  \<open>ns\<close> are the free blocks in list order, \<open>live\<close> the blocks handed out and not returned. The
  arena is the \<open>n\<close> bytes from \<open>lo\<close>.
\<close>

definition heap_inv ::
  "nat \<Rightarrow> nat \<Rightarrow> (nat \<times> nat) list \<Rightarrow> (nat \<times> layout) list \<Rightarrow> heap \<Rightarrow> bool" where
  "heap_inv lo n ns live h \<longleftrightarrow>
     0 < lo \<and> lo + n < usize_bound \<and>
     chain (hmem h) (head_next h) ns \<and>
     apart (map free_region ns @ map live_region live) \<and>
     (\<forall>r\<in>set ns. inside (free_region r) (lo, n)) \<and>
     (\<forall>b\<in>set live. inside (live_region b) (lo, n)) \<and>
     used_memory h = sum_list (map (lay_size \<circ> snd) live)"

text \<open>The layouts \<open>alloc\<close> is called with: a power of two, and sizes that leave the address space room.\<close>

definition request_ok :: "nat \<Rightarrow> nat \<Rightarrow> layout \<Rightarrow> nat \<Rightarrow> bool" where
  "request_ok lo n l k \<longleftrightarrow>
     lay_align l = 2 ^ k \<and> k < 63 \<and> lo + n + lay_size l + 2 ^ max k 4 + 48 < usize_bound"

text \<open>A node can hold a request where its padding, header and rounded size fit.\<close>

definition block_start :: "nat \<Rightarrow> nat \<Rightarrow> nat" where
  "block_start a k = the (align_up (a + 16) (2 ^ max k 4))"

definition fits :: "layout \<Rightarrow> nat \<Rightarrow> nat \<times> nat \<Rightarrow> bool" where
  "fits l k node \<longleftrightarrow>
     block_start (fst node) k + round16 (lay_size l) \<le> fst node + 16 + snd node"

lemma block_start_props:
  assumes "a + 16 + 2 ^ max k 4 < usize_bound"
  shows "align_up (a + 16) (2 ^ max k 4) = Some (block_start a k) \<and> a + 16 \<le> block_start a k \<and>
    block_start a k < a + 16 + 2 ^ max k 4 \<and> block_start a k mod 2 ^ max k 4 = 0"
  using align_up_pow2[OF assms] by (auto simp: block_start_def)

lemma live_total:
  assumes "heap_inv lo n ns live h"
  shows "sum_list (map (lay_size \<circ> snd) live) \<le> n"
proof -
  have "sum_list (map (lay_size \<circ> snd) live) \<le> sum_list (map snd (map live_region live))"
    unfolding map_map
  proof (rule sum_list_mono)
    fix b assume "b \<in> set live"
    obtain p l where "b = (p, l)" by (cases b)
    then show "(lay_size \<circ> snd) b \<le> (snd \<circ> live_region) b"
      using round16_bounds(1)[of "lay_size l"] by simp
  qed
  also have "\<dots> \<le> n"
    by (rule apart_total) (use assms in \<open>auto simp: heap_inv_def\<close>)
  finally show ?thesis .
qed

text \<open>
  Taking the node \<open>(a, s)\<close> for the block at \<open>b\<close>: what is left of it, if anything, and the heap
  with the remainder written and linked in its place.
\<close>

definition remainder :: "nat \<Rightarrow> nat \<Rightarrow> nat \<Rightarrow> nat" where
  "remainder a s fin = a + 16 + s - fin"

definition left_over :: "nat \<Rightarrow> nat \<Rightarrow> nat \<Rightarrow> (nat \<times> nat) list" where
  "left_over a s fin =
     (if 32 \<le> remainder a s fin then [(fin, remainder a s fin - 16)] else [])"

definition unlink :: "(nat \<times> nat) list \<Rightarrow> nat \<Rightarrow> nat \<Rightarrow> nat \<Rightarrow> heap \<Rightarrow> heap" where
  "unlink pre a s fin h =
     (let nxt = node_next (hmem h) a in
      if 32 \<le> remainder a s fin
      then set_next (prev_of pre) fin
        (h\<lparr>hmem := write_node (hmem h) fin (remainder a s fin - 16) nxt\<rparr>)
      else set_next (prev_of pre) nxt h)"

lemma take_node_unlink:
  assumes "node_size (hmem h) a = s" and "a + 16 \<le> b" and "b + sz \<le> a + 16 + s"
    and "a + 16 + s < usize_bound" and "used_memory h + lsz < usize_bound"
    and "used_memory (unlink pre a s (b + sz) h) = used_memory h"
  shows "take_node (prev_of pre) a b (b - a + sz) sz lsz h =
    Some (b, (unlink pre a s (b + sz) h)\<lparr>used_memory := used_memory h + lsz\<rparr>)"
proof -
  have "s + 16 - (b - a + sz) = remainder a s (b + sz)"
    using assms(2,3) by (simp add: remainder_def)
  then show ?thesis
    using assms by (auto simp: take_node_def unlink_def Let_def checked ac_simps)
qed

lemma free_apart:
  assumes "heap_inv lo n (pre @ (a, s) # post) live h"
  shows "r \<in> set pre \<union> set post \<Longrightarrow> disj (free_region (a, s)) (free_region r)"
    and "b \<in> set live \<Longrightarrow> disj (free_region (a, s)) (live_region b)"
    and "r \<in> set pre \<Longrightarrow> b \<in> set live \<Longrightarrow> disj (free_region r) (live_region b)"
    and "lo \<le> a" and "a + 16 + s \<le> lo + n"
proof -
  note inv = assms[unfolded heap_inv_def]
  show "r \<in> set pre \<union> set post \<Longrightarrow> disj (free_region (a, s)) (free_region r)"
    using inv disj_sym[of "free_region r" "(a, 16 + s)"] by auto
  show "b \<in> set live \<Longrightarrow> disj (free_region (a, s)) (live_region b)" using inv by auto
  show "r \<in> set pre \<Longrightarrow> b \<in> set live \<Longrightarrow> disj (free_region r) (live_region b)" using inv by auto
  show "lo \<le> a" "a + 16 + s \<le> lo + n" using inv by auto
qed

lemma unlink_chain:
  assumes inv: "heap_inv lo n (pre @ (a, s) # post) live h"
    and "a + 32 \<le> fin" and "fin \<le> a + 16 + s"
  shows "chain (hmem (unlink pre a s fin h)) (head_next (unlink pre a s fin h))
      (pre @ left_over a s fin @ post) \<and>
    (\<forall>b\<in>set live. untouched (hmem h) (hmem (unlink pre a s fin h)) (live_region b)) \<and>
    used_memory (unlink pre a s fin h) = used_memory h"
proof -
  let ?nxt = "node_next (hmem h) a" and ?rem = "remainder a s fin"
  have ch: "chain (hmem h) (head_next h) (pre @ (a, s) # post)"
    and ap: "apart (map free_region (pre @ (a, s) # post))" and lo: "lo + n < usize_bound"
    using inv by (auto simp: heap_inv_def)
  note fa = free_apart[OF inv]
  have cur: "a \<noteq> 0" "chain (hmem h) ?nxt post" using chain_suffix[OF ch] by auto
  have nxt: "?nxt < usize_bound"
    using unat_lt2p[of "load64 (hmem h) (a + 8)"] by (simp add: node_next_def usize_bound_def)
  show ?thesis
  proof (cases "32 \<le> ?rem")
    case False
    have "\<forall>r\<in>set pre. \<forall>q\<in>set post. disj (free_region r) (free_region q)" using ap by auto
    note cs = chain_set_next[OF ch _ cur(2) nxt this]
    have "\<forall>b\<in>set live. untouched (hmem h) (hmem (unlink pre a s fin h)) (live_region b)"
      using cs ap fa(3) False by (simp add: unlink_def del: split_paired_All)
    with cs ap False show ?thesis by (simp add: unlink_def left_over_def)
  next
    case True
    define m1 where "m1 = write_node (hmem h) fin (?rem - 16) ?nxt"
    let ?h1 = "h\<lparr>hmem := m1\<rparr>"
    let ?h2 = "set_next (prev_of pre) fin ?h1"
    have in_a: "inside (fin, 16) (free_region (a, s))" and e: "fin + ?rem = a + 16 + s"
      using True assms(2,3) by (auto simp: remainder_def)
    have u: "untouched (hmem h) m1 r" if "disj (free_region (a, s)) r" for r
      unfolding m1_def by (rule untouched_write_node[OF disj_inside[OF in_a that]])
    have hdr: "untouched (hmem h) m1 (fst r, 16)" if "r \<in> set pre \<union> set post" for r
      by (rule untouched_inside[OF u[OF fa(1)[OF that]] header_inside])
    have "untouched (hmem h) m1 (a, 16)"
      unfolding m1_def by (rule untouched_write_node) (use assms(2) in simp)
    with hdr have ch1: "chain m1 (head_next h) (pre @ (a, s) # post)"
      by (intro chain_untouched[OF ch]) auto
    have "chain m1 ?nxt post" by (rule chain_untouched[OF cur(2)]) (use hdr in blast)
    then have ch2: "chain m1 fin ((fin, ?rem - 16) # post)"
      using node_write_node[of "?rem - 16" ?nxt "hmem h" fin] nxt e fa(5) lo assms(2)
      by (simp add: m1_def)
    have "inside (free_region (fin, ?rem - 16)) (free_region (a, s))"
      using True e assms(2) by simp
    then have pd: "\<forall>r\<in>set pre. \<forall>q\<in>set ((fin, ?rem - 16) # post). disj (free_region r) (free_region q)"
      using ap fa(1) disj_inside disj_sym by fastforce
    have "fin < usize_bound" using assms(3) fa(5) lo by simp
    moreover have "chain (hmem ?h1) (head_next ?h1) (pre @ (a, s) # post)"
      "chain (hmem ?h1) fin ((fin, ?rem - 16) # post)" using ch1 ch2 by simp_all
    moreover have "apart (map free_region pre)" using ap by simp
    ultimately have cs: "chain (hmem ?h2) (head_next ?h2) (pre @ (fin, ?rem - 16) # post) \<and>
        (\<forall>r. (\<forall>q\<in>set pre. disj (free_region q) r) \<longrightarrow> untouched (hmem ?h1) (hmem ?h2) r) \<and>
        used_memory ?h2 = used_memory ?h1"
      using pd by (intro chain_set_next)
    have "\<forall>b\<in>set live. untouched m1 (hmem (unlink pre a s fin h)) (live_region b)"
      using cs ap fa(3) True by (simp add: unlink_def m1_def[symmetric] del: split_paired_All)
    then have "\<forall>b\<in>set live. untouched (hmem h) (hmem (unlink pre a s fin h)) (live_region b)"
      using u[OF fa(2)] untouched_trans by blast
    with cs ap True show ?thesis by (simp add: unlink_def left_over_def m1_def[symmetric])
  qed
qed

lemma unlink_inv:
  assumes inv: "heap_inv lo n (pre @ (a, s) # post) live h" and b: "a + 16 \<le> b"
    and e: "b + round16 (lay_size l) \<le> a + 16 + s" and sz: "0 < lay_size l"
  shows "heap_inv lo n (pre @ left_over a s (b + round16 (lay_size l)) @ post) ((b, l) # live)
    ((unlink pre a s (b + round16 (lay_size l)) h)\<lparr>used_memory := used_memory h + lay_size l\<rparr>)"
proof -
  let ?fin = "b + round16 (lay_size l)"
  let ?mids = "left_over a s ?fin"
  note fa = free_apart[OF inv]
  have "16 \<le> round16 (lay_size l)" using sz unfolding round16_def by presburger
  with b have ge: "a + 32 \<le> ?fin" by simp
  note uc = unlink_chain[OF inv ge e]
  have new_in: "inside (live_region (b, l)) (free_region (a, s))" using b e by simp
  have mids_in: "inside (free_region r) (free_region (a, s))" if "r \<in> set ?mids" for r
    using that ge e by (auto simp: left_over_def remainder_def split: if_splits)
  have a_in: "inside (free_region (a, s)) (lo, n)" using fa(4,5) by simp
  have mids_apart: "apart (map free_region ?mids @ [live_region (b, l)])"
    using b e by (auto simp: left_over_def)
  have part: "disj r (free_region q)" if "inside r (free_region (a, s))" "q \<in> set pre \<union> set post" for r q
    by (rule disj_inside[OF that(1) fa(1)[OF that(2)]])
  have partl: "disj r (live_region q)" if "inside r (free_region (a, s))" "q \<in> set live" for r q
    by (rule disj_inside[OF that(1) fa(2)[OF that(2)]])
  have old: "apart (map free_region pre)" "apart (map free_region post)" "apart (map live_region live)"
    "\<forall>r\<in>set pre. \<forall>q\<in>set post. disj (free_region r) (free_region q)"
    "\<forall>r\<in>set post. \<forall>q\<in>set live. disj (free_region r) (live_region q)"
    using inv by (simp_all add: heap_inv_def)
  have "apart (map free_region (pre @ ?mids @ post) @ map live_region ((b, l) # live))"
    using old fa(3) mids_apart part partl mids_in new_in disj_sym
    by (simp del: live_region.simps) blast
  moreover have "\<forall>r\<in>set (pre @ ?mids @ post). inside (free_region r) (lo, n)"
    using inv inside_trans[OF mids_in a_in] by (auto simp: heap_inv_def)
  moreover have "\<forall>q\<in>set ((b, l) # live). inside (live_region q) (lo, n)"
    using inv inside_trans[OF new_in a_in] by (auto simp: heap_inv_def simp del: live_region.simps)
  ultimately show ?thesis
    using uc inv by (simp add: heap_inv_def del: map_append live_region.simps)
qed

text \<open>
  The reference for the loop: the first node that fits is taken, and null is the answer when
  none does. \<open>pre\<close> are the nodes already passed.
\<close>

fun first_fit ::
  "layout \<Rightarrow> nat \<Rightarrow> (nat \<times> nat) list \<Rightarrow> (nat \<times> nat) list \<Rightarrow> heap \<Rightarrow> nat \<times> heap" where
  "first_fit l k pre [] h = (0, h)"
| "first_fit l k pre ((a, s) # rest) h =
     (if fits l k (a, s)
      then (block_start a k,
        (unlink pre a s (block_start a k + round16 (lay_size l)) h)
          \<lparr>used_memory := used_memory h + lay_size l\<rparr>)
      else first_fit l k (pre @ [(a, s)]) rest h)"

lemma alloc_loop_first_fit:
  assumes "heap_inv lo n (pre @ rest) live h" and rq: "request_ok lo n l k" and sz: "0 < lay_size l"
    and "chain (hmem h) cur rest" and "length rest < fuel"
  shows "alloc_loop fuel (prev_of pre) cur (round16 (lay_size l)) (2 ^ max k 4) (lay_size l) h =
    Some (first_fit l k pre rest h)"
  using assms(1,4,5)
proof (induction rest arbitrary: pre cur fuel)
  case Nil
  then obtain f where "fuel = Suc f" by (cases fuel) auto
  with Nil show ?case by simp
next
  case (Cons r rest)
  obtain a s where r: "r = (a, s)" by (cases r)
  obtain f where f: "fuel = Suc f" using Cons.prems(3) by (cases fuel) auto
  have inv: "heap_inv lo n (pre @ (a, s) # rest) live h" using Cons.prems(1) r by simp
  note fa = free_apart[OF inv]
  have cur: "cur = a" "a \<noteq> 0" "node_size (hmem h) a = s" "chain (hmem h) (node_next (hmem h) a) rest"
    using Cons.prems(2) r by auto
  let ?p = "block_start a k" and ?sz = "round16 (lay_size l)"
  have b: "a + 16 + s < usize_bound" "a + 16 + 2 ^ max k 4 < usize_bound"
    using fa(4,5) rq by (auto simp: request_ok_def)
  note bs = block_start_props[OF b(2)]
  have need: "?p - a + ?sz < usize_bound"
    using bs rq round16_bounds(2)[of "lay_size l"] unfolding request_ok_def by linarith
  have step: "alloc_loop fuel (prev_of pre) cur ?sz (2 ^ max k 4) (lay_size l) h =
     (if fits l k (a, s) then take_node (prev_of pre) a ?p (?p - a + ?sz) ?sz (lay_size l) h
      else alloc_loop f (Some a) (node_next (hmem h) a) ?sz (2 ^ max k 4) (lay_size l) h)"
    using f cur b bs need by (auto simp: checked fits_def)
  show ?case
  proof (cases "fits l k (a, s)")
    case True
    then have e: "?p + ?sz \<le> a + 16 + s" by (simp add: fits_def)
    have "16 \<le> ?sz" using sz unfolding round16_def by presburger
    with bs have ge: "a + 32 \<le> ?p + ?sz" by simp
    have "used_memory h + lay_size l < usize_bound"
      using live_total[OF inv] inv rq by (simp add: heap_inv_def request_ok_def)
    with take_node_unlink[OF cur(3) _ e b(1)] unlink_chain[OF inv ge e] bs True
    show ?thesis unfolding step r by simp
  next
    case False
    have "prev_of (pre @ [(a, s)]) = Some a" by (simp add: prev_of_def)
    with Cons.IH[of "pre @ [(a, s)]" "node_next (hmem h) a" f] inv cur(4) Cons.prems(3) f False
    show ?thesis unfolding step r by simp
  qed
qed

lemma first_fit_cases:
  obtains (none) "\<forall>r\<in>set rest. \<not> fits l k r" "first_fit l k pre rest h = (0, h)"
  | (found) pre' a s post where "rest = pre' @ (a, s) # post" "\<forall>r\<in>set pre'. \<not> fits l k r"
      "fits l k (a, s)"
      "first_fit l k pre rest h = (block_start a k,
        (unlink (pre @ pre') a s (block_start a k + round16 (lay_size l)) h)
          \<lparr>used_memory := used_memory h + lay_size l\<rparr>)"
proof -
  have "(\<forall>r\<in>set rest. \<not> fits l k r) \<and> first_fit l k pre rest h = (0, h) \<or>
    (\<exists>pre' a s post. rest = pre' @ (a, s) # post \<and> (\<forall>r\<in>set pre'. \<not> fits l k r) \<and>
      fits l k (a, s) \<and> first_fit l k pre rest h = (block_start a k,
        (unlink (pre @ pre') a s (block_start a k + round16 (lay_size l)) h)
          \<lparr>used_memory := used_memory h + lay_size l\<rparr>))"
  proof (induction rest arbitrary: pre)
    case (Cons r rest)
    obtain a s where r: "r = (a, s)" by (cases r)
    show ?case
    proof (cases "fits l k r")
      case True
      with r show ?thesis by (intro disjI2 exI[of _ "[]"] exI[of _ a] exI[of _ s] exI[of _ rest]) simp
    next
      case False
      from Cons.IH[of "pre @ [(a, s)]"] show ?thesis
      proof (elim disjE exE conjE)
        fix pre' b t post
        assume "rest = pre' @ (b, t) # post" "\<forall>r\<in>set pre'. \<not> fits l k r" "fits l k (b, t)"
          "first_fit l k (pre @ [(a, s)]) rest h = (block_start b k,
            (unlink ((pre @ [(a, s)]) @ pre') b t (block_start b k + round16 (lay_size l)) h)
              \<lparr>used_memory := used_memory h + lay_size l\<rparr>)"
        with False r show ?thesis
          by (intro disjI2 exI[of _ "(a, s) # pre'"] exI[of _ b] exI[of _ t] exI[of _ post]) simp
      qed (use False r in simp)
    qed
  qed simp
  with none found show ?thesis by blast
qed

subsection \<open>The operations keep the invariant\<close>

lemma nodes_bound:
  assumes "heap_inv lo n ns live h"
  shows "16 * length ns \<le> n"
proof -
  have "16 * length ns = sum_list (map (\<lambda>_. 16) ns)" by (simp add: sum_list_triv)
  also have "\<dots> \<le> sum_list (map snd (map free_region ns))"
    unfolding map_map
  proof (rule sum_list_mono)
    fix r show "16 \<le> (snd \<circ> free_region) r" by (cases r) simp
  qed
  also have "\<dots> \<le> n"
    by (rule apart_total) (use assms in \<open>auto simp: heap_inv_def\<close>)
  finally show ?thesis .
qed

text \<open>Fuel that always suffices: every node takes at least sixteen bytes of the arena.\<close>

definition heap_fuel :: "nat \<Rightarrow> nat" where
  "heap_fuel n = n div 16 + 1"

lemma heap_fuel: "heap_inv lo n ns live h \<Longrightarrow> length ns < heap_fuel n"
  using nodes_bound by (fastforce simp: heap_fuel_def)

lemma alloc_first_fit:
  assumes inv: "heap_inv lo n ns live h" and rq: "request_ok lo n l k" and sz: "0 < lay_size l"
  shows "alloc (heap_fuel n) l h = Some (first_fit l k [] ns h)"
proof -
  have "lay_size l + 16 < usize_bound" using rq by (simp add: request_ok_def)
  moreover have "align_up (lay_align l) 16 = Some (2 ^ max k 4)"
    using rq align_up_align[of k] by (simp add: request_ok_def)
  moreover have "chain (hmem h) (head_next h) ns" using inv by (simp add: heap_inv_def)
  ultimately show ?thesis
    using alloc_loop_first_fit[of lo n "[]" ns live h l k "head_next h" "heap_fuel n"] inv rq sz
      heap_fuel[OF inv]
    by (simp add: alloc_def align_up_16 prev_of_def)
qed

lemma alloc_cases:
  assumes inv: "heap_inv lo n ns live h" and rq: "request_ok lo n l k" and sz: "0 < lay_size l"
  obtains (full) "alloc (heap_fuel n) l h = Some (0, h)" "\<forall>r\<in>set ns. \<not> fits l k r"
  | (block) p h' ns' where "alloc (heap_fuel n) l h = Some (p, h')" "p \<noteq> 0" "p mod lay_align l = 0"
      "p mod 16 = 0" "heap_inv lo n ns' ((p, l) # live) h'"
      "\<forall>b\<in>set live. untouched (hmem h) (hmem h') (live_region b)"
  using first_fit_cases[where rest = ns and l = l and k = k and pre = "[]" and h = h]
proof cases
  case none
  with full alloc_first_fit[OF assms] show ?thesis by simp
next
  case (found pre a s post)
  let ?p = "block_start a k" and ?fin = "block_start a k + round16 (lay_size l)"
  have inv': "heap_inv lo n (pre @ (a, s) # post) live h" using inv found(1) by simp
  have "a + 16 + 2 ^ max k 4 < usize_bound"
    using free_apart(4,5)[OF inv'] rq by (auto simp: request_ok_def)
  note bs = block_start_props[OF this]
  have e: "?fin \<le> a + 16 + s" using found(3) by (simp add: fits_def)
  have "16 \<le> round16 (lay_size l)" using sz unfolding round16_def by presburger
  with bs have ge: "a + 32 \<le> ?fin" by simp
  have "(2 :: nat) ^ k dvd 2 ^ max k 4" "(2 :: nat) ^ 4 dvd 2 ^ max k 4"
    by (rule le_imp_power_dvd; simp)+
  with bs have "?p mod 2 ^ k = 0" "?p mod 16 = 0"
    by (auto intro: dvd_trans simp: dvd_eq_mod_eq_0[symmetric])
  with block[OF _ _ _ _ unlink_inv[OF inv' _ e sz]] unlink_chain[OF inv' ge e]
    alloc_first_fit[OF assms] found bs rq ge
  show ?thesis by (simp add: request_ok_def)
qed

lemma dealloc_inv:
  assumes inv: "heap_inv lo n ns (l1 @ (p, l) # l2) h"
  shows "\<exists>h'. dealloc p l h = Some h' \<and>
    heap_inv lo n ((p - 16, round16 (lay_size l)) # ns) (l1 @ l2) h' \<and>
    (\<forall>b\<in>set (l1 @ l2). untouched (hmem h) (hmem h') (live_region b))"
proof -
  let ?r = "(p - 16, 16 + round16 (lay_size l))"
  note I = inv[unfolded heap_inv_def]
  have ins: "inside ?r (lo, n)" and lo: "0 < lo" "lo + n < usize_bound" using I by auto
  then have p: "16 < p" "lay_size l + 16 < usize_bound" "p - 16 < usize_bound" "round16 (lay_size l) < usize_bound"
    using round16_bounds(1)[of "lay_size l"] by auto
  define m' where "m' = write_node (hmem h) (p - 16) (round16 (lay_size l)) (head_next h)"
  have head: "head_next h < usize_bound"
    using I lo by (cases ns) auto
  have u: "untouched (hmem h) m' r" if "disj ?r r" for r
    unfolding m'_def
    by (rule untouched_write_node[OF disj_inside[of _ ?r]]) (use that in simp_all)
  have others: "\<forall>r\<in>set ns. disj ?r (free_region r)" "\<forall>b\<in>set (l1 @ l2). disj ?r (live_region b)"
    using I disj_sym by (simp_all add: ball_Un del: disj.simps)
  have hdr: "\<forall>r\<in>set ns. untouched (hmem h) m' (fst r, 16)"
  proof
    fix r assume "r \<in> set ns"
    with others(1) have "disj ?r (free_region r)" by blast
    from untouched_inside[OF u[OF this] header_inside] show "untouched (hmem h) m' (fst r, 16)" .
  qed
  have "chain (hmem h) (head_next h) ns" using I by blast
  from chain_untouched[OF this hdr] have c: "chain m' (head_next h) ns" .
  have "node_size m' (p - 16) = round16 (lay_size l)" "node_next m' (p - 16) = head_next h"
    unfolding m'_def using node_write_node[OF p(4) head] by blast+
  with c p(1) have ch: "chain m' (p - 16) ((p - 16, round16 (lay_size l)) # ns)" by simp
  have "dealloc p l h = Some (h\<lparr>hmem := m', head_next := p - 16,
      used_memory := used_memory h - lay_size l\<rparr>)"
    using p I by (simp add: dealloc_def checked align_up_16 m'_def)
  moreover have "heap_inv lo n ((p - 16, round16 (lay_size l)) # ns) (l1 @ l2)
      (h\<lparr>hmem := m', head_next := p - 16, used_memory := used_memory h - lay_size l\<rparr>)"
    using I ch others ins
    by (simp add: heap_inv_def ball_Un del: disj.simps inside.simps)
  moreover have "\<forall>b\<in>set (l1 @ l2). untouched (hmem h) m' (live_region b)"
    using u others(2) by blast
  ultimately show ?thesis by simp
qed

lemma heap_init_inv:
  "0 < start \<Longrightarrow> 16 \<le> len \<Longrightarrow> start + len < usize_bound \<Longrightarrow>
     \<exists>h. heap_init start len (heap_new m) = Some h \<and> heap_inv start len [(start, len - 16)] [] h"
  using node_write_node[of "len - 16" 0 m start]
  by (simp add: heap_init_def heap_new_def checked heap_inv_def usize_bound_def)

subsection \<open>What lies outside the arena\<close>

lemma same_outside_node: "lo \<le> a \<Longrightarrow> a + 16 \<le> lo + n \<Longrightarrow> same_outside lo n m (write_node m a s t)"
  by (auto simp: same_outside_def write_node_def store64_def store_def byte_simps)

lemma heap_init_arena:
  "16 \<le> len \<Longrightarrow> heap_init start len (heap_new m) = Some h \<Longrightarrow> same_outside start len m (hmem h)"
  using same_outside_node[of start start len m "len - 16" 0]
  by (auto simp: heap_init_def heap_new_def checked)

text \<open>An allocation from a heap with one free block, which splits it.\<close>

lemma alloc_splits:
  assumes inv: "heap_inv lo n [(a, s)] live h" and rq: "request_ok lo n l k" and k: "k \<le> 4"
    and sz: "0 < lay_size l" and fit: "round16 (lay_size l) + 64 \<le> s"
  shows "\<exists>p h' a' s'. alloc (heap_fuel n) l h = Some (p, h') \<and> p \<noteq> 0 \<and>
    heap_inv lo n [(a', s')] ((p, l) # live) h' \<and> s \<le> s' + 32 + round16 (lay_size l) \<and>
    (\<forall>b\<in>set live. untouched (hmem h) (hmem h') (live_region b)) \<and> same_outside lo n (hmem h) (hmem h')"
proof -
  let ?p = "block_start a k" and ?sz = "round16 (lay_size l)"
  have inv': "heap_inv lo n ([] @ (a, s) # []) live h" using inv by simp
  have arena: "lo \<le> a" "a + 16 + s \<le> lo + n" using free_apart(4,5)[OF inv'] by simp_all
  have "(2 :: nat) ^ max k 4 = 16" using k by (simp add: max_def)
  moreover have "a + 16 + 2 ^ max k 4 < usize_bound" using arena rq by (simp add: request_ok_def)
  ultimately have bs: "a + 16 \<le> ?p" "?p < a + 32" using block_start_props[of a k] by auto
  have "16 \<le> ?sz" using sz unfolding round16_def by presburger
  then have ge: "a + 32 \<le> ?p + ?sz" and le: "?p + ?sz \<le> a + 16 + s" using bs fit by simp_all
  let ?s' = "remainder a s (?p + ?sz) - 16"
  have rem: "32 \<le> remainder a s (?p + ?sz)" "s \<le> ?s' + 32 + ?sz" "?p + ?sz + 16 \<le> lo + n"
    using bs fit arena by (simp_all add: remainder_def)
  define h' where "h' = (unlink [] a s (?p + ?sz) h)\<lparr>used_memory := used_memory h + lay_size l\<rparr>"
  have al: "alloc (heap_fuel n) l h = Some (?p, h')"
    using alloc_first_fit[OF inv rq sz] le by (simp add: fits_def h'_def)
  have inv2: "heap_inv lo n [(?p + ?sz, ?s')] ((?p, l) # live) h'"
    using unlink_inv[OF inv' bs(1) le sz] rem(1) by (simp add: left_over_def h'_def)
  have keep: "\<forall>b\<in>set live. untouched (hmem h) (hmem h') (live_region b)"
    using unlink_chain[OF inv' ge le] by (simp add: h'_def)
  have "same_outside lo n (hmem h) (hmem h')"
    using rem arena bs(1) by (auto simp: h'_def unlink_def set_next_def prev_of_def Let_def intro!: same_outside_node)
  with al inv2 keep rem(2) bs(1) show ?thesis
    by (intro exI[of _ ?p] exI[of _ h'] exI[of _ "?p + ?sz"] exI[of _ ?s']) simp
qed

text \<open>The holder of a block writes to it.\<close>

lemma client_store:
  assumes inv: "heap_inv lo n ns (l1 @ (p, l) # l2) h"
    and a: "p \<le> a" "a + length bs \<le> p + lay_size l"
  shows "heap_inv lo n ns (l1 @ (p, l) # l2) (h\<lparr>hmem := store (hmem h) a bs\<rparr>)"
    and "b \<in> set (l1 @ l2) \<Longrightarrow> untouched (hmem h) (store (hmem h) a bs) (live_region b)"
    and "same_outside lo n (hmem h) (store (hmem h) a bs)"
proof -
  note I = inv[unfolded heap_inv_def]
  have r: "p - 16 \<le> a" "a + length bs \<le> p - 16 + (16 + round16 (lay_size l))"
    using a round16_bounds(1)[of "lay_size l"] by linarith+
  have u: "untouched (hmem h) (store (hmem h) a bs) q" if "disj (live_region (p, l)) q" for q
    using that r by (cases q) (auto simp: untouched_def store_def)
  have "untouched (hmem h) (store (hmem h) a bs) (fst r, 16)" if "r \<in> set ns" for r
  proof -
    have "disj (live_region (p, l)) (free_region r)" using I that disj_sym by (auto simp del: live_region.simps)
    from untouched_inside[OF u[OF this] header_inside] show ?thesis .
  qed
  then have "chain (store (hmem h) a bs) (head_next h) ns" using I chain_untouched by blast
  with I show "heap_inv lo n ns (l1 @ (p, l) # l2) (h\<lparr>hmem := store (hmem h) a bs\<rparr>)"
    by (simp add: heap_inv_def del: live_region.simps)
  show "untouched (hmem h) (store (hmem h) a bs) (live_region b)" if "b \<in> set (l1 @ l2)"
    by (rule u) (use I that disj_sym in \<open>auto simp del: live_region.simps disj.simps\<close>)
  have "inside (live_region (p, l)) (lo, n)" using I by (simp del: live_region.simps)
  with r show "same_outside lo n (hmem h) (store (hmem h) a bs)" by (intro same_outside_store) simp_all
qed

lemma dealloc_arena:
  assumes "heap_inv lo n ns (l1 @ (p, l) # l2) h" and "dealloc p l h = Some h'"
  shows "same_outside lo n (hmem h) (hmem h')"
proof -
  have "inside (live_region (p, l)) (lo, n)" using assms(1) by (simp add: heap_inv_def del: live_region.simps)
  with assms(2) show ?thesis
    by (auto simp: dealloc_def checked bind_eq_Some_conv Let_def intro!: same_outside_node split: if_splits)
qed

subsection \<open>Clients of the heap\<close>

text \<open>
  What the rest of the kernel relies on: a block handed out is apart from every other, stays
  untouched until it is returned, and neither operation panics.
\<close>

datatype request = Alloc layout | Free nat

locale heap_interface =
  fixes alloc_op :: "layout \<Rightarrow> 'h \<Rightarrow> (nat \<times> 'h) option"
    and free_op :: "nat \<Rightarrow> layout \<Rightarrow> 'h \<Rightarrow> 'h option"
    and valid :: "(nat \<times> layout) list \<Rightarrow> 'h \<Rightarrow> bool"
    and allowed :: "layout \<Rightarrow> bool"
    and contents :: "'h \<Rightarrow> mem"
    and region :: "nat \<times> layout \<Rightarrow> nat \<times> nat"
  assumes alloc_law: "valid live h \<Longrightarrow> allowed l \<Longrightarrow> \<exists>p h'. alloc_op l h = Some (p, h') \<and>
      (p = 0 \<and> h' = h \<or> p \<noteq> 0 \<and> valid ((p, l) # live) h' \<and>
        (\<forall>b\<in>set live. untouched (contents h) (contents h') (region b)))"
    and free_law: "valid (l1 @ b # l2) h \<Longrightarrow> \<exists>h'. free_op (fst b) (snd b) h = Some h' \<and>
      valid (l1 @ l2) h' \<and> (\<forall>c\<in>set (l1 @ l2). untouched (contents h) (contents h') (region c))"
begin

text \<open>A client: it allocates, and returns the \<open>i\<close>-th of the blocks it holds.\<close>

fun serve :: "request \<Rightarrow> (nat \<times> layout) list \<times> 'h \<Rightarrow> ((nat \<times> layout) list \<times> 'h) option" where
  "serve (Alloc l) (live, h) =
     do { (p, h) \<leftarrow> alloc_op l h; Some (if p = 0 then live else (p, l) # live, h) }"
| "serve (Free i) (live, h) =
     (if i < length live
      then do {
        h \<leftarrow> free_op (fst (live ! i)) (snd (live ! i)) h;
        Some (take i live @ drop (Suc i) live, h)
      }
      else Some (live, h))"

fun serve_all :: "request list \<Rightarrow> (nat \<times> layout) list \<times> 'h \<Rightarrow> ((nat \<times> layout) list \<times> 'h) option" where
  "serve_all [] s = Some s"
| "serve_all (r # rs) s = serve r s \<bind> serve_all rs"

definition admissible :: "request \<Rightarrow> bool" where
  "admissible r \<longleftrightarrow> (case r of Alloc l \<Rightarrow> allowed l | Free _ \<Rightarrow> True)"

lemma serve_valid:
  assumes "valid live h" and "admissible r"
  shows "\<exists>live' h'. serve r (live, h) = Some (live', h') \<and> valid live' h' \<and>
    (\<forall>b\<in>set live \<inter> set live'. untouched (contents h) (contents h') (region b))"
proof (cases r)
  case (Alloc l)
  with assms alloc_law[of live h l] show ?thesis by (fastforce simp: admissible_def)
next
  case (Free i)
  show ?thesis
  proof (cases "i < length live")
    case True
    from id_take_nth_drop[OF True] assms(1)
    have "valid (take i live @ live ! i # drop (Suc i) live) h" by simp
    from free_law[OF this] Free True show ?thesis by fastforce
  next
    case False
    with Free assms show ?thesis by auto
  qed
qed

lemma serve_all_valid:
  assumes "valid live h" and "\<forall>r\<in>set rs. admissible r"
  shows "\<exists>live' h'. serve_all rs (live, h) = Some (live', h') \<and> valid live' h'"
  using assms
proof (induction rs arbitrary: live h)
  case (Cons r rs)
  then obtain live1 h1 where "serve r (live, h) = Some (live1, h1)" "valid live1 h1"
    using serve_valid[of live h r] by auto
  with Cons.IH[of live1 h1] Cons.prems show ?case by simp
qed simp

end

definition heap_valid :: "nat \<Rightarrow> nat \<Rightarrow> (nat \<times> layout) list \<Rightarrow> heap \<Rightarrow> bool" where
  "heap_valid lo n live h \<longleftrightarrow> (\<exists>ns. heap_inv lo n ns live h)"

definition layout_allowed :: "nat \<Rightarrow> nat \<Rightarrow> layout \<Rightarrow> bool" where
  "layout_allowed lo n l \<longleftrightarrow> 0 < lay_size l \<and> (\<exists>k. request_ok lo n l k)"

interpretation kheap: heap_interface "alloc (heap_fuel n)" dealloc "heap_valid lo n"
  "layout_allowed lo n" hmem live_region for lo n
proof unfold_locales
  fix live h l assume "heap_valid lo n live h" "layout_allowed lo n l"
  then obtain ns k where "heap_inv lo n ns live h" "request_ok lo n l k" "0 < lay_size l"
    by (auto simp: heap_valid_def layout_allowed_def)
  then show "\<exists>p h'. alloc (heap_fuel n) l h = Some (p, h') \<and>
      (p = 0 \<and> h' = h \<or> p \<noteq> 0 \<and> heap_valid lo n ((p, l) # live) h' \<and>
        (\<forall>b\<in>set live. untouched (hmem h) (hmem h') (live_region b)))"
    by (cases rule: alloc_cases) (auto simp: heap_valid_def)
next
  fix l1 :: "(nat \<times> layout) list" and b l2 h assume "heap_valid lo n (l1 @ b # l2) h"
  then show "\<exists>h'. dealloc (fst b) (snd b) h = Some h' \<and> heap_valid lo n (l1 @ l2) h' \<and>
      (\<forall>c\<in>set (l1 @ l2). untouched (hmem h) (hmem h') (live_region c))"
    using dealloc_inv[of lo n _ l1 "fst b" "snd b" l2 h] unfolding heap_valid_def by fastforce
qed

subsection \<open>Properties\<close>

text \<open>
  C16: \<open>alloc\<close> on a well-formed heap never panics, and sixteen-byte granularity makes one round
  per sixteen bytes of arena, and one more, enough for its loop. It returns null only when no
  free node can hold the request; otherwise the block is aligned as asked, lies in the arena
  apart from every live block and from all that stays free, and no byte of a live block changes.
\<close>

theorem alloc_returns_fresh_block:
  assumes "heap_inv lo n ns live h" and "request_ok lo n l k" and "0 < lay_size l"
  shows "\<exists>p h'. alloc (heap_fuel n) l h = Some (p, h') \<and>
    (p = 0 \<and> h' = h \<and> (\<forall>r\<in>set ns. \<not> fits l k r) \<or>
     p \<noteq> 0 \<and> p mod lay_align l = 0 \<and> (\<exists>ns'. heap_inv lo n ns' ((p, l) # live) h') \<and>
     (\<forall>b\<in>set live. disj (live_region (p, l)) (live_region b) \<and>
        untouched (hmem h) (hmem h') (live_region b)))"
  using assms
proof (cases rule: alloc_cases)
  case (block p h' ns')
  have "\<forall>b\<in>set live. disj (live_region (p, l)) (live_region b)"
    using block(5) by (simp add: heap_inv_def del: live_region.simps)
  with block show ?thesis by (intro exI[of _ p] exI[of _ h'] conjI disjI2) auto
qed auto

definition demo_heap :: heap where
  "demo_heap = the (heap_init 0x10000 4096 (heap_new (\<lambda>_. 0)))"

lemma demo_heap_inv: "heap_inv 0x10000 4096 [(0x10000, 4080)] [] demo_heap"
  using heap_init_inv[of "0x10000" 4096 "\<lambda>_. 0"] by (auto simp: demo_heap_def usize_bound_def)

theorem alloc_returns_fresh_block_witness:
  "\<exists>p h'. alloc (heap_fuel 4096) \<lparr>lay_size = 100, lay_align = 8\<rparr> demo_heap = Some (p, h')"
proof -
  have "request_ok 0x10000 4096 \<lparr>lay_size = 100, lay_align = 8\<rparr> 3"
    by (simp add: request_ok_def usize_bound_def)
  from alloc_returns_fresh_block[OF demo_heap_inv this] show ?thesis by auto
qed

text \<open>
  C6: From \<open>init\<close> on, any sequence of allocations and of deallocations of blocks held, in any
  order, runs without a panic; at the end the blocks held are pairwise apart and inside the
  arena, and \<open>USED_MEMORY\<close> is the sum of their requested sizes, at most the size of the arena.
\<close>

theorem heap_sequences_safe:
  assumes "0 < start" and "16 \<le> len" and "start + len < usize_bound"
    and "\<forall>r\<in>set rs. kheap.admissible start len r"
  shows "\<exists>h live h'. heap_init start len (heap_new m) = Some h \<and>
    kheap.serve_all len rs ([], h) = Some (live, h') \<and>
    apart (map live_region live) \<and> (\<forall>b\<in>set live. inside (live_region b) (start, len)) \<and>
    used_memory h' = sum_list (map (lay_size \<circ> snd) live) \<and> used_memory h' \<le> len"
proof -
  obtain h where h: "heap_init start len (heap_new m) = Some h"
    "heap_inv start len [(start, len - 16)] [] h"
    using heap_init_inv[OF assms(1-3), of m] by blast
  then have "heap_valid start len [] h" by (auto simp: heap_valid_def)
  from kheap.serve_all_valid[OF this assms(4)] obtain live h' where
    run: "kheap.serve_all len rs ([], h) = Some (live, h')" and "heap_valid start len live h'" by blast
  then obtain ns where inv: "heap_inv start len ns live h'" by (auto simp: heap_valid_def)
  with live_total[OF inv] h(1) run show ?thesis by (auto simp: heap_inv_def)
qed

theorem heap_sequences_safe_witness:
  "\<exists>h live h'. heap_init 0x10000 4096 (heap_new (\<lambda>_. 0)) = Some h \<and>
     kheap.serve_all 4096 [Alloc \<lparr>lay_size = 100, lay_align = 8\<rparr>, Free 0] ([], h) = Some (live, h')"
proof -
  have "request_ok 0x10000 4096 \<lparr>lay_size = 100, lay_align = 8\<rparr> 3"
    by (simp add: request_ok_def usize_bound_def)
  then have "layout_allowed 0x10000 4096 \<lparr>lay_size = 100, lay_align = 8\<rparr>"
    by (auto simp: layout_allowed_def)
  then show ?thesis
    using heap_sequences_safe[where start = "0x10000" and len = 4096 and m = "\<lambda>_. 0"
        and rs = "[Alloc \<lparr>lay_size = 100, lay_align = 8\<rparr>, Free 0]"]
    by (auto simp: kheap.admissible_def usize_bound_def)
qed

text \<open>
  A block returned is the next one handed out for the same layout, when its alignment is at
  most sixteen.
\<close>

theorem freed_block_reused:
  assumes "heap_inv lo n ns (l1 @ (p, l) # l2) h" and "request_ok lo n l k" and "k \<le> 4"
    and "0 < lay_size l" and "p mod 16 = 0"
  shows "\<exists>h1 h2. dealloc p l h = Some h1 \<and> alloc (heap_fuel n) l h1 = Some (p, h2)"
proof -
  from dealloc_inv[OF assms(1)] obtain h1 where h1: "dealloc p l h = Some h1"
    "heap_inv lo n ((p - 16, round16 (lay_size l)) # ns) (l1 @ l2) h1" by blast
  have p: "16 \<le> p" "p + 16 < usize_bound"
    using assms(1) round16_bounds(1)[of "lay_size l"] assms(2)
    by (auto simp: heap_inv_def request_ok_def)
  have "round16 p = p" using assms(5) unfolding round16_def by presburger
  with p assms(3) align_up_16[OF p(2)] have "block_start (p - 16) k = p"
    by (simp add: block_start_def max_def)
  then have "first_fit l k [] ((p - 16, round16 (lay_size l)) # ns) h1 =
      (p, snd (first_fit l k [] ((p - 16, round16 (lay_size l)) # ns) h1))"
    using p by (simp add: fits_def)
  with alloc_first_fit[OF h1(2) assms(2,4)] h1(1) show ?thesis by (metis prod.collapse)
qed

definition demo_layout :: layout where
  "demo_layout = \<lparr>lay_size = 100, lay_align = 8\<rparr>"

lemma demo_request: "request_ok 0x10000 4096 demo_layout 3" "0 < lay_size demo_layout"
  by (simp_all add: demo_layout_def request_ok_def usize_bound_def)

lemma demo_fits: "fits demo_layout 3 (0x10000, 4080)"
proof -
  have "align_up (0x10000 + 16) (2 ^ max 3 4) = Some 0x10010"
    using align_up_16[of "0x10010"] by (simp add: usize_bound_def round16_def)
  then show ?thesis by (simp add: fits_def block_start_def demo_layout_def round16_def)
qed

text \<open>The first block of a fresh heap, returned and asked for again.\<close>

theorem freed_block_reused_witness:
  "\<exists>p h h1 h2. dealloc p demo_layout h = Some h1 \<and>
     alloc (heap_fuel 4096) demo_layout h1 = Some (p, h2)"
  using demo_heap_inv demo_request
proof (cases rule: alloc_cases)
  case full
  with demo_fits show ?thesis by simp
next
  case (block p h ns)
  from freed_block_reused[of _ _ ns "[]", simplified, OF block(5) demo_request(1) _ demo_request(2) block(4)]
  show ?thesis by auto
qed

end
