(* ===== verification/Boot.thy ===== *)
theory Boot
  imports Page_Walk Syscall Devices Mount Allocator Console
begin

text \<open>
  The boot path: \<open>init\<close> of \<open>kernel/src/gdt.rs\<close> and of \<open>kernel/src/syscall.rs\<close>, and
  \<open>kernel_main\<close> of \<open>kernel/src/main.rs\<close>, which brings every component up in order and ends in
  the jump to the first task, with the tests it makes on the way and the messages it prints. The
  descriptor table of the \<open>x86_64\<close> crate is
  a parameter with its documented law. The lemmas show that boot returns and that what it leaves
  is the initial state the other theories start from.
\<close>

subsection \<open>Descriptor tables\<close>

datatype descriptor =
  Kernel_Code_Segment | Kernel_Data_Segment | User_Data_Segment | User_Code_Segment | Tss_Segment

record selectors =
  kernel_code :: u16
  kernel_data :: u16
  user_data :: u16
  user_code :: u16
  tss_selector :: u16

record 'g cpu_tables =
  privilege_stack_0 :: nat
  double_fault_ist :: nat
  gdt :: 'g
  cs_reg :: u16
  ds_reg :: u16
  task_reg :: u16

type_synonym 'g table_ops = "descriptor \<Rightarrow> 'g \<Rightarrow> (u16 \<times> 'g) option"

text \<open>\<open>PRIVILEGE_STACK\<close> and \<open>DOUBLE_FAULT_STACK\<close> are given by their addresses.\<close>

definition gdt_init ::
  "'g table_ops \<Rightarrow> nat \<Rightarrow> nat \<Rightarrow> 'g \<Rightarrow> (selectors \<times> 'g cpu_tables) option" where
  "gdt_init add_entry privilege_stack double_fault_stack g =
     do {
       stack_top \<leftarrow> uadd privilege_stack 4096;
       df_stack_top \<leftarrow> uadd double_fault_stack 4096;
       (kcode, g) \<leftarrow> add_entry Kernel_Code_Segment g;
       (kdata, g) \<leftarrow> add_entry Kernel_Data_Segment g;
       (udata, g) \<leftarrow> add_entry User_Data_Segment g;
       (ucode, g) \<leftarrow> add_entry User_Code_Segment g;
       (tss, g) \<leftarrow> add_entry Tss_Segment g;
       Some (\<lparr>kernel_code = kcode, kernel_data = kdata, user_data = udata, user_code = ucode,
           tss_selector = tss\<rparr>,
         \<lparr>privilege_stack_0 = stack_top, double_fault_ist = df_stack_top, gdt = g,
           cs_reg = kcode, ds_reg = kdata, task_reg = tss\<rparr>)
     }"

definition set_interrupt_stack :: "nat \<Rightarrow> 'g cpu_tables \<Rightarrow> 'g cpu_tables" where
  "set_interrupt_stack stack_top t = t\<lparr>privilege_stack_0 := stack_top\<rparr>"

text \<open>A table of slots after the null descriptor: where an entry goes and the selector it gets.\<close>

definition descriptor_slots :: "descriptor \<Rightarrow> nat" where
  "descriptor_slots d = (if d = Tss_Segment then 2 else 1)"

definition descriptor_rpl :: "descriptor \<Rightarrow> u16" where
  "descriptor_rpl d = (if d = User_Data_Segment \<or> d = User_Code_Segment then 3 else 0)"

definition selector_at :: "nat \<Rightarrow> descriptor \<Rightarrow> u16" where
  "selector_at i d = push_bit 3 (word_of_nat i) OR descriptor_rpl d"

locale descriptor_table =
  fixes add_entry :: "'g table_ops" and used :: "'g \<Rightarrow> nat"
  assumes add_law: "used g + descriptor_slots d \<le> 7 \<Longrightarrow>
    \<exists>g'. add_entry d g = Some (selector_at (used g + 1) d, g') \<and> used g' = used g + descriptor_slots d"
begin

lemma gdt_init_ok:
  assumes "used g = 0" and "ps + 4096 < usize_bound" and "df + 4096 < usize_bound"
  shows "\<exists>g'. gdt_init add_entry ps df g =
    Some (\<lparr>kernel_code = 0x08, kernel_data = 0x10, user_data = 0x1B, user_code = 0x23, tss_selector = 0x28\<rparr>,
      \<lparr>privilege_stack_0 = ps + 4096, double_fault_ist = df + 4096, gdt = g',
        cs_reg = 0x08, ds_reg = 0x10, task_reg = 0x28\<rparr>)"
proof -
  note defs = descriptor_slots_def selector_at_def descriptor_rpl_def
  obtain g1 where g1: "add_entry Kernel_Code_Segment g = Some (0x08, g1)" "used g1 = 1"
    using add_law[of g Kernel_Code_Segment] assms(1) by (auto simp: defs)
  obtain g2 where g2: "add_entry Kernel_Data_Segment g1 = Some (0x10, g2)" "used g2 = 2"
    using add_law[of g1 Kernel_Data_Segment] g1 by (auto simp: defs)
  obtain g3 where g3: "add_entry User_Data_Segment g2 = Some (0x1B, g3)" "used g3 = 3"
    using add_law[of g2 User_Data_Segment] g2 by (auto simp: defs)
  obtain g4 where g4: "add_entry User_Code_Segment g3 = Some (0x23, g4)" "used g4 = 4"
    using add_law[of g3 User_Code_Segment] g3 by (auto simp: defs)
  obtain g5 where g5: "add_entry Tss_Segment g4 = Some (0x28, g5)"
    using add_law[of g4 Tss_Segment] g4 by (auto simp: defs)
  have "uadd ps 4096 = Some (ps + 4096)" "uadd df 4096 = Some (df + 4096)"
    using assms(2,3) by (simp_all add: checked)
  then show ?thesis by (simp add: gdt_init_def g1 g2 g3 g4 g5)
qed

end

text \<open>The table as a list of slots.\<close>

definition gdt_add :: "descriptor list table_ops" where
  "gdt_add d g =
     (if length g + descriptor_slots d \<le> 7
      then Some (selector_at (length g + 1) d, g @ replicate (descriptor_slots d) d) else None)"

interpretation gdt_table: descriptor_table gdt_add length
  by unfold_locales (simp add: gdt_add_def)

subsection \<open>System call registers\<close>

record msrs =
  star :: u64
  lstar :: u64
  fmask_msr :: u64
  efer :: u64

definition EFER_SCE :: u64 where
  "EFER_SCE = 1"

definition syscall_init :: "u64 \<Rightarrow> nat \<Rightarrow> msrs \<Rightarrow> (msrs \<times> nat) option" where
  "syscall_init handler_addr syscall_stack r =
     do {
       let r = r\<lparr>star := push_bit 32 0x08 OR push_bit 48 0x13, lstar := handler_addr,
         fmask_msr := 0x200 OR 0x400, efer := efer r OR EFER_SCE\<rparr>;
       current_kernel_stack \<leftarrow> uadd syscall_stack 8192;
       Some (r, current_kernel_stack)
     }"

subsection \<open>Tasks\<close>

text \<open>The static items of \<open>main.rs\<close>: where the linker put entry points and stacks.\<close>

datatype task_name = Shell_Task | Fs_Server_Task | Ata_Server_Task | Input_Server_Task | Gui_Server_Task

record placement =
  entry_point :: "task_name \<Rightarrow> u64"
  user_stack :: "task_name \<Rightarrow> nat"
  kernel_stack :: "task_name \<Rightarrow> nat"
  heap_mem :: nat
  privilege_stack :: nat
  double_fault_stack :: nat
  syscall_stack :: nat
  syscall_handler :: u64

definition new_task :: "placement \<Rightarrow> nat \<Rightarrow> task_name \<Rightarrow> bool \<Rightarrow> mem \<Rightarrow> (task \<times> mem) option" where
  "new_task at tid name allow_io =
     task_new_user tid (entry_point at name) (user_stack at name, 16384) (kernel_stack at name, 16384) allow_io"

definition spawn_expect :: "task \<Rightarrow> scheduler \<Rightarrow> scheduler option" where
  "spawn_expect t s = (case spawn t s of (Inr _, s) \<Rightarrow> Some s | (Inl _, s) \<Rightarrow> None)"

definition boot_tasks :: "placement \<Rightarrow> mem \<Rightarrow> (scheduler \<times> mem) option" where
  "boot_tasks at m =
     do {
       (task_a, m) \<leftarrow> new_task at 1 Shell_Task False m;
       (task_b, m) \<leftarrow> new_task at 2 Fs_Server_Task False m;
       (task_ata, m) \<leftarrow> new_task at 3 Ata_Server_Task True m;
       (task_input, m) \<leftarrow> new_task at 4 Input_Server_Task True m;
       (task_gui, m) \<leftarrow> new_task at 5 Gui_Server_Task False m;
       s \<leftarrow> spawn_expect task_a scheduler_new;
       s \<leftarrow> spawn_expect task_b s;
       s \<leftarrow> spawn_expect task_ata s;
       s \<leftarrow> spawn_expect task_input s;
       s \<leftarrow> spawn_expect task_gui s;
       Some (s, m)
     }"

subsection \<open>Messages\<close>

text \<open>
  The lines boot prints. \<open>fmt\<close> is the \<open>Debug\<close> text of the bootloader's pixel format.
\<close>

definition dashes :: "nat list" where
  "dashes = text_chars ''----------------------------------------------------------''"

definition banner :: "nat list list" where
  "banner = map text_chars
     [''=========================================================='',
      ''              RelizOS-Rust v0.1.0 Booting                 '',
      ''=========================================================='',
      ''[ OK ] CPU Mode: x86_64 Long Mode (64-bit)'',
      ''[ OK ] Firmware: UEFI Boot Services Active'']"

definition gop_line :: "(pixel_format \<Rightarrow> nat list) \<Rightarrow> frame_buffer_info option \<Rightarrow> nat list" where
  "gop_line fmt i =
     (case i of
        None \<Rightarrow> text_chars ''[WARN] GOP: No framebuffer available''
      | Some i \<Rightarrow> text_chars ''[ OK ] GOP: '' @ dec_text (fb_width i) @ text_chars ''x'' @ dec_text (fb_height i) @
          text_chars '' stride='' @ dec_text (fb_stride i) @ text_chars '' bpp='' @ dec_text (bytes_per_pixel i) @
          text_chars '' '' @ fmt (pixel_format i))"

definition mapped_line :: "nat \<Rightarrow> nat \<Rightarrow> u64 \<Rightarrow> nat list" where
  "mapped_line virt phys val =
     text_chars ''[ OK ] VMM mapping OK: virt 0x'' @ hex_text virt @ text_chars '' -> phys 0x'' @ hex_text phys @
       text_chars '', value = 0x'' @ hex_text (unat val)"

definition volume_lines :: "superblock \<Rightarrow> nat list list" where
  "volume_lines sb =
     [text_chars ''[ OK ] RelizFS mounted successfully!'',
      text_chars ''       FS Magic:       0x'' @ hex_text (unat (sb_magic sb)),
      text_chars ''       Total Blocks:   '' @ dec_text (unat (sb_total_blocks sb)),
      text_chars ''       Inode Count:    '' @ dec_text (unat (sb_inode_count sb)),
      text_chars ''       Data Blocks @:  sector '' @ dec_text (unat (sb_data_blocks_start sb)),
      dashes, text_chars ''Root Directory [/] Listing:'']"

text \<open>A line of \<open>list_directory\<close>; its name is UTF-8, since \<open>get_name\<close> has checked it.\<close>

definition dir_line_text :: "dir_line \<Rightarrow> nat list" where
  "dir_line_text l =
     (case l of (t, name, n) \<Rightarrow>
        text_chars ''  '' @ pad_to 6 (text_chars t) @ text_chars ''   '' @
        pad_to 16 (case utf8_decode name of Some us \<Rightarrow> us | None \<Rightarrow> []) @
        text_chars ''   (inode '' @ dec_text (unat n) @ text_chars '')'')"

subsection \<open>Memory and volume\<close>

definition HEAP_SIZE :: nat where
  "HEAP_SIZE = 32 * 1024 * 1024"

definition store32 :: "mem \<Rightarrow> nat \<Rightarrow> u32 \<Rightarrow> mem" where
  "store32 m a w = store m a (u32_to_le w)"

definition load32 :: "mem \<Rightarrow> nat \<Rightarrow> u32" where
  "load32 m a = u32_from_le (load m a 4)"

text \<open>The global allocator as \<open>Vec\<close> and \<open>Box\<close> call it: null is the out-of-memory panic.\<close>

definition heap_alloc :: "layout \<Rightarrow> heap \<Rightarrow> (nat \<times> heap) option" where
  "heap_alloc l h =
     do { (p, h) \<leftarrow> alloc (heap_fuel HEAP_SIZE) l h; if p = 0 then None else Some (p, h) }"

definition vec_layout :: layout where
  "vec_layout = \<lparr>lay_size = 16, lay_align = 4\<rparr>"

definition box_layout :: layout where
  "box_layout = \<lparr>lay_size = 4, lay_align = 4\<rparr>"

definition heap_line :: "u32 \<Rightarrow> u32 \<Rightarrow> u32 \<Rightarrow> nat list" where
  "heap_line b x y =
     text_chars ''[ OK ] Heap test successful: Box='' @ i32_text b @ text_chars '', Vec=['' @ i32_text x @
       text_chars '', '' @ i32_text y @ text_chars '']''"

text \<open>
  The test of the heap. The first \<open>push\<close> to an empty vector makes room for four elements; the
  box and the vector are dropped at the end of the block, the box first.
\<close>

definition heap_test :: "font \<Rightarrow> heap \<Rightarrow> writer option \<Rightarrow> (heap \<times> writer option) option" where
  "heap_test font h w =
     do {
       (v, h) \<leftarrow> heap_alloc vec_layout h;
       let h = h\<lparr>hmem := store32 (hmem h) v 42\<rparr>;
       let h = h\<lparr>hmem := store32 (hmem h) (v + 4) 1337\<rparr>;
       (b, h) \<leftarrow> heap_alloc box_layout h;
       let h = h\<lparr>hmem := store32 (hmem h) b 777\<rparr>;
       w \<leftarrow> print_line font (heap_line (load32 (hmem h) b) (load32 (hmem h) v) (load32 (hmem h) (v + 4))) w;
       h \<leftarrow> dealloc b box_layout h;
       h \<leftarrow> dealloc v vec_layout h;
       Some (h, w)
     }"

definition boot_heap :: "font \<Rightarrow> placement \<Rightarrow> mem \<Rightarrow> writer option \<Rightarrow> (heap \<times> writer option) option" where
  "boot_heap font at m w =
     do {
       w \<leftarrow> print_line font (text_chars ''Initializing Heap Memory Allocator (32 MiB)...'') w;
       h \<leftarrow> heap_init (heap_mem at) HEAP_SIZE (heap_new m);
       w \<leftarrow> print_line font (text_chars ''[ OK ] Heap allocator initialized successfully.'') w;
       heap_test font h w
     }"

definition test_virt_page :: nat where
  "test_virt_page = 0x777700000000"

text \<open>
  The paging part of \<open>kernel_main\<close>: the result of the test mapping, the frame taken for it, and
  the final state. The test word is written and read through the new mapping.
\<close>

definition boot_paging ::
  "entry_ops \<Rightarrow> font \<Rightarrow> nat option \<Rightarrow> memory_region list \<Rightarrow> nat \<Rightarrow> mem \<Rightarrow> writer option \<Rightarrow>
     ((string + unit) \<times> nat \<times> paging \<times> writer option) option" where
  "boot_paging ops font offset rs root m w =
     do {
       w \<leftarrow> print_line font (text_chars ''Initializing Virtual Memory Manager (VMM)...'') w;
       phys_offset \<leftarrow> offset;
       let p = paging_init phys_offset rs
         \<lparr>phys_mem_offset = 0, frame_alloc = None, pg_mem = m, cr3 = root\<rparr>;
       w \<leftarrow> print_line font (text_chars ''[ OK ] Physical memory offset: 0x'' @ hex_text phys_offset) w;
       a \<leftarrow> frame_alloc p;
       (frame, a) \<leftarrow> allocate_frame a;
       phys_frame \<leftarrow> frame;
       let p = p\<lparr>frame_alloc := Some a\<rparr>;
       (res, p) \<leftarrow> map_page ops test_virt_page phys_frame (PRESENT OR WRITABLE) p;
       (p, w) \<leftarrow> (case res of
           Inr _ \<Rightarrow>
             do {
               p \<leftarrow> write_virtual ops test_virt_page 0xDEADC0DE p;
               val \<leftarrow> read_virtual ops test_virt_page p;
               w \<leftarrow> print_line font (mapped_line test_virt_page phys_frame val) w;
               Some (p, w)
             }
         | Inl _ \<Rightarrow>
             do {
               w \<leftarrow> print_line font (text_chars ''[ERROR] VMM page mapping failed!'') w;
               Some (p, w)
             });
       w \<leftarrow> print_line font (text_chars ''Marking pages USER_ACCESSIBLE for Ring 3 tasks...'') w;
       p \<leftarrow> mark_all_user_accessible ops p;
       w \<leftarrow> say font [text_chars ''[ OK ] All present pages marked USER_ACCESSIBLE.'', dashes] w;
       Some (res, phys_frame, p, w)
     }"

text \<open>The mount: the lines listed, or what went wrong.\<close>

definition boot_volume ::
  "font \<Rightarrow> 'd reader \<Rightarrow> 'd \<Rightarrow> writer option \<Rightarrow> ((string + dir_line list) \<times> 'd \<times> writer option) option" where
  "boot_volume font rd d w =
     do {
       w \<leftarrow> print_line font (text_chars ''Mounting RelizFS file system...'') w;
       (r, d) \<leftarrow> relizfs_init rd d;
       (vol, d, w) \<leftarrow> (case r of
           Inl e \<Rightarrow>
             do {
               w \<leftarrow> print_line font (text_chars ''[ERROR] Failed to mount RelizFS: '' @ text_chars e) w;
               Some (Inl e, d, w)
             }
         | Inr sb \<Rightarrow>
             do {
               w \<leftarrow> say font (volume_lines sb) w;
               (r, d) \<leftarrow> read_inode rd sb 0 d;
               case r of
                 Inl e \<Rightarrow> Some (Inr [], d, w)
               | Inr root_inode \<Rightarrow>
                   do {
                     (r, out, d) \<leftarrow> list_directory rd sb root_inode d;
                     w \<leftarrow> say font (map dir_line_text out) w;
                     Some (Inr out, d, w)
                   }
             });
       w \<leftarrow> print_line font dashes w;
       Some (vol, d, w)
     }"

subsection \<open>Boot\<close>

record boot_info =
  framebuffer :: "(bytes \<times> frame_buffer_info) option"
  physical_memory_offset :: "nat option"
  memory_regions :: "memory_region list"

record ('d, 'g) booted_system =
  sys_machine :: machine
  sys_selectors :: selectors
  sys_tables :: "'g cpu_tables"
  sys_msrs :: msrs
  sys_idt :: "nat \<Rightarrow> (handler \<times> nat option) option"
  sys_heap :: heap
  sys_paging :: paging
  sys_mapped :: "(string + unit) \<times> nat"
  sys_volume :: "string + dir_line list"
  sys_devices :: 'd
  sys_first_rsp :: nat

definition init_screen :: "boot_info \<Rightarrow> writer option option" where
  "init_screen bi =
     (case framebuffer bi of
        None \<Rightarrow> Some None
      | Some (buffer, i) \<Rightarrow> map_option Some (writer_new buffer i))"

definition spawned_line :: "nat list" where
  "spawned_line =
     text_chars ''[ OK ] Spawning Shell (1), FS Server (2), ATA Server (3), Input Server (4), GUI Server (5)''"

text \<open>
  \<open>kernel_main\<close> up to the jump: \<open>m\<close> is memory, \<open>root\<close> the page table in \<open>CR3\<close>, \<open>g\<close>, \<open>r\<close> and
  \<open>d\<close> the descriptor table, the model-specific registers and the devices as boot finds them.
\<close>

definition kernel_main ::
  "font \<Rightarrow> (pixel_format \<Rightarrow> nat list) \<Rightarrow> entry_ops \<Rightarrow> 'g table_ops \<Rightarrow> 'd port_bus \<Rightarrow> placement \<Rightarrow> boot_info \<Rightarrow>
     mem \<Rightarrow> nat \<Rightarrow> 'g \<Rightarrow> msrs \<Rightarrow> 'd \<Rightarrow> ('d, 'g) booted_system option" where
  "kernel_main font fmt ops add_entry bus at bi m root g r d =
     do {
       w \<leftarrow> init_screen bi;
       w \<leftarrow> say font banner w;
       w \<leftarrow> say font [gop_line fmt (get_info w), dashes] w;
       (h, w) \<leftarrow> boot_heap font at m w;
       (res, frame, p, w) \<leftarrow> boot_paging ops font (physical_memory_offset bi) (memory_regions bi) root (hmem h) w;
       w \<leftarrow> print_line font (text_chars ''Initializing GDT and Task State Segment (TSS)...'') w;
       (sel, tables) \<leftarrow> gdt_init add_entry (privilege_stack at) (double_fault_stack at) g;
       w \<leftarrow> say font [text_chars ''[ OK ] GDT loaded. TSS loaded. RSP0 privilege stack mapped.'',
         text_chars ''Initializing fast system calls (syscall/sysret)...''] w;
       (r, current_kernel_stack) \<leftarrow> syscall_init (syscall_handler at) (syscall_stack at) r;
       w \<leftarrow> print_line font (text_chars ''[ OK ] STAR, LSTAR, FMASK registers mapped. Syscall active.'') w;
       (vol, d, w) \<leftarrow> boot_volume font (ata_rd bus) d w;
       w \<leftarrow> print_line font (text_chars ''Initializing task scheduler...'') w;
       (s, m) \<leftarrow> boot_tasks at (pg_mem p);
       w \<leftarrow> say font [spawned_line, text_chars ''Initializing IDT and PIC timer interrupts...''] w;
       let (idt, d) = interrupts_init bus d;
       w \<leftarrow> say font [text_chars ''[ OK ] IDT loaded. PIC remapped to vector 0x20.'',
         text_chars ''Starting preemptive scheduler...'', dashes] w;
       ((new_rsp, ktop), s) \<leftarrow> start_first_task s;
       Some \<lparr>sys_machine = \<lparr>sched = s, memory = m, rsp0 = ktop, kstack = ktop, ticks = 0, port_log = [],
           used_mem = used_memory h, screen = w\<rparr>,
         sys_selectors = sel, sys_tables = set_interrupt_stack ktop tables, sys_msrs = r, sys_idt = idt,
         sys_heap = h\<lparr>hmem := m\<rparr>, sys_paging = p\<lparr>pg_mem := m\<rparr>, sys_mapped = (res, frame),
         sys_volume = vol, sys_devices = d, sys_first_rsp = new_rsp\<rparr>
     }"

subsection \<open>The tasks boot leaves\<close>

definition user_context :: "u64 \<Rightarrow> nat \<Rightarrow> bool \<Rightarrow> cpu" where
  "user_context entry stack_end allow_io =
     \<lparr>gpr = \<lambda>_. 0, rip = entry, cs = 0x23, rflags = (if allow_io then 0x3202 else 0x202),
      rsp = word_of_nat stack_end, ss = 0x1B\<rparr>"

text \<open>A ready task whose saved frame, within its kernel stack, is that of a context.\<close>

definition ready_task :: "nat \<Rightarrow> nat \<Rightarrow> cpu \<Rightarrow> task \<Rightarrow> mem \<Rightarrow> bool" where
  "ready_task tid ks c t m \<longleftrightarrow> task_id t = tid \<and> task_state t = Ready \<and> ks \<le> task_rsp t \<and>
     task_rsp t + 160 = kernel_stack_top t \<and> kernel_stack_top t \<le> ks + 16384 \<and>
     kernel_stack_top t mod 16 = 0 \<and> load_words m (task_rsp t) 20 = context_words c"

definition stack_of :: "placement \<Rightarrow> task_name \<Rightarrow> nat" where
  "stack_of at name = and_not (user_stack at name + 16384) 0xF"

definition io_task :: "task_name \<Rightarrow> bool" where
  "io_task name \<longleftrightarrow> name = Ata_Server_Task \<or> name = Input_Server_Task"

definition task_context :: "placement \<Rightarrow> task_name \<Rightarrow> cpu" where
  "task_context at name = user_context (entry_point at name) (stack_of at name) (io_task name)"

definition stacks_ok :: "placement \<Rightarrow> bool" where
  "stacks_ok at \<longleftrightarrow> (\<forall>n. user_stack at n + 16384 < usize_bound \<and> kernel_stack at n + 16384 < usize_bound) \<and>
     (\<forall>n n'. n \<noteq> n' \<longrightarrow> kernel_stack at n + 16384 \<le> kernel_stack at n' \<or>
        kernel_stack at n' + 16384 \<le> kernel_stack at n)"

lemma new_task_ready:
  assumes ok: "stacks_ok at"
  shows "\<exists>t m'. new_task at tid name (io_task name) m = Some (t, m') \<and>
    ready_task tid (kernel_stack at name) (task_context at name) t m' \<and>
    (\<forall>x. x < kernel_stack at name \<or> kernel_stack at name + 16384 \<le> x \<longrightarrow> m' x = m x)"
proof -
  let ?ks = "kernel_stack at name" and ?us = "user_stack at name"
  let ?top = "and_not (?ks + 16384) 0xF"
  have b: "?us + 16384 < usize_bound" "?ks + 16384 < usize_bound" using ok by (simp_all add: stacks_ok_def)
  have top: "?top \<le> ?ks + 16384" "?ks + 160 \<le> ?top"
    unfolding and_not_15[OF b(2)] using mod_less_divisor[of 16 "?ks + 16384"] by linarith+
  have aligned: "?top mod 16 = 0" unfolding and_not_15[OF b(2)] by (simp add: minus_mod_eq_mult_div)
  let ?w = "context_words (task_context at name)"
  let ?t = "\<lparr>task_id = tid, task_rsp = ?top - 160, kernel_stack_top = ?top, task_state = Ready\<rparr>"
  let ?m = "store m (?top - 160) (words_to_le ?w)"
  have "new_task at tid name (io_task name) m = Some (?t, ?m)"
    using b top by (simp add: new_task_def task_new_user_def checked frame_size_def Let_def initial_frame_def
        frame_words_def context_words_def pop_order_def task_context_def user_context_def stack_of_def)
  moreover have "load_words ?m (?top - 160) 20 = ?w"
    using load_words_store[of m "?top - 160" ?w] by simp
  moreover have "?m x = m x" if "x < ?ks \<or> ?ks + 16384 \<le> x" for x
    using that top by (intro store_outside) auto
  ultimately show ?thesis using top aligned by (auto simp: ready_task_def)
qed

lemma ready_task_elsewhere:
  assumes "ready_task tid ks c t m" and "\<And>x. ks \<le> x \<Longrightarrow> x < ks + 16384 \<Longrightarrow> m' x = m x"
  shows "ready_task tid ks c t m'"
proof -
  have "load_words m' (task_rsp t) 20 = load_words m (task_rsp t) 20"
    by (rule load_words_cong) (use assms in \<open>auto simp: ready_task_def\<close>)
  with assms(1) show ?thesis by (simp add: ready_task_def)
qed

definition boot_order :: "task_name list" where
  "boot_order = [Shell_Task, Fs_Server_Task, Ata_Server_Task, Input_Server_Task, Gui_Server_Task]"

fun new_tasks :: "placement \<Rightarrow> nat \<Rightarrow> task_name list \<Rightarrow> mem \<Rightarrow> (task list \<times> mem) option" where
  "new_tasks at tid [] m = Some ([], m)"
| "new_tasks at tid (n # ns) m =
     do {
       (t, m) \<leftarrow> new_task at tid n (io_task n) m;
       (ts, m) \<leftarrow> new_tasks at (tid + 1) ns m;
       Some (t # ts, m)
     }"

lemma new_tasks_ready:
  assumes "stacks_ok at" and "distinct ns"
  shows "\<exists>ts m'. new_tasks at tid ns m = Some (ts, m') \<and> length ts = length ns \<and>
    (\<forall>i<length ns. ready_task (tid + i) (kernel_stack at (ns ! i)) (task_context at (ns ! i)) (ts ! i) m') \<and>
    (\<forall>x. (\<forall>n\<in>set ns. x < kernel_stack at n \<or> kernel_stack at n + 16384 \<le> x) \<longrightarrow> m' x = m x)"
  using assms(2)
proof (induction ns arbitrary: tid m)
  case (Cons n ns)
  obtain t m1 where t: "new_task at tid n (io_task n) m = Some (t, m1)"
    and r: "ready_task tid (kernel_stack at n) (task_context at n) t m1"
    and k: "\<forall>x. x < kernel_stack at n \<or> kernel_stack at n + 16384 \<le> x \<longrightarrow> m1 x = m x"
    using new_task_ready[OF assms(1), of tid n m] by blast
  obtain ts m' where ts: "new_tasks at (tid + 1) ns m1 = Some (ts, m')" "length ts = length ns"
    and rs: "\<forall>i<length ns. ready_task (tid + 1 + i) (kernel_stack at (ns ! i)) (task_context at (ns ! i)) (ts ! i) m'"
    and ks: "\<forall>x. (\<forall>n\<in>set ns. x < kernel_stack at n \<or> kernel_stack at n + 16384 \<le> x) \<longrightarrow> m' x = m1 x"
    using Cons.IH[of "tid + 1" m1] Cons.prems by auto
  have apart: "x < kernel_stack at n' \<or> kernel_stack at n' + 16384 \<le> x"
    if "n' \<in> set ns" "kernel_stack at n \<le> x" "x < kernel_stack at n + 16384" for n' x
  proof -
    have "n \<noteq> n'" using that(1) Cons.prems by auto
    with assms(1) have "kernel_stack at n + 16384 \<le> kernel_stack at n' \<or> kernel_stack at n' + 16384 \<le> kernel_stack at n"
      unfolding stacks_ok_def by blast
    with that(2,3) show ?thesis by linarith
  qed
  have first: "ready_task tid (kernel_stack at n) (task_context at n) t m'"
    by (rule ready_task_elsewhere[OF r]) (use ks apart in blast)
  have "ready_task (tid + i) (kernel_stack at ((n # ns) ! i)) (task_context at ((n # ns) ! i)) ((t # ts) ! i) m'"
    if "i < length (n # ns)" for i
    using first rs that by (cases i) auto
  moreover have "m' x = m x"
    if "\<forall>n\<in>set (n # ns). x < kernel_stack at n \<or> kernel_stack at n + 16384 \<le> x" for x
    using that k ks by auto
  ultimately show ?case using t ts by auto
qed simp

lemma boot_tasks_list:
  assumes "new_tasks at 1 boot_order m = Some (ts, m')"
  shows "boot_tasks at m = Some (scheduler_new\<lparr>tasks := map Some ts @ replicate 3 None\<rparr>, m')"
proof -
  have io: "io_task Shell_Task = False" "io_task Fs_Server_Task = False" "io_task Ata_Server_Task = True"
    "io_task Input_Server_Task = True" "io_task Gui_Server_Task = False" by (simp_all add: io_task_def)
  obtain t1 m1 t2 m2 t3 m3 t4 m4 t5 where
    "new_task at 1 Shell_Task False m = Some (t1, m1)" "new_task at 2 Fs_Server_Task False m1 = Some (t2, m2)"
    "new_task at 3 Ata_Server_Task True m2 = Some (t3, m3)" "new_task at 4 Input_Server_Task True m3 = Some (t4, m4)"
    "new_task at 5 Gui_Server_Task False m4 = Some (t5, m')" "ts = [t1, t2, t3, t4, t5]"
    using assms unfolding boot_order_def new_tasks.simps io
    by (auto simp: bind_eq_Some_conv numeral_eq_Suc)
  then show ?thesis
    by (simp add: boot_tasks_def spawn_expect_def spawn_def scheduler_new_def numeral_eq_Suc)
qed

lemma boot_tasks_ready:
  assumes "stacks_ok at"
  shows "\<exists>ts m'. boot_tasks at m =
      Some (scheduler_new\<lparr>tasks := map Some ts @ replicate 3 None\<rparr>, m') \<and> length ts = 5 \<and>
    (\<forall>i<5. ready_task (i + 1) (kernel_stack at (boot_order ! i)) (task_context at (boot_order ! i)) (ts ! i) m')"
proof -
  have "distinct boot_order" "length boot_order = 5" by (simp_all add: boot_order_def)
  with new_tasks_ready[OF assms, of boot_order 1 m] obtain ts m' where
    "new_tasks at 1 boot_order m = Some (ts, m')" "length ts = 5"
    "\<forall>i<5. ready_task (1 + i) (kernel_stack at (boot_order ! i)) (task_context at (boot_order ! i)) (ts ! i) m'"
    by auto
  with boot_tasks_list[of at m ts m'] show ?thesis by (auto simp: add.commute)
qed

lemma ready_task_resumes:
  assumes "ready_task tid ks c t m" and "ks + 16384 < usize_bound"
  shows "resume m (word_of_nat (task_rsp t)) d = c"
proof -
  have u: "unat (word_of_nat (task_rsp t) :: u64) = task_rsp t" "task_rsp t + 160 < 2 ^ 64"
    using assms by (auto simp: ready_task_def usize_bound_def unat_of_nat)
  show ?thesis by (rule resume_context) (use u assms(1) in \<open>simp_all add: ready_task_def\<close>)
qed

lemma booted_tasks:
  assumes "length ts = 5" and "\<forall>i<5. \<exists>ks c. ready_task (i + 1) ks c (ts ! i) m"
  shows "booted (scheduler_new\<lparr>tasks := map Some ts @ replicate 3 None\<rparr>)"
  using assms by (auto simp: booted_def scheduler_new_def nth_append ready_task_def nth_Cons' split: if_splits)

subsection \<open>Memory and volume after boot\<close>

definition rw_page :: u64 where
  "rw_page = (PRESENT OR WRITABLE)"

lemma rw_page_rights:
  "contains rw_page PRESENT" "contains table_flags rw_page" "contains rw_page rw_page"
  "rw_page AND addr_mask = 0" "rw_page AND USER_ACCESSIBLE = 0"
  by (simp_all add: rw_page_def table_flags_def contains_def PRESENT_def WRITABLE_def
    USER_ACCESSIBLE_def addr_mask_def)

text \<open>The paging state \<open>paging::init\<close> leaves.\<close>

definition boot_pages :: "nat \<Rightarrow> memory_region list \<Rightarrow> nat \<Rightarrow> mem \<Rightarrow> paging" where
  "boot_pages off rs root m =
     paging_init off rs \<lparr>phys_mem_offset = 0, frame_alloc = None, pg_mem = m, cr3 = root\<rparr>"

lemma take_frame:
  assumes ok: "paging_ok ops p" and a: "frame_alloc p = Some a" and left: "1 \<le> frames_left p"
  shows "\<exists>f a'. allocate_frame a = Some (Some f, a') \<and> f = hd (remaining_frames a) \<and> f mod 4096 = 0 \<and> f < 2 ^ 52 \<and>
    paging_ok ops (p\<lparr>frame_alloc := Some a'\<rparr>) \<and> frames_left (p\<lparr>frame_alloc := Some a'\<rparr>) + 1 = frames_left p \<and>
    spare ops (p\<lparr>frame_alloc := Some a'\<rparr>) f"
proof -
  have fresh: "frames_fresh ops (ents p) (cr3 p) a" using ok a by (simp add: paging_ok_def)
  obtain f fs where fs: "remaining_frames a = f # fs"
    using left a by (cases "remaining_frames a") (auto simp: frames_left_def)
  obtain a' where a': "allocate_frame a = Some (Some f, a')" "remaining_frames a' = fs" "frames_ok a'"
    using allocate_frame_spec[of a] fresh fs by (auto simp: hands_out_def frames_fresh_def)
  have "paging_ok ops (p\<lparr>frame_alloc := Some a'\<rparr>)"
    using ok fresh fs a' by (simp add: paging_ok_def maps_memory_def frames_fresh_def)
  with a' fs fresh a show ?thesis by (simp add: frames_fresh_def frames_left_def spare_def free_frames_def)
qed

lemma load32_store: "load32 (store32 m a w) a = w"
  using load_store_same[of m a "u32_to_le w"] by (simp add: load32_def store32_def)

lemma load32_store_other: "a + 4 \<le> b \<or> b + 4 \<le> a \<Longrightarrow> load32 (store32 m b w) a = load32 m a"
  by (simp add: load32_def store32_def load_store_other)

lemma load32_untouched:
  assumes "untouched m m' (live_region (p, l))" and "p \<le> a" "a + 4 \<le> p + round16 (lay_size l)"
  shows "load32 m' a = load32 m a"
  unfolding load32_def
  by (rule arg_cong[where f = u32_from_le], rule load_cong) (use assms in \<open>auto simp: untouched_def\<close>)

lemma heap_store32:
  assumes "heap_inv lo n ns ((p, l) # live) h" and "p \<le> a" "a + 4 \<le> p + lay_size l"
  shows "heap_inv lo n ns ((p, l) # live) (h\<lparr>hmem := store32 (hmem h) a w\<rparr>)"
    and "b \<in> set live \<Longrightarrow> untouched (hmem h) (store32 (hmem h) a w) (live_region b)"
    and "same_outside lo n (hmem h) (store32 (hmem h) a w)"
  using client_store[of lo n ns "[]" p l live h a "u32_to_le w"] assms by (simp_all add: store32_def)

lemma heap_alloc_splits:
  assumes "heap_inv lo HEAP_SIZE [(a, s)] live h" and "lo + HEAP_SIZE + 128 < usize_bound"
    and "lay_align l = 4" and "0 < lay_size l" and "lay_size l \<le> 16" and "128 \<le> s"
  shows "\<exists>p h' a' s'. heap_alloc l h = Some (p, h') \<and> heap_inv lo HEAP_SIZE [(a', s')] ((p, l) # live) h' \<and>
    s \<le> s' + 64 \<and> (\<forall>b\<in>set live. untouched (hmem h) (hmem h') (live_region b)) \<and>
    same_outside lo HEAP_SIZE (hmem h) (hmem h')"
proof -
  have "lay_align l = 2 ^ 2" using assms(3) by simp
  then have "request_ok lo HEAP_SIZE l 2" using assms(2,5) unfolding request_ok_def by simp
  moreover have "round16 (lay_size l) \<le> 16" using assms(5) by (simp add: round16_def)
  ultimately show ?thesis
    using alloc_splits[of lo HEAP_SIZE a s live h l 2] assms by (fastforce simp: heap_alloc_def)
qed

lemma heap_test_ok:
  assumes inv: "heap_inv lo HEAP_SIZE [(a, s)] [] h" and lo: "lo + HEAP_SIZE + 128 < usize_bound"
    and s: "256 \<le> s" and font: "font_ok font" and w: "room i k w" "0 < k"
  shows "\<exists>h' w'. heap_test font h w = Some (h', w') \<and> print_line font (heap_line 777 42 1337) w = Some w' \<and>
    heap_valid lo HEAP_SIZE [] h' \<and> same_outside lo HEAP_SIZE (hmem h) (hmem h') \<and> room i (k - 1) w'"
proof -
  note lays = vec_layout_def box_layout_def
  obtain v h1 a1 s1 where v: "heap_alloc vec_layout h = Some (v, h1)" "heap_inv lo HEAP_SIZE [(a1, s1)] [(v, vec_layout)] h1"
      "192 \<le> s1" and o1: "same_outside lo HEAP_SIZE (hmem h) (hmem h1)"
    using heap_alloc_splits[OF inv lo, of vec_layout] s by (auto simp: lays)
  let ?h2 = "h1\<lparr>hmem := store32 (hmem h1) v 42\<rparr>"
  let ?h3 = "?h2\<lparr>hmem := store32 (hmem ?h2) (v + 4) 1337\<rparr>"
  have i2: "heap_inv lo HEAP_SIZE [(a1, s1)] [(v, vec_layout)] ?h2"
    by (rule heap_store32(1)[OF v(2)]) (simp_all add: lays)
  have i3: "heap_inv lo HEAP_SIZE [(a1, s1)] [(v, vec_layout)] ?h3"
    by (rule heap_store32(1)[OF i2]) (simp_all add: lays)
  have o3: "same_outside lo HEAP_SIZE (hmem h1) (hmem ?h3)"
    using heap_store32(3)[OF v(2), where a = v and w = 42] heap_store32(3)[OF i2, where a = "v + 4" and w = 1337]
    by (auto simp: lays intro: same_outside_trans)
  obtain b h4 a2 s2 where b: "heap_alloc box_layout ?h3 = Some (b, h4)"
      "heap_inv lo HEAP_SIZE [(a2, s2)] [(b, box_layout), (v, vec_layout)] h4"
    and u4: "untouched (hmem ?h3) (hmem h4) (live_region (v, vec_layout))"
    and o4: "same_outside lo HEAP_SIZE (hmem ?h3) (hmem h4)"
    using heap_alloc_splits[OF i3 lo, of box_layout] v(3) by (auto simp: lays)
  let ?h5 = "h4\<lparr>hmem := store32 (hmem h4) b 777\<rparr>"
  have i5: "heap_inv lo HEAP_SIZE [(a2, s2)] [(b, box_layout), (v, vec_layout)] ?h5"
    and u5: "untouched (hmem h4) (hmem ?h5) (live_region (v, vec_layout))"
    and o5: "same_outside lo HEAP_SIZE (hmem h4) (hmem ?h5)"
    using heap_store32[OF b(2), where a = b and w = 777] by (simp_all add: lays)
  have "load32 (hmem ?h5) x = load32 (hmem ?h3) x" if "v \<le> x" "x + 4 \<le> v + 16" for x
    using load32_untouched[OF untouched_trans[OF u4 u5], of x] that by (simp add: lays round16_def)
  then have vals: "load32 (hmem ?h5) b = 777" "load32 (hmem ?h5) v = 42" "load32 (hmem ?h5) (v + 4) = 1337"
    by (simp_all add: load32_store load32_store_other)
  obtain w' where w': "print_line font (heap_line 777 42 1337) w = Some w'" "room i (k - 1) w'"
    using print_line_ok[OF font w, of "heap_line 777 42 1337"] length_i32_text[of 777] length_i32_text[of 42]
      length_i32_text[of 1337] by (auto simp: heap_line_def)
  obtain h6 where h6: "dealloc b box_layout ?h5 = Some h6" "\<exists>ns. heap_inv lo HEAP_SIZE ns [(v, vec_layout)] h6"
    using dealloc_inv[where ?l1.0 = "[]", simplified, OF i5] by auto
  then obtain h7 where h7: "dealloc v vec_layout h6 = Some h7" "\<exists>ns. heap_inv lo HEAP_SIZE ns [] h7"
    using dealloc_inv[where ?l1.0 = "[]" and ?l2.0 = "[]", simplified] by blast
  have "same_outside lo HEAP_SIZE (hmem ?h5) (hmem h6)" "same_outside lo HEAP_SIZE (hmem h6) (hmem h7)"
    using dealloc_arena[where ?l1.0 = "[]", simplified, OF i5 h6(1)] h6(2)
      dealloc_arena[where ?l1.0 = "[]", simplified, OF _ h7(1)] by blast+
  with o1 o3 o4 o5 have "same_outside lo HEAP_SIZE (hmem h) (hmem h7)" by (meson same_outside_trans)
  moreover have "heap_test font h w = Some (h7, w')"
    unfolding heap_test_def Let_def v(1) b(1)  bind.simps prod.case
    using b(1) vals w'(1) h6(1) h7(1) by simp
  ultimately show ?thesis using w' h7(2) by (auto simp: heap_valid_def)
qed

lemma boot_heap_ok:
  assumes "0 < heap_mem at" and "heap_mem at + HEAP_SIZE + 128 < usize_bound" and font: "font_ok font"
    and w: "room i k w" "3 \<le> k"
  shows "\<exists>h w'. boot_heap font at m w = Some (h, w') \<and> heap_valid (heap_mem at) HEAP_SIZE [] h \<and>
    same_outside (heap_mem at) HEAP_SIZE m (hmem h) \<and> room i (k - 3) w'"
proof -
  obtain h where h: "heap_init (heap_mem at) HEAP_SIZE (heap_new m) = Some h"
    "heap_inv (heap_mem at) HEAP_SIZE [(heap_mem at, HEAP_SIZE - 16)] [] h"
    using heap_init_inv[OF assms(1), of HEAP_SIZE m] assms(2) by (auto simp: HEAP_SIZE_def)
  obtain w1 where w1: "print_line font (text_chars ''Initializing Heap Memory Allocator (32 MiB)...'') w = Some w1"
    "room i (k - 1) w1"
    using print_line_ok[OF font w(1), of "text_chars ''Initializing Heap Memory Allocator (32 MiB)...''"] w(2) by auto
  obtain w2 where w2: "print_line font (text_chars ''[ OK ] Heap allocator initialized successfully.'') w1 = Some w2"
    "room i (k - 2) w2"
    using print_line_ok[OF font w1(2), of "text_chars ''[ OK ] Heap allocator initialized successfully.''"] w(2)
    by (auto simp: numeral_2_eq_2)
  obtain h' w' where t: "heap_test font h w2 = Some (h', w')" "heap_valid (heap_mem at) HEAP_SIZE [] h'"
    "same_outside (heap_mem at) HEAP_SIZE (hmem h) (hmem h')" "room i (k - 2 - 1) w'"
    using heap_test_ok[OF h(2) assms(2) _ font w2(2)] w(2) by (auto simp: HEAP_SIZE_def)
  have "same_outside (heap_mem at) HEAP_SIZE m (hmem h)"
    by (rule heap_init_arena[OF _ h(1)]) (simp add: HEAP_SIZE_def)
  with t same_outside_trans have "same_outside (heap_mem at) HEAP_SIZE m (hmem h')" by blast
  moreover have "k - 2 - 1 = k - 3" by simp
  ultimately show ?thesis using t w1(1) w2(1) h(1) by (simp add: boot_heap_def)
qed

text \<open>The word written to the test page is read back, and no page moves.\<close>

lemma test_page_holds:
  assumes ok: "paging_ok ops q" and f: "f mod 4096 = 0" "spare ops q f"
    and hit: "translate ops q rw_page v = Some f" "translate ops q PRESENT v = Some f"
  shows "\<exists>p. write_virtual ops v x q = Some p \<and> read_virtual ops v p = Some x \<and> maps_memory p \<and>
    (\<forall>need u. contains need PRESENT \<longrightarrow> translate ops p need u = translate ops q need u)"
proof -
  let ?p = "q\<lparr>pg_mem := store64 (pg_mem q) (f + phys_mem_offset q) x\<rparr>"
  have "translate ops ?p need u = translate ops q need u" if "contains need PRESENT" for need u
  proof (rule spare_page_translate[OF f(1) _ that])
    show "\<not> is_table ops (ents q) (cr3 q) f" using f(2) by (simp add: spare_def)
    fix y assume "store64 (pg_mem q) (f + phys_mem_offset q) x y \<noteq> pg_mem q y"
    then show "f + phys_mem_offset q \<le> y \<and> y < f + phys_mem_offset q + 4096"
      by (auto simp: store64_def store_def byte_simps split: if_splits)
  qed
  moreover have "contains PRESENT PRESENT" by (simp add: contains_def PRESENT_def)
  ultimately show ?thesis
    using hit ok by (simp add: write_virtual_def read_virtual_def rw_page_def paging_ok_def maps_memory_def)
qed

text \<open>The messages of the paging step, and what it does to the address space.\<close>

lemma paging_messages:
  assumes font: "font_ok font" and w: "room i k w" "6 \<le> k" and "off < usize_bound" "f < usize_bound"
  shows "\<exists>w1 w2 w3 w4 w5. print_line font (text_chars ''Initializing Virtual Memory Manager (VMM)...'') w = Some w1 \<and>
    print_line font (text_chars ''[ OK ] Physical memory offset: 0x'' @ hex_text off) w1 = Some w2 \<and>
    print_line font (mapped_line test_virt_page f 0xDEADC0DE) w2 = Some w3 \<and>
    print_line font (text_chars ''Marking pages USER_ACCESSIBLE for Ring 3 tasks...'') w3 = Some w4 \<and>
    say font [text_chars ''[ OK ] All present pages marked USER_ACCESSIBLE.'', dashes] w4 = Some w5 \<and> room i (k - 5) w5"
proof -
  have page: "test_virt_page < usize_bound" by (simp add: test_virt_page_def usize_bound_def)
  obtain w1 where w1: "print_line font (text_chars ''Initializing Virtual Memory Manager (VMM)...'') w = Some w1"
      "room i (k - 1) w1"
    using print_line_ok[OF font w(1), of "text_chars ''Initializing Virtual Memory Manager (VMM)...''"] w(2) by auto
  obtain w2 where w2: "print_line font (text_chars ''[ OK ] Physical memory offset: 0x'' @ hex_text off) w1 = Some w2"
      "room i (k - 1 - 1) w2"
    using print_line_ok[OF font w1(2), of "text_chars ''[ OK ] Physical memory offset: 0x'' @ hex_text off"] w(2)
      length_hex_usize[OF assms(4)] by auto
  obtain w3 where w3: "print_line font (mapped_line test_virt_page f 0xDEADC0DE) w2 = Some w3" "room i (k - 1 - 1 - 1) w3"
    using print_line_ok[OF font w2(2), of "mapped_line test_virt_page f 0xDEADC0DE"] w(2) length_hex_usize[OF page]
      length_hex_usize[OF assms(5)] length_hex_usize[of "0xDEADC0DE"] by (auto simp: mapped_line_def usize_bound_def)
  obtain w4 where w4: "print_line font (text_chars ''Marking pages USER_ACCESSIBLE for Ring 3 tasks...'') w3 = Some w4"
      "room i (k - 1 - 1 - 1 - 1) w4"
    using print_line_ok[OF font w3(2), of "text_chars ''Marking pages USER_ACCESSIBLE for Ring 3 tasks...''"] w(2) by auto
  obtain w5 where "say font [text_chars ''[ OK ] All present pages marked USER_ACCESSIBLE.'', dashes] w4 = Some w5"
      "room i (k - 1 - 1 - 1 - 1 - 1) w5"
    using say_ok[OF font w4(2), of "[text_chars ''[ OK ] All present pages marked USER_ACCESSIBLE.'', dashes]"] w(2)
    by (auto simp: text_cost_simps dashes_def)
  moreover have "k - 1 - 1 - 1 - 1 - 1 = k - 5" by simp
  ultimately show ?thesis using w1(1) w2(1) w3(1) w4(1) by auto
qed

lemma test_page_mapped:
  assumes format: "entry_format ops" and ok: "paging_ok ops (boot_pages off rs root m)"
    and path: "path_ok ops (boot_pages off rs root m) rw_page test_virt_page"
    and virt: "virt_ok ops test_virt_page" and left: "4 \<le> frames_left (boot_pages off rs root m)"
  shows "\<exists>f a' q p2 q'. allocate_frame (frame_allocator_new rs) = Some (Some f, a') \<and> f = hd (usable_frames rs) \<and> f < 2 ^ 52 \<and>
    map_page ops test_virt_page f rw_page (boot_pages off rs root m\<lparr>frame_alloc := Some a'\<rparr>) = Some (Inr (), q) \<and>
    write_virtual ops test_virt_page 0xDEADC0DE q = Some p2 \<and> read_virtual ops test_virt_page p2 = Some 0xDEADC0DE \<and>
    mark_all_user_accessible ops p2 = Some q' \<and>
    translate ops q' (rw_page OR USER_ACCESSIBLE) test_virt_page = Some f \<and>
    (\<forall>need v. contains need PRESENT \<and> need AND USER_ACCESSIBLE = 0 \<and> \<not> same_page test_virt_page v \<longrightarrow>
      translate ops q' (need OR USER_ACCESSIBLE) v = translate ops (boot_pages off rs root m) need v)"
proof -
  let ?p = "boot_pages off rs root m"
  have alloc: "frame_alloc ?p = Some (frame_allocator_new rs)" by (simp add: boot_pages_def paging_init_def)
  have regions: "remaining_frames (frame_allocator_new rs) = usable_frames rs"
    by (rule remaining_new)
  obtain f a' where f: "allocate_frame (frame_allocator_new rs) = Some (Some f, a')" "f = hd (usable_frames rs)"
      "f mod 4096 = 0" "f < 2 ^ 52"
    and p1: "paging_ok ops (?p\<lparr>frame_alloc := Some a'\<rparr>)" "3 \<le> frames_left (?p\<lparr>frame_alloc := Some a'\<rparr>)"
      "spare ops (?p\<lparr>frame_alloc := Some a'\<rparr>) f"
    using take_frame[OF ok alloc] left regions by auto
  let ?p1 = "?p\<lparr>frame_alloc := Some a'\<rparr>"
  have path1: "path_ok ops ?p1 rw_page test_virt_page" using path by (simp add: path_ok_def)
  then have path2: "path_ok ops ?p1 PRESENT test_virt_page"
    using contains_trans[OF _ rw_page_rights(1)] unfolding path_ok_def Let_def by blast
  have same: "translate ops ?p1 need v = translate ops ?p need v" for need v
    by (simp add: translate_def)
  have pp: "contains PRESENT PRESENT" "contains table_flags PRESENT" "contains rw_page PRESENT"
    by (simp_all add: contains_def PRESENT_def rw_page_def WRITABLE_def table_flags_def USER_ACCESSIBLE_def)
  have page: "test_virt_page mod 4096 = 0" "test_virt_page < usize_bound"
    by (simp_all add: test_virt_page_def usize_bound_def)
  note map = entry_format.map_page_ok[OF format p1(1) _ _ _ f(3,4) rw_page_rights(4) virt,
      unfolded entry_format.maps_within_def[OF format] entry_format.maps_to_def[OF format]]
  obtain q where q: "map_page ops test_virt_page f rw_page ?p1 = Some (Inr (), q)" "paging_ok ops q"
      "spare ops q f"
    and hit: "translate ops q rw_page test_virt_page = Some f"
    and miss: "\<forall>need w. contains need PRESENT \<and> \<not> same_page test_virt_page w \<longrightarrow>
      translate ops q need w = translate ops ?p1 need w"
    using map[OF path1 rw_page_rights(1,2)] p1(2,3) rw_page_rights(3) page(1) by (auto simp: same_page_def)
  have "translate ops q PRESENT test_virt_page = Some f"
    using map[OF path2 pp(1,2)] p1(2) pp(3) page(1) q(1) by (auto simp: same_page_def)
  then obtain p2 where p2: "write_virtual ops test_virt_page 0xDEADC0DE q = Some p2"
      "read_virtual ops test_virt_page p2 = Some 0xDEADC0DE" "maps_memory p2"
    and kept: "\<forall>need u. contains need PRESENT \<longrightarrow> translate ops p2 need u = translate ops q need u"
    using test_page_holds[OF q(2) f(3) q(3) hit] by blast
  obtain q' where q': "mark_all_user_accessible ops p2 = Some q'"
    and user: "\<forall>need v. contains need PRESENT \<and> need AND USER_ACCESSIBLE = 0 \<longrightarrow>
      translate ops q' (need OR USER_ACCESSIBLE) v = translate ops p2 need v"
    using mark_all_translates[OF format p2(3)] by auto
  show ?thesis
    using f q(1) p2(1,2) q' user hit miss same kept rw_page_rights(1,5) by fastforce
qed

lemma boot_paging_ok:
  assumes format: "entry_format ops" and ok: "paging_ok ops (boot_pages off rs root m)"
    and path: "path_ok ops (boot_pages off rs root m) rw_page test_virt_page"
    and virt: "virt_ok ops test_virt_page" and left: "4 \<le> frames_left (boot_pages off rs root m)"
    and font: "font_ok font" and w: "room i k w" "6 \<le> k"
  shows "\<exists>q w'. boot_paging ops font (Some off) rs root m w = Some (Inr (), hd (usable_frames rs), q, w') \<and>
    room i (k - 5) w' \<and>
    translate ops q (rw_page OR USER_ACCESSIBLE) test_virt_page = Some (hd (usable_frames rs)) \<and>
    (\<forall>need v. contains need PRESENT \<and> need AND USER_ACCESSIBLE = 0 \<and> \<not> same_page test_virt_page v \<longrightarrow>
      translate ops q (need OR USER_ACCESSIBLE) v = translate ops (boot_pages off rs root m) need v)"
proof -
  obtain f a' q p2 q' where f: "allocate_frame (frame_allocator_new rs) = Some (Some f, a')" "f = hd (usable_frames rs)" "f < 2 ^ 52"
    and q: "map_page ops test_virt_page f rw_page (boot_pages off rs root m\<lparr>frame_alloc := Some a'\<rparr>) = Some (Inr (), q)"
      "write_virtual ops test_virt_page 0xDEADC0DE q = Some p2" "read_virtual ops test_virt_page p2 = Some 0xDEADC0DE"
      "mark_all_user_accessible ops p2 = Some q'"
    and space: "translate ops q' (rw_page OR USER_ACCESSIBLE) test_virt_page = Some f"
      "\<forall>need v. contains need PRESENT \<and> need AND USER_ACCESSIBLE = 0 \<and> \<not> same_page test_virt_page v \<longrightarrow>
        translate ops q' (need OR USER_ACCESSIBLE) v = translate ops (boot_pages off rs root m) need v"
    using test_page_mapped[OF format ok path virt left] by (elim exE conjE) (rule that)
  have off: "off < usize_bound" and fb: "f < usize_bound"
    using ok f(3) by (simp_all add: paging_ok_def maps_memory_def boot_pages_def paging_init_def usize_bound_def)
  obtain w1 w2 w3 w4 w5 where w5: "print_line font (text_chars ''Initializing Virtual Memory Manager (VMM)...'') w = Some w1"
      "print_line font (text_chars ''[ OK ] Physical memory offset: 0x'' @ hex_text off) w1 = Some w2"
      "print_line font (mapped_line test_virt_page f 0xDEADC0DE) w2 = Some w3"
      "print_line font (text_chars ''Marking pages USER_ACCESSIBLE for Ring 3 tasks...'') w3 = Some w4"
      "say font [text_chars ''[ OK ] All present pages marked USER_ACCESSIBLE.'', dashes] w4 = Some w5" "room i (k - 5) w5"
    using paging_messages[OF font w off fb] by (elim exE conjE) (rule that)
  have alloc: "frame_alloc (boot_pages off rs root m) = Some (frame_allocator_new rs)"
    by (simp add: boot_pages_def paging_init_def)
  have "boot_paging ops font (Some off) rs root m w = Some (Inr (), f, q', w5)"
    using f(1) q alloc w5(1-5) unfolding rw_page_def boot_pages_def
    by (simp add: boot_paging_def Let_def del: for_each.simps)
  with space f(2) w5(6) show ?thesis by blast
qed

text \<open>
  A volume that boot can mount: its table and the blocks of its root directory are within the
  drive's 28 address bits. A drive without the magic is refused.
\<close>

definition mountable :: "(nat \<Rightarrow> bytes) \<Rightarrow> bool" where
  "mountable disk \<longleftrightarrow>
     (let sb = superblock_from_bytes (disk 40002); root = inode_at disk sb 0 in
      sb_magic sb = RELIZFS_MAGIC \<and> 0 < sb_inode_count sb \<and> table_in_volume (2 ^ 28) sb \<and>
      is_directory root \<and> (\<forall>b\<in>set (in_direct_blocks root). b \<noteq> 0 \<longrightarrow> in_volume (2 ^ 28) b))"

text \<open>Directory listings are short.\<close>

lemma length_dir_line:
  assumes "l \<in> set (dir_lines disk sb es)"
  shows "length (dir_line_text l) \<le> 80"
proof -
  obtain e name where e: "get_name e = Some name" "l = (entry_type_at disk sb name (de_inode_num e), name, de_inode_num e)"
    using assms by (auto simp: dir_lines_def)
  have "length name \<le> 27" using e(1) from_utf8_Some by (fastforce simp: get_name_def fs_consts)
  then have "length (case utf8_decode name of Some us \<Rightarrow> us | None \<Rightarrow> []) \<le> 27"
    using utf8_decode_length[of name] by (fastforce split: option.split)
  moreover have "length (entry_type_at disk sb name (de_inode_num e)) \<le> 6" by (simp add: entry_type_at_def)
  moreover have "length (dec_text (unat (de_inode_num e))) \<le> 20"
    by (rule length_dec_text) (use unat_lt2p[of "de_inode_num e"] in \<open>simp add: usize_bound_def\<close>)
  ultimately show ?thesis by (simp add: e(2) dir_line_text_def length_pad_to)
qed

lemma length_dir_entries: "length (dir_entries disk bs) \<le> length bs * 16"
proof -
  have "length (dir_entries disk bs) = length (filter (\<lambda>b. b \<noteq> 0) bs) * 16"
    by (simp add: dir_entries_def length_concat comp_def sum_list_triv entries_count_def fs_consts fs_sizes)
  then show ?thesis by simp
qed

lemma listing_cost:
  "text_cost (map dir_line_text (dir_lines disk sb (dir_entries disk (in_direct_blocks (inode_at disk sb n))))) \<le> 2 ^ 20"
proof -
  let ?es = "dir_entries disk (in_direct_blocks (inode_at disk sb n))"
  let ?ls = "map dir_line_text (dir_lines disk sb ?es)"
  have "length (in_direct_blocks (inode_at disk sb n)) = 10"
    by (simp add: inode_at_def inode_from_bytes_def fs_consts)
  then have "length ?es \<le> 160" using length_dir_entries[of disk "in_direct_blocks (inode_at disk sb n)"] by simp
  moreover have "length ?ls \<le> length ?es" by (simp add: dir_lines_def)
  ultimately have "length ?ls \<le> 160" by linarith
  then have "length ?ls * (12 * 80 + 12) \<le> 160 * (12 * 80 + 12)" by (rule mult_le_mono1)
  moreover have "text_cost ?ls \<le> length ?ls * (12 * 80 + 12)"
    by (rule text_cost_bound) (use length_dir_line in auto)
  ultimately show ?thesis by simp
qed

lemma volume_lines_cost: "text_cost (volume_lines sb) \<le> 2 ^ 20"
proof -
  have "length (hex_text (unat (sb_magic sb))) \<le> 16"
    by (rule length_hex_usize) (use unat_lt2p[of "sb_magic sb"] in \<open>simp add: usize_bound_def\<close>)
  moreover have "length (dec_text (unat x)) \<le> 20" for x :: u32
    by (rule length_dec_text) (use unat_lt2p[of x] in \<open>simp add: usize_bound_def\<close>)
  note this[of "sb_total_blocks sb"] this[of "sb_inode_count sb"] this[of "sb_data_blocks_start sb"]
  ultimately show ?thesis by (simp add: volume_lines_def text_cost_simps dashes_def)
qed

lemma boot_volume_ok:
  assumes "ata_conforms bus regs ph disk" and "ph d = Ata_Idle"
    and magic: "sb_magic (superblock_from_bytes (disk 40002)) = RELIZFS_MAGIC \<longrightarrow> mountable disk"
    and font: "font_ok font" and w: "room i k w" "4 < k"
  shows "\<exists>d' w'. boot_volume font (ata_rd bus) d w = Some (
    if mountable disk
    then Inr (dir_lines disk (superblock_from_bytes (disk 40002)) (dir_entries disk
      (in_direct_blocks (inode_at disk (superblock_from_bytes (disk 40002)) 0))))
    else Inl err_magic, d', w') \<and> room i (k - 4) w'"
proof -
  let ?good = "\<lambda>d. ata_conforms bus regs ph disk \<and> ph d = Ata_Idle"
  let ?sb = "superblock_from_bytes (disk 40002)"
  let ?root = "inode_at disk ?sb 0"
  have "in_volume (2 ^ 28) 2" by (simp add: in_volume_def)
  then obtain d1 where d1: "relizfs_init (ata_rd bus) d =
      Some (if sb_magic ?sb \<noteq> RELIZFS_MAGIC then Inl err_magic else Inr ?sb, d1)" "?good d1"
    using ata.relizfs_init_good[of bus regs ph disk d] assms(1,2) by (auto simp: Let_def)
  let ?l = "text_chars ''Mounting RelizFS file system...''"
  obtain w1 where w1: "print_line font ?l w = Some w1" "room i (k - 1) w1"
    using print_line_ok[OF font w(1), of ?l] w(2) by auto
  have dash: "length dashes \<le> 80000" by (simp add: dashes_def)
  show ?thesis
  proof (cases "mountable disk")
    case False
    let ?e = "text_chars ''[ERROR] Failed to mount RelizFS: '' @ text_chars err_magic"
    obtain w2 where w2: "print_line font ?e w1 = Some w2" "room i (k - 1 - 1) w2"
      using print_line_ok[OF font w1(2), of ?e] w(2) by (auto simp: err_magic_def)
    obtain w3 where w3: "print_line font dashes w2 = Some w3" "room i (k - 1 - 1 - 1) w3"
      using print_line_ok[OF font w2(2) _ dash] w(2) by auto
    have "sb_magic ?sb \<noteq> RELIZFS_MAGIC" using False magic by blast
    with d1 False w1 w2 w3 room_less[OF w3(2), of "k - 4"] show ?thesis by (simp add: boot_volume_def)
  next
    case True
    then have m: "sb_magic ?sb = RELIZFS_MAGIC" "0 < sb_inode_count ?sb" "table_in_volume (2 ^ 28) ?sb"
      "is_directory ?root" "\<forall>b\<in>set (in_direct_blocks ?root). b \<noteq> 0 \<longrightarrow> in_volume (2 ^ 28) b"
      by (simp_all add: mountable_def Let_def)
    let ?out = "dir_lines disk ?sb (dir_entries disk (in_direct_blocks ?root))"
    obtain d2 where d2: "read_inode (ata_rd bus) ?sb 0 d1 = Some (Inr ?root, d2)" "?good d2"
      using ata.read_inode_good[OF d1(2) m(2,3)] by blast
    obtain d3 where d3: "list_blocks (ata_rd bus) ?sb (in_direct_blocks ?root) [] d2 = Some (Inr (), ?out, d3)"
      using ata.list_blocks_good[OF d2(2) m(3,5), of "[]"] by auto
    obtain w2 where w2: "say font (volume_lines ?sb) w1 = Some w2" "room i (k - 1 - 1) w2"
      using say_ok[OF font w1(2) _ volume_lines_cost[of ?sb]] w(2) by auto
    obtain w3 where w3: "say font (map dir_line_text ?out) w2 = Some w3" "room i (k - 1 - 1 - 1) w3"
      using say_ok[OF font w2(2) _ listing_cost[of disk ?sb 0]] w(2) by auto
    obtain w4 where w4: "print_line font dashes w3 = Some w4" "room i (k - 1 - 1 - 1 - 1) w4"
      using print_line_ok[OF font w3(2) _ dash] w(2) by auto
    have "k - 1 - 1 - 1 - 1 = k - 4" by simp
    with d1 d2 d3 m True w1 w2 w3 w4 show ?thesis
      by (simp add: boot_volume_def list_directory_def del: for_each.simps)
  qed
qed

subsection \<open>Properties\<close>

text \<open>Where the linker and the bootloader may put things.\<close>

definition placement_ok :: "placement \<Rightarrow> bool" where
  "placement_ok at \<longleftrightarrow> stacks_ok at \<and> 0 < heap_mem at \<and> heap_mem at + HEAP_SIZE + 128 < usize_bound \<and>
     privilege_stack at + 4096 < usize_bound \<and> double_fault_stack at + 4096 < usize_bound \<and>
     syscall_stack at + 8192 < usize_bound"

definition framebuffer_ok :: "boot_info \<Rightarrow> bool" where
  "framebuffer_ok bi \<longleftrightarrow> (case framebuffer bi of
     None \<Rightarrow> True
   | Some (buffer, i) \<Rightarrow> fb_ok \<lparr>fb = buffer, info = i, x_pos = 10, y_pos = 10,
       text_color = (255, 255, 255), bg_color = (20, 20, 40)\<rparr> \<and>
       fb_width i + 64 < usize_bound \<and> fb_height i + 64 < usize_bound \<and>
       fb_stride i < usize_bound \<and> bytes_per_pixel i < usize_bound)"

text \<open>
  The page tables the bootloader leaves: whatever the heap's arena holds, they form a tree clear
  of the free frames, and the way to the test page is free.
\<close>

definition tables_ok :: "entry_ops \<Rightarrow> placement \<Rightarrow> boot_info \<Rightarrow> nat \<Rightarrow> mem \<Rightarrow> nat \<Rightarrow> bool" where
  "tables_ok ops at bi root m off \<longleftrightarrow> (\<forall>m'. same_outside (heap_mem at) HEAP_SIZE m m' \<longrightarrow>
     paging_ok ops (boot_pages off (memory_regions bi) root m') \<and>
     path_ok ops (boot_pages off (memory_regions bi) root m') rw_page test_virt_page)"

definition screen_info :: "boot_info \<Rightarrow> frame_buffer_info option" where
  "screen_info bi = map_option snd (framebuffer bi)"

lemma init_screen_ok:
  assumes "framebuffer_ok bi"
  shows "\<exists>w. init_screen bi = Some w \<and> room (screen_info bi) 64 w"
proof (cases "framebuffer bi")
  case None
  then show ?thesis by (simp add: init_screen_def room_def console_ok_def get_info_def screen_info_def)
next
  case (Some b)
  obtain buffer i where b: "b = (buffer, i)" by (cases b)
  let ?g = "\<lparr>fb = buffer, info = i, x_pos = 10, y_pos = 10, text_color = (255, 255, 255), bg_color = (20, 20, 40)\<rparr>"
  have i: "fb_ok ?g" "fb_width i + 64 < usize_bound" "fb_height i + 64 < usize_bound"
    using assms Some b by (simp_all add: framebuffer_ok_def)
  from clear_spec[OF i(1)] obtain g where g: "clear ?g = Some g" "fb_ok g" "info g = i" "x_pos g = 10" "y_pos g = 10"
    by auto
  then have "console_ok (64 * 2 ^ 20) (Some g)"
    using i by (simp add: console_ok_def text_ok_def cursor_ok_def usize_bound_def)
  with g Some b show ?thesis
    by (simp add: init_screen_def writer_new_def room_def get_info_def screen_info_def)
qed

lemma gop_line_cost:
  assumes "framebuffer_ok bi" and "\<forall>f. length (fmt f) \<le> 2 ^ 16"
  shows "text_cost [gop_line fmt (screen_info bi), dashes] \<le> 2 ^ 20"
proof (cases "framebuffer bi")
  case None
  then show ?thesis by (simp add: screen_info_def gop_line_def text_cost_simps dashes_def)
next
  case (Some b)
  obtain buffer i where b: "b = (buffer, i)" by (cases b)
  have "length (dec_text (fb_width i)) \<le> 20" "length (dec_text (fb_height i)) \<le> 20"
    "length (dec_text (fb_stride i)) \<le> 20" "length (dec_text (bytes_per_pixel i)) \<le> 20"
    using assms(1) Some b length_dec_text by (simp_all add: framebuffer_ok_def)
  moreover have "length (fmt (pixel_format i)) \<le> 65536" using assms(2) by simp
  ultimately show ?thesis by (simp add: Some b screen_info_def gop_line_def text_cost_simps dashes_def)
qed

lemma boot_screen_ok:
  assumes "framebuffer_ok bi" and "\<forall>f. length (fmt f) \<le> 2 ^ 16" and font: "font_ok font"
  shows "\<exists>w0 w1 w2. init_screen bi = Some w0 \<and> say font banner w0 = Some w1 \<and>
    say font [gop_line fmt (get_info w1), dashes] w1 = Some w2 \<and> room (screen_info bi) 62 w2"
proof -
  obtain w0 where w0: "init_screen bi = Some w0" "room (screen_info bi) 64 w0"
    using init_screen_ok[OF assms(1)] by blast
  have "text_cost banner \<le> 2 ^ 20" by (simp add: banner_def text_cost_simps)
  from say_ok[OF font w0(2) _ this] obtain w1 where
    w1: "say font banner w0 = Some w1" "room (screen_info bi) 63 w1" by auto
  then have i: "get_info w1 = screen_info bi" by (simp add: room_def)
  from say_ok[OF font w1(2) _ gop_line_cost[OF assms(1,2)]] obtain w2 where
    "say font [gop_line fmt (screen_info bi), dashes] w1 = Some w2" "room (screen_info bi) 62 w2" by auto
  with w0(1) w1(1) i show ?thesis by metis
qed

text \<open>The first phase: the screen, the heap and the page tables.\<close>

lemma boot_memory_ok:
  assumes format: "entry_format ops" and bi: "framebuffer_ok bi" "\<forall>f. length (fmt f) \<le> 2 ^ 16"
    and at: "0 < heap_mem at" "heap_mem at + HEAP_SIZE + 128 < usize_bound"
    and tables: "tables_ok ops at bi root m off" and virt: "virt_ok ops test_virt_page"
    and left: "4 \<le> length (usable_frames (memory_regions bi))" and font: "font_ok font"
  shows "\<exists>w0 w1 w2 h w3 p w4. init_screen bi = Some w0 \<and> say font banner w0 = Some w1 \<and>
    say font [gop_line fmt (get_info w1), dashes] w1 = Some w2 \<and>
    boot_heap font at m w2 = Some (h, w3) \<and> used_memory h = 0 \<and>
    boot_paging ops font (Some off) (memory_regions bi) root (hmem h) w3 =
      Some (Inr (), hd (usable_frames (memory_regions bi)), p, w4) \<and> room (screen_info bi) 54 w4"
proof -
  let ?rs = "memory_regions bi" and ?i = "screen_info bi"
  obtain w0 w1 w2 where w: "init_screen bi = Some w0" "say font banner w0 = Some w1"
    "say font [gop_line fmt (get_info w1), dashes] w1 = Some w2" "room ?i 62 w2"
    using boot_screen_ok[OF bi font] by blast
  obtain h w3 where h: "boot_heap font at m w2 = Some (h, w3)" "heap_valid (heap_mem at) HEAP_SIZE [] h"
    "same_outside (heap_mem at) HEAP_SIZE m (hmem h)" "room ?i 59 w3"
    using boot_heap_ok[OF at font w(4), of m] by auto
  have used: "used_memory h = 0" using h(2) by (auto simp: heap_valid_def heap_inv_def)
  have pages: "paging_ok ops (boot_pages off ?rs root (hmem h))"
    "path_ok ops (boot_pages off ?rs root (hmem h)) rw_page test_virt_page"
    "4 \<le> frames_left (boot_pages off ?rs root (hmem h))"
    using tables left h(3) by (simp_all add: tables_ok_def frames_left_def boot_pages_def paging_init_def remaining_new)
  obtain p w4 where "boot_paging ops font (Some off) ?rs root (hmem h) w3 =
      Some (Inr (), hd (usable_frames ?rs), p, w4)" "room ?i 54 w4"
    using boot_paging_ok[OF format pages(1,2) virt pages(3) font h(4)] by auto
  with w(1-3) h(1) used show ?thesis by blast
qed

text \<open>The last phase: the tasks, the first of which is switched to.\<close>

definition boot_scheduler :: "task list \<Rightarrow> scheduler" where
  "boot_scheduler ts = scheduler_new\<lparr>tasks := map Some ts @ replicate 3 None\<rparr>"

lemma boot_schedule_ok:
  assumes at: "stacks_ok at"
  shows "\<exists>ts m'. boot_tasks at m = Some (boot_scheduler ts, m') \<and> length ts = 5 \<and> booted (boot_scheduler ts) \<and>
    start_first_task (boot_scheduler ts) = Some ((task_rsp (ts ! 0), kernel_stack_top (ts ! 0)), boot_scheduler ts) \<and>
    (\<forall>i<5. ready_task (i + 1) (kernel_stack at (boot_order ! i)) (task_context at (boot_order ! i)) (ts ! i) m')"
proof -
  obtain ts m' where ts: "boot_tasks at m = Some (boot_scheduler ts, m')" "length ts = 5"
    and ready: "\<forall>i<5. ready_task (i + 1) (kernel_stack at (boot_order ! i)) (task_context at (boot_order ! i)) (ts ! i) m'"
    using boot_tasks_ready[OF at] unfolding boot_scheduler_def by blast
  have "booted (boot_scheduler ts)"
    unfolding boot_scheduler_def by (rule booted_tasks[OF ts(2), of m']) (use ready in blast)
  moreover have "start_first_task (boot_scheduler ts) =
      Some ((task_rsp (ts ! 0), kernel_stack_top (ts ! 0)), boot_scheduler ts)"
    using ts(2) by (simp add: boot_scheduler_def start_first_task_def checked nth_append scheduler_new_def)
  ultimately show ?thesis using ts ready by blast
qed

text \<open>The hypotheses under which the kernel boots, and what it leaves.\<close>

definition bootable ::
  "font \<Rightarrow> (pixel_format \<Rightarrow> nat list) \<Rightarrow> entry_ops \<Rightarrow> placement \<Rightarrow> boot_info \<Rightarrow> mem \<Rightarrow> nat \<Rightarrow> nat \<Rightarrow> bool" where
  "bootable font fmt ops at bi m root off \<longleftrightarrow> placement_ok at \<and> framebuffer_ok bi \<and>
     physical_memory_offset bi = Some off \<and> tables_ok ops at bi root m off \<and> virt_ok ops test_virt_page \<and>
     4 \<le> length (usable_frames (memory_regions bi)) \<and> font_ok font \<and> (\<forall>f. length (fmt f) \<le> 2 ^ 16)"

definition root_listing :: "(nat \<Rightarrow> bytes) \<Rightarrow> dir_line list" where
  "root_listing disk = (let sb = superblock_from_bytes (disk 40002) in
     dir_lines disk sb (dir_entries disk (in_direct_blocks (inode_at disk sb 0))))"

lemma kernel_main_ok:
  assumes "entry_format ops" and "descriptor_table add_entry used" and "used g = 0"
    and "bootable font fmt ops at bi m root off"
    and "ata_conforms bus regs ph disk" and "ph d = Ata_Idle"
    and "sb_magic (superblock_from_bytes (disk 40002)) = RELIZFS_MAGIC \<longrightarrow> mountable disk"
  shows "\<exists>k ts m' w. kernel_main font fmt ops add_entry bus at bi m root g r d = Some k \<and>
    sys_machine k = \<lparr>sched = boot_scheduler ts, memory = m', rsp0 = kernel_stack_top (ts ! 0),
      kstack = kernel_stack_top (ts ! 0), ticks = 0, port_log = [], used_mem = 0, screen = w\<rparr> \<and>
    length ts = 5 \<and> booted (boot_scheduler ts) \<and>
    (\<forall>i<5. ready_task (i + 1) (kernel_stack at (boot_order ! i)) (task_context at (boot_order ! i)) (ts ! i) m') \<and>
    sys_first_rsp k = task_rsp (ts ! 0) \<and> sys_mapped k = (Inr (), hd (usable_frames (memory_regions bi))) \<and>
    (mountable disk \<longrightarrow> sys_volume k = Inr (root_listing disk)) \<and> room (screen_info bi) 44 w"
proof -
  let ?rs = "memory_regions bi" and ?i = "screen_info bi"
  have ok: "framebuffer_ok bi" "\<forall>f. length (fmt f) \<le> 2 ^ 16" "physical_memory_offset bi = Some off"
    "tables_ok ops at bi root m off" "virt_ok ops test_virt_page" "4 \<le> length (usable_frames ?rs)"
    and font: "font_ok font"
    and at: "stacks_ok at" "0 < heap_mem at" "heap_mem at + HEAP_SIZE + 128 < usize_bound"
    "privilege_stack at + 4096 < usize_bound" "double_fault_stack at + 4096 < usize_bound"
    "syscall_stack at + 8192 < usize_bound"
    using assms(4) by (simp_all add: bootable_def placement_ok_def)
  obtain w0 w1 w2 h w3 p w4 where w: "init_screen bi = Some w0" "say font banner w0 = Some w1"
      "say font [gop_line fmt (get_info w1), dashes] w1 = Some w2"
    and h: "boot_heap font at m w2 = Some (h, w3)" "used_memory h = 0"
    and p: "boot_paging ops font (Some off) ?rs root (hmem h) w3 = Some (Inr (), hd (usable_frames ?rs), p, w4)"
      "room ?i 54 w4"
    using boot_memory_ok[OF assms(1) ok(1,2) at(2,3) ok(4-6) font] by (elim exE conjE) (rule that)
  let ?m1 = "text_chars ''Initializing GDT and Task State Segment (TSS)...''"
  let ?m2 = "[text_chars ''[ OK ] GDT loaded. TSS loaded. RSP0 privilege stack mapped.'',
    text_chars ''Initializing fast system calls (syscall/sysret)...'']"
  let ?m3 = "text_chars ''[ OK ] STAR, LSTAR, FMASK registers mapped. Syscall active.''"
  let ?m4 = "text_chars ''Initializing task scheduler...''"
  let ?m5 = "[spawned_line, text_chars ''Initializing IDT and PIC timer interrupts...'']"
  let ?m6 = "[text_chars ''[ OK ] IDT loaded. PIC remapped to vector 0x20.'',
    text_chars ''Starting preemptive scheduler...'', dashes]"
  obtain w5 w6 w7 where w7: "print_line font ?m1 w4 = Some w5" "say font ?m2 w5 = Some w6"
    "print_line font ?m3 w6 = Some w7" "room ?i 51 w7"
    using messages_ok[OF font p(2), of ?m1 ?m2 "[?m3]"]
    by (auto simp: text_cost_simps say_single simp del: for_each.simps)
  obtain sel tables where gdt: "gdt_init add_entry (privilege_stack at) (double_fault_stack at) g = Some (sel, tables)"
    using descriptor_table.gdt_init_ok[OF assms(2,3) at(4,5)] by blast
  obtain r' ks where sys: "syscall_init (syscall_handler at) (syscall_stack at) r = Some (r', ks)"
    using at(6) by (simp add: syscall_init_def checked Let_def)
  obtain d' w8 where vol: "boot_volume font (ata_rd bus) d w7 = Some (
    if mountable disk then Inr (root_listing disk) else Inl err_magic, d', w8)" "room ?i 47 w8"
    using boot_volume_ok[OF assms(5-7) font w7(4)] by (auto simp: root_listing_def Let_def)
  obtain w9 w10 w11 where w11: "print_line font ?m4 w8 = Some w9" "say font ?m5 w9 = Some w10"
    "say font ?m6 w10 = Some w11" "room ?i 44 w11"
    using messages_ok[OF font vol(2), of ?m4 ?m5 ?m6] by (auto simp: text_cost_simps spawned_line_def dashes_def)
  obtain ts m' where ts: "boot_tasks at (pg_mem p) = Some (boot_scheduler ts, m')" "length ts = 5"
      "booted (boot_scheduler ts)"
    and first: "start_first_task (boot_scheduler ts) =
      Some ((task_rsp (ts ! 0), kernel_stack_top (ts ! 0)), boot_scheduler ts)"
    and ready: "\<forall>i<5. ready_task (i + 1) (kernel_stack at (boot_order ! i)) (task_context at (boot_order ! i)) (ts ! i) m'"
    using boot_schedule_ok[OF at(1), of "pg_mem p"] by blast
  obtain idt d2 where idt: "interrupts_init bus d' = (idt, d2)" by (cases "interrupts_init bus d'")
  have "\<exists>k. kernel_main font fmt ops add_entry bus at bi m root g r d = Some k \<and>
      sys_machine k = \<lparr>sched = boot_scheduler ts, memory = m', rsp0 = kernel_stack_top (ts ! 0),
        kstack = kernel_stack_top (ts ! 0), ticks = 0, port_log = [], used_mem = 0, screen = w11\<rparr> \<and>
      sys_first_rsp k = task_rsp (ts ! 0) \<and> sys_mapped k = (Inr (), hd (usable_frames ?rs)) \<and>
      (mountable disk \<longrightarrow> sys_volume k = Inr (root_listing disk))"
    unfolding kernel_main_def w h(1) p(1) w7(1-3) gdt sys vol(1) w11(1-3) ts(1) idt ok(3) bind.simps prod.case
      Let_def first using h(2) by simp
  with ts(2,3) ready w11(4) show ?thesis by blast
qed

text \<open>
  C8: The kernel boots. With a consistent framebuffer or none, statics within the address space
  and kernel stacks apart, page tables that form a tree clear of the free frames and of the heap,
  at least four of those frames, and a conforming drive whose volume is either mountable or has
  no magic, \<open>kernel_main\<close> reaches its jump to the first task without a panic, its messages
  printed. It leaves a state in which the kernel's invariants start: five ready tasks with ids 1
  to 5, each of which when first switched to starts at its own entry point in ring 3 on its own
  stack, with I/O privilege for the disk and input servers only; the first of them is resumed;
  all memory of the heap test has been returned; the test page is mapped to the first usable
  frame; the volume's root directory has been listed; and the screen, if there is one, has the
  bootloader's geometry and a cursor that can print.
\<close>

theorem kernel_boots:
  assumes "entry_format ops" and "descriptor_table add_entry used" and "used g = 0"
    and "bootable font fmt ops at bi m root off"
    and "ata_conforms bus regs ph disk" and "ph d = Ata_Idle"
    and "sb_magic (superblock_from_bytes (disk 40002)) = RELIZFS_MAGIC \<longrightarrow> mountable disk"
  shows "\<exists>k ts. kernel_main font fmt ops add_entry bus at bi m root g r d = Some k \<and>
    kernel_reachable (kernel.truncate (sys_machine k)) \<and>
    tasks (sched (sys_machine k)) = map Some ts @ replicate 3 None \<and> length ts = 5 \<and>
    (\<forall>i<5. task_id (ts ! i) = i + 1 \<and> (\<forall>c. resume (memory (sys_machine k)) (word_of_nat (task_rsp (ts ! i))) c =
       task_context at (boot_order ! i))) \<and>
    sys_first_rsp k = task_rsp (ts ! 0) \<and> rsp0 (sys_machine k) = kernel_stack_top (ts ! 0) \<and>
    used_mem (sys_machine k) = 0 \<and> sys_mapped k = (Inr (), hd (usable_frames (memory_regions bi))) \<and>
    (mountable disk \<longrightarrow> sys_volume k = Inr (root_listing disk)) \<and>
    get_info (screen (sys_machine k)) = screen_info bi \<and> (\<forall>s. screen (sys_machine k) = Some s \<longrightarrow> text_ok s)"
proof -
  obtain k ts m' w where k: "kernel_main font fmt ops add_entry bus at bi m root g r d = Some k"
    and mach: "sys_machine k = \<lparr>sched = boot_scheduler ts, memory = m', rsp0 = kernel_stack_top (ts ! 0),
      kstack = kernel_stack_top (ts ! 0), ticks = 0, port_log = [], used_mem = 0, screen = w\<rparr>"
    and ts: "length ts = 5" "booted (boot_scheduler ts)"
    and ready: "\<forall>i<5. ready_task (i + 1) (kernel_stack at (boot_order ! i)) (task_context at (boot_order ! i)) (ts ! i) m'"
    and rest: "sys_first_rsp k = task_rsp (ts ! 0)" "sys_mapped k = (Inr (), hd (usable_frames (memory_regions bi)))"
      "mountable disk \<longrightarrow> sys_volume k = Inr (root_listing disk)" "room (screen_info bi) 44 w"
    using kernel_main_ok[OF assms, of r] by blast
  have "kernel_reachable (kernel.truncate (sys_machine k))"
    by (rule kernel_reachable.intros(1)) (use ts(2) in \<open>simp add: mach kernel.defs\<close>)
  moreover have "task_id (ts ! i) = i + 1 \<and> (\<forall>c. resume m' (word_of_nat (task_rsp (ts ! i))) c = task_context at (boot_order ! i))"
    if "i < 5" for i
    using ready that assms(4) ready_task_resumes
    by (fastforce simp: ready_task_def stacks_ok_def bootable_def placement_ok_def)
  moreover have "get_info w = screen_info bi" "\<forall>s. w = Some s \<longrightarrow> text_ok s"
    using rest(4) by (auto simp: room_def console_ok_def)
  ultimately show ?thesis using k mach ts(1) rest by (auto simp: boot_scheduler_def)
qed

text \<open>A machine without a framebuffer, six free frames, an empty page table and an empty drive.\<close>

definition task_number :: "task_name \<Rightarrow> nat" where
  "task_number n = (case n of Shell_Task \<Rightarrow> 0 | Fs_Server_Task \<Rightarrow> 1 | Ata_Server_Task \<Rightarrow> 2
     | Input_Server_Task \<Rightarrow> 3 | Gui_Server_Task \<Rightarrow> 4)"

definition demo_placement :: placement where
  "demo_placement = \<lparr>entry_point = (\<lambda>n. 0x400000 + 0x100 * word_of_nat (task_number n)),
     user_stack = (\<lambda>n. 0x11000000 + 0x4000 * task_number n),
     kernel_stack = (\<lambda>n. 0x10000000 + 0x4000 * task_number n),
     heap_mem = 0x20000000, privilege_stack = 0x12000000, double_fault_stack = 0x12001000,
     syscall_stack = 0x12005000, syscall_handler = 0x500000\<rparr>"

definition demo_boot_info :: boot_info where
  "demo_boot_info = \<lparr>framebuffer = None, physical_memory_offset = Some 0,
     memory_regions = [\<lparr>region_start = 0x2000, region_end = 0x8000, region_kind = Usable\<rparr>]\<rparr>"

definition demo_pages :: "mem \<Rightarrow> paging" where
  "demo_pages m = boot_pages 0 (memory_regions demo_boot_info) 0x1000 m"

definition heap_apart :: "mem \<Rightarrow> bool" where
  "heap_apart m \<longleftrightarrow> same_outside (heap_mem demo_placement) HEAP_SIZE (\<lambda>_. 0) m"

lemma task_number_apart:
  "task_number n + 1 \<le> task_number n' \<or> task_number n' + 1 \<le> task_number n" if "n \<noteq> n'"
  using that by (cases n; cases n') (simp_all add: task_number_def)

lemma demo_placement_ok: "placement_ok demo_placement"
proof -
  have le: "task_number n \<le> 4" for n by (cases n) (simp_all add: task_number_def)
  have "kernel_stack demo_placement n + 16384 \<le> kernel_stack demo_placement n' \<or>
      kernel_stack demo_placement n' + 16384 \<le> kernel_stack demo_placement n" if "n \<noteq> n'" for n n'
    using task_number_apart[OF that] by (auto simp: demo_placement_def)
  moreover have "user_stack demo_placement n + 16384 < usize_bound" "kernel_stack demo_placement n + 16384 < usize_bound" for n
    using le[of n] by (simp_all add: demo_placement_def usize_bound_def)
  ultimately show ?thesis
    by (simp add: placement_ok_def stacks_ok_def) (simp add: demo_placement_def usize_bound_def HEAP_SIZE_def)
qed

lemma demo_root_empty: "heap_apart m \<Longrightarrow> ents (demo_pages m) 0x1000 i = 0"
proof -
  assume m: "heap_apart m"
  have "load m (0x1000 + 8 * i) 8 = load (\<lambda>_. 0) (0x1000 + 8 * i) 8" if "i < 512"
    by (rule same_outside_load[OF m[unfolded heap_apart_def]])
      (use that in \<open>simp add: demo_placement_def\<close>)
  then show ?thesis
    using load64_blank by (simp add: ents_def read_entry_def demo_pages_def boot_pages_def paging_init_def load64_def)
qed

lemma demo_tables:
  "entry_format ops \<Longrightarrow> heap_apart m \<Longrightarrow> table_of ops (ents (demo_pages m)) 0x1000 d v = Some t \<Longrightarrow>
    d = 0 \<and> t = 0x1000"
proof (induction d arbitrary: t)
  case (Suc d)
  then show ?case
    using entry_format.unused_absent[OF Suc.prems(1) entry_format.zero_unused[OF Suc.prems(1)]]
    by (auto simp: table_of.simps(2) Let_def bind_eq_Some_conv demo_root_empty)
qed simp

lemma demo_frames: "usable_frames (memory_regions demo_boot_info) = [0x2000, 0x3000, 0x4000, 0x5000, 0x6000, 0x7000]"
  by (simp add: demo_boot_info_def usable_frames_def region_frames_def upt_rec)

lemma demo_pages_ok:
  assumes m: "heap_apart m"
  shows "paging_ok x86_ops (demo_pages m)" and "path_ok x86_ops (demo_pages m) need v"
proof -
  note tables = demo_tables[OF x86.entry_format_axioms m]
  have cr3: "cr3 (demo_pages m) = 0x1000" "phys_mem_offset (demo_pages m) = 0"
    "frame_alloc (demo_pages m) = Some (frame_allocator_new (memory_regions demo_boot_info))"
    by (simp_all add: demo_pages_def boot_pages_def paging_init_def)
  have "tree_ok x86_ops (ents (demo_pages m)) 0x1000" unfolding tree_ok_def using tables by blast
  moreover have "\<not> is_table x86_ops (ents (demo_pages m)) 0x1000 f" if "f \<noteq> 0x1000" for f
    unfolding is_table_def using tables that by blast
  moreover have "maps_memory (demo_pages m)" by (simp add: maps_memory_def cr3 usize_bound_def)
  moreover have "frames_ok (frame_allocator_new (memory_regions demo_boot_info))"
    by (simp add: frames_ok_new regions_ok_def demo_boot_info_def usize_bound_def)
  ultimately show "paging_ok x86_ops (demo_pages m)"
    using cr3 by (auto simp: paging_ok_def frames_fresh_def remaining_new demo_frames)
  have "e_unused x86_ops (ents (demo_pages m) t (table_index (4 - k) v))"
    if "table_of x86_ops (ents (demo_pages m)) (cr3 (demo_pages m)) k v = Some t" for k t
    using tables[OF that[unfolded cr3]] x86.zero_unused demo_root_empty[OF m] by simp
  then show "path_ok x86_ops (demo_pages m) need v" by (simp add: path_ok_def Let_def)
qed

lemma demo_tables_ok: "tables_ok x86_ops demo_placement demo_boot_info 0x1000 (\<lambda>_. 0) 0"
  using demo_pages_ok by (simp add: tables_ok_def heap_apart_def demo_pages_def)

lemma demo_bootable: "bootable (\<lambda>_. None) (\<lambda>_. []) x86_ops demo_placement demo_boot_info (\<lambda>_. 0) 0x1000 0"
  using demo_placement_ok demo_tables_ok demo_frames
  by (simp add: bootable_def framebuffer_ok_def font_ok_def x86_ops_def test_virt_page_def demo_boot_info_def)

lemma gdt_table_law: "descriptor_table gdt_add length"
  by unfold_locales (simp add: gdt_add_def)

text \<open>The empty drive conforms and has no magic.\<close>

lemma demo_drive:
  "ata_conforms (sim_bus 3 (\<lambda>_. replicate 512 0)) sim_regs sim_phase (\<lambda>_. replicate 512 0)"
  "sb_magic (superblock_from_bytes ((\<lambda>_ :: nat. replicate 512 0) 40002)) = RELIZFS_MAGIC \<longrightarrow> mountable (\<lambda>_. replicate 512 0)"
proof -
  have "sb_magic (superblock_from_bytes (replicate 512 0)) = 0"
    by (simp add: superblock_from_bytes_def slice_def u32_from_le_def u64_from_le_def numeral_eq_Suc)
  then show "sb_magic (superblock_from_bytes ((\<lambda>_ :: nat. replicate 512 0) 40002)) = RELIZFS_MAGIC \<longrightarrow>
      mountable (\<lambda>_. replicate 512 0)"
    by (simp add: RELIZFS_MAGIC_def)
qed (rule sim_conforms, simp_all)

theorem kernel_boots_witness:
  "\<exists>k. kernel_main (\<lambda>_. None) (\<lambda>_. []) x86_ops gdt_add (sim_bus 3 (\<lambda>_. replicate 512 0)) demo_placement demo_boot_info
     (\<lambda>_. 0) 0x1000 [] \<lparr>star = 0, lstar = 0, fmask_msr = 0, efer = 0\<rparr> sim_idle = Some k \<and>
     sys_mapped k = (Inr (), 0x2000) \<and> kernel_reachable (kernel.truncate (sys_machine k))"
  using kernel_boots[OF x86.entry_format_axioms gdt_table_law list.size(3) demo_bootable demo_drive(1)
      sim_idle_phase demo_drive(2), of "\<lparr>star = 0, lstar = 0, fmask_msr = 0, efer = 0\<rparr>"] demo_frames
  by (elim exE conjE) (intro exI conjI, assumption+, simp_all)



end
