(* ===== verification/Multitask.thy ===== *)
theory Multitask
  imports Boot
begin

text \<open>
  The processor shared by the tasks: \<open>timer_interrupt_handler\<close> of \<open>interrupts.rs\<close> and
  \<open>syscall_handler\<close> of \<open>syscall.rs\<close> from the interrupted instruction to the one resumed, with
  the Rust function each calls. The specification is a machine on which every task has a
  processor of its own; \<open>runs_as\<close> relates the two: the running task's context is in the
  registers, everyone else's in the frame at the top of its kernel stack. Kernel code runs below
  that frame, on stack space that is not modelled.
\<close>

subsection \<open>The handlers as a whole\<close>

definition timer_interrupt :: "cpu \<times> machine \<Rightarrow> (cpu \<times> machine) option" where
  "timer_interrupt s = (case s of (c, m) \<Rightarrow>
     do {
       let (c, mem) = timer_entry (word_of_nat (rsp0 m)) (c, memory m);
       (new_rsp, m) \<leftarrow> handle_timer_interrupt (unat (rsp c)) (m\<lparr>memory := mem\<rparr>);
       Some (resume (memory m) (word_of_nat new_rsp) c, m)
     })"

text \<open>\<open>Inr\<close> is a machine that has been shut down.\<close>

definition system_call :: "font \<Rightarrow> u64 \<Rightarrow> cpu \<times> machine \<Rightarrow> (cpu \<times> machine + machine) option" where
  "system_call font handler s = (case s of (c, m) \<Rightarrow>
     do {
       let (c, mem) = syscall_entry (word_of_nat (kstack m)) (syscall_instruction handler c, memory m);
       let a = syscall_args c;
       out \<leftarrow> handle_syscall font (gpr a RDI) (gpr a RSI) (gpr a RDX) (unat (gpr a R8)) (m\<lparr>memory := mem\<rparr>);
       Some (case out of
           Resume new_rsp m \<Rightarrow> Inl (resume (memory m) (word_of_nat new_rsp) c, m)
         | Halt m \<Rightarrow> Inr m)
     })"

subsection \<open>A processor for every task\<close>

abbreviation running :: "'a kernel_scheme \<Rightarrow> nat" where
  "running m \<equiv> current_task_idx (sched m)"

definition set_rax :: "u64 \<Rightarrow> cpu \<Rightarrow> cpu" where
  "set_rax v c = c\<lparr>gpr := (gpr c)(RAX := v)\<rparr>"

definition ring3 :: "cpu \<Rightarrow> bool" where
  "ring3 c \<longleftrightarrow> cs c AND 3 \<noteq> 0"

text \<open>
  What a call of task \<open>i\<close> does to the contexts: its own gets some \<open>rax\<close>; a task of \<open>W\<close>, which
  was blocked in a call, may get the result zero of that call.
\<close>

definition answers :: "nat set \<Rightarrow> nat \<Rightarrow> (nat \<Rightarrow> cpu) \<Rightarrow> (nat \<Rightarrow> cpu) \<Rightarrow> bool" where
  "answers W i P P' \<longleftrightarrow> (\<exists>v. P' i = set_rax v (P i)) \<and>
     (\<forall>j. j \<noteq> i \<longrightarrow> P' j = P j \<or> j \<in> W \<and> P' j = set_rax 0 (P j))"

lemma set_rax_rax: "set_rax v (set_rax u c) = set_rax v c"
  by (simp add: set_rax_def)

lemma set_rax_same: "set_rax (gpr c RAX) c = c"
  by (simp add: set_rax_def)

lemma answers_nothing: "answers W i P P"
  using set_rax_same by (metis answers_def)

lemma answers_own: "answers W i P (P(i := set_rax v (P i)))"
  by (auto simp: answers_def)

definition blocked :: "'a kernel_scheme \<Rightarrow> nat set" where
  "blocked m = {i. \<exists>st. state_at (tasks (sched m)) i = Some st \<and> st \<noteq> Ready \<and> st \<noteq> Running}"

subsection \<open>Frames\<close>

text \<open>
  The tasks are \<open>0..<n\<close>, with kernel stacks that end at \<open>tops\<close>; the frame of each is the 160
  bytes below.
\<close>

definition stacks_apart :: "nat \<Rightarrow> (nat \<Rightarrow> nat) \<Rightarrow> bool" where
  "stacks_apart n tops \<longleftrightarrow> n \<le> 8 \<and>
     (\<forall>i<n. 160 \<le> tops i \<and> tops i < usize_bound \<and> tops i mod 16 = 0) \<and>
     (\<forall>i<n. \<forall>j<n. i \<noteq> j \<longrightarrow> tops i \<le> tops j - 160 \<or> tops j \<le> tops i - 160)"

definition clear_of_frames :: "nat \<Rightarrow> (nat \<Rightarrow> nat) \<Rightarrow> nat \<Rightarrow> nat \<Rightarrow> bool" where
  "clear_of_frames n tops p len \<longleftrightarrow> (\<forall>i<n. p + len \<le> tops i - 160 \<or> tops i \<le> p)"

definition same_frames :: "nat \<Rightarrow> (nat \<Rightarrow> nat) \<Rightarrow> mem \<Rightarrow> mem \<Rightarrow> bool" where
  "same_frames n tops m m' \<longleftrightarrow> (\<forall>i<n. \<forall>x. tops i - 160 \<le> x \<and> x < tops i \<longrightarrow> m' x = m x)"

definition frame_holds :: "(nat \<Rightarrow> nat) \<Rightarrow> mem \<Rightarrow> nat \<Rightarrow> cpu \<Rightarrow> bool" where
  "frame_holds tops m i c \<longleftrightarrow> load_words m (tops i - 160) 20 = context_words c"

text \<open>The scheduler's table: the first \<open>n\<close> slots, each task saved at the top of its stack.\<close>

definition slot_ok :: "nat \<Rightarrow> (nat \<Rightarrow> nat) \<Rightarrow> nat \<Rightarrow> task \<Rightarrow> bool" where
  "slot_ok n tops i t \<longleftrightarrow> kernel_stack_top t = tops i \<and> task_rsp t = tops i - 160 \<and>
     (\<forall>f p. task_state t = Receiving f p \<longrightarrow> clear_of_frames n tops p 48)"

definition table_ok :: "nat \<Rightarrow> (nat \<Rightarrow> nat) \<Rightarrow> 'a kernel_scheme \<Rightarrow> bool" where
  "table_ok n tops m \<longleftrightarrow> ipc_inv (sched m) \<and> stacks_apart n tops \<and> running m < n \<and>
     rsp0 m = tops (running m) \<and> kstack m = tops (running m) \<and>
     (\<forall>i<8. case tasks (sched m) ! i of Some t \<Rightarrow> i < n \<and> slot_ok n tops i t | None \<Rightarrow> n \<le> i)"

text \<open>Inside the kernel every context is in memory.\<close>

definition in_kernel :: "nat \<Rightarrow> (nat \<Rightarrow> nat) \<Rightarrow> 'a kernel_scheme \<Rightarrow> (nat \<Rightarrow> cpu) \<Rightarrow> bool" where
  "in_kernel n tops m P \<longleftrightarrow> table_ok n tops m \<and> (\<forall>i<n. frame_holds tops (memory m) i (P i) \<and> ring3 (P i))"

text \<open>In a task, its own context is in the registers.\<close>

definition runs_as :: "nat \<Rightarrow> (nat \<Rightarrow> nat) \<Rightarrow> cpu \<times> machine \<Rightarrow> (nat \<Rightarrow> cpu) \<Rightarrow> bool" where
  "runs_as n tops s P \<longleftrightarrow> (case s of (c, m) \<Rightarrow> table_ok n tops m \<and> P (running m) = c \<and>
     (\<forall>i<n. ring3 (P i) \<and> (i \<noteq> running m \<longrightarrow> frame_holds tops (memory m) i (P i))))"

lemma frame_holds_cong:
  assumes "same_frames n tops m m'" and "i < n" and "stacks_apart n tops"
  shows "frame_holds tops m' i c = frame_holds tops m i c"
proof -
  have "160 \<le> tops i" using assms(2,3) by (simp add: stacks_apart_def)
  then have "load_words m' (tops i - 160) 20 = load_words m (tops i - 160) 20"
  proof (intro load_words_cong)
    fix x :: nat assume "160 \<le> tops i" "x < 8 * 20"
    moreover have "m' y = m y" if "tops i - 160 \<le> y" "y < tops i" for y
      using assms(1,2) that by (simp add: same_frames_def)
    ultimately show "m' (tops i - 160 + x) = m (tops i - 160 + x)" by simp
  qed
  then show ?thesis by (simp add: frame_holds_def)
qed

lemma same_frames_store:
  "clear_of_frames n tops p (length bs) \<Longrightarrow> same_frames n tops m (store m p bs)"
  by (force simp: same_frames_def clear_of_frames_def store_def)

lemma same_frames_trans: "same_frames n tops m m1 \<Longrightarrow> same_frames n tops m1 m2 \<Longrightarrow> same_frames n tops m m2"
  by (simp add: same_frames_def)

text \<open>A store into the frame of one task leaves the others'.\<close>

lemma other_frames:
  assumes "stacks_apart n tops" and "i < n" "j < n" "i \<noteq> j"
    and "tops i - 160 \<le> p" "p + length bs \<le> tops i"
  shows "frame_holds tops (store m p bs) j c = frame_holds tops m j c"
proof -
  have "tops i \<le> tops j - 160 \<or> tops j \<le> tops i - 160" "160 \<le> tops j"
    using assms(1-4) by (auto simp: stacks_apart_def)
  then have "load_words (store m p bs) (tops j - 160) 20 = load_words m (tops j - 160) 20"
    by (intro load_words_cong) (use assms(5,6) in \<open>auto simp: store_def\<close>)
  then show ?thesis by (simp add: frame_holds_def)
qed

lemma save_frame:
  assumes "stacks_apart n tops" and "i < n"
  shows "frame_holds tops (store m (tops i - 160) (words_to_le (context_words c))) i c"
    and "j < n \<Longrightarrow> j \<noteq> i \<Longrightarrow>
      frame_holds tops (store m (tops i - 160) (words_to_le (context_words c))) j d = frame_holds tops m j d"
proof -
  have l: "length (words_to_le (context_words c)) = 160" "length (context_words c) = 20"
    by (simp_all add: context_words_def pop_order_def)
  show "frame_holds tops (store m (tops i - 160) (words_to_le (context_words c))) i c"
    using load_words_store[of m "tops i - 160" "context_words c"] l by (simp add: frame_holds_def)
  have "160 \<le> tops i" using assms by (simp add: stacks_apart_def)
  then show "j < n \<Longrightarrow> j \<noteq> i \<Longrightarrow>
      frame_holds tops (store m (tops i - 160) (words_to_le (context_words c))) j d = frame_holds tops m j d"
    using other_frames[OF assms(1,2), of j "tops i - 160" "words_to_le (context_words c)" m d] l by auto
qed

subsection \<open>What the kernel does to the contexts\<close>

lemma in_kernel_same:
  assumes "in_kernel n tops m P" and "sched m' = sched m" and "rsp0 m' = rsp0 m" and "kstack m' = kstack m"
    and "same_frames n tops (memory m) (memory m')"
  shows "in_kernel n tops m' P"
proof -
  have "stacks_apart n tops" using assms(1) by (simp add: in_kernel_def table_ok_def)
  with assms frame_holds_cong[OF assms(5)] show ?thesis by (simp add: in_kernel_def table_ok_def)
qed

lemma in_kernel_rax:
  assumes k: "in_kernel n tops m P" and i: "i < n"
  shows "in_kernel n tops (kwrite_rax (tops i - 160) v m) (P(i := set_rax v (P i)))"
proof -
  have a: "stacks_apart n tops" using k by (simp add: in_kernel_def table_ok_def)
  have "frame_holds tops (write_rax (memory m) (tops i - 160) v) i (set_rax v (P i))"
    using k i write_rax_frame by (simp add: in_kernel_def frame_holds_def set_rax_def)
  moreover have "frame_holds tops (write_rax (memory m) (tops i - 160) v) j (P j)" if "j < n" "j \<noteq> i" for j
    using other_frames[OF a i that(1), of "tops i - 160 + 8 * 14" "u64_to_le v"] a i k that
    by (simp add: in_kernel_def write_rax_def store64_def stacks_apart_def)
  moreover have "ring3 (set_rax v (P i))" using k i by (simp add: in_kernel_def ring3_def set_rax_def)
  ultimately show ?thesis using k by (simp add: in_kernel_def table_ok_def kwrite_rax_def)
qed

lemma in_kernel_slot:
  assumes "in_kernel n tops m P" and "i < 8"
  shows "tasks (sched m) ! i = Some t \<Longrightarrow> i < n \<and> slot_ok n tops i t"
    and "tasks (sched m) ! i = None \<Longrightarrow> n \<le> i"
  using assms by (auto simp: in_kernel_def table_ok_def split: option.splits)

text \<open>A change of one task's state.\<close>

lemma in_kernel_set_state:
  assumes k: "in_kernel n tops m P" and s: "set_state i st (sched m) = Some s'" "ipc_inv s'"
    and st: "\<And>f p. st = Receiving f p \<Longrightarrow> clear_of_frames n tops p 48"
  shows "in_kernel n tops (m\<lparr>sched := s'\<rparr>) P"
proof -
  obtain t where t: "tasks (sched m) ! i = Some t" "i < length (tasks (sched m))"
    and s': "s' = (sched m)\<lparr>tasks := (tasks (sched m))[i := Some (t\<lparr>task_state := st\<rparr>)]\<rparr>"
    using s(1) by (auto simp: set_state_def checked split: bind_splits if_splits)
  have l: "length (tasks (sched m)) = 8" using k by (simp add: in_kernel_def table_ok_def ipc_inv_def sched_wf_def)
  have ti: "i < n" "slot_ok n tops i t" using in_kernel_slot[OF k] t l by auto
  then have "slot_ok n tops i (t\<lparr>task_state := st\<rparr>)" using st by (simp add: slot_ok_def)
  with k s(2) t(2) ti l show ?thesis
    by (auto simp: in_kernel_def table_ok_def s' nth_list_update split: option.splits)
qed

text \<open>A context switch: the stack pointer it returns is that of the task it chose.\<close>

lemma in_kernel_switch:
  assumes k: "in_kernel n tops m P"
  shows "\<exists>m'. switch_task (tops (running m) - 160) m = Some (tops (running m') - 160, m') \<and>
    in_kernel n tops m' P \<and> running m' = next_runnable (tasks (sched m)) (running m) \<and>
    tasks (sched m') = tasks (sched m)"
proof -
  let ?c = "running m" and ?s = "sched m"
  have inv: "ipc_inv ?s" and l: "length (tasks ?s) = 8" "?c < 8"
    using k by (auto simp: in_kernel_def table_ok_def ipc_inv_def sched_wf_def)
  obtain t where t: "tasks ?s ! ?c = Some t"
    using inv by (auto simp: ipc_inv_def state_at_def split: if_splits)
  then have "task_rsp t = tops ?c - 160" using in_kernel_slot(1)[OF k l(2)] by (simp add: slot_ok_def)
  then have "t\<lparr>task_rsp := tops ?c - 160\<rparr> = t" by (cases t) simp
  then have "(tasks ?s)[?c := Some (t\<lparr>task_rsp := tops ?c - 160\<rparr>)] = tasks ?s"
    using t by (metis list_update_id)
  with t l have save: "save_current_rsp (tops ?c - 160) ?s = Some ?s"
    by (auto simp: save_current_rsp_def on_boot_thread_def checked)
  let ?n = "next_runnable (tasks ?s) ?c"
  obtain s2 where s2: "select_next_task ?s = Some s2" "ipc_inv s2" "tasks s2 = tasks ?s" "current_task_idx s2 = ?n"
    using select_next_task_inv[OF inv] by blast
  obtain u where u: "tasks ?s ! ?n = Some u" "?n < 8"
    using s2(2-4) by (auto simp: ipc_inv_def state_at_def sched_wf_def split: if_splits)
  have ok: "?n < n" "slot_ok n tops ?n u" using in_kernel_slot(1)[OF k u(2,1)] by simp_all
  let ?m = "m\<lparr>sched := s2, rsp0 := tops ?n, kstack := tops ?n\<rparr>"
  have "switch_task (tops ?c - 160) m = Some (tops ?n - 160, ?m)"
    using save s2 u l ok
    by (auto simp: switch_task_def get_current_rsp_def on_boot_thread_def current_task_def checked slot_ok_def)
  moreover have "in_kernel n tops ?m P"
    using k s2 ok(1) by (simp add: in_kernel_def table_ok_def)
  ultimately show ?thesis using s2(3,4) by (intro exI[of _ ?m]) simp
qed

subsection \<open>The calls\<close>

lemma set_state_idx: "set_state i st s = Some s' \<Longrightarrow> current_task_idx s' = current_task_idx s"
  by (auto simp: set_state_def split: bind_splits)

text \<open>A delivery to the peer \<open>j\<close>, or from it: both calls return zero.\<close>

lemma in_kernel_delivery:
  assumes k: "in_kernel n tops m P" and j: "j < n" "j \<in> blocked m" and p: "clear_of_frames n tops p 48"
    and s: "set_state j Ready (sched m) = Some s'" "ipc_inv s'"
    and m': "m' = kwrite_rax (tops (running m) - 160) 0
      ((kwrite_rax (tops j - 160) 0 (m\<lparr>memory := write_message (memory m) p msg\<rparr>))\<lparr>sched := s'\<rparr>)"
  shows "\<exists>P'. in_kernel n tops m' P' \<and> answers (blocked m) (running m) P P' \<and> running m' = running m"
proof -
  let ?i = "running m" and ?m1 = "m\<lparr>memory := write_message (memory m) p msg\<rparr>"
  have i: "?i < n" using k by (simp add: in_kernel_def table_ok_def)
  have "same_frames n tops (memory m) (memory ?m1)"
    using same_frames_store[of n tops p "words_to_le (message_words msg)" "memory m"] p by (simp add: write_message_def message_words_def)
  then have "in_kernel n tops ?m1 P" by (intro in_kernel_same[OF k]) simp_all
  from in_kernel_rax[OF this j(1), of 0]
  have "in_kernel n tops ((kwrite_rax (tops j - 160) 0 ?m1)\<lparr>sched := s'\<rparr>) (P(j := set_rax 0 (P j)))"
    by (rule in_kernel_set_state[where st = Ready and i = j]) (use s in \<open>simp_all add: kwrite_rax_def\<close>)
  from in_kernel_rax[OF this i, of 0]
  have "in_kernel n tops m' ((P(j := set_rax 0 (P j)))(?i := set_rax 0 ((P(j := set_rax 0 (P j))) ?i)))"
    by (simp add: m')
  moreover have "answers (blocked m) ?i P ((P(j := set_rax 0 (P j)))(?i := set_rax 0 ((P(j := set_rax 0 (P j))) ?i)))"
    using j(2) by (auto simp: answers_def set_rax_rax)
  moreover have "running m' = ?i" using set_state_idx[OF s(1)] by (simp add: m' kwrite_rax_def)
  ultimately show ?thesis by blast
qed

text \<open>The caller blocks and the processor goes to another task.\<close>

lemma in_kernel_block:
  assumes k: "in_kernel n tops m P" and s: "set_state (running m) st (sched m) = Some s'" "ipc_inv s'"
    and st: "\<And>f p. st = Receiving f p \<Longrightarrow> clear_of_frames n tops p 48"
  shows "\<exists>m'. switch_task (tops (running m) - 160) (m\<lparr>sched := s'\<rparr>) = Some (tops (running m') - 160, m') \<and>
    in_kernel n tops m' P"
proof -
  have "in_kernel n tops (m\<lparr>sched := s'\<rparr>) P" by (rule in_kernel_set_state[OF k s]) (rule st)
  from in_kernel_switch[OF this] show ?thesis using set_state_idx[OF s(1)] by auto
qed

text \<open>What a call leaves: the frame to resume from and the contexts.\<close>

definition leaves ::
  "nat \<Rightarrow> (nat \<Rightarrow> nat) \<Rightarrow> 'a kernel_scheme \<Rightarrow> (nat \<Rightarrow> cpu) \<Rightarrow> nat \<Rightarrow> 'a kernel_scheme \<Rightarrow> bool" where
  "leaves n tops m P new m' \<longleftrightarrow> new = tops (running m') - 160 \<and>
     (\<exists>P'. in_kernel n tops m' P' \<and> answers (blocked m) (running m) P P')"

lemma leaves_own:
  assumes k: "in_kernel n tops m P"
  shows "leaves n tops m P (tops (running m) - 160) (kwrite_rax (tops (running m) - 160) v m)"
proof -
  have "running m < n" using k by (simp add: in_kernel_def table_ok_def)
  from in_kernel_rax[OF k this] answers_own show ?thesis by (fastforce simp: leaves_def kwrite_rax_def)
qed

lemma sys_yield_leaves:
  assumes k: "in_kernel n tops m P" and run: "sys_yield (tops (running m) - 160) m = Some (new, m')"
  shows "leaves n tops m P new m'"
proof -
  have i: "running m < n" using k by (simp add: in_kernel_def table_ok_def)
  obtain m1 where "switch_task (tops (running m) - 160) m = Some (tops (running m1) - 160, m1)" "in_kernel n tops m1 P"
    using in_kernel_switch[OF k] by blast
  with run in_kernel_rax[OF _ i, of tops m1 P 0] answers_own show ?thesis
    by (fastforce simp: leaves_def sys_yield_def kwrite_rax_def)
qed

lemma sys_send_to:
  assumes "ipc_inv (sched m)" and "1 \<le> d" "d \<le> 8" "tasks (sched m) ! (d - 1) = Some t"
  shows "sys_send d p r m =
    send_to d ((read_message (memory m) p)\<lparr>sender := running m + 1\<rparr>) (d - 1) r m"
  using assms by (auto simp: sys_send_def checked Let_def ipc_inv_def sched_wf_def)

lemma sys_send_leaves:
  assumes k: "in_kernel n tops m P" and run: "sys_send d p (tops (running m) - 160) m = Some (new, m')"
  shows "leaves n tops m P new m'"
proof -
  let ?i = "running m" and ?r = "tops (running m) - 160"
  let ?msg = "(read_message (memory m) p)\<lparr>sender := ?i + 1\<rparr>"
  have inv: "ipc_inv (sched m)" and l: "length (tasks (sched m)) = 8"
    using k by (auto simp: in_kernel_def table_ok_def ipc_inv_def sched_wf_def)
  have d: "1 \<le> d" using run sys_send_zero[of p ?r m] by (cases d) auto
  show ?thesis
  proof (cases "d \<le> 8 \<and> tasks (sched m) ! (d - 1) \<noteq> None")
    case False
    then have "sys_send d p ?r m = Some (?r, kwrite_rax ?r (- 1) m)"
      by (intro sys_send_invalid[OF inv d]) auto
    with run leaves_own[OF k] show ?thesis by auto
  next
    case True
    then obtain t where t: "d \<le> 8" "tasks (sched m) ! (d - 1) = Some t" by auto
    have slot: "d - 1 < n" "slot_ok n tops (d - 1) t" using in_kernel_slot(1)[OF k _ t(2)] d t(1) by simp_all
    show ?thesis
    proof (cases "\<exists>f buf. task_state t = Receiving f buf \<and> accepts f (?i + 1)")
      case True
      then obtain f buf where st: "task_state t = Receiving f buf" "accepts f (?i + 1)" by blast
      have "send_to d ?msg (d - 1) ?r m = Some (new, m')" using run sys_send_to[OF inv d t] by simp
      then obtain s' where s': "set_state (d - 1) Ready (sched m) = Some s'"
        "m' = kwrite_rax ?r 0 ((kwrite_rax (task_rsp t) 0 (m\<lparr>memory := write_message (memory m) buf ?msg\<rparr>))\<lparr>sched := s'\<rparr>)"
        "new = ?r"
        using t l st by (auto simp: send_to_def checked Let_def kwrite_rax_def bind_eq_Some_conv)
      have "ipc_inv s'"
        using sys_send_rendezvous[OF inv d t(2,1) st, of p ?r] run s'(2) by (auto simp: kwrite_rax_def)
      moreover have "d - 1 \<in> blocked m" using t d l st by (simp add: blocked_def state_at_def)
      moreover have "clear_of_frames n tops buf 48" "task_rsp t = tops (d - 1) - 160"
        using slot(2) st(1) by (auto simp: slot_ok_def)
      ultimately show ?thesis
        using in_kernel_delivery[OF k slot(1) _ _ s'(1), of buf m' ?msg] s'(2,3) by (auto simp: leaves_def)
    next
      case False
      with sys_send_blocks[OF inv d t(2,1), of p ?r] obtain s' where s':
        "sys_send d p ?r m = switch_task ?r (m\<lparr>sched := s'\<rparr>)" "ipc_inv s'"
        "set_state ?i (Sending d ?msg) (sched m) = Some s'" by blast
      from in_kernel_block[OF k s'(3,2)] run s'(1) answers_nothing show ?thesis
        by (fastforce simp: leaves_def)
    qed
  qed
qed

lemma recv_from_leaves:
  assumes k: "in_kernel n tops m P" and p: "clear_of_frames n tops p 48"
    and run: "recv_from f p (tops (running m) - 160) m = Some (Inr (new, m'))"
  shows "leaves n tops m P new m'"
proof -
  let ?i = "running m" and ?r = "tops (running m) - 160"
  have inv: "ipc_inv (sched m)" and l: "length (tasks (sched m)) = 8"
    using k by (auto simp: in_kernel_def table_ok_def ipc_inv_def sched_wf_def)
  from run obtain j where j: "find_sender (?i + 1) f 0 (tasks (sched m)) = Some j"
    by (auto simp: recv_from_def split: option.splits)
  have j8: "j < 8" and sends: "sends_to (?i + 1) f (tasks (sched m) ! j)"
    using find_sender_Some[OF j] l by simp_all
  then obtain t dest msg where t: "tasks (sched m) ! j = Some t" "task_state t = Sending dest msg"
    by (auto simp: sends_to_def split: option.splits task_state.splits)
  obtain s' where s': "set_state j Ready (sched m) = Some s'"
    "m' = kwrite_rax ?r 0 ((kwrite_rax (task_rsp t) 0 (m\<lparr>memory := write_message (memory m) p msg\<rparr>))\<lparr>sched := s'\<rparr>)"
    "new = ?r"
    using run j j8 t l by (auto simp: recv_from_def checked Let_def kwrite_rax_def bind_eq_Some_conv)
  have slot: "j < n" "slot_ok n tops j t" using in_kernel_slot(1)[OF k j8 t(1)] by simp_all
  have "ipc_inv s'"
    using recv_from_cases[OF inv, of f p ?r] run s'(2) by (auto simp: kwrite_rax_def)
  moreover have "j \<in> blocked m" using t j8 l by (simp add: blocked_def state_at_def)
  moreover have "task_rsp t = tops j - 160" using slot(2) by (simp add: slot_ok_def)
  ultimately show ?thesis
    using in_kernel_delivery[OF k slot(1) _ p s'(1), of m' msg] s'(2,3) by (auto simp: leaves_def)
qed

lemma sys_recv_leaves:
  assumes k: "in_kernel n tops m P" and p: "clear_of_frames n tops p 48"
    and run: "sys_recv fl p (tops (running m) - 160) m = Some (new, m')"
  shows "leaves n tops m P new m'"
proof -
  let ?r = "tops (running m) - 160"
  have inv: "ipc_inv (sched m)" using k by (simp add: in_kernel_def table_ok_def)
  show ?thesis
    using inv
  proof (cases rule: recv_from_cases[where f = "src_filter_option fl" and p = p and r = ?r])
    case (met k')
    with run recv_from_leaves[OF k p] show ?thesis by (simp add: sys_recv_def)
  next
    case nobody
    obtain s' where s': "sys_recv fl p ?r m = switch_task ?r (m\<lparr>sched := s'\<rparr>)" "ipc_inv s'"
      "set_state (running m) (Receiving (src_filter_option fl) p) (sched m) = Some s'"
      using sys_recv_blocks[OF inv, of fl p ?r] nobody(2) by blast
    from in_kernel_block[OF k s'(3,2)] p run s'(1) answers_nothing show ?thesis
      by (fastforce simp: leaves_def)
  qed
qed

lemma sys_try_recv_leaves:
  assumes k: "in_kernel n tops m P" and p: "clear_of_frames n tops p 48"
    and run: "sys_try_recv fl p (tops (running m) - 160) m = Some (new, m')"
  shows "leaves n tops m P new m'"
proof -
  let ?r = "tops (running m) - 160"
  have inv: "ipc_inv (sched m)" using k by (simp add: in_kernel_def table_ok_def)
  show ?thesis
    using inv
  proof (cases rule: recv_from_cases[where f = "src_filter_option fl" and p = p and r = ?r])
    case (met k')
    with run recv_from_leaves[OF k p] show ?thesis by (simp add: sys_try_recv_def)
  next
    case nobody
    with run leaves_own[OF k, of "- 1"] show ?thesis by (auto simp: sys_try_recv_def)
  qed
qed

text \<open>The buffers a call hands to the kernel lie outside the frames.\<close>

definition call_clear :: "nat \<Rightarrow> (nat \<Rightarrow> nat) \<Rightarrow> u64 \<Rightarrow> u64 \<Rightarrow> u64 \<Rightarrow> bool" where
  "call_clear n tops nr a b \<longleftrightarrow> (nr = 4 \<or> nr = 14 \<longrightarrow> clear_of_frames n tops (unat b) 48) \<and>
     (nr = 6 \<longrightarrow> clear_of_frames n tops (unat a) 512) \<and> (nr = 8 \<longrightarrow> clear_of_frames n tops (unat a) 32)"

lemma clear_of_part: "clear_of_frames n tops p l \<Longrightarrow> p \<le> q \<Longrightarrow> q + k \<le> p + l \<Longrightarrow> clear_of_frames n tops q k"
  unfolding clear_of_frames_def by (meson le_trans)

lemma same_frames_store64: "clear_of_frames n tops p 8 \<Longrightarrow> same_frames n tops m (store64 m p w)"
  using same_frames_store[of n tops p "u64_to_le w" m] by (simp add: store64_def)

lemma leaves_plain:
  assumes k: "in_kernel n tops m P" and s: "sched m1 = sched m" "rsp0 m1 = rsp0 m" "kstack m1 = kstack m"
    and f: "same_frames n tops (memory m) (memory m1)"
  shows "leaves n tops m P (tops (running m) - 160) m1"
    and "leaves n tops m P (tops (running m) - 160) (kwrite_rax (tops (running m) - 160) v m1)"
proof -
  have k1: "in_kernel n tops m1 P" by (rule in_kernel_same[OF k s f])
  with s(1) answers_nothing show "leaves n tops m P (tops (running m) - 160) m1" by (auto simp: leaves_def)
  from leaves_own[OF k1] s(1) show "leaves n tops m P (tops (running m) - 160) (kwrite_rax (tops (running m) - 160) v m1)"
    by (simp add: leaves_def blocked_def)
qed

lemma sys_print_leaves:
  assumes k: "in_kernel n tops m P" and run: "sys_print font p l (tops (running m) - 160) m = Some (Resume new m')"
  shows "leaves n tops m P new m'"
  using run leaves_plain(2)[OF k, of "m\<lparr>screen := w\<rparr>" 0 for w] leaves_own[OF k, of 0]
  by (auto simp: sys_print_def return_rax_def same_frames_def bind_eq_Some_conv split: option.splits)

lemma sys_task_info_leaves:
  assumes k: "in_kernel n tops m P" and p: "clear_of_frames n tops p 512"
    and run: "sys_task_info p l (tops (running m) - 160) m = Some (Resume new m')"
  shows "leaves n tops m P new m'"
proof -
  let ?text = "concat (map task_text (tasks (sched m)))"
  let ?bs = "take (min 512 l) ?text"
  have "length ?bs \<le> 512" by simp
  then have "same_frames n tops (memory m) (store (memory m) p ?bs)"
    by (intro same_frames_store clear_of_part[OF p]) simp_all
  with run leaves_plain(2)[OF k, of "m\<lparr>memory := store (memory m) p ?bs\<rparr>" "word_of_nat (min 512 (length ?text))"]
  show ?thesis by (auto simp: sys_task_info_spec return_rax_def Let_def split: if_splits)
qed

lemma sys_gop_info_leaves:
  assumes k: "in_kernel n tops m P" and p: "clear_of_frames n tops p 32"
    and run: "sys_gop_info p (tops (running m) - 160) m = Some (Resume new m')"
  shows "leaves n tops m P new m'"
proof (cases "get_info (screen m)")
  case None
  with run leaves_own[OF k, of "- 1"] show ?thesis by (auto simp: sys_gop_info_def return_rax_def)
next
  case (Some i)
  define mem where "mem = store64 (store64 (store64 (store64 (memory m) p (word_of_nat (fb_width i)))
    (p + 8) (word_of_nat (fb_height i))) (p + 16) (word_of_nat (fb_stride i))) (p + 24) (word_of_nat (bytes_per_pixel i))"
  have "clear_of_frames n tops (p + x) 8" if "x \<le> 24" for x
    using that by (intro clear_of_part[OF p]) simp_all
  from this[of 0] this[of 8] this[of 16] this[of 24] have "same_frames n tops (memory m) mem"
    unfolding mem_def by (auto intro!: same_frames_trans[OF _ same_frames_store64] same_frames_store64)
  with leaves_plain(2)[OF k, of "m\<lparr>memory := mem\<rparr>" 0] run Some show ?thesis
    by (auto simp: sys_gop_info_def return_rax_def Let_def mem_def)
qed

lemma handle_syscall_leaves:
  assumes k: "in_kernel n tops m P" and c: "call_clear n tops nr a b"
    and run: "handle_syscall font nr a b (tops (running m) - 160) m = Some (Resume new m')"
  shows "leaves n tops m P new m'"
proof -
  let ?r = "tops (running m) - 160"
  have scr: "leaves n tops m P ?r (kwrite_rax ?r 0 (m\<lparr>screen := w\<rparr>))" for w
    by (rule leaves_plain(2)[OF k]) (simp_all add: same_frames_def)
  have port: "leaves n tops m P ?r (out_port p v m)" for p v
    by (rule leaves_plain(1)[OF k]) (simp_all add: same_frames_def out_port_def)
  have gfx: "leaves n tops m P new m'" if "sys_gfx_demo ?r m = Some (Resume new m')"
    using that scr by (auto simp: sys_gfx_demo_def return_rax_def bind_eq_Some_conv)
  have blit: "leaves n tops m P new m'" if "sys_blit p ?r m = Some (Resume new m')" for p
    using that scr by (auto simp: sys_blit_def return_rax_def bind_eq_Some_conv Let_def)
  show ?thesis
    using run c sys_print_leaves[OF k] sys_yield_leaves[OF k] sys_send_leaves[OF k] sys_recv_leaves[OF k]
      sys_try_recv_leaves[OF k] sys_task_info_leaves[OF k] sys_gop_info_leaves[OF k] leaves_own[OF k] port gfx blit
    unfolding handle_syscall_def Let_def call_clear_def
    by (auto simp: resume_at_Some return_rax_def sys_reboot_def sys_shutdown_def split: if_splits)
qed

subsection \<open>Into the kernel and out of it\<close>

lemma top_unat: "stacks_apart n tops \<Longrightarrow> i < n \<Longrightarrow> unat (word_of_nat (tops i) :: u64) = tops i"
  by (simp add: stacks_apart_def unat_of_nat usize_bound_def)

lemma enter_kernel:
  assumes s: "runs_as n tops (c, m) P" and d: "ring3 d"
  shows "in_kernel n tops (m\<lparr>memory := store (memory m) (tops (running m) - 160) (words_to_le (context_words d))\<rparr>)
    (P(running m := d))"
proof -
  have a: "stacks_apart n tops" and i: "running m < n"
    using s by (simp_all add: runs_as_def table_ok_def)
  show ?thesis
    using s d save_frame[OF a i] by (auto simp: runs_as_def in_kernel_def table_ok_def)
qed

lemma leave_kernel:
  assumes k: "in_kernel n tops m P"
  shows "runs_as n tops (resume (memory m) (word_of_nat (tops (running m) - 160)) c, m) P"
proof -
  let ?i = "running m"
  have a: "stacks_apart n tops" and i: "?i < n" and f: "frame_holds tops (memory m) ?i (P ?i)"
    using k by (simp_all add: in_kernel_def table_ok_def)
  then have t: "160 \<le> tops ?i" "tops ?i < 2 ^ 64" by (auto simp: stacks_apart_def usize_bound_def)
  then have u: "unat (word_of_nat (tops ?i - 160) :: u64) = tops ?i - 160" by (simp only: unat_of_nat) simp
  have "resume (memory m) (word_of_nat (tops ?i - 160)) c = P ?i"
    by (rule resume_context) (use f t u in \<open>simp_all add: frame_holds_def\<close>)
  with k show ?thesis by (simp add: runs_as_def in_kernel_def)
qed

text \<open>Both entries save the context in the frame at the top of the running task's stack.\<close>

lemma timer_enters:
  assumes s: "runs_as n tops (c, m) P"
  shows "\<exists>c'. timer_entry (word_of_nat (rsp0 m)) (c, memory m) =
    (c', store (memory m) (tops (running m) - 160) (words_to_le (context_words c))) \<and>
    unat (rsp c') = tops (running m) - 160"
proof -
  let ?i = "running m" and ?t = "word_of_nat (tops (running m)) :: u64"
  have a: "stacks_apart n tops" and i: "?i < n" and top: "rsp0 m = tops ?i" and c: "ring3 c"
    using s by (auto simp: runs_as_def table_ok_def)
  note u = top_unat[OF a i]
  have t: "160 \<le> tops ?i" "tops ?i mod 16 = 0" using a i by (simp_all add: stacks_apart_def)
  have "interrupt_top ?t c = ?t"
    using c t(2) u unat_and_not_15[of ?t] by (simp add: interrupt_top_def ring3_def word_unat_eq_iff)
  with timer_entry_saves[of ?t c "memory m"] t(1) u top show ?thesis
    by (simp add: unat_sub word_le_nat_alt)
qed

lemma syscall_enters:
  assumes s: "runs_as n tops (c, m) P"
  shows "\<exists>c'. syscall_entry (word_of_nat (kstack m)) (syscall_instruction h c, memory m) =
    (c', store (memory m) (tops (running m) - 160) (words_to_le (context_words (after_syscall c)))) \<and>
    unat (rsp c') = tops (running m) - 160 \<and> gpr c' = gpr (after_syscall c)"
proof -
  let ?i = "running m" and ?t = "word_of_nat (tops (running m)) :: u64"
  have a: "stacks_apart n tops" and i: "?i < n" and top: "kstack m = tops ?i"
    using s by (auto simp: runs_as_def table_ok_def)
  have t: "160 \<le> tops ?i" using a i by (simp add: stacks_apart_def)
  with syscall_entry_saves[of ?t h c "memory m"] top_unat[OF a i] top show ?thesis
    by (simp add: unat_sub word_le_nat_alt syscall_instruction_def after_syscall_def)
qed

lemma ring3_after_syscall: "ring3 (after_syscall c)"
  by (simp add: ring3_def after_syscall_def)

subsection \<open>One step\<close>

lemma timer_keeps:
  assumes s: "runs_as n tops (c, m) P" and t: "ticks m \<noteq> - 1"
  shows "\<exists>c' m'. timer_interrupt (c, m) = Some (c', m') \<and> runs_as n tops (c', m') P \<and>
    running m' = next_runnable (tasks (sched m)) (running m) \<and> tasks (sched m') = tasks (sched m)"
proof -
  let ?i = "running m"
  obtain c1 where c1: "timer_entry (word_of_nat (rsp0 m)) (c, memory m) =
      (c1, store (memory m) (tops ?i - 160) (words_to_le (context_words c)))" "unat (rsp c1) = tops ?i - 160"
    using timer_enters[OF s] by blast
  let ?m1 = "m\<lparr>memory := store (memory m) (tops ?i - 160) (words_to_le (context_words c))\<rparr>"
  have P: "P(?i := c) = P" and r: "ring3 c" using s by (auto simp: runs_as_def table_ok_def)
  have "in_kernel n tops ?m1 P" using enter_kernel[OF s r] P by simp
  then have k1: "in_kernel n tops (?m1\<lparr>ticks := ticks m + 1\<rparr>) P"
    by (rule in_kernel_same) (simp_all add: same_frames_def)
  obtain m2 where m2: "switch_task (tops ?i - 160) (?m1\<lparr>ticks := ticks m + 1\<rparr>) = Some (tops (running m2) - 160, m2)"
    "in_kernel n tops m2 P" "running m2 = next_runnable (tasks (sched m)) ?i" "tasks (sched m2) = tasks (sched m)"
    using in_kernel_switch[OF k1] by auto
  have "handle_timer_interrupt (tops ?i - 160) ?m1 = Some (tops (running m2) - 160, pic_send_eoi m2)"
    using m2(1) t by (simp add: handle_timer_interrupt_def wadd_one)
  moreover have "in_kernel n tops (pic_send_eoi m2) P"
    by (rule in_kernel_same[OF m2(2)]) (simp_all add: pic_send_eoi_def out_port_def same_frames_def)
  moreover have "sched (pic_send_eoi m2) = sched m2" by (simp add: pic_send_eoi_def out_port_def)
  ultimately show ?thesis
    using c1 m2(3,4) leave_kernel[of n tops "pic_send_eoi m2" P c1] by (auto simp: timer_interrupt_def)
qed

lemma call_keeps:
  assumes s: "runs_as n tops (c, m) P" and clear: "call_clear n tops (gpr c RAX) (gpr c RDI) (gpr c RSI)"
    and run: "system_call font h (c, m) = Some (Inl s')"
  shows "\<exists>P'. runs_as n tops s' P' \<and> answers (blocked m) (running m) (P(running m := after_syscall c)) P'"
proof -
  let ?i = "running m"
  obtain c1 where c1: "syscall_entry (word_of_nat (kstack m)) (syscall_instruction h c, memory m) =
      (c1, store (memory m) (tops ?i - 160) (words_to_le (context_words (after_syscall c))))"
    "unat (rsp c1) = tops ?i - 160" "gpr c1 = gpr (after_syscall c)"
    using syscall_enters[OF s] by blast
  let ?m1 = "m\<lparr>memory := store (memory m) (tops ?i - 160) (words_to_le (context_words (after_syscall c)))\<rparr>"
  have k: "in_kernel n tops ?m1 (P(?i := after_syscall c))"
    by (rule enter_kernel[OF s ring3_after_syscall])
  have g: "gpr (syscall_args c1) RDI = gpr c RAX" "gpr (syscall_args c1) RSI = gpr c RDI"
    "gpr (syscall_args c1) RDX = gpr c RSI" "unat (gpr (syscall_args c1) R8) = tops ?i - 160"
    using c1(2,3) by (simp_all add: syscall_args_def after_syscall_def)
  obtain new m2 where m2: "handle_syscall font (gpr c RAX) (gpr c RDI) (gpr c RSI) (tops ?i - 160) ?m1 = Some (Resume new m2)"
    "s' = (resume (memory m2) (word_of_nat new) c1, m2)"
  proof (cases "handle_syscall font (gpr c RAX) (gpr c RDI) (gpr c RSI) (tops ?i - 160) ?m1")
    case None
    with run c1(1) g show ?thesis by (simp add: system_call_def)
  next
    case (Some out)
    with run c1(1) g that show ?thesis by (cases out) (simp_all add: system_call_def)
  qed
  have "leaves n tops ?m1 (P(?i := after_syscall c)) new m2"
    using handle_syscall_leaves[OF k clear, of font new m2] m2(1) by simp
  with m2(2) leave_kernel[of n tops m2 _ c1] show ?thesis
    by (auto simp: leaves_def blocked_def)
qed

text \<open>Who runs after a tick.\<close>

lemma next_runnable_choice:
  assumes ok: "table_ok n tops m"
  defines "j \<equiv> next_runnable (tasks (sched m)) (running m)"
  shows "j \<notin> blocked m \<or> j = running m \<and> (\<forall>i<n. i \<noteq> running m \<longrightarrow> i \<in> blocked m)"
proof (cases "j = running m")
  case False
  then have "runnable_at (tasks (sched m)) j" unfolding j_def by (rule next_runnable_runnable)
  then show ?thesis by (auto simp: runnable_at_def is_runnable_def blocked_def state_at_def split: option.splits if_splits)
next
  case True
  have c: "running m < 8" "n \<le> 8" and l: "length (tasks (sched m)) = 8"
    using ok by (auto simp: table_ok_def ipc_inv_def sched_wf_def stacks_apart_def)
  have "i \<in> blocked m" if i: "i < n" "i \<noteq> running m" for i
  proof -
    have "\<not> runnable_at (tasks (sched m)) i"
      using next_runnable_closer[OF c(1), of i "tasks (sched m)"] True i c unfolding j_def by auto
    moreover have "i < 8" using i(1) c(2) by simp
    moreover obtain t where "tasks (sched m) ! i = Some t"
      using ok i(1) \<open>i < 8\<close> by (fastforce simp: table_ok_def split: option.splits)
    ultimately show ?thesis using l by (auto simp: blocked_def state_at_def runnable_at_def is_runnable_def)
  qed
  with True show ?thesis by blast
qed

subsection \<open>The two machines\<close>

datatype event = Computes cpu | Tick | Call

text \<open>
  The kernel's machine. A task computes on the registers and on memory other than the frames of
  the tasks that wait; the pages do not enforce this, since every task may access all of them.
\<close>

inductive multitask_step ::
  "font \<Rightarrow> u64 \<Rightarrow> nat \<Rightarrow> (nat \<Rightarrow> nat) \<Rightarrow> event \<Rightarrow> cpu \<times> machine \<Rightarrow> cpu \<times> machine \<Rightarrow> bool"
  for font h n tops where
  task_computes: "ring3 d \<Longrightarrow>
    \<forall>i<n. i \<noteq> running m \<longrightarrow> (\<forall>x. tops i - 160 \<le> x \<and> x < tops i \<longrightarrow> mem x = memory m x) \<Longrightarrow>
    multitask_step font h n tops (Computes d) (c, m) (d, m\<lparr>memory := mem\<rparr>)"
| timer_ticks: "timer_interrupt (c, m) = Some s' \<Longrightarrow> multitask_step font h n tops Tick (c, m) s'"
| task_calls: "call_clear n tops (gpr c RAX) (gpr c RDI) (gpr c RSI) \<Longrightarrow>
    system_call font h (c, m) = Some (Inl s') \<Longrightarrow> multitask_step font h n tops Call (c, m) s'"

inductive_cases multitask_stepE: "multitask_step font h n tops e s s'"

text \<open>
  The specification: a processor per task, which of them has the turn, and which are blocked. A
  tick passes the turn on and touches no processor; a call writes \<open>rax\<close> of the caller and of
  blocked tasks only.
\<close>

type_synonym own_machine = "nat \<times> nat set \<times> (nat \<Rightarrow> cpu)"

inductive own_step :: "nat \<Rightarrow> event \<Rightarrow> own_machine \<Rightarrow> own_machine \<Rightarrow> bool" for n where
  own_computes: "ring3 d \<Longrightarrow> own_step n (Computes d) (i, W, P) (i, W, P(i := d))"
| own_ticks: "j < n \<Longrightarrow> j \<notin> W \<or> j = i \<and> (\<forall>k<n. k \<noteq> i \<longrightarrow> k \<in> W) \<Longrightarrow>
    own_step n Tick (i, W, P) (j, W, P)"
| own_calls: "j < n \<Longrightarrow> answers W i (P(i := after_syscall (P i))) P' \<Longrightarrow>
    own_step n Call (i, W, P) (j, W', P')"

inductive_cases own_stepE: "own_step n e a a'"
inductive_simps own_tick_iff: "own_step n Tick (i, W, P) a'"

text \<open>Labelled runs, and the one induction a refinement of steps needs.\<close>

inductive trace :: "('e \<Rightarrow> 's \<Rightarrow> 's \<Rightarrow> bool) \<Rightarrow> 'e list \<Rightarrow> 's \<Rightarrow> 's \<Rightarrow> bool" for step where
  trace_nil [intro]: "trace step [] s s"
| trace_step [intro]: "step e s s1 \<Longrightarrow> trace step es s1 s2 \<Longrightarrow> trace step (e # es) s s2"

lemma trace_single: "step e s s' \<Longrightarrow> trace step [e] s s'"
  by (rule trace_step[OF _ trace_nil])

locale forward_simulation =
  fixes concrete :: "'e \<Rightarrow> 's \<Rightarrow> 's \<Rightarrow> bool" and abstract :: "'e \<Rightarrow> 'a \<Rightarrow> 'a \<Rightarrow> bool"
    and rel :: "'s \<Rightarrow> 'a \<Rightarrow> bool"
  assumes simulates: "\<lbrakk>rel s a; concrete e s s'\<rbrakk> \<Longrightarrow> \<exists>a'. abstract e a a' \<and> rel s' a'"
begin

lemma traces:
  "\<lbrakk>trace concrete es s s'; rel s a\<rbrakk> \<Longrightarrow> \<exists>a'. trace abstract es a a' \<and> rel s' a'"
proof (induction arbitrary: a rule: trace.induct)
  case (trace_step e s s1 es s2)
  with simulates obtain a1 where "abstract e a a1" "rel s1 a1" by blast
  with trace_step.IH show ?case by blast
qed blast

end

definition own_view :: "nat \<Rightarrow> (nat \<Rightarrow> nat) \<Rightarrow> cpu \<times> machine \<Rightarrow> own_machine \<Rightarrow> bool" where
  "own_view n tops s a \<longleftrightarrow> (case a of (i, W, P) \<Rightarrow>
     runs_as n tops s P \<and> i = running (snd s) \<and> W = blocked (snd s))"

lemma own_view_step:
  assumes "own_view n tops s a" and "multitask_step font h n tops e s s'"
  shows "\<exists>a'. own_step n e a a' \<and> own_view n tops s' a'"
  using assms(2)
proof cases
  case (task_computes d m mem c)
  obtain P where P: "a = (running m, blocked m, P)" "runs_as n tops (c, m) P"
    using assms(1) task_computes by (cases a) (auto simp: own_view_def)
  have "frame_holds tops mem i (P i)" if i: "i < n" "i \<noteq> running m" for i
  proof -
    have "160 \<le> tops i" using P(2) i by (auto simp: runs_as_def table_ok_def stacks_apart_def)
    moreover have "mem x = memory m x" if "tops i - 160 \<le> x" "x < tops i" for x
      using task_computes(5) i that by blast
    ultimately have "load_words mem (tops i - 160) 20 = load_words (memory m) (tops i - 160) 20"
      by (intro load_words_cong) simp
    with P(2) i show ?thesis by (simp add: runs_as_def frame_holds_def)
  qed
  with P(2) task_computes(4) have "runs_as n tops (d, m\<lparr>memory := mem\<rparr>) (P(running m := d))"
    by (simp add: runs_as_def table_ok_def)
  with own_computes[OF task_computes(4)] P(1) task_computes show ?thesis
    by (fastforce simp: own_view_def blocked_def)
next
  case (timer_ticks c m)
  obtain P where P: "a = (running m, blocked m, P)" "runs_as n tops (c, m) P"
    using assms(1) timer_ticks by (cases a) (auto simp: own_view_def)
  have "ticks m \<noteq> - 1"
    using timer_ticks(3) by (auto simp: timer_interrupt_def handle_timer_interrupt_def wadd_one split: prod.splits)
  with timer_keeps[OF P(2)] timer_ticks(3) obtain c' m' where s': "s' = (c', m')" "runs_as n tops (c', m') P"
    "running m' = next_runnable (tasks (sched m)) (running m)" "tasks (sched m') = tasks (sched m)" by auto
  have "table_ok n tops m" "running m' < n" using P(2) s'(2) by (auto simp: runs_as_def table_ok_def)
  with next_runnable_choice[of n tops m] s' P(1) timer_ticks show ?thesis
    by (fastforce simp: own_view_def own_tick_iff blocked_def)
next
  case (task_calls c m)
  obtain P where P: "a = (running m, blocked m, P)" "runs_as n tops (c, m) P"
    using assms(1) task_calls by (cases a) (auto simp: own_view_def)
  obtain P' where P': "runs_as n tops s' P'" "answers (blocked m) (running m) (P(running m := after_syscall c)) P'"
    using call_keeps[OF P(2) task_calls(3,4)] by blast
  have c: "P (running m) = c" and i: "running (snd s') < n"
    using P(2) P'(1) by (auto simp: runs_as_def table_ok_def split: prod.splits)
  have "own_step n Call a (running (snd s'), blocked (snd s'), P')"
    unfolding P(1) by (rule own_calls[OF i]) (use P'(2) c in simp)
  with P'(1) task_calls show ?thesis by (fastforce simp: own_view_def)
qed

interpretation tasking: forward_simulation "multitask_step font h n tops" "own_step n" "own_view n tops"
  by unfold_locales (rule own_view_step)

subsection \<open>From boot on\<close>

abbreviation booted_tops :: "task list \<Rightarrow> nat \<Rightarrow> nat" where
  "booted_tops ts i \<equiv> kernel_stack_top (ts ! i)"

lemma booted_view:
  assumes at: "stacks_ok at" and ts: "length ts = 5" "booted (boot_scheduler ts)"
    and ready: "\<forall>i<5. ready_task (i + 1) (kernel_stack at (boot_order ! i)) (task_context at (boot_order ! i)) (ts ! i) m"
    and k: "sched k = boot_scheduler ts" "memory k = m" "rsp0 k = kernel_stack_top (ts ! 0)" "kstack k = kernel_stack_top (ts ! 0)"
  shows "own_view 5 (booted_tops ts) (resume m (word_of_nat (task_rsp (ts ! 0))) c, k)
    (0, {}, \<lambda>i. task_context at (boot_order ! i))"
proof -
  let ?P = "\<lambda>i. task_context at (boot_order ! i)"
  have r: "ready_task (i + 1) (kernel_stack at (boot_order ! i)) (?P i) (ts ! i) m" if "i < 5" for i
    using ready that by blast
  have order: "boot_order ! i \<noteq> boot_order ! j" if "i < 5" "j < 5" "i \<noteq> j" for i j
    using that by (auto simp: boot_order_def nth_Cons' split: if_splits)
  have apart: "stacks_apart 5 (booted_tops ts)"
    unfolding stacks_apart_def
  proof (intro conjI allI impI)
    fix i :: nat assume i: "i < 5"
    show "160 \<le> kernel_stack_top (ts ! i)" "kernel_stack_top (ts ! i) < usize_bound" "kernel_stack_top (ts ! i) mod 16 = 0"
      using r[OF i] at by (auto simp: ready_task_def stacks_ok_def intro: le_less_trans)
    fix j :: nat assume j: "j < 5" "i \<noteq> j"
    show "kernel_stack_top (ts ! i) \<le> kernel_stack_top (ts ! j) - 160 \<or> kernel_stack_top (ts ! j) \<le> kernel_stack_top (ts ! i) - 160"
      using r[OF i] r[OF j(1)] at order[OF i j] unfolding ready_task_def stacks_ok_def
      by (smt (verit, best) diff_add_inverse2 le_trans)
  qed simp
  have slot: "tasks (sched k) ! i = (if i < 5 then Some (ts ! i) else None)" if "i < 8" for i
    using that ts(1) by (auto simp: k boot_scheduler_def nth_append)
  have rsp: "task_rsp (ts ! i) = kernel_stack_top (ts ! i) - 160" if "i < 5" for i
  proof -
    have "task_rsp (ts ! i) + 160 = kernel_stack_top (ts ! i)" using r[OF that] by (simp add: ready_task_def)
    then show ?thesis by linarith
  qed
  then have "slot_ok 5 (booted_tops ts) i (ts ! i)" if "i < 5" for i
    using r[OF that] that by (simp add: slot_ok_def ready_task_def)
  then have ok: "table_ok 5 (booted_tops ts) k"
    using apart booted_inv[OF ts(2)] ts(2) k slot by (auto simp: table_ok_def booted_def)
  have frame: "frame_holds (booted_tops ts) m i (?P i)" if "i < 5" for i
    using r[OF that] rsp[OF that] by (simp add: frame_holds_def ready_task_def)
  have "resume m (word_of_nat (task_rsp (ts ! 0))) c = ?P 0"
    by (rule ready_task_resumes[OF r]) (use at in \<open>simp_all add: stacks_ok_def\<close>)
  moreover have "ring3 (?P i)" for i by (simp add: ring3_def task_context_def user_context_def)
  moreover have "blocked k = {}"
    using ts slot r by (auto simp: blocked_def state_at_def ready_task_def booted_def k(1) split: if_splits)
  ultimately show ?thesis
    using ok frame k ts(2) by (simp add: own_view_def runs_as_def booted_def)
qed

lemma kernel_main_view:
  assumes "entry_format ops" and "descriptor_table add_entry used" and "used g = 0"
    and "bootable font fmt ops at bi m root off"
    and "ata_conforms bus regs ph disk" and "ph d = Ata_Idle"
    and "sb_magic (superblock_from_bytes (disk 40002)) = RELIZFS_MAGIC \<longrightarrow> mountable disk"
  shows "\<exists>k ts. kernel_main font fmt ops add_entry bus at bi m root g r d = Some k \<and>
    tasks (sched (sys_machine k)) = map Some ts @ replicate 3 None \<and> length ts = 5 \<and> ticks (sys_machine k) = 0 \<and>
    (\<forall>c. own_view 5 (booted_tops ts) (resume (memory (sys_machine k)) (word_of_nat (sys_first_rsp k)) c, sys_machine k)
      (0, {}, \<lambda>i. task_context at (boot_order ! i)))"
proof -
  obtain k ts m' w where k: "kernel_main font fmt ops add_entry bus at bi m root g r d = Some k"
    and mach: "sys_machine k = \<lparr>sched = boot_scheduler ts, memory = m', rsp0 = kernel_stack_top (ts ! 0),
      kstack = kernel_stack_top (ts ! 0), ticks = 0, port_log = [], used_mem = 0, screen = w\<rparr>"
    and ts: "length ts = 5" "booted (boot_scheduler ts)" and first: "sys_first_rsp k = task_rsp (ts ! 0)"
    and ready: "\<forall>i<5. ready_task (i + 1) (kernel_stack at (boot_order ! i)) (task_context at (boot_order ! i)) (ts ! i) m'"
    using kernel_main_ok[OF assms, of r] by blast
  have "own_view 5 (booted_tops ts) (resume m' (word_of_nat (task_rsp (ts ! 0))) c, sys_machine k)
      (0, {}, \<lambda>i. task_context at (boot_order ! i))" for c
    by (rule booted_view[OF _ ts ready]) (use assms(4) in \<open>simp_all add: mach bootable_def placement_ok_def\<close>)
  with k mach ts(1) first show ?thesis
    by (intro exI[of _ k] exI[of _ ts]) (simp add: boot_scheduler_def scheduler_new_def)
qed

lemma view_ticks: "own_view n tops s a \<Longrightarrow> ticks (snd s) \<noteq> - 1 \<Longrightarrow> timer_interrupt s \<noteq> None"
  using timer_keeps[of n tops "fst s" "snd s"] by (cases a) (fastforce simp: own_view_def)



end
