(* ===== verification/Fairness.thy ===== *)
theory Fairness
  imports Multitask
begin

text \<open>
  No task starves, for the whole handlers: from boot on, whatever the other tasks compute and call,
  a task that is not blocked gets the processor after at most seven timer interrupts. The measure
  is the cyclic distance from the running slot: every switch shrinks it, and nothing makes it grow.
\<close>

subsection \<open>Kernel operations\<close>

text \<open>Slot \<open>j\<close> stays runnable and comes no further from the running slot.\<close>

definition toward :: "nat \<Rightarrow> 'a kernel_scheme \<Rightarrow> 'b kernel_scheme \<Rightarrow> bool" where
  "toward j m m' \<longleftrightarrow> ipc_inv (sched m') \<and> runnable_at (tasks (sched m')) j \<and>
     slot_distance (running m') j \<le> slot_distance (running m) j"

text \<open>What the operations assume: the invariant, and that \<open>j\<close> is runnable but not running.\<close>

definition waits_turn :: "nat \<Rightarrow> 'a kernel_scheme \<Rightarrow> bool" where
  "waits_turn j m \<longleftrightarrow> ipc_inv (sched m) \<and> j < 8 \<and> runnable_at (tasks (sched m)) j \<and> running m \<noteq> j"

lemma runnable_states:
  "ipc_inv s \<Longrightarrow> j < 8 \<Longrightarrow>
     runnable_at (tasks s) j \<longleftrightarrow> state_at (tasks s) j = Some Ready \<or> state_at (tasks s) j = Some Running"
  by (auto simp: ipc_inv_def sched_wf_def runnable_at_def is_runnable_def state_at_def split: option.splits)

lemma toward_same: "waits_turn j m \<Longrightarrow> sched m' = sched m \<Longrightarrow> toward j m m'"
  by (simp add: waits_turn_def toward_def)

lemma toward_states:
  assumes "waits_turn j m" and "ipc_inv (sched m')" and "running m' = running m"
    and "state_at (tasks (sched m')) = (state_at (tasks (sched m)))(i \<mapsto> st)" and "i = j \<longrightarrow> st = Ready"
  shows "toward j m m'"
  using assms runnable_states[of "sched m" j] runnable_states[of "sched m'" j]
  by (auto simp: waits_turn_def toward_def)

lemma toward_switch:
  assumes w: "waits_turn j m" and run: "switch_task r m = Some (new, m')"
  shows "toward j m m'" and "slot_distance (running m') j < slot_distance (running m) j"
proof -
  have inv: "ipc_inv (sched m)" and j: "j < 8" "runnable_at (tasks (sched m)) j" "running m \<noteq> j" and c: "running m < 8"
    using w by (auto simp: waits_turn_def ipc_inv_def sched_wf_def)
  from switch_task_inv[OF inv, of r] run have m': "ipc_inv (sched m')"
    "state_at (tasks (sched m')) = state_at (tasks (sched m))"
    "running m' = next_runnable (tasks (sched m)) (running m)" by auto
  show closer: "slot_distance (running m') j < slot_distance (running m) j"
    unfolding m'(3) by (rule next_runnable_closer[OF c j(1,3,2)])
  then show "toward j m m'"
    using m' j runnable_states[OF inv j(1)] runnable_states[OF m'(1) j(1)] by (simp add: toward_def)
qed

text \<open>The caller blocks, then the processor is switched.\<close>

lemma toward_block:
  assumes w: "waits_turn j m" and s: "ipc_inv s'" "current_task_idx s' = running m"
    "state_at (tasks s') = (state_at (tasks (sched m)))(running m \<mapsto> st)"
    and run: "switch_task r (m\<lparr>sched := s'\<rparr>) = Some (new, m')"
  shows "toward j m m'"
proof -
  have "toward j m (m\<lparr>sched := s'\<rparr>)"
    by (rule toward_states[OF w, of _ "running m" st]) (use s w in \<open>simp_all add: waits_turn_def\<close>)
  then have "waits_turn j (m\<lparr>sched := s'\<rparr>)" using w s(2) by (simp add: toward_def waits_turn_def)
  from toward_switch(1)[OF this run] s(2) show ?thesis by (simp add: toward_def)
qed

lemma sys_yield_toward:
  assumes w: "waits_turn j m" and run: "sys_yield r m = Some (new, m')"
  shows "toward j m m'"
proof -
  obtain m1 where "switch_task r m = Some (new, m1)" "m' = kwrite_rax r 0 m1"
    using run by (auto simp: sys_yield_def bind_eq_Some_conv)
  with toward_switch(1)[OF w] show ?thesis by (fastforce simp: toward_def kwrite_rax_def)
qed

lemma sys_send_toward:
  assumes w: "waits_turn j m" and run: "sys_send d p r m = Some (new, m')"
  shows "toward j m m'"
proof -
  have inv: "ipc_inv (sched m)" using w by (simp add: waits_turn_def)
  have d: "1 \<le> d" using run sys_send_zero[of p r m] by (cases d) auto
  show ?thesis
  proof (cases "d \<le> 8 \<and> tasks (sched m) ! (d - 1) \<noteq> None")
    case False
    then have "sys_send d p r m = Some (r, kwrite_rax r (- 1) m)" by (intro sys_send_invalid[OF inv d]) auto
    with run show ?thesis by (auto simp: kwrite_rax_def intro: toward_same[OF w])
  next
    case True
    then obtain t where t: "d \<le> 8" "tasks (sched m) ! (d - 1) = Some t" by auto
    show ?thesis
    proof (cases "\<exists>f buf. task_state t = Receiving f buf \<and> accepts f (running m + 1)")
      case True
      then obtain f buf where st: "task_state t = Receiving f buf" "accepts f (running m + 1)" by blast
      from sys_send_rendezvous[OF inv d t(2,1) st, of p r] run show ?thesis
        by (auto intro: toward_states[OF w, of _ "d - 1" Ready])
    next
      case False
      with sys_send_blocks[OF inv d t(2,1), of p r] obtain s' where "sys_send d p r m = switch_task r (m\<lparr>sched := s'\<rparr>)"
        "ipc_inv s'" "current_task_idx s' = running m"
        "state_at (tasks s') = (state_at (tasks (sched m)))
          (running m \<mapsto> Sending d ((read_message (memory m) p)\<lparr>sender := running m + 1\<rparr>))" by blast
      with toward_block[OF w] run show ?thesis by simp
    qed
  qed
qed

lemma recv_from_toward:
  assumes w: "waits_turn j m" and run: "recv_from f p r m = Some (Inr (new, m'))"
  shows "toward j m m'"
proof -
  have inv: "ipc_inv (sched m)" using w by (simp add: waits_turn_def)
  then have "ipc_inv (sched m')"
    using recv_from_cases[OF inv, of f p r] run by fastforce
  have l: "length (tasks (sched m)) = 8" using inv by (simp add: ipc_inv_def sched_wf_def)
  obtain i where i: "find_sender (running m + 1) f 0 (tasks (sched m)) = Some i"
    using run by (auto simp: recv_from_def split: option.splits)
  have i8: "i < 8" and "sends_to (running m + 1) f (tasks (sched m) ! i)" using find_sender_Some[OF i] l by simp_all
  then obtain t dest msg where t: "tasks (sched m) ! i = Some t" "task_state t = Sending dest msg"
    by (auto simp: sends_to_def split: option.splits task_state.splits)
  obtain s' where s': "set_state i Ready (sched m) = Some s'" "sched m' = s'"
    using run i i8 t l by (auto simp: recv_from_def checked Let_def kwrite_rax_def bind_eq_Some_conv)
  have "state_at (tasks s') = (state_at (tasks (sched m)))(i \<mapsto> Ready)" "current_task_idx s' = running m"
    using s'(1) by (auto simp: set_state_def state_at_update checked bind_eq_Some_conv split: if_splits)
  with s'(2) \<open>ipc_inv (sched m')\<close> show ?thesis by (intro toward_states[OF w, of _ i Ready]) simp_all
qed

lemma sys_recv_toward:
  assumes w: "waits_turn j m" and run: "sys_recv fl p r m = Some (new, m')"
  shows "toward j m m'"
proof -
  have inv: "ipc_inv (sched m)" using w by (simp add: waits_turn_def)
  show ?thesis
    using inv
  proof (cases rule: recv_from_cases[where f = "src_filter_option fl" and p = p and r = r])
    case (met k')
    with run recv_from_toward[OF w] show ?thesis by (simp add: sys_recv_def)
  next
    case nobody
    with sys_recv_blocks[OF inv, of fl p r] obtain s' where "sys_recv fl p r m = switch_task r (m\<lparr>sched := s'\<rparr>)" "ipc_inv s'"
      "current_task_idx s' = running m"
      "state_at (tasks s') = (state_at (tasks (sched m)))(running m \<mapsto> Receiving (src_filter_option fl) p)" by blast
    with toward_block[OF w] run show ?thesis by simp
  qed
qed

lemma sys_try_recv_toward:
  assumes w: "waits_turn j m" and run: "sys_try_recv fl p r m = Some (new, m')"
  shows "toward j m m'"
proof -
  have inv: "ipc_inv (sched m)" using w by (simp add: waits_turn_def)
  show ?thesis
    using inv
  proof (cases rule: recv_from_cases[where f = "src_filter_option fl" and p = p and r = r])
    case (met k')
    with run recv_from_toward[OF w] show ?thesis by (simp add: sys_try_recv_def)
  next
    case nobody
    with run show ?thesis by (auto simp: sys_try_recv_def kwrite_rax_def intro: toward_same[OF w])
  qed
qed

text \<open>The other calls do not touch the scheduler.\<close>

lemma handle_syscall_toward:
  assumes w: "waits_turn j m" and run: "handle_syscall font nr a b r m = Some (Resume new m')"
  shows "toward j m m'"
proof -
  have kept: "toward j m m'" if "sched m' = sched m" using toward_same[OF w that] .
  have printed: "sched m' = sched m" if "sys_print font p l r m = Some (Resume new m')" for p l
    using that by (auto simp: sys_print_def return_rax_def kwrite_rax_def bind_eq_Some_conv split: option.splits)
  have info: "sched m' = sched m" if "sys_task_info p l r m = Some (Resume new m')" for p l
    using that by (auto simp: sys_task_info_spec return_rax_def kwrite_rax_def Let_def split: if_splits)
  have gop: "sched m' = sched m" if "sys_gop_info p r m = Some (Resume new m')" for p
    using that by (auto simp: sys_gop_info_def return_rax_def kwrite_rax_def Let_def split: option.splits)
  have demo: "sched m' = sched m" if "sys_gfx_demo r m = Some (Resume new m')"
    using that by (auto simp: sys_gfx_demo_def return_rax_def kwrite_rax_def bind_eq_Some_conv)
  have blit: "sched m' = sched m" if "sys_blit p r m = Some (Resume new m')" for p
    using that by (auto simp: sys_blit_def return_rax_def kwrite_rax_def bind_eq_Some_conv Let_def)
  show ?thesis
    using run sys_yield_toward[OF w] sys_send_toward[OF w] sys_recv_toward[OF w] sys_try_recv_toward[OF w]
      kept printed info gop demo blit
    unfolding handle_syscall_def Let_def
    by (auto simp: resume_at_Some return_rax_def kwrite_rax_def out_port_def sys_reboot_def sys_shutdown_def
        split: if_splits)
qed

subsection \<open>Steps of the machine\<close>

lemma unblocked_runnable:
  assumes "runs_as n tops s P" and "j < n" and "j \<notin> blocked (snd s)"
  shows "j < 8" and "runnable_at (tasks (sched (snd s))) j"
proof -
  obtain c m where s: "s = (c, m)" by (cases s)
  have ok: "table_ok n tops m" using assms(1) by (simp add: runs_as_def s)
  then have "n \<le> 8" and inv: "ipc_inv (sched m)" by (simp_all add: table_ok_def stacks_apart_def)
  with assms(2) show j: "j < 8" by simp
  obtain t where "tasks (sched m) ! j = Some t"
    using ok assms(2) j by (fastforce simp: table_ok_def split: option.splits)
  with assms(3) inv j show "runnable_at (tasks (sched (snd s))) j"
    by (auto simp: s runnable_at_def is_runnable_def blocked_def state_at_def ipc_inv_def sched_wf_def)
qed

lemma runnable_unblocked: "runnable_at (tasks (sched m)) j \<Longrightarrow> j \<notin> blocked m"
  by (auto simp: runnable_at_def is_runnable_def blocked_def state_at_def split: option.splits if_splits)

lemma view_inv: "own_view n tops s a \<Longrightarrow> ipc_inv (sched (snd s))"
  by (cases s; cases a) (simp add: own_view_def runs_as_def table_ok_def)

text \<open>A step of the machine while \<open>j\<close> waits for its turn.\<close>

lemma step_toward:
  assumes v: "own_view n tops s a" and step: "multitask_step font h n tops e s s'"
    and w: "waits_turn j (snd s)"
  shows "toward j (snd s) (snd s')"
    and "e = Tick \<Longrightarrow> slot_distance (running (snd s')) j < slot_distance (running (snd s)) j"
proof -
  obtain P where P: "runs_as n tops s P" using v by (cases a) (simp add: own_view_def)
  have inv': "ipc_inv (sched (snd s'))"
    using own_view_step[OF v step] view_inv by blast
  have "toward j (snd s) (snd s') \<and> (e = Tick \<longrightarrow> slot_distance (running (snd s')) j < slot_distance (running (snd s)) j)"
    using step
  proof cases
    case (task_computes d m mem c)
    with w show ?thesis by (simp add: toward_same)
  next
    case (timer_ticks c m)
    have "ticks m \<noteq> - 1"
      using timer_ticks(3) by (auto simp: timer_interrupt_def handle_timer_interrupt_def wadd_one split: prod.splits)
    with timer_keeps[of n tops c m P] P timer_ticks obtain c' m' where s': "s' = (c', m')"
      "running m' = next_runnable (tasks (sched m)) (running m)" "tasks (sched m') = tasks (sched m)" by auto
    have c: "running m < 8" "j < 8" "running m \<noteq> j" "runnable_at (tasks (sched m)) j"
      using w timer_ticks(2) by (auto simp: waits_turn_def ipc_inv_def sched_wf_def)
    from next_runnable_closer[OF c] s' inv' c(4) timer_ticks(2) show ?thesis by (simp add: toward_def)
  next
    case (task_calls c m)
    let ?i = "running m"
    obtain c1 where c1: "syscall_entry (word_of_nat (kstack m)) (syscall_instruction h c, memory m) =
        (c1, store (memory m) (tops ?i - 160) (words_to_le (context_words (after_syscall c))))"
      "unat (rsp c1) = tops ?i - 160" "gpr c1 = gpr (after_syscall c)"
      using syscall_enters[of n tops c m P h] P task_calls(2) by blast
    let ?m1 = "m\<lparr>memory := store (memory m) (tops ?i - 160) (words_to_le (context_words (after_syscall c)))\<rparr>"
    obtain new m2 nr x y r where out: "handle_syscall font nr x y r ?m1 = Some (Resume new m2)" "snd s' = m2"
    proof -
      let ?a = "syscall_args c1"
      show ?thesis
      proof (cases "handle_syscall font (gpr ?a RDI) (gpr ?a RSI) (gpr ?a RDX) (unat (gpr ?a R8)) ?m1")
        case None
        with task_calls(4) c1(1) show ?thesis by (simp add: system_call_def)
      next
        case (Some out)
        with task_calls(4) c1(1) that show ?thesis by (cases out) (auto simp: system_call_def)
      qed
    qed
    have "waits_turn j ?m1" using w task_calls(2) by (simp add: waits_turn_def)
    from handle_syscall_toward[OF this out(1)] out(2) task_calls(1,2) show ?thesis by (simp add: toward_def)
  qed
  then show "toward j (snd s) (snd s')"
    and "e = Tick \<Longrightarrow> slot_distance (running (snd s')) j < slot_distance (running (snd s)) j" by blast+
qed

subsection \<open>Runs\<close>

lemma turn_comes:
  assumes "trace (multitask_step font h n tops) es s s'" and "own_view n tops s a"
    and "j < n" and "j \<notin> blocked (snd s)" and "slot_distance (running (snd s)) j \<le> count_list es Tick"
  shows "\<exists>es1 es2 s1. es = es1 @ es2 \<and> trace (multitask_step font h n tops) es1 s s1 \<and>
    trace (multitask_step font h n tops) es2 s1 s' \<and> running (snd s1) = j"
  using assms
proof (induction arbitrary: a rule: trace.induct)
  case (trace_nil s)
  obtain P where P: "runs_as n tops s P" using trace_nil(1) by (cases a) (simp add: own_view_def)
  then have "running (snd s) < 8" by (auto simp: runs_as_def table_ok_def stacks_apart_def split: prod.splits)
  moreover have "j < 8" by (rule unblocked_runnable(1)[OF P trace_nil(2,3)])
  ultimately have "running (snd s) = j" using trace_nil(4) slot_distance_reached[of "running (snd s)" j] by simp
  then show ?case by blast
next
  case (trace_step e s s1 es s2)
  obtain P where P: "runs_as n tops s P" using trace_step.prems(1) by (cases a) (simp add: own_view_def)
  note j = unblocked_runnable[OF P trace_step.prems(2,3)]
  show ?case
  proof (cases "running (snd s) = j")
    case True
    then show ?thesis using trace_step.hyps by blast
  next
    case False
    have w: "waits_turn j (snd s)"
      using False j P by (auto simp: waits_turn_def runs_as_def table_ok_def split: prod.splits)
    note step = step_toward[OF trace_step.prems(1) trace_step.hyps(1) w]
    obtain a1 where a1: "own_view n tops s1 a1" using own_view_step[OF trace_step.prems(1) trace_step.hyps(1)] by blast
    have "j \<notin> blocked (snd s1)" using step(1) runnable_unblocked by (auto simp: toward_def)
    moreover have "slot_distance (running (snd s1)) j \<le> count_list es Tick"
      using step trace_step.prems(4) by (cases "e = Tick") (auto simp: toward_def)
    ultimately obtain es1 es2 s3 where "es = es1 @ es2" "trace (multitask_step font h n tops) es1 s1 s3"
      "trace (multitask_step font h n tops) es2 s3 s2" "running (snd s3) = j"
      using trace_step.IH[OF a1 trace_step.prems(2)] by blast
    with trace_step.hyps(1) show ?thesis by (metis append_Cons trace.trace_step)
  qed
qed

text \<open>The timer goes on ticking.\<close>

lemma switch_ticks: "switch_task r m = Some (new, m') \<Longrightarrow> ticks m' = ticks m"
  by (auto simp: switch_task_def Let_def bind_eq_Some_conv split: option.splits)

lemma timer_count: "timer_interrupt s = Some s' \<Longrightarrow> ticks (snd s') = ticks (snd s) + 1"
  by (auto simp: timer_interrupt_def handle_timer_interrupt_def pic_send_eoi_def out_port_def
      wadd_one bind_eq_Some_conv dest!: switch_ticks split: prod.splits if_splits)

lemma ticks_go_on:
  assumes "own_view n tops s a" and "unat (ticks (snd s)) + k < 2 ^ 64"
  shows "\<exists>s'. trace (multitask_step font h n tops) (replicate k Tick) s s'"
  using assms
proof (induction k arbitrary: s a)
  case (Suc k)
  obtain P where P: "runs_as n tops s P" using Suc.prems(1) by (cases a) (simp add: own_view_def)
  have t: "ticks (snd s) \<noteq> - 1" using Suc.prems(2) by (auto simp: unsigned_minus_1_eq_mask mask_eq_exp_minus_1)
  obtain s1 where s1: "timer_interrupt s = Some s1"
    using timer_keeps[of n tops "fst s" "snd s" P] P t by auto
  then have step: "multitask_step font h n tops Tick s s1" by (cases s) (auto intro: timer_ticks)
  obtain a1 where a1: "own_view n tops s1 a1" using own_view_step[OF Suc.prems(1) step] by blast
  have "unat (ticks (snd s) + 1) = unat (ticks (snd s)) + 1"
    using Suc.prems(2) by (simp add: unat_word_ariths)
  with timer_count[OF s1] Suc.prems(2) have "unat (ticks (snd s1)) + k < 2 ^ 64" by simp
  from Suc.IH[OF a1 this] obtain s' where "trace (multitask_step font h n tops) (replicate k Tick) s1 s'" by blast
  with trace_step[where step = "multitask_step font h n tops", OF step] have
    "trace (multitask_step font h n tops) (replicate (Suc k) Tick) s s'" by simp
  then show ?case by blast
qed auto

text \<open>
  C5: No task starves. In every run of the machine from the end of \<open>kernel_main\<close>, whatever the
  other tasks compute and call (task starting, blocking, waking each other, yielding), a task that
  is not blocked has the processor at some point before the seventh following timer interrupt has
  been handled; it need not wait for any of them to give the processor up.
\<close>

theorem no_task_starves:
  assumes "entry_format ops" and "descriptor_table add_entry used" and "used g = 0"
    and "bootable font fmt ops at bi m root off"
    and "ata_conforms bus regs ph disk" and "ph d = Ata_Idle"
    and "sb_magic (superblock_from_bytes (disk 40002)) = RELIZFS_MAGIC \<longrightarrow> mountable disk"
  shows "\<exists>k ts. kernel_main font fmt ops add_entry bus at bi m root g r d = Some k \<and> ticks (sys_machine k) = 0 \<and>
    tasks (sched (sys_machine k)) = map Some ts @ replicate 3 None \<and> length ts = 5 \<and> blocked (sys_machine k) = {} \<and>
    (\<forall>c es s es' s' j. trace (multitask_step font h 5 (booted_tops ts)) es
         (resume (memory (sys_machine k)) (word_of_nat (sys_first_rsp k)) c, sys_machine k) s \<longrightarrow>
       trace (multitask_step font h 5 (booted_tops ts)) es' s s' \<longrightarrow> 7 \<le> count_list es' Tick \<longrightarrow>
       j < 5 \<longrightarrow> j \<notin> blocked (snd s) \<longrightarrow>
       (\<exists>es1 es2 s1. es' = es1 @ es2 \<and> trace (multitask_step font h 5 (booted_tops ts)) es1 s s1 \<and>
          trace (multitask_step font h 5 (booted_tops ts)) es2 s1 s' \<and> running (snd s1) = j))"
proof -
  obtain k ts where k: "kernel_main font fmt ops add_entry bus at bi m root g r d = Some k"
    "tasks (sched (sys_machine k)) = map Some ts @ replicate 3 None" "length ts = 5" "ticks (sys_machine k) = 0"
    and start: "\<And>c. own_view 5 (booted_tops ts)
      (resume (memory (sys_machine k)) (word_of_nat (sys_first_rsp k)) c, sys_machine k) (0, {}, \<lambda>i. task_context at (boot_order ! i))"
    using kernel_main_view[OF assms, of r] by blast
  have turn: "\<exists>es1 es2 s1. es' = es1 @ es2 \<and> trace (multitask_step font h 5 (booted_tops ts)) es1 s s1 \<and>
      trace (multitask_step font h 5 (booted_tops ts)) es2 s1 s' \<and> running (snd s1) = j"
    if run: "trace (multitask_step font h 5 (booted_tops ts)) es
        (resume (memory (sys_machine k)) (word_of_nat (sys_first_rsp k)) c, sys_machine k) s"
      and more: "trace (multitask_step font h 5 (booted_tops ts)) es' s s'" "7 \<le> count_list es' Tick"
      and j: "j < 5" "j \<notin> blocked (snd s)" for c es s es' s' j
  proof -
    obtain a where a: "own_view 5 (booted_tops ts) s a" using tasking.traces[OF run start] by blast
    have "slot_distance (running (snd s)) j \<le> count_list es' Tick"
      using more(2) slot_distance_less[of "running (snd s)" j] by linarith
    from turn_comes[OF more(1) a j this] show ?thesis .
  qed
  have "blocked (sys_machine k) = {}" using start by (simp add: own_view_def)
  with k turn show ?thesis by (intro exI[of _ k] exI[of _ ts] conjI allI impI) simp_all
qed

text \<open>The fifth task after boot, when seven interrupts have come.\<close>

theorem no_task_starves_witness:
  "\<exists>k ts s es. kernel_main (\<lambda>_. None) (\<lambda>_. []) x86_ops gdt_add (sim_bus 3 (\<lambda>_. replicate 512 0)) demo_placement
     demo_boot_info (\<lambda>_. 0) 0x1000 [] \<lparr>star = 0, lstar = 0, fmask_msr = 0, efer = 0\<rparr> sim_idle = Some k \<and>
     trace (multitask_step (\<lambda>_. None) 0 5 (booted_tops ts)) es
       (resume (memory (sys_machine k)) (word_of_nat (sys_first_rsp k)) undefined, sys_machine k) s \<and> running (snd s) = 4"
proof -
  note boots = x86.entry_format_axioms gdt_table_law list.size(3) demo_bootable demo_drive(1) sim_idle_phase demo_drive(2)
  let ?r = "\<lparr>star = 0, lstar = 0, fmask_msr = 0, efer = 0\<rparr>"
  obtain k ts where k: "kernel_main (\<lambda>_. None) (\<lambda>_. []) x86_ops gdt_add (sim_bus 3 (\<lambda>_. replicate 512 0)) demo_placement
      demo_boot_info (\<lambda>_. 0) 0x1000 [] ?r sim_idle = Some k" "ticks (sys_machine k) = 0"
    "tasks (sched (sys_machine k)) = map Some ts @ replicate 3 None" "blocked (sys_machine k) = {}"
    and turn: "\<And>c es s es' s' j. trace (multitask_step (\<lambda>_. None) 0 5 (booted_tops ts)) es
        (resume (memory (sys_machine k)) (word_of_nat (sys_first_rsp k)) c, sys_machine k) s \<Longrightarrow>
      trace (multitask_step (\<lambda>_. None) 0 5 (booted_tops ts)) es' s s' \<Longrightarrow> 7 \<le> count_list es' Tick \<Longrightarrow>
      j < 5 \<Longrightarrow> j \<notin> blocked (snd s) \<Longrightarrow>
      \<exists>es1 es2 s1. es' = es1 @ es2 \<and> trace (multitask_step (\<lambda>_. None) 0 5 (booted_tops ts)) es1 s s1 \<and>
          trace (multitask_step (\<lambda>_. None) 0 5 (booted_tops ts)) es2 s1 s' \<and> running (snd s1) = j"
    using no_task_starves[OF boots, of ?r 0] by blast
  let ?s = "(resume (memory (sys_machine k)) (word_of_nat (sys_first_rsp k)) undefined, sys_machine k)"
  have "own_view 5 (booted_tops ts) ?s (0, {}, \<lambda>i. task_context demo_placement (boot_order ! i))"
    using kernel_main_view[OF boots, of ?r] k(1,3) by (auto dest!: map_injective)
  from ticks_go_on[OF this, of 7 "\<lambda>_. None" 0] k(2) obtain s' where
    "trace (multitask_step (\<lambda>_. None) 0 5 (booted_tops ts)) (replicate 7 Tick) ?s s'" by auto
  from turn[OF trace_nil this, of 4] k(4) obtain es s where
    "trace (multitask_step (\<lambda>_. None) 0 5 (booted_tops ts)) es ?s s" "running (snd s) = 4" by (auto simp: numeral_eq_Suc)
  with k(1) show ?thesis by blast
qed

end
