(* ===== verification/Image_Build.thy ===== *)
theory Image_Build
  imports Boot
begin

text \<open>
  \<open>builder/src/main.rs\<close>: the tool that compiles the kernel and the formatter, lets the bootloader
  crate make a boot image, copies it into the disk image, extends that and has the formatter
  write the volume into it. The host is a value passed through: directories, files and what was
  printed. Child processes and the bootloader crate are parameters; that the formatter's process
  does what \<open>host_main\<close> does is a hypothesis. File operations fail when a file or its directory
  is missing and succeed otherwise. The last section joins the tool with the kernel's boot.
\<close>

subsection \<open>The host\<close>

record host =
  host_dirs :: "bytes set"
  host_files :: "bytes \<Rightarrow> host_file option"
  host_out :: "string list"
  host_err :: "string list"

definition println :: "string \<Rightarrow> host \<Rightarrow> host" where
  "println s w = w\<lparr>host_out := host_out w @ [s]\<rparr>"

definition eprintln :: "string \<Rightarrow> host \<Rightarrow> host" where
  "eprintln s w = w\<lparr>host_err := host_err w @ [s]\<rparr>"

text \<open>The directory of a path: what precedes the last slash.\<close>

definition parent_dir :: "bytes \<Rightarrow> bytes" where
  "parent_dir p = (case dropWhile (\<lambda>b. b \<noteq> 47) (rev p) of [] \<Rightarrow> [] | _ # r \<Rightarrow> rev r)"

text \<open>\<open>create_dir_all\<close> of a single component: an error when the name is a file.\<close>

definition create_dir :: "bytes \<Rightarrow> host \<Rightarrow> host option" where
  "create_dir p w = (if host_files w p = None then Some (w\<lparr>host_dirs := insert p (host_dirs w)\<rparr>) else None)"

definition file_open :: "bytes \<Rightarrow> host \<Rightarrow> host_file option" where
  "file_open p w = map_option (file_seek 0) (host_files w p)"

definition new_file :: host_file where
  "new_file = \<lparr>hf_len = 0, hf_data = (\<lambda>_. 0), hf_pos = 0\<rparr>"

text \<open>\<open>File::create\<close> truncates or creates; the handle is the file until it is dropped.\<close>

definition file_create :: "bytes \<Rightarrow> host \<Rightarrow> host_file option" where
  "file_create p w = (if parent_dir p = [] \<or> parent_dir p \<in> host_dirs w then Some new_file else None)"

definition file_drop :: "bytes \<Rightarrow> host_file \<Rightarrow> host \<Rightarrow> host" where
  "file_drop p f w = w\<lparr>host_files := (host_files w)(p \<mapsto> f)\<rparr>"

definition file_remove :: "bytes \<Rightarrow> host \<Rightarrow> host option" where
  "file_remove p w = (if host_files w p = None then None else Some (w\<lparr>host_files := (host_files w)(p := None)\<rparr>))"

text \<open>\<open>io::copy\<close> reads to the end of the source.\<close>

definition file_copy :: "host_file \<Rightarrow> host_file \<Rightarrow> host_file" where
  "file_copy src dst = file_write_all (load (hf_data src) (hf_pos src) (hf_len src - hf_pos src)) dst"

subsection \<open>The tool\<close>

text \<open>
  A command is the program and its arguments; \<open>None\<close> when it cannot be executed, otherwise
  whether it succeeded. \<open>UefiBoot::create_disk_image\<close> gives an error text or success.
\<close>

type_synonym process = "bytes list \<Rightarrow> host \<Rightarrow> (bool \<times> host) option"
type_synonym boot_maker = "bytes \<Rightarrow> bytes \<Rightarrow> host \<Rightarrow> (string + unit) \<times> host"

datatype build_exit = Exit_Failure host | Exit_Success host

definition kernel_elf :: string where "kernel_elf = ''target/x86_64-unknown-none/debug/kernel''"
definition temp_gpt :: string where "temp_gpt = ''build/temp_boot.gpt''"
definition output_img :: string where "output_img = ''build/relizos-rust.img''"

definition build_kernel_cmd :: "bytes list" where
  "build_kernel_cmd = map str [''cargo'', ''build'', ''--package'', ''kernel'', ''--target'', ''x86_64-unknown-none'']"

definition build_tool_cmd :: "bytes list" where
  "build_tool_cmd = map str [''cargo'', ''build'', ''--package'', ''host-tool'']"

definition host_tool_bin :: "bool \<Rightarrow> string" where
  "host_tool_bin windows = (if windows then ''target/debug/host-tool.exe'' else ''target/debug/host-tool'')"

definition format_cmd :: "bool \<Rightarrow> bytes list" where
  "format_cmd windows = map str [host_tool_bin windows, output_img, ''40000'']"

text \<open>Runs a command; the tool goes on with \<open>rest\<close> when it succeeds.\<close>

definition run_step :: "process \<Rightarrow> bytes list \<Rightarrow> string \<Rightarrow> host \<Rightarrow> (host \<Rightarrow> build_exit option) \<Rightarrow> build_exit option" where
  "run_step run cmd err w rest =
     do {
       (ok, w) \<leftarrow> run cmd w;
       if ok then rest w else Some (Exit_Failure (eprintln err w))
     }"

text \<open>Step 4: the combined image.\<close>

definition merge_image :: "host \<Rightarrow> host option" where
  "merge_image w =
     do {
       temp_file \<leftarrow> file_open (str temp_gpt) w;
       output_file \<leftarrow> file_create (str output_img) w;
       let output_file = file_copy temp_file output_file;
       let output_file = file_set_len (30 * 1024 * 1024) output_file;
       file_remove (str temp_gpt) (file_drop (str output_img) output_file w)
     }"

definition build_report :: "string list" where
  "build_report =
     [CHR 0x0A # ''=== Build Complete ==='', ''  Unified Disk Image:  '' @ output_img, [],
      ''To run in VirtualBox:'',
      ''  1. Create a 64-bit VM (General -> Version: Other/Unknown 64-bit).'',
      ''  2. In VM Settings -> System -> Motherboard: Check '' @
        CHR 0x27 # ''Enable EFI (special OSes only)'' @ [CHR 0x27, CHR ''.''],
      ''  3. In VM Settings -> Storage: Add an IDE Controller.'',
      ''  4. Attach '' @ CHR 0x27 # output_img @ CHR 0x27 # '' as IDE Primary Master.'',
      ''  5. Start the VM!'']"

text \<open>\<open>main\<close>: \<open>None\<close> is a panic.\<close>

definition build_main :: "process \<Rightarrow> boot_maker \<Rightarrow> bool \<Rightarrow> host \<Rightarrow> build_exit option" where
  "build_main run uefi windows w =
     run_step run build_kernel_cmd ''Error: Kernel compilation failed.''
       (println ''[1/5] Building kernel (x86_64-unknown-none)...'' (println ''=== RelizOS Rust Build Pipeline ==='' w)) (\<lambda>w.
     run_step run build_tool_cmd ''Error: host-tool compilation failed.''
       (println ''[2/5] Building host-tool...'' w) (\<lambda>w.
     do {
       w \<leftarrow> create_dir (str ''build'') w;
       let w = println ''[3/5] Generating temporary UEFI GPT boot image...'' w;
       case uefi (str kernel_elf) (str temp_gpt) w of
         (Inl e, w) \<Rightarrow> Some (Exit_Failure (eprintln (''Error: Failed to create UEFI boot image: '' @ e) w))
       | (Inr _, w) \<Rightarrow>
         do {
           w \<leftarrow> merge_image (println ''[4/5] Merging boot image and allocating data space...'' w);
           run_step run (format_cmd windows) ''Error: RelizFS partitioning/formatting failed.''
             (println ''[5/5] Formatting RelizFS partition at sector 40000...'' w)
             (\<lambda>w. Some (Exit_Success (fold println build_report w)))
         }
     }))"

subsection \<open>The merged image\<close>

text \<open>The bytes of a boot image cut or padded to 30 MiB.\<close>

definition merged_byte :: "host_file \<Rightarrow> nat \<Rightarrow> u8" where
  "merged_byte boot x = (if x < hf_len boot then hf_data boot x else 0)"

lemma merge_image_ok:
  assumes "host_files w (str temp_gpt) = Some boot" and "str ''build'' \<in> host_dirs w"
  shows "\<exists>img w'. merge_image w = Some w' \<and> host_files w' = (host_files w)(str output_img \<mapsto> img, str temp_gpt := None) \<and>
    hf_len img = 30 * 1024 * 1024 \<and> (\<forall>x < 30 * 1024 * 1024. hf_data img x = merged_byte boot x)"
proof -
  have p: "parent_dir (str output_img) = str ''build''" "str output_img \<noteq> str temp_gpt"
    by (simp_all add: parent_dir_def str_def temp_gpt_def output_img_def)
  let ?img = "file_set_len (30 * 1024 * 1024) (file_copy (file_seek 0 boot) new_file)"
  have "hf_data ?img x = merged_byte boot x" if "x < 30 * 1024 * 1024" for x
    using that by (simp add: file_set_len_def file_copy_def file_write_all_def file_seek_def new_file_def
        merged_byte_def store_def mem_simps)
  moreover have "merge_image w =
      Some (w\<lparr>host_files := (host_files w)(str output_img \<mapsto> ?img, str temp_gpt := None)\<rparr>)"
    using assms p by (simp add: merge_image_def file_open_def file_create_def file_remove_def file_drop_def Let_def)
  moreover have "hf_len ?img = 30 * 1024 * 1024" by (simp add: file_set_len_def)
  ultimately show ?thesis by fastforce
qed

text \<open>A file that is long enough keeps its length when it is formatted.\<close>

lemma format_image_fits:
  assumes fits: "512 * (off + 4096) \<le> hf_len f" and b: "512 * (off + 4096) < usize_bound"
  shows "\<exists>f'. format_image off f = Some f' \<and> hf_len f' = hf_len f \<and> hf_data f' = formatted_data off (hf_data f)"
proof -
  have pre: "fmt_preallocate off f = Some f"
    using assms by (simp add: fmt_preallocate_def checked fs_consts fmt_total_blocks_def mult.commute)
  let ?f1 = "write_sector off 12 fmt_bitmap (write_sector off 11 fmt_bitmap
    (write_sector off 2 (superblock_to_bytes fmt_superblock) f))"
  let ?f2 = "file_write_all (inode_to_bytes fmt_hello_inode) (write_sector off 3 (inode_to_bytes fmt_root_inode) ?f1)"
  let ?f' = "write_sector off 14 fmt_file_block (write_sector off 13 fmt_dir_block ?f2)"
  have "format_image off f = Some ?f'"
    by (simp add: format_image_def pre fmt_writes_ok[OF b])
  moreover have "hf_data ?f' = formatted_data off (hf_data f)"
    by (simp only: formatted_data_def Let_def write_sector_data file_write_all_data
        write_sector_pos length_inode_to_bytes[OF wf_fmt_inodes(1)] inode_size_def)
  moreover have "hf_len ?f' = hf_len f"
    using fits by (simp add: write_sector_def file_write_all_def file_seek_def sector_addr_def fs_sizes)
  ultimately show ?thesis by blast
qed

subsection \<open>What the tool relies on\<close>

text \<open>The process of the formatter: \<open>host_main\<close> on the files; a panic or a usage error is a failure.\<close>

definition open_or_create :: "host \<Rightarrow> bytes \<Rightarrow> host_file" where
  "open_or_create w p = (case file_open p w of Some f \<Rightarrow> f | None \<Rightarrow> new_file)"

definition host_tool_process :: process where
  "host_tool_process cmd w =
     Some (case host_main (open_or_create w) cmd of
         Some (Formatted f) \<Rightarrow> (True, file_drop (cmd ! 1) f w)
       | _ \<Rightarrow> (False, w))"

definition runs_host_tool :: "process \<Rightarrow> bool \<Rightarrow> bool" where
  "runs_host_tool run windows \<longleftrightarrow> (\<forall>w. run (format_cmd windows) w = host_tool_process (format_cmd windows) w)"

text \<open>Cargo compiles both packages and makes no file with the name of the directory.\<close>

definition cargo_compiles :: "process \<Rightarrow> bool" where
  "cargo_compiles run \<longleftrightarrow> (\<forall>cmd\<in>{build_kernel_cmd, build_tool_cmd}. \<forall>w. \<exists>w'.
     run cmd w = Some (True, w') \<and> host_files w' (str ''build'') = host_files w (str ''build''))"

text \<open>The bootloader crate writes \<open>boot\<close> to the path it is given, in a directory that exists.\<close>

definition makes_boot_image :: "boot_maker \<Rightarrow> host_file \<Rightarrow> bool" where
  "makes_boot_image uefi boot \<longleftrightarrow> (\<forall>elf p w. parent_dir p \<in> host_dirs w \<longrightarrow>
     (\<exists>w'. uefi elf p w = (Inr (), w') \<and> host_files w' p = Some boot \<and> host_dirs w' = host_dirs w))"

lemma host_tool_formats:
  assumes "host_files w (str output_img) = Some f" and "hf_len f = 30 * 1024 * 1024"
  shows "\<exists>f'. host_tool_process (format_cmd windows) w = Some (True, file_drop (str output_img) f' w) \<and>
    hf_len f' = hf_len f \<and> hf_data f' = formatted_data 40000 (hf_data f)"
proof -
  have "parse_u64 (str ''40000'') = Some 40000" by (simp add: parse_u64_def str_def usize_bound_def)
  moreover have "open_or_create w (str output_img) = file_seek 0 f"
    using assms(1) by (simp add: open_or_create_def file_open_def)
  moreover obtain f' where "format_image 40000 (file_seek 0 f) = Some f'" "hf_len f' = hf_len f"
    "hf_data f' = formatted_data 40000 (hf_data f)"
    using format_image_fits[of 40000 "file_seek 0 f"] assms(2) by (auto simp: file_seek_def usize_bound_def)
  ultimately show ?thesis
    by (intro exI[of _ f']) (simp add: host_tool_process_def host_main_def format_cmd_def)
qed

lemma println_files [simp]: "host_files (println s w) = host_files w" "host_dirs (println s w) = host_dirs w"
  by (simp_all add: println_def)

lemma printed_files [simp]: "host_files (fold println lines w) = host_files w"
  by (induction lines arbitrary: w) simp_all

lemma run_step_ok: "run cmd w = Some (True, w') \<Longrightarrow> run_step run cmd err w rest = rest w'"
  by (simp add: run_step_def)

lemma run_step_fails: "run cmd w = Some (False, w') \<Longrightarrow> run_step run cmd err w rest = Some (Exit_Failure (eprintln err w'))"
  by (simp add: run_step_def)

lemma build_main_ok:
  assumes cargo: "cargo_compiles run" and tool: "runs_host_tool run windows" and uefi: "makes_boot_image uefi boot"
    and w: "host_files w (str ''build'') = None"
  shows "\<exists>w' img g. build_main run uefi windows w = Some (Exit_Success w') \<and>
    host_files w' (str output_img) = Some img \<and> host_files w' (str temp_gpt) = None \<and>
    hf_len img = 30 * 1024 * 1024 \<and> hf_data img = formatted_data 40000 g \<and>
    (\<forall>x < 30 * 1024 * 1024. g x = merged_byte boot x)"
proof -
  have compiled: "\<exists>w'. run cmd v = Some (True, w') \<and> host_files w' (str ''build'') = None"
    if "cmd \<in> {build_kernel_cmd, build_tool_cmd}" "host_files v (str ''build'') = None" for cmd v
    using cargo that by (fastforce simp: cargo_compiles_def)
  let ?w0 = "println ''[1/5] Building kernel (x86_64-unknown-none)...'' (println ''=== RelizOS Rust Build Pipeline ==='' w)"
  obtain w1 where w1: "run build_kernel_cmd ?w0 = Some (True, w1)" "host_files w1 (str ''build'') = None"
    using compiled[of build_kernel_cmd ?w0] w by auto
  obtain w2 where w2: "run build_tool_cmd (println ''[2/5] Building host-tool...'' w1) = Some (True, w2)"
    "host_files w2 (str ''build'') = None"
    using compiled[of build_tool_cmd "println ''[2/5] Building host-tool...'' w1"] w1(2) by auto
  let ?w3 = "println ''[3/5] Generating temporary UEFI GPT boot image...''
    (w2\<lparr>host_dirs := insert (str ''build'') (host_dirs w2)\<rparr>)"
  have p: "parent_dir (str temp_gpt) = str ''build''" "str output_img \<noteq> str temp_gpt"
    by (simp_all add: parent_dir_def str_def temp_gpt_def output_img_def)
  obtain w4 where w4: "uefi (str kernel_elf) (str temp_gpt) ?w3 = (Inr (), w4)" "host_files w4 (str temp_gpt) = Some boot"
    "str ''build'' \<in> host_dirs w4"
    using uefi[unfolded makes_boot_image_def, rule_format, of "str temp_gpt" ?w3 "str kernel_elf"] p(1) by auto
  let ?w5 = "println ''[4/5] Merging boot image and allocating data space...'' w4"
  obtain img w6 where w6: "merge_image ?w5 = Some w6"
    "host_files w6 = (host_files w4)(str output_img \<mapsto> img, str temp_gpt := None)"
    "hf_len img = 30 * 1024 * 1024" "\<forall>x < 30 * 1024 * 1024. hf_data img x = merged_byte boot x"
    using merge_image_ok[of ?w5 boot] w4(2,3) by auto
  let ?w7 = "println ''[5/5] Formatting RelizFS partition at sector 40000...'' w6"
  obtain img' where img': "run (format_cmd windows) ?w7 = Some (True, file_drop (str output_img) img' ?w7)"
    "hf_len img' = hf_len img" "hf_data img' = formatted_data 40000 (hf_data img)"
    using host_tool_formats[of ?w7 img windows] w6(2,3) p(2) tool by (auto simp: runs_host_tool_def)
  let ?w8 = "fold println build_report (file_drop (str output_img) img' ?w7)"
  have "build_main run uefi windows w = Some (Exit_Success ?w8)"
    unfolding build_main_def run_step_ok[where run = run, OF w1(1)] run_step_ok[where run = run, OF w2(1)]
    using w2(2) w4(1) w6(1) img'(1) by (simp add: create_dir_def Let_def run_step_ok)
  moreover have "host_files ?w8 (str output_img) = Some img'" "host_files ?w8 (str temp_gpt) = None"
    using w6(2) p(2) by (simp_all add: file_drop_def)
  ultimately show ?thesis using w6(3,4) img'(2,3) by fastforce
qed

subsection \<open>From the build to the boot\<close>

text \<open>The formatter starts to write at the third sector of the volume.\<close>

lemma formatted_data_unwritten:
  "x < sector_addr off 2 \<or> sector_addr off 15 \<le> x \<Longrightarrow> formatted_data off g x = g x"
  by (auto simp: formatted_data_def Let_def store_outside fs_sizes sector_addr_def)

lemma volume_mountable:
  assumes "hf_data img = formatted_data 40000 g" and "volume_on_disk img disk"
  shows "mountable disk" and "root_listing disk = hello_lines"
  using volume_contents[OF assms] volume_lines[OF assms] fmt_inode_types(1) fmt_in_volume
  by (auto simp: mountable_def root_listing_def Let_def fmt_superblock_def root_blocks)


text \<open>A host on which cargo does nothing and the boot image is empty.\<close>

definition demo_process :: process where
  "demo_process cmd w = (if hd cmd = str ''cargo'' then Some (True, w) else host_tool_process cmd w)"

definition demo_boot_maker :: boot_maker where
  "demo_boot_maker elf p w = (Inr (), file_drop p new_file w)"

lemma demo_host: "cargo_compiles demo_process" "runs_host_tool demo_process False" "makes_boot_image demo_boot_maker new_file"
  by (simp_all add: cargo_compiles_def runs_host_tool_def makes_boot_image_def demo_process_def demo_boot_maker_def
      build_kernel_cmd_def build_tool_cmd_def format_cmd_def host_tool_bin_def file_drop_def)
    (simp add: str_def)


end
