(* ===== verification/Ipc_Calls.thy ===== *)
theory Ipc_Calls
  imports Ipc
begin

text \<open>
  Calls over the messages of \<open>syscall.rs\<close>: a client sends a request and receives from the server
  only, as the shell, the file system server and the disk server do. The abstract view of the
  kernel is the map from slots to task states; every kernel entry changes it in one of four ways,
  and a waiting client is released by its server's send alone. This is what lets the servers'
  theories take a call and its reply as one step.
\<close>

subsection \<open>The states of the tasks\<close>

abbreviation states :: "kernel \<Rightarrow> nat \<Rightarrow> task_state option" where
  "states k \<equiv> state_at (tasks (sched k))"

abbreviation caller :: "kernel \<Rightarrow> nat" where
  "caller k \<equiv> current_task_idx (sched k)"

text \<open>
  What one entry by the task in slot \<open>i\<close> does to the map: nothing; it blocks the caller; it takes
  the message of a task blocked sending to the caller; it hands a message to a waiting receiver,
  which only an entry with \<open>h\<close>, a send, does.
\<close>

inductive exchange :: "nat \<Rightarrow> bool \<Rightarrow> (nat \<Rightarrow> task_state option) \<Rightarrow> (nat \<Rightarrow> task_state option) \<Rightarrow> bool"
  for i h st where
  nothing: "exchange i h st st"
| blocks: "exchange i h st (st(i \<mapsto> s))"
| takes: "st j = Some (Sending (i + 1) m) \<Longrightarrow> exchange i h st (st(j \<mapsto> Ready))"
| hands: "st j = Some (Receiving f p) \<Longrightarrow> accepts f (i + 1) \<Longrightarrow> h \<Longrightarrow> exchange i h st (st(j \<mapsto> Ready))"

text \<open>A send that hands over, as opposed to one that blocks.\<close>

definition hands_over :: "kernel \<Rightarrow> nat \<Rightarrow> nat \<Rightarrow> kernel \<Rightarrow> bool" where
  "hands_over k d p k' \<longleftrightarrow> (\<exists>q r t f. sys_send (d + 1) q r k = Some (r, k') \<and> d < 8 \<and>
     tasks (sched k) ! d = Some t \<and> task_state t = Receiving f p \<and> accepts f (caller k + 1) \<and>
     memory k' = delivery p ((read_message (memory k) q)\<lparr>sender := caller k + 1\<rparr>) (task_rsp t) r (memory k))"

lemma switch_states:
  "ipc_inv (sched k) \<Longrightarrow> switch_task r k = Some (new, k') \<Longrightarrow> states k' = states k"
  using switch_task_inv[of k r] by auto

lemma exchange_mono: "exchange i False st st' \<Longrightarrow> exchange i h st st'"
  by (auto elim!: exchange.cases intro: exchange.intros)

lemma send_states:
  assumes inv: "ipc_inv (sched k)" and run: "sys_send d q r k = Some (new, k')"
  shows "exchange (caller k) True (states k) (states k')"
    and "states k j = Some (Receiving f p) \<Longrightarrow> caller k \<noteq> j \<Longrightarrow> states k' j \<noteq> states k j \<Longrightarrow> hands_over k j p k'"
proof -
  have d: "1 \<le> d" using run sys_send_zero[of q r k] by (cases d) auto
  have "exchange (caller k) True (states k) (states k') \<and>
    (\<forall>j. states k j = Some (Receiving f p) \<longrightarrow> caller k \<noteq> j \<longrightarrow> states k' j \<noteq> states k j \<longrightarrow> hands_over k j p k')"
  proof (cases "d \<le> 8 \<and> tasks (sched k) ! (d - 1) \<noteq> None")
    case False
    then have "sys_send d q r k = Some (r, kwrite_rax r (- 1) k)"
      by (intro sys_send_invalid[OF inv d]) auto
    with run show ?thesis by (auto simp: kwrite_rax_def exchange.nothing)
  next
    case True
    then obtain t where t: "d \<le> 8" "tasks (sched k) ! (d - 1) = Some t" by auto
    have l: "length (tasks (sched k)) = 8" using inv by (simp add: ipc_inv_def sched_wf_def)
    show ?thesis
    proof (cases "\<exists>f buf. task_state t = Receiving f buf \<and> accepts f (caller k + 1)")
      case True
      then obtain g buf where st: "task_state t = Receiving g buf" "accepts g (caller k + 1)" by blast
      obtain k2 where k2: "sys_send d q r k = Some (r, k2)"
        "memory k2 = delivery buf ((read_message (memory k) q)\<lparr>sender := caller k + 1\<rparr>) (task_rsp t) r (memory k)"
        "states k2 = (states k)(d - 1 \<mapsto> Ready)"
        using sys_send_rendezvous[OF inv d t(2,1) st, of q r] by auto
      have k': "k2 = k'" "new = r" using run k2(1) by auto
      have s: "states k (d - 1) = Some (Receiving g buf)" using t l d st by (simp add: state_at_def)
      have "hands_over k (d - 1) buf k'"
        unfolding hands_over_def using k2(1,2) k' t d st
        by (intro exI[of _ q] exI[of _ r] exI[of _ t] exI[of _ g]) auto
      then show ?thesis
        using k2(3) k' s exchange.hands[where st = "states k" and i = "caller k" and h = True, OF s st(2) TrueI] by (auto split: if_splits)
    next
      case False
      with sys_send_blocks[OF inv d t(2,1), of q r] obtain s' where s':
        "sys_send d q r k = switch_task r (k\<lparr>sched := s'\<rparr>)" "ipc_inv s'"
        "state_at (tasks s') = (states k)(caller k \<mapsto> Sending d ((read_message (memory k) q)\<lparr>sender := caller k + 1\<rparr>))"
        by blast
      then have "states k' = (states k)(caller k \<mapsto> Sending d ((read_message (memory k) q)\<lparr>sender := caller k + 1\<rparr>))"
        using switch_states[of "k\<lparr>sched := s'\<rparr>" r new k'] run by simp
      then show ?thesis by (auto intro: exchange.blocks)
    qed
  qed
  then show "exchange (caller k) True (states k) (states k')"
    and "states k j = Some (Receiving f p) \<Longrightarrow> caller k \<noteq> j \<Longrightarrow> states k' j \<noteq> states k j \<Longrightarrow> hands_over k j p k'"
    by blast+
qed

lemma recv_from_states:
  fixes k :: kernel and p :: nat
  assumes inv: "ipc_inv (sched k)" and run: "recv_from f p r k = Some (Inr (new, k'))"
  shows "\<exists>j m. states k j = Some (Sending (caller k + 1) m) \<and> states k' = (states k)(j \<mapsto> Ready)"
proof -
  obtain j where j: "find_sender (caller k + 1) f 0 (tasks (sched k)) = Some j"
    using run by (auto simp: recv_from_def split: option.splits)
  have l: "length (tasks (sched k)) = 8" using inv by (simp add: ipc_inv_def sched_wf_def)
  have j8: "j < 8" and sends: "sends_to (caller k + 1) f (tasks (sched k) ! j)"
    using find_sender_Some[OF j] l by simp_all
  then obtain m where m: "states k j = Some (Sending (caller k + 1) m)" "accepts f (j + 1)"
    using sends_to_iff[OF inv j8] by blast
  then obtain t where t: "tasks (sched k) ! j = Some t" "task_state t = Sending (caller k + 1) m"
    by (auto simp: state_at_def split: if_splits)
  have first: "\<not> accepts f (n + 1)" if "n < j" "states k n = Some (Sending (caller k + 1) m')" for n m'
    using find_sender_Some[OF j] sends_to_iff[OF inv, of n] that j8 by auto
  have "\<exists>k2. recv_from f p r k = Some (Inr (r, k2)) \<and> ipc_inv (sched k2) \<and>
      memory k2 = delivery p m (task_rsp t) r (memory k) \<and> sender m = j + 1 \<and>
      states k2 = (states k)(j \<mapsto> Ready) \<and> caller k2 = caller k"
    by (rule recv_from_rendezvous[OF inv j8 t m(2)]) (rule first)
  with run m(1) show ?thesis by auto
qed

lemma recv_states:
  assumes inv: "ipc_inv (sched k)"
  shows "sys_recv fl p r k = Some (new, k') \<Longrightarrow> exchange (caller k) False (states k) (states k')"
    and "sys_try_recv fl p r k = Some (new, k') \<Longrightarrow> exchange (caller k) False (states k) (states k')"
proof -
  let ?f = "src_filter_option fl"
  have met: "exchange (caller k) False (states k) (states k')" if "recv_from ?f p r k = Some (Inr (new, k'))"
    using recv_from_states[OF inv that] by (elim exE conjE) (simp only:, rule exchange.takes)
  show "exchange (caller k) False (states k) (states k')" if run: "sys_recv fl p r k = Some (new, k')"
    using inv
  proof (cases rule: recv_from_cases[where f = ?f and p = p and r = r])
    case (met k2)
    with run \<open>recv_from ?f p r k = Some (Inr (new, k')) \<Longrightarrow> _\<close> show ?thesis by (simp add: sys_recv_def)
  next
    case nobody
    obtain s' where s': "sys_recv fl p r k = switch_task r (k\<lparr>sched := s'\<rparr>)" "ipc_inv s'"
      "state_at (tasks s') = (states k)(caller k \<mapsto> Receiving ?f p)"
      using sys_recv_blocks[OF inv, of fl p r] nobody(2) by blast
    then have "states k' = (states k)(caller k \<mapsto> Receiving ?f p)"
      using switch_states[of "k\<lparr>sched := s'\<rparr>" r new k'] run by simp
    then show ?thesis by (auto intro: exchange.blocks)
  qed
  show "exchange (caller k) False (states k) (states k')" if run: "sys_try_recv fl p r k = Some (new, k')"
    using inv
  proof (cases rule: recv_from_cases[where f = ?f and p = p and r = r])
    case (met k2)
    with run \<open>recv_from ?f p r k = Some (Inr (new, k')) \<Longrightarrow> _\<close> show ?thesis by (simp add: sys_try_recv_def)
  next
    case nobody
    with run show ?thesis by (auto simp: sys_try_recv_def kwrite_rax_def exchange.nothing)
  qed
qed


lemma step_states:
  assumes inv: "ipc_inv (sched k)" and step: "kernel_step k k'"
  shows "exchange (caller k) True (states k) (states k')"
  using step
proof cases
  case (step_yield r new)
  then show ?thesis using switch_task_inv[OF inv, of r] by (auto simp: sys_yield_def kwrite_rax_def exchange.nothing)
next
  case (step_timer r new)
  then have "ticks k \<noteq> - 1" by (auto simp: handle_timer_interrupt_def wadd_one)
  with step_timer show ?thesis
    using switch_task_inv[of "k\<lparr>ticks := ticks k + 1\<rparr>" r] inv
    by (auto simp: handle_timer_interrupt_def wadd_one pic_send_eoi_def out_port_def exchange.nothing)
qed (use inv send_states(1) recv_states[THEN exchange_mono] in \<open>auto simp: exchange.nothing\<close>)

text \<open>A receiver that is not the caller keeps its state unless a send hands over.\<close>

lemma exchange_receiver:
  assumes "exchange i h st st'" and "st c = Some (Receiving f p)" and "i \<noteq> c" and "st' c \<noteq> st c"
  shows "h \<and> accepts f (i + 1)"
  using assms by cases (auto split: if_splits)

subsection \<open>A blocked call\<close>

lemma receiver_released:
  fixes k k' :: kernel
  assumes inv: "ipc_inv (sched k)" and step: "kernel_step k k'"
    and c: "states k c = Some (Receiving f p)" "caller k \<noteq> c" "states k' c \<noteq> states k c"
  shows "hands_over k c p k' \<and> accepts f (caller k + 1)"
  using step
proof cases
  case (step_send d q r new)
  with send_states[OF inv step_send] exchange_receiver[OF send_states(1)[OF inv step_send] c] c show ?thesis by blast
next
  case (step_recv fl q r new)
  from exchange_receiver[OF recv_states(1)[OF inv step_recv] c] show ?thesis by simp
next
  case (step_try_recv fl q r new)
  from exchange_receiver[OF recv_states(2)[OF inv step_try_recv] c] show ?thesis by simp
next
  case (step_yield r new)
  with c switch_task_inv[OF inv, of r] show ?thesis by (auto simp: sys_yield_def kwrite_rax_def)
next
  case (step_timer r new)
  then have "ticks k \<noteq> - 1" by (auto simp: handle_timer_interrupt_def wadd_one)
  with c step_timer switch_task_inv[of "k\<lparr>ticks := ticks k + 1\<rparr>" r] inv show ?thesis
    by (auto simp: handle_timer_interrupt_def wadd_one pic_send_eoi_def out_port_def)
qed (use c in simp)

text \<open>Runs in which one task does not run.\<close>

inductive run_without :: "nat \<Rightarrow> kernel \<Rightarrow> kernel \<Rightarrow> bool" for c k where
  waits: "run_without c k k"
| others: "run_without c k k1 \<Longrightarrow> caller k1 \<noteq> c \<Longrightarrow> kernel_step k1 k2 \<Longrightarrow> run_without c k k2"

lemma run_without_inv: "run_without c k k' \<Longrightarrow> ipc_inv (sched k) \<Longrightarrow> ipc_inv (sched k')"
  by (induction rule: run_without.induct) (auto intro: kernel_step_inv)

text \<open>
  C2: A call blocks until the server answers. From any state with the kernel's invariant in which a
  task waits in a receive, run the others in any order for any time, with any calls, ticks and writes
  to memory: either the task still waits, or some task it accepts (its server, when it filters)
  has sent to it in a state where it still waited. That send wrote the sender's message with the
  true sender's id into the waiting buffer and zero into both \<open>rax\<close> slots; nothing else, no third
  task's message included, ends the call.
\<close>

theorem call_ends_by_reply:
  assumes "ipc_inv (sched k)" and "states k c = Some (Receiving f p)" and "run_without c k k'"
  shows "states k' c = Some (Receiving f p) \<or>
    (\<exists>k1 k2. run_without c k k1 \<and> states k1 c = Some (Receiving f p) \<and> accepts f (caller k1 + 1) \<and>
       hands_over k1 c p k2 \<and> states k2 c = Some Ready \<and> run_without c k2 k')"
  using assms(3)
proof (induction rule: run_without.induct)
  case (others k1 k2)
  from others.IH show ?case
  proof
    assume w: "states k1 c = Some (Receiving f p)"
    show ?thesis
    proof (cases "states k2 c = states k1 c")
      case False
      have inv: "ipc_inv (sched k1)"
        by (rule run_without_inv[OF others.hyps(1) assms(1)])
      from receiver_released[OF inv others.hyps(3) w others.hyps(2) False]
      have h: "hands_over k1 c p k2" "accepts f (caller k1 + 1)" by blast+
      moreover have "states k2 c = Some Ready"
        using step_states[OF inv others.hyps(3)] w others.hyps(2) False by cases (auto split: if_splits)
      ultimately show ?thesis using others.hyps(1) w run_without.waits by blast
    qed (use w in simp)
  qed (use others.hyps run_without.others in blast)
qed (use assms(2) in simp)

theorem call_ends_by_reply_witness:
  "\<exists>k1 k2. hands_over k1 1 0x9000 k2 \<and> states k2 1 = Some Ready \<and> run_without 1 waiting_kernel k1"
proof -
  have t: "tasks (sched waiting_kernel) ! (2 - 1) = Some waiting_task" "task_state waiting_task = Receiving None 0x9000"
    "states waiting_kernel 1 = Some (Receiving None 0x9000)" "caller waiting_kernel \<noteq> 1"
    by (simp_all add: waiting_kernel_def waiting_scheduler_def waiting_task_def demo_scheduler_def state_at_def)
  obtain k' where k': "sys_send 2 0x5000 0x7000 waiting_kernel = Some (0x7000, k')"
    "states k' = (states waiting_kernel)(1 \<mapsto> Ready)"
    using sys_send_rendezvous[OF waiting_inv _ t(1) _ t(2), of "0x5000" "0x7000"] by (auto simp: accepts_def)
  have run: "run_without 1 waiting_kernel k'"
    by (rule run_without.others[OF run_without.waits t(4) step_send[OF k'(1)]])
  from call_ends_by_reply[OF waiting_inv t(3) run] k'(2) show ?thesis by auto
qed

end
