(* ===== verification/Spec2Isabelle.thy ===== *)
theory Spec2Isabelle
  imports Terminal Input_Path Page_Walk Gui Fault_Reports Fairness Image_Build Ipc_Calls Byte_Queue
begin

text \<open>
  A verification development for RelizOS, a small operating system for x86_64 in Rust: a kernel with
  preemptive tasks, synchronous messages and system calls, servers that run as tasks in ring 3
  (disk, file system, input, GUI), a shell, a read-only file system, and the host tools that build
  its disk image.

  \<^bold>\<open>The program and how its parts interact.\<close> On the host, \<open>builder/src/main.rs\<close> compiles the
  kernel and the formatter \<open>host-tool/src/main.rs\<close>, which writes a RelizFS volume (the structures
  of \<open>shared/src/lib.rs\<close>) into the disk image at sector 40000. On the machine, \<open>kernel_main\<close>
  brings up the screen, the heap, paging, the descriptor tables, system calls, the volume, the
  tasks and the interrupts, and jumps to the first task. From then on the timer interrupt and the
  system calls enter the kernel through naked assembly, change the one global state (scheduler,
  kernel stacks, screen) and resume some task from the frame on its kernel stack. Tasks talk by
  messages of six words: the shell asks the file system server, that one asks the disk server,
  which drives the ATA ports; the input server drains the queues the interrupt handlers fill and
  sends events to the GUI server, which composes the desktop and has the kernel copy it.

  \<^bold>\<open>Theories and sources\<close> (paths under \<open>src/\<close>, the kernel's under \<open>src/kernel/src/\<close>).
  Each theory has the state of its component as records, one definition per operation, and the
  component's lemmas and properties.

    \<^item> Foundations: \<open>Prelude\<close> (checked \<open>usize\<close>, \<open>u32\<close>, \<open>u64\<close> arithmetic, indexing, loops
      over ranges, the \<open>?\<close> operator), \<open>Bytes\<close> (little-endian words, byte memory, UTF-8),
      \<open>Decimal\<close> (the digit loops of \<open>shell.rs\<close>, \<open>syscall.rs\<close> and \<open>main.rs\<close>), \<open>Canvas\<close>
      (loops over cells).
    \<^item> Storage: \<open>Shared_Fs\<close> (\<open>shared/src/lib.rs\<close>), \<open>Host_Format\<close> (\<open>host-tool/src/main.rs\<close>),
      \<open>Ata\<close> (\<open>ata.rs\<close>), \<open>Reliz_Fs\<close> (\<open>relizfs.rs\<close>), \<open>Mount\<close> (formatter and reader together),
      \<open>Disk_Servers\<close> and \<open>Fs_Server\<close> (\<open>task_ata_server\<close>, \<open>task_fs_server\<close> of \<open>main.rs\<close>).
    \<^item> Processes: \<open>Task\<close> (\<open>task.rs\<close>), \<open>Cpu\<close> (the naked handlers of \<open>interrupts.rs\<close>, \<open>syscall.rs\<close>
      and \<open>task.rs\<close>), \<open>Ipc\<close> (messages and switches of \<open>syscall.rs\<close>, the timer of
      \<open>interrupts.rs\<close>), \<open>Ipc_Calls\<close> (request and reply), \<open>Syscall\<close> (\<open>handle_syscall\<close>),
      \<open>Multitask\<close> (whole handlers; every task with a processor of its own), \<open>Fairness\<close> (its turn comes).
    \<^item> Memory: \<open>Allocator\<close> (\<open>allocator.rs\<close>), \<open>Paging\<close> and \<open>Page_Walk\<close> (\<open>paging.rs\<close> and the
      translation it builds).
    \<^item> Devices and input: \<open>Byte_Queue\<close> and \<open>Devices\<close> (\<open>interrupts.rs\<close>), \<open>Input_Server\<close>
      (\<open>task_input_server\<close> of \<open>main.rs\<close>), \<open>Input_Path\<close> (from the wire to the event).
    \<^item> Screen: \<open>Gop\<close> and \<open>Nyan\<close> (\<open>gop.rs\<close>), \<open>Console\<close> (\<open>println!\<close>), \<open>Layout\<close>, \<open>Renderer\<close>,
      \<open>Compositor\<close> and \<open>Gui\<close> (\<open>gui/\<close>).
    \<^item> Shell: \<open>Shell\<close> and \<open>Terminal\<close> (\<open>shell.rs\<close>).
    \<^item> The whole: \<open>Boot\<close> (\<open>gdt.rs\<close>, \<open>init\<close> of \<open>syscall.rs\<close>, \<open>kernel_main\<close> of \<open>main.rs\<close>),
      \<open>Fault_Reports\<close> (exception handlers, panic handler), \<open>Image_Build\<close>
      (\<open>builder/src/main.rs\<close>, and from the build to the boot).

  \<^bold>\<open>How code becomes definitions.\<close> Addresses, sizes and indices (\<open>usize\<close>) are \<open>nat\<close> with
  checked operations, other integers are words. The build uses the development profile, so an
  overflow, an index out of range or an \<open>unwrap\<close> of \<open>None\<close> is a panic: a function that may panic
  has an option type and \<open>None\<close> is the panic; a \<open>Result\<close> is a sum inside it. Globals and memory
  are passed explicitly; memory is one function from addresses to bytes, since all pages are
  open to all tasks. The loop of a server is a function from one message to the messages it sends.

  \<^bold>\<open>What the lemmas show.\<close>

    \<^item> Messages (\<open>Ipc\<close>, \<open>Ipc_Calls\<close>, \<open>Syscall\<close>): no rendezvous is missed, a blocked call ends by the server's
      send alone, entries are total, deliveries are exact. The invariant \<open>ipc_inv\<close> holds in every
      reachable state.
    \<^item> Processor (\<open>Task\<close>, \<open>Cpu\<close>, \<open>Multitask\<close>, \<open>Fairness\<close>): every run after boot is a run of a
      machine with a processor for each task; contexts are saved and restored word for word; a task
      that is not blocked has the processor within seven timer interrupts.
    \<^item> Memory (\<open>Allocator\<close>, \<open>Paging\<close>, \<open>Page_Walk\<close>): \<open>map_page\<close> against the processor's translation, the heap's
      disjointness and accounting, no frame handed out twice.
    \<^item> Storage (from \<open>Shared_Fs\<close> to \<open>Fs_Server\<close>, and \<open>Image_Build\<close>): what the build tool writes is what the kernel mounts
      and lists at boot; reading a file gives its bytes; the packed structures are bijective.
    \<^item> Shell and screen (\<open>Terminal\<close>, \<open>Gop\<close> to \<open>Gui\<close>): the line editor refines one on lists;
      commands print what the volume holds; a frame shows what was marked; tiling; exact rectangles.
    \<^item> Boot and faults (\<open>Boot\<close>, \<open>Devices\<close>, \<open>Fault_Reports\<close>): \<open>kernel_main\<close> reaches its jump, selectors agree, chips are programmed
      as meant, every fault is reported.
    \<^item> Input (\<open>Byte_Queue\<close>, \<open>Input_Path\<close>): the queue under every interleaving; events are those of the bytes on the wire.

  \<^bold>\<open>Interfaces.\<close> \<open>sector_device\<close> (what file system code needs of a reader; provided by the
  driver and by the disk server), \<open>bounded_fifo\<close> (the byte queue), \<open>heap_interface\<close> (the
  allocator), \<open>fair_scheduler\<close> (the round robin), \<open>plotter\<close> (the framebuffer), \<open>entry_format\<close>
  and \<open>descriptor_table\<close> (laws of the \<open>x86_64\<close> crate, with the architecture's formats as
  instances), \<open>shell_services\<close> (the shell's system calls, provided by the kernel and its
  servers), \<open>forward_simulation\<close> (traces from steps, for the tasks' processors).

  \<^bold>\<open>Bounds and fuel.\<close> \<open>select_loop\<close> takes eight steps, one per slot, and never needs more;
  \<open>alloc_loop\<close> gets as many as there can be nodes in the arena (\<open>heap_fuel\<close>), which the heap's
  invariant makes enough; \<open>f32_fit\<close> 150, more than the exponents of the opacities it rounds;
  \<open>ps2_wait\<close> and \<open>poll\<close> count to 100000 in the code itself; \<open>gui_drain\<close> one more than there are
  messages pending. A run that uses up its fuel is a panic in the model, and totality is proved.

  \<^bold>\<open>Parameters.\<close> The port bus of the devices (with the documented behaviour of an ATA drive and of
  the PC's chips as hypotheses, and simulators as instances), the 8x8 font, the page-table entry
  and descriptor-table operations of the \<open>x86_64\<close> crate, the placement of statics, the Debug and
  Display texts of library types, child processes and the bootloader crate in the build tool, and
  the layout operations that \<open>gui/mod.rs\<close> calls but no file defines.

  \<^bold>\<open>Not modelled.\<close> Spin locks (one processor, interrupts disabled in the kernel; a finding names
  the one place where a lock can be taken twice); busy waits and TLB flushes, which have no effect
  on the state; the kernel's use of its stacks below the saved frames, and the registers the
  compiler saves around the keyboard and mouse handlers; access rights of user code to memory in
  \<open>Multitask\<close>, where a task's own steps are assumed to leave the other tasks' frames alone (the
  kernel marks all pages user accessible, so nothing enforces it).
\<close>

end
